(* ===== verification/Prelude.thy ===== *)
theory Prelude
  imports Main "HOL-Library.AList"
begin

text \<open>
  Shared vocabulary of the development: the error type and the result monad of the Rust code
  (\<open>anyhow::Result\<close>, the question mark operator, \<open>ensure!\<close>), updates of vectors by index and
  by predicate, Rust's UTF-8 strings as byte lists with their views as code points, and the
  generic lemmas that the component theories use through the collections below.
\<close>

named_theorems result_simps "inversion rules for the result monad"
named_theorems frame_simps "what the list updates leave unchanged"

section \<open>Results\<close>

text \<open>
  The constructors are the prefixes the code gives its messages (\<open>invalid:\<close>, \<open>conflict:\<close>,
  \<open>not_found:\<close>, \<open>ambiguous\<close>, \<open>forbidden:\<close>); \<open>Failed\<close> is an error with no such prefix.
  The text is the constant part of the message; interpolated values are left out.
\<close>

datatype error =
    Invalid string
  | Conflict string
  | Not_found string
  | Ambiguous string
  | Forbidden string
  | Failed string

type_synonym 'a result = "error + 'a"

definition attempt :: "'a result \<Rightarrow> ('a \<Rightarrow> 'b result) \<Rightarrow> 'b result" where
  "attempt m f = (case m of Inl e \<Rightarrow> Inl e | Inr x \<Rightarrow> f x)"

definition ensure :: "bool \<Rightarrow> error \<Rightarrow> 'b result \<Rightarrow> 'b result" where
  "ensure c e k = (if c then k else Inl e)"

definition is_ok :: "'a result \<Rightarrow> bool" where
  "is_ok r = (case r of Inl _ \<Rightarrow> False | Inr _ \<Rightarrow> True)"

definition of_option :: "error \<Rightarrow> 'a option \<Rightarrow> 'a result" where
  "of_option e x = (case x of None \<Rightarrow> Inl e | Some v \<Rightarrow> Inr v)"

lemma attempt_Inr [simp]: "attempt (Inr x) f = f x"
  by (simp add: attempt_def)

lemma attempt_Inl [simp]: "attempt (Inl e) f = Inl e"
  by (simp add: attempt_def)

lemma attempt_eq_Inr [result_simps]:
  "attempt m f = Inr y \<longleftrightarrow> (\<exists>x. m = Inr x \<and> f x = Inr y)"
  by (cases m) (auto simp: attempt_def)

lemma ensure_eq_Inr [result_simps]: "ensure c e k = Inr y \<longleftrightarrow> c \<and> k = Inr y"
  by (simp add: ensure_def)

lemma ensure_True [simp]: "ensure True e k = k"
  by (simp add: ensure_def)

lemma ensure_False [simp]: "ensure False e k = Inl e"
  by (simp add: ensure_def)

lemma of_option_eq_Inr [result_simps]: "of_option e x = Inr v \<longleftrightarrow> x = Some v"
  by (cases x) (auto simp: of_option_def)

lemma is_ok_iff: "is_ok r \<longleftrightarrow> (\<exists>x. r = Inr x)"
  by (cases r) (auto simp: is_ok_def)

lemma is_okE: "is_ok r \<Longrightarrow> (\<And>x. r = Inr x \<Longrightarrow> P) \<Longrightarrow> P"
  by (auto simp: is_ok_iff)

lemma if_Inr [result_simps]:
  "(if c then Inl e else k) = Inr y \<longleftrightarrow> \<not> c \<and> k = Inr y"
  "(if c then k else Inl e) = Inr y \<longleftrightarrow> c \<and> k = Inr y"
  by auto

text \<open>Syntactic elimination of successful runs, for long chains of guards.\<close>

lemma attemptE:
  assumes "attempt m f = Inr y"
  obtains x where "m = Inr x" "f x = Inr y"
  using assms by (cases m) auto

lemma attempt_pairE:
  assumes "attempt m (\<lambda>(a, b). f a b) = Inr y"
  obtains a b where "m = Inr (a, b)" "f a b = Inr y"
  using assms by (cases m) auto

lemma ensureE:
  assumes "ensure c e k = Inr y"
  obtains "c" "k = Inr y"
  using assms by (cases c) auto

lemma if_resultE:
  assumes "(if c then a else b) = Inr y"
  obtains "c" "a = Inr y" | "\<not> c" "b = Inr y"
  using assms by (cases c) auto

lemmas result_elims = attempt_pairE attemptE ensureE if_resultE

text \<open>A loop whose body may fail stops at the first error.\<close>

fun fold_result :: "('s \<Rightarrow> 'a \<Rightarrow> 's result) \<Rightarrow> 's \<Rightarrow> 'a list \<Rightarrow> 's result" where
  "fold_result f s [] = Inr s"
| "fold_result f s (x # xs) = attempt (f s x) (\<lambda>s'. fold_result f s' xs)"

fun map_result :: "('a \<Rightarrow> 'b result) \<Rightarrow> 'a list \<Rightarrow> 'b list result" where
  "map_result f [] = Inr []"
| "map_result f (x # xs) = attempt (f x) (\<lambda>y. attempt (map_result f xs) (\<lambda>ys. Inr (y # ys)))"

lemma fold_result_invariant:
  assumes "fold_result f s xs = Inr s'" and "P s"
    and "\<And>s x s'. P s \<Longrightarrow> x \<in> set xs \<Longrightarrow> f s x = Inr s' \<Longrightarrow> P s'"
  shows "P s'"
  using assms
proof (induction xs arbitrary: s)
  case (Cons x xs)
  from Cons.prems(1) obtain t where t: "f s x = Inr t" "fold_result f t xs = Inr s'"
    by (auto simp: result_simps)
  have "P t" by (rule Cons.prems(3) [OF Cons.prems(2) _ t(1)]) simp
  moreover have "\<And>s y s'. P s \<Longrightarrow> y \<in> set xs \<Longrightarrow> f s y = Inr s' \<Longrightarrow> P s'"
    using Cons.prems(3) by (metis list.set_intros(2))
  ultimately show ?case by (rule Cons.IH [OF t(2)])
qed simp

lemma map_result_eq_Inr:
  "map_result f xs = Inr ys \<longleftrightarrow> list_all2 (\<lambda>x y. f x = Inr y) xs ys"
  by (induction xs arbitrary: ys) (auto simp: result_simps list_all2_Cons1)

section \<open>Vectors\<close>

text \<open>
  \<open>state.xs[i].field = v\<close> on a vector, for an index the code has just resolved: \<open>upd_nth\<close>. A
  loop \<open>for x in xs.iter_mut().filter(p)\<close>: \<open>upd_where\<close>. \<open>Vec::retain\<close> is \<open>filter\<close>.
\<close>

definition upd_nth :: "nat \<Rightarrow> ('a \<Rightarrow> 'a) \<Rightarrow> 'a list \<Rightarrow> 'a list" where
  "upd_nth i f xs = (if i < length xs then xs[i := f (xs ! i)] else xs)"

definition upd_where :: "('a \<Rightarrow> bool) \<Rightarrow> ('a \<Rightarrow> 'a) \<Rightarrow> 'a list \<Rightarrow> 'a list" where
  "upd_where p f xs = map (\<lambda>x. if p x then f x else x) xs"

lemma length_upd_nth [simp]: "length (upd_nth i f xs) = length xs"
  by (simp add: upd_nth_def)

lemma upd_nth_id [simp]: "upd_nth i (\<lambda>x. x) xs = xs"
  by (simp add: upd_nth_def)

lemma nth_upd_nth: "k < length xs \<Longrightarrow> upd_nth i f xs ! k = (if k = i then f (xs ! i) else xs ! k)"
  by (auto simp: upd_nth_def)

lemma upd_nth_same [simp]: "i < length xs \<Longrightarrow> upd_nth i f xs ! i = f (xs ! i)"
  by (simp add: nth_upd_nth)

lemma upd_nth_twice [simp]: "upd_nth i f (upd_nth i g xs) = upd_nth i (\<lambda>x. f (g x)) xs"
  by (simp add: upd_nth_def)

lemma set_upd_nth_subset: "set (upd_nth i f xs) \<subseteq> insert (f (xs ! i)) (set xs)"
  by (auto simp: upd_nth_def dest: set_update_subset_insert [THEN subsetD])

lemma map_upd_nth: "(\<And>x. g (f x) = g x) \<Longrightarrow> map g (upd_nth i f xs) = map g xs"
  by (auto simp: upd_nth_def map_update intro!: list_update_same_conv [THEN iffD2])

lemma map_upd_where: "(\<And>x. g (f x) = g x) \<Longrightarrow> map g (upd_where p f xs) = map g xs"
  by (auto simp: upd_where_def)

lemma length_upd_where [simp]: "length (upd_where p f xs) = length xs"
  by (simp add: upd_where_def)

lemma nth_upd_where: "k < length xs \<Longrightarrow> upd_where p f xs ! k = (if p (xs ! k) then f (xs ! k) else xs ! k)"
  by (simp add: upd_where_def)

lemma set_upd_where: "set (upd_where p f xs) = (\<lambda>x. if p x then f x else x) ` set xs"
  by (simp add: upd_where_def)

lemma ball_upd_nth:
  assumes "\<forall>x \<in> set xs. P x" and "\<And>x. P x \<Longrightarrow> x = xs ! i \<Longrightarrow> P (f x)"
  shows "\<forall>x \<in> set (upd_nth i f xs). P x"
proof (cases "i < length xs")
  case True
  then have "P (f (xs ! i))" using assms by simp
  then show ?thesis using assms(1) set_upd_nth_subset [of i f xs] by blast
qed (use assms(1) in \<open>simp add: upd_nth_def\<close>)

lemma ball_upd_where:
  assumes "\<forall>x \<in> set xs. P x" and "\<And>x. P x \<Longrightarrow> p x \<Longrightarrow> P (f x)"
  shows "\<forall>x \<in> set (upd_where p f xs). P x"
  using assms by (auto simp: set_upd_where)

lemma ball_map_result:
  assumes "map_result f xs = Inr ys" and "\<forall>x \<in> set xs. P x"
    and "\<And>x y. P x \<Longrightarrow> f x = Inr y \<Longrightarrow> P y"
  shows "\<forall>y \<in> set ys. P y"
proof -
  have "list_all2 (\<lambda>x y. f x = Inr y) xs ys" using assms(1) by (simp add: map_result_eq_Inr)
  then have "list_all2 (\<lambda>x y. P x \<longrightarrow> P y) xs ys" by (rule list_all2_mono) (use assms(3) in blast)
  then show ?thesis using assms(2) by (induction rule: list_all2_induct) auto
qed

text \<open>With distinct keys an update by index is the update of the one element with that key.\<close>

lemma upd_nth_eq_upd_where:
  assumes "distinct (map key xs)" "i < length xs" "\<And>x. key (f x) = key x"
  shows "upd_nth i f xs = upd_where (\<lambda>x. key x = key (xs ! i)) f xs"
proof (rule nth_equalityI)
  fix k assume "k < length (upd_nth i f xs)"
  then have k: "k < length xs" by simp
  have "key (xs ! k) = key (xs ! i) \<longleftrightarrow> k = i"
    using assms(1,2) k by (metis length_map nth_eq_iff_index_eq nth_map)
  then show "upd_nth i f xs ! k = upd_where (\<lambda>x. key x = key (xs ! i)) f xs ! k"
    using k by (simp add: nth_upd_nth nth_upd_where)
qed simp

lemma set_upd_nth_distinct:
  assumes "distinct (map key xs)" "i < length xs" "\<And>x. key (f x) = key x"
  shows "set (upd_nth i f xs) = insert (f (xs ! i)) {x \<in> set xs. key x \<noteq> key (xs ! i)}"
proof -
  have inj: "\<And>x. x \<in> set xs \<Longrightarrow> key x = key (xs ! i) \<Longrightarrow> x = xs ! i"
    using assms(1,2) by (auto simp: distinct_map inj_on_def)
  have "upd_nth i f xs = upd_where (\<lambda>x. key x = key (xs ! i)) f xs"
    by (rule upd_nth_eq_upd_where [OF assms])
  then show ?thesis
    using inj assms(2) by (auto simp: set_upd_where image_iff)
qed

lemma distinct_key_unique:
  "distinct (map key xs) \<Longrightarrow> x \<in> set xs \<Longrightarrow> y \<in> set xs \<Longrightarrow> key x = key y \<Longrightarrow> x = y"
  by (auto simp: distinct_map inj_on_def)

lemma find_key:
  "distinct (map key xs) \<Longrightarrow> x \<in> set xs \<Longrightarrow> find (\<lambda>y. key y = key x) xs = Some x"
  by (induction xs) (auto simp: image_iff)

lemma find_SomeD: "find p xs = Some x \<Longrightarrow> x \<in> set xs \<and> p x"
  by (auto simp: find_Some_iff)

section \<open>Strings\<close>

text \<open>
  A Rust string is its UTF-8 bytes: HOL's \<open>string\<close>, whose characters are bytes. Comparison,
  \<open>starts_with\<close>, \<open>strip_prefix\<close> and splitting at an ASCII separator work on the bytes. \<open>chars\<close>
  is the view as Unicode scalar values and \<open>of_chars\<close> its inverse.
\<close>

type_synonym code_points = "nat list"

definition byte :: "char \<Rightarrow> nat" where
  "byte c = of_char c"

definition tail_bits :: "char \<Rightarrow> nat" where
  "tail_bits c = byte c mod 64"

definition next_char :: "string \<Rightarrow> (nat \<times> string) option" where
  "next_char s =
     (case s of
        [] \<Rightarrow> None
      | a # r \<Rightarrow>
          if byte a < 128 then Some (byte a, r)
          else if byte a < 224 then
            (case r of
               b # r' \<Rightarrow> Some ((byte a mod 32) * 64 + tail_bits b, r')
             | _ \<Rightarrow> Some (byte a, []))
          else if byte a < 240 then
            (case r of
               b # c # r' \<Rightarrow> Some (((byte a mod 16) * 64 + tail_bits b) * 64 + tail_bits c, r')
             | _ \<Rightarrow> Some (byte a, []))
          else
            (case r of
               b # c # d # r' \<Rightarrow>
                 Some ((((byte a mod 8) * 64 + tail_bits b) * 64 + tail_bits c) * 64 + tail_bits d, r')
             | _ \<Rightarrow> Some (byte a, [])))"

lemma next_char_suffix: "next_char s = Some (c, r) \<Longrightarrow> \<exists>p. s = p @ r \<and> p \<noteq> []"
proof -
  assume n: "next_char s = Some (c, r)"
  then have "r \<in> {[], tl s, tl (tl s), tl (tl (tl s)), tl (tl (tl (tl s)))}" "s \<noteq> []"
    by (auto simp: next_char_def split: list.splits if_splits)
  then show ?thesis
    by (cases s; cases "tl s"; cases "tl (tl s)"; cases "tl (tl (tl s))") auto
qed

lemma next_char_shorter: "next_char s = Some (c, r) \<Longrightarrow> length r < length s"
  by (auto dest!: next_char_suffix)

function chars :: "string \<Rightarrow> code_points" where
  "chars s = (case next_char s of None \<Rightarrow> [] | Some (c, r) \<Rightarrow> c # chars r)"
  by pat_completeness auto
termination
  by (relation "measure length") (auto dest: next_char_shorter)

declare chars.simps [simp del]

lemma chars_Nil [simp]: "chars [] = []"
  by (simp add: chars.simps next_char_def)

lemma chars_ascii: "list_all (\<lambda>c. byte c < 128) s \<Longrightarrow> chars s = map byte s"
  by (induction s) (simp_all add: chars.simps [of "_ # _"] next_char_def)

definition utf8 :: "nat \<Rightarrow> string" where
  "utf8 n =
     (if n < 128 then [char_of n]
      else if n < 2048 then [char_of (192 + n div 64), char_of (128 + n mod 64)]
      else if n < 65536 then
        [char_of (224 + n div 4096), char_of (128 + (n div 64) mod 64), char_of (128 + n mod 64)]
      else
        [char_of (240 + n div 262144), char_of (128 + (n div 4096) mod 64),
         char_of (128 + (n div 64) mod 64), char_of (128 + n mod 64)])"

definition of_chars :: "code_points \<Rightarrow> string" where
  "of_chars cs = concat (map utf8 cs)"

text \<open>Decoding inverts encoding for every code point of Unicode.\<close>

lemma byte_char_of [simp]: "n < 256 \<Longrightarrow> byte (char_of n) = n"
  by (simp add: byte_def)

lemma offset_mod: "q < m \<Longrightarrow> (k * m + q) mod m = (q :: nat)"
  by simp

lemma tail_bits_utf8 [simp]: "tail_bits (char_of (128 + n mod 64)) = n mod 64"
proof -
  have "n mod 64 < 64" by simp
  then show ?thesis using offset_mod [of "n mod 64" 64 2] by (simp add: tail_bits_def)
qed

lemma chars_utf8_append:
  assumes "n < 1114112"
  shows "chars (utf8 n @ s) = n # chars s"
proof -
  note chars.simps [of "_ # _", simp] next_char_def [simp]
  have split: "n div 4096 = (n div 64) div 64" "n div 262144 = (n div 64) div 64 div 64"
    by (simp_all flip: div_mult2_eq)
  consider "n < 128" | "128 \<le> n" "n < 2048" | "2048 \<le> n" "n < 65536" | "65536 \<le> n"
    by linarith
  then show ?thesis
  proof cases
    case 1
    then show ?thesis by (simp add: utf8_def)
  next
    case 2
    then have "n div 64 < 32" by simp
    then have "byte (char_of (192 + n div 64)) = 192 + n div 64" "(192 + n div 64) mod 32 = n div 64"
      using offset_mod [of "n div 64" 32 6] by simp_all
    with 2 \<open>n div 64 < 32\<close> show ?thesis by (simp add: utf8_def)
  next
    case 3
    then have "n div 4096 < 16" by simp
    then have "byte (char_of (224 + n div 4096)) = 224 + n div 4096"
        "(224 + n div 4096) mod 16 = n div 4096"
      using offset_mod [of "n div 4096" 16 14] by simp_all
    with 3 \<open>n div 4096 < 16\<close> show ?thesis by (simp add: utf8_def split)
  next
    case 4
    from assms have "n div 262144 < 8" by simp
    then have "byte (char_of (240 + n div 262144)) = 240 + n div 262144"
        "(240 + n div 262144) mod 8 = n div 262144"
      using offset_mod [of "n div 262144" 8 30] by simp_all
    moreover have "4096 * (n div 64 div 64) + n div 64 mod 64 * 64 + n mod 64 = n"
      using div_mult_mod_eq [of "n div 64" 64] div_mult_mod_eq [of n 64] by linarith
    ultimately show ?thesis using 4 \<open>n div 262144 < 8\<close> by (simp add: utf8_def split)
  qed
qed

lemma chars_of_chars: "list_all (\<lambda>n. n < 1114112) cs \<Longrightarrow> chars (of_chars cs) = cs"
  by (induction cs) (simp_all add: of_chars_def chars_utf8_append)

text \<open>\<open>char::is_whitespace\<close> (the property White\_Space) and \<open>char::is_control\<close> (category Cc).\<close>

definition is_whitespace :: "nat \<Rightarrow> bool" where
  "is_whitespace c \<longleftrightarrow>
     (9 \<le> c \<and> c \<le> 13) \<or> c = 32 \<or> c = 133 \<or> c = 160 \<or> c = 5760 \<or> (8192 \<le> c \<and> c \<le> 8202)
     \<or> c = 8232 \<or> c = 8233 \<or> c = 8239 \<or> c = 8287 \<or> c = 12288"

definition is_control :: "nat \<Rightarrow> bool" where
  "is_control c \<longleftrightarrow> c < 32 \<or> (127 \<le> c \<and> c < 160)"

text \<open>\<open>s.trim().is_empty()\<close> and \<open>s.trim_start()\<close>.\<close>

definition is_blank :: "string \<Rightarrow> bool" where
  "is_blank s = list_all is_whitespace (chars s)"

function trim_start :: "string \<Rightarrow> string" where
  "trim_start s =
     (case next_char s of
        None \<Rightarrow> s
      | Some (c, r) \<Rightarrow> if is_whitespace c then trim_start r else s)"
  by pat_completeness auto
termination
  by (relation "measure length") (auto dest: next_char_shorter)

declare trim_start.simps [simp del]

lemma trim_start_suffix: "\<exists>p. s = p @ trim_start s"
proof (induction s rule: trim_start.induct)
  case (1 s)
  show ?case
  proof (cases "next_char s")
    case None
    then show ?thesis by (simp add: trim_start.simps [of s])
  next
    case (Some x)
    obtain c r where x: "x = (c, r)" by (cases x)
    show ?thesis
    proof (cases "is_whitespace c")
      case False
      with Some x show ?thesis by (simp add: trim_start.simps [of s])
    next
      case True
      from Some x obtain p where "s = p @ r" using next_char_suffix by blast
      moreover from 1 [OF Some x [symmetric] True] obtain q where "r = q @ trim_start r" by blast
      ultimately show ?thesis
        using Some x True by (metis (mono_tags, lifting) append.assoc case_prod_conv option.simps(5)
            trim_start.simps)
    qed
  qed
qed

lemma trim_start_length: "length (trim_start s) \<le> length s"
  by (metis append_Nil2 le_add2 length_append trim_start_suffix)

definition starts_with :: "string \<Rightarrow> string \<Rightarrow> bool" where
  "starts_with s p = (take (length p) s = p)"

definition strip_prefix :: "string \<Rightarrow> string \<Rightarrow> string option" where
  "strip_prefix p s = (if starts_with s p then Some (drop (length p) s) else None)"

text \<open>\<open>split_once\<close> at the first occurrence of a pattern, \<open>rsplit_once\<close> at the last separator.\<close>

fun split_once :: "string \<Rightarrow> string \<Rightarrow> (string \<times> string) option" where
  "split_once p s =
     (case strip_prefix p s of
        Some rest \<Rightarrow> Some ([], rest)
      | None \<Rightarrow>
         (case s of
            [] \<Rightarrow> None
          | c # cs \<Rightarrow> map_option (\<lambda>(a, b). (c # a, b)) (split_once p cs)))"

declare split_once.simps [simp del]

definition rsplit_once :: "char \<Rightarrow> string \<Rightarrow> (string \<times> string) option" where
  "rsplit_once c s =
     (let back = rev s; tail = takeWhile (\<lambda>x. x \<noteq> c) back
      in case dropWhile (\<lambda>x. x \<noteq> c) back of
           [] \<Rightarrow> None
         | _ # front \<Rightarrow> Some (rev front, rev tail))"

lemma starts_with_iff: "starts_with s p \<longleftrightarrow> (\<exists>t. s = p @ t)"
  by (metis append_eq_conv_conj append_take_drop_id starts_with_def)

lemma starts_with_append [simp]: "starts_with (p @ t) p"
  by (simp add: starts_with_def)

lemma strip_prefix_eq_Some: "strip_prefix p s = Some t \<longleftrightarrow> s = p @ t"
  by (auto simp: strip_prefix_def starts_with_iff)

lemma split_once_Some: "split_once p s = Some (a, b) \<Longrightarrow> s = a @ p @ b"
proof (induction p s arbitrary: a b rule: split_once.induct)
  case (1 p s)
  show ?case
  proof (cases "strip_prefix p s")
    case (Some rest)
    with "1.prems" show ?thesis
      by (simp add: split_once.simps [of p s] strip_prefix_eq_Some)
  next
    case None
    show ?thesis
    proof (cases s)
      case Nil
      with None "1.prems" show ?thesis by (simp add: split_once.simps [of p "[]"])
    next
      case (Cons c cs)
      with None "1.prems" obtain a' where "split_once p cs = Some (a', b)" "a = c # a'"
        by (auto simp: split_once.simps [of p "c # cs"])
      with "1.IH" [OF None Cons] Cons show ?thesis by simp
    qed
  qed
qed

lemma rsplit_once_Some:
  assumes "rsplit_once c s = Some (a, b)"
  shows "s = a @ c # b \<and> c \<notin> set b"
proof -
  let ?ne = "\<lambda>x. x \<noteq> c"
  obtain d where d: "dropWhile ?ne (rev s) = d # rev a" and b: "b = rev (takeWhile ?ne (rev s))"
    using assms by (auto simp: rsplit_once_def Let_def split: list.splits)
  from d have "\<not> ?ne d"
    using hd_dropWhile [of ?ne "rev s"] by simp
  with d have "rev s = takeWhile ?ne (rev s) @ c # rev a"
    using takeWhile_dropWhile_id [of ?ne "rev s"] by simp
  then have "rev (rev s) = rev (takeWhile ?ne (rev s) @ c # rev a)"
    by (rule arg_cong)
  then have "s = a @ c # b" by (simp add: b)
  moreover have "c \<notin> set b"
    by (auto simp: b dest: set_takeWhileD)
  ultimately show ?thesis ..
qed

text \<open>Decimal output of the formatting macros, with the minimum width \<open>{:0w}\<close>.\<close>

fun decimal :: "nat \<Rightarrow> string" where
  "decimal n = (if n < 10 then [char_of (48 + n)] else decimal (n div 10) @ [char_of (48 + n mod 10)])"

declare decimal.simps [simp del]

definition padded :: "nat \<Rightarrow> nat \<Rightarrow> string" where
  "padded w n = replicate (w - length (decimal n)) (CHR ''0'') @ decimal n"

text \<open>\<open>str::is_char_boundary\<close>, and \<open>floor_char_boundary\<close>: the next boundary at or below an index.\<close>

definition is_char_boundary :: "string \<Rightarrow> nat \<Rightarrow> bool" where
  "is_char_boundary s i \<longleftrightarrow>
     i = 0 \<or> i = length s \<or> (i < length s \<and> \<not> (128 \<le> byte (s ! i) \<and> byte (s ! i) < 192))"

fun boundary_below :: "string \<Rightarrow> nat \<Rightarrow> nat" where
  "boundary_below s 0 = 0"
| "boundary_below s (Suc n) = (if is_char_boundary s (Suc n) then Suc n else boundary_below s n)"

lemma boundary_below_le: "boundary_below s n \<le> n"
  by (induction n) auto

lemma boundary_below_boundary: "is_char_boundary s (boundary_below s n)"
  by (induction n) (auto simp: is_char_boundary_def)

lemma boundary_below_id: "is_char_boundary s n \<Longrightarrow> boundary_below s n = n"
  by (cases n) auto

end
