(* ===== verification/Json.thy ===== *)
theory Json
  imports Prelude
begin

text \<open>
  The part of \<open>serde_json::Value\<close> that the mutation engine reads: lookup of object fields,
  indexing that gives \<open>Null\<close> for a missing field, the typed views, and \<open>required\<close> of
  \<open>mutations.rs\<close>. Requests stay JSON values in the model, because most commands distinguish an
  absent field, a \<open>null\<close> and a value.
\<close>

datatype json =
    JNull
  | JBool bool
  | JInt int
  | JFloat string
  | JString string
  | JArray "json list"
  | JObject "(string \<times> json) list"

definition get_field :: "json \<Rightarrow> string \<Rightarrow> json option" where
  "get_field v k = (case v of JObject fs \<Rightarrow> map_of fs k | _ \<Rightarrow> None)"

definition field :: "json \<Rightarrow> string \<Rightarrow> json" where
  "field v k = (case get_field v k of None \<Rightarrow> JNull | Some w \<Rightarrow> w)"

definition as_str :: "json \<Rightarrow> string option" where
  "as_str v = (case v of JString s \<Rightarrow> Some s | _ \<Rightarrow> None)"

definition as_i64 :: "json \<Rightarrow> int option" where
  "as_i64 v = (case v of JInt n \<Rightarrow> if - (2 ^ 63) \<le> n \<and> n < 2 ^ 63 then Some n else None | _ \<Rightarrow> None)"

definition as_array :: "json \<Rightarrow> json list option" where
  "as_array v = (case v of JArray vs \<Rightarrow> Some vs | _ \<Rightarrow> None)"

definition has_field :: "json \<Rightarrow> string \<Rightarrow> bool" where
  "has_field v k = (get_field v k \<noteq> None)"

definition str_field :: "json \<Rightarrow> string \<Rightarrow> string option" where
  "str_field v k = as_str (field v k)"

definition str_or :: "json \<Rightarrow> string \<Rightarrow> string \<Rightarrow> string" where
  "str_or v k d = (case str_field v k of None \<Rightarrow> d | Some s \<Rightarrow> s)"

text \<open>A field that is present and not \<open>null\<close>: \<open>request.get(k).filter(|v| !v.is_null())\<close>.\<close>

definition non_null :: "json \<Rightarrow> string \<Rightarrow> json option" where
  "non_null v k = (case get_field v k of Some w \<Rightarrow> if w = JNull then None else Some w | None \<Rightarrow> None)"

definition required :: "json \<Rightarrow> string \<Rightarrow> string result" where
  "required v k =
     (case get_field v k of
        Some (JString s) \<Rightarrow> if is_blank s then Inl (Invalid (k @ '' must not be blank'')) else Inr s
      | _ \<Rightarrow> Inl (Invalid (k @ '' must not be blank'')))"

text \<open>
  \<open>serde_json::from_value\<close> on an enum of unit variants takes the variant's name, or an object
  whose only field is the name with value \<open>null\<close>.
\<close>

definition unit_variant :: "json \<Rightarrow> string option" where
  "unit_variant v =
     (case v of
        JString s \<Rightarrow> Some s
      | JObject [(k, JNull)] \<Rightarrow> Some k
      | _ \<Rightarrow> None)"

lemma required_eq_Inr [result_simps]:
  "required v k = Inr s \<longleftrightarrow> get_field v k = Some (JString s) \<and> \<not> is_blank s"
  by (auto simp: required_def split: option.splits json.splits)

lemma str_field_eq_Some: "str_field v k = Some s \<longleftrightarrow> get_field v k = Some (JString s)"
  by (auto simp: str_field_def field_def as_str_def split: option.splits json.splits)

end
