(* ===== verification/Task_Model.thy ===== *)
theory Task_Model
  imports Json
begin

text \<open>
  The data model of \<open>crates/agentix-task\<close>: the status enumerations with their transition table,
  the entities as records, the snapshot on which every mutation works, and the resolution of
  identifiers (\<open>model.rs\<close>, \<open>issue_model.rs\<close>). The fields of an entity carry a short prefix,
  because the same field name occurs in several structs.
\<close>

section \<open>Status enumerations\<close>

datatype task_status =
    TaskTodo
  | TaskInProgress
  | TaskBlocked
  | TaskWaitingUser
  | TaskDone
  | TaskFailed
  | TaskCancelled

definition task_status_all :: "task_status list" where
  "task_status_all =
     [TaskTodo, TaskInProgress, TaskBlocked, TaskWaitingUser, TaskDone, TaskFailed, TaskCancelled]"

instantiation task_status :: enum
begin

definition enum_task_status :: "task_status list" where
  "enum_task_status = task_status_all"

definition enum_all_task_status :: "(task_status \<Rightarrow> bool) \<Rightarrow> bool" where
  "enum_all_task_status P = list_all P task_status_all"

definition enum_ex_task_status :: "(task_status \<Rightarrow> bool) \<Rightarrow> bool" where
  "enum_ex_task_status P = list_ex P task_status_all"

instance
proof
  have all: "s \<in> set task_status_all" for s
    by (cases s) (simp_all add: task_status_all_def)
  show "(UNIV :: task_status set) = set (Enum.enum :: task_status list)"
    unfolding enum_task_status_def using all by blast
  show "distinct (Enum.enum :: task_status list)"
    by (simp add: enum_task_status_def task_status_all_def)
  show "Enum.enum_all P \<longleftrightarrow> Ball UNIV P" for P :: "task_status \<Rightarrow> bool"
    using all by (auto simp: enum_all_task_status_def list_all_iff)
  show "Enum.enum_ex P \<longleftrightarrow> Bex UNIV P" for P :: "task_status \<Rightarrow> bool"
    using all by (auto simp: enum_ex_task_status_def list_ex_iff)
qed

end

fun task_terminal :: "task_status \<Rightarrow> bool" where
  "task_terminal TaskDone = True"
| "task_terminal TaskFailed = True"
| "task_terminal TaskCancelled = True"
| "task_terminal _ = False"

fun allows :: "task_status \<Rightarrow> task_status \<Rightarrow> bool" where
  "allows TaskTodo next =
     (next \<in> {TaskInProgress, TaskBlocked, TaskWaitingUser, TaskCancelled})"
| "allows TaskInProgress next =
     (next \<in> {TaskDone, TaskBlocked, TaskWaitingUser, TaskFailed, TaskCancelled})"
| "allows TaskBlocked next =
     (next \<in> {TaskInProgress, TaskWaitingUser, TaskDone, TaskFailed, TaskCancelled})"
| "allows TaskWaitingUser next =
     (next \<in> {TaskInProgress, TaskBlocked, TaskFailed, TaskCancelled})"
| "allows _ next = False"

fun task_status_text :: "task_status \<Rightarrow> string" where
  "task_status_text TaskTodo = ''TODO''"
| "task_status_text TaskInProgress = ''IN_PROGRESS''"
| "task_status_text TaskBlocked = ''BLOCKED''"
| "task_status_text TaskWaitingUser = ''WAITING_USER''"
| "task_status_text TaskDone = ''DONE''"
| "task_status_text TaskFailed = ''FAILED''"
| "task_status_text TaskCancelled = ''CANCELLED''"

datatype task_phase = Planning | Executing

fun task_phase_text :: "task_phase \<Rightarrow> string" where
  "task_phase_text Planning = ''PLANNING''"
| "task_phase_text Executing = ''EXECUTING''"

datatype job_status = JobActive | JobPendingReview | JobCompleted | JobCancelled

definition job_status_all :: "job_status list" where
  "job_status_all = [JobActive, JobPendingReview, JobCompleted, JobCancelled]"

fun job_terminal :: "job_status \<Rightarrow> bool" where
  "job_terminal JobCompleted = True"
| "job_terminal JobCancelled = True"
| "job_terminal _ = False"

fun job_status_text :: "job_status \<Rightarrow> string" where
  "job_status_text JobActive = ''ACTIVE''"
| "job_status_text JobPendingReview = ''PENDING_REVIEW''"
| "job_status_text JobCompleted = ''COMPLETED''"
| "job_status_text JobCancelled = ''CANCELLED''"

datatype issue_status = IssueTodo | IssueActive | IssuePendingReview | IssueCompleted | IssueCancelled

definition issue_status_all :: "issue_status list" where
  "issue_status_all = [IssueTodo, IssueActive, IssuePendingReview, IssueCompleted, IssueCancelled]"

fun issue_terminal :: "issue_status \<Rightarrow> bool" where
  "issue_terminal IssueCompleted = True"
| "issue_terminal IssueCancelled = True"
| "issue_terminal _ = False"

fun issue_status_text :: "issue_status \<Rightarrow> string" where
  "issue_status_text IssueTodo = ''TODO''"
| "issue_status_text IssueActive = ''ACTIVE''"
| "issue_status_text IssuePendingReview = ''PENDING_REVIEW''"
| "issue_status_text IssueCompleted = ''COMPLETED''"
| "issue_status_text IssueCancelled = ''CANCELLED''"

datatype issue_type = Feature | Bug | Enhancement | Documentation | Question | Refactor

definition issue_type_all :: "issue_type list" where
  "issue_type_all = [Feature, Bug, Enhancement, Documentation, Question, Refactor]"

fun issue_type_str :: "issue_type \<Rightarrow> string" where
  "issue_type_str Feature = ''feature''"
| "issue_type_str Bug = ''bug''"
| "issue_type_str Enhancement = ''enhancement''"
| "issue_type_str Documentation = ''documentation''"
| "issue_type_str Question = ''question''"
| "issue_type_str Refactor = ''refactor''"

datatype milestone_status = MilestonePlanned | MilestoneActive | MilestoneCompleted | MilestoneCancelled

fun milestone_terminal :: "milestone_status \<Rightarrow> bool" where
  "milestone_terminal MilestoneCompleted = True"
| "milestone_terminal MilestoneCancelled = True"
| "milestone_terminal _ = False"

datatype review_policy = ReviewRequired | ReviewNone

section \<open>Entities\<close>

record project =
  p_id :: string
  p_key :: string
  p_name :: string
  p_root :: string
  p_remote :: "string option"
  p_revision :: int
  p_created_at :: int
  p_archived_at :: "int option"
  p_document_directory :: "string option"

definition document_directory :: "project \<Rightarrow> string" where
  "document_directory p =
     (case p_document_directory p of Some d \<Rightarrow> d | None \<Rightarrow> ''Projects/'' @ p_key p)"

record job_message =
  msg_id :: string
  msg_session_id :: string
  msg_role :: string
  msg_text :: string
  msg_recorded_at :: int

record job =
  j_id :: string
  j_project_id :: string
  j_issue_id :: "string option"
  j_title :: string
  j_name :: string
  j_sequence :: nat
  j_goal :: string
  j_prompt :: string
  j_conversation :: "job_message list"
  j_agent :: "string option"
  j_session_id :: "string option"
  j_status :: job_status
  j_review_reason :: "string option"
  j_review_policy :: review_policy
  j_followup_task_ids :: "string list"
  j_followup_session_id :: "string option"
  j_followup_at :: "int option"
  j_followup_id :: "string option"
  j_pending_review_at :: "int option"
  j_revision :: int
  j_created_at :: int
  j_updated_at :: int
  j_started_at :: "int option"
  j_completed_at :: "int option"
  j_cancelled_at :: "int option"
  j_archived_at :: "int option"
  j_document_path :: string

record task =
  t_id :: string
  t_project_id :: string
  t_job_id :: string
  t_title :: string
  t_name :: string
  t_sequence :: nat
  t_status :: task_status
  t_phase :: "task_phase option"
  t_revision :: int
  t_position :: int
  t_created_at :: int
  t_updated_at :: int
  t_started_at :: "int option"
  t_completed_at :: "int option"
  t_reason :: "string option"
  t_dependencies :: "string list"
  t_current_plan :: "string option"
  t_last_executor :: "string option"
  t_last_session :: "string option"
  t_delegated_by :: "string option"
  t_system_block :: bool

record plan =
  pl_id :: string
  pl_task_id :: string
  pl_version :: int
  pl_path :: string
  pl_hash :: string
  pl_created_at :: int
  pl_updated_at :: int
  pl_pending_body :: "string option"

record lease =
  l_task_id :: string
  l_executor_ref :: string
  l_session_ref :: string
  l_delegated_by :: "string option"
  l_token :: string
  l_expires_at :: int

record issue =
  i_issue_type :: "issue_type option"
  i_id :: string
  i_project_id :: string
  i_milestone_id :: "string option"
  i_title :: string
  i_name :: string
  i_sequence :: nat
  i_review_content_hash :: string
  i_content_hash :: string
  i_status :: issue_status
  i_review_reason :: "string option"
  i_revision :: int
  i_created_at :: int
  i_updated_at :: int
  i_started_at :: "int option"
  i_pending_review_at :: "int option"
  i_completed_at :: "int option"
  i_cancelled_at :: "int option"
  i_archived_at :: "int option"
  i_document_path :: string

record milestone =
  m_status :: milestone_status
  m_started_at :: "int option"
  m_completed_at :: "int option"
  m_cancelled_at :: "int option"
  m_archived_at :: "int option"
  m_id :: string
  m_project_id :: string
  m_title :: string
  m_name :: string
  m_sequence :: nat
  m_goal :: string
  m_order :: int
  m_due_date :: "string option"
  m_revision :: int
  m_created_at :: int
  m_updated_at :: int
  m_document_path :: string

section \<open>Snapshots\<close>

text \<open>
  The ordered maps of the source are association lists read by \<^const>\<open>map_of\<close>. The summary
  \<open>milestone_progress\<close> is read by the publication of documents only and is left out.
\<close>

record query_context =
  milestone_active_issues :: "(string \<times> bool) list"
  issue_active_jobs :: "(string \<times> bool) list"
  registered_project :: "string option"
  available_project_key :: "string option"
  done_dependencies :: "string list option"
  names :: "((string \<times> string) \<times> (string \<times> string) list) list"
  sequences :: "((string \<times> string) \<times> nat) list"
  task_count :: "int option"
  job_counts :: "(string \<times> (nat \<times> nat)) list"

definition default_context :: query_context where
  "default_context =
     \<lparr>milestone_active_issues = [], issue_active_jobs = [], registered_project = None,
      available_project_key = None, done_dependencies = None, names = [], sequences = [],
      task_count = None, job_counts = []\<rparr>"

record snapshot =
  query_ctx :: query_context
  issues :: "issue list"
  milestones :: "milestone list"
  document_sequences :: "(string \<times> nat) list"
  projects :: "project list"
  jobs :: "job list"
  tasks :: "task list"
  plans :: "plan list"
  leases :: "lease list"

definition empty_snapshot :: snapshot where
  "empty_snapshot =
     \<lparr>query_ctx = default_context, issues = [], milestones = [], document_sequences = [],
      projects = [], jobs = [], tasks = [], plans = [], leases = []\<rparr>"

definition lookup_or :: "'v \<Rightarrow> ('k \<times> 'v) list \<Rightarrow> 'k \<Rightarrow> 'v" where
  "lookup_or d m k = (case map_of m k of None \<Rightarrow> d | Some v \<Rightarrow> v)"

definition dependencies_done :: "snapshot \<Rightarrow> task \<Rightarrow> bool" where
  "dependencies_done s t =
     list_all (\<lambda>d. case done_dependencies (query_ctx s) of
         None \<Rightarrow> list_ex (\<lambda>u. t_id u = d \<and> t_status u = TaskDone) (tasks s)
       | Some done_ids \<Rightarrow> d \<in> set done_ids) (t_dependencies t)"

section \<open>Identifiers\<close>

definition position :: "('a \<Rightarrow> bool) \<Rightarrow> 'a list \<Rightarrow> nat option" where
  "position p xs = find (\<lambda>i. p (xs ! i)) [0..<length xs]"

definition resolve :: "(string \<times> string) list \<Rightarrow> string \<Rightarrow> nat result" where
  "resolve items query =
     (if query = [] then Inl (Invalid ''empty identifier'')
      else case position (\<lambda>(ident, _). ident = query) items of
        Some i \<Rightarrow> Inr i
      | None \<Rightarrow>
         (case filter (\<lambda>i. starts_with (fst (items ! i)) query \<or> snd (items ! i) = query)
                 [0..<length items] of
            [i] \<Rightarrow> Inr i
          | [] \<Rightarrow> Inl (Not_found query)
          | _ \<Rightarrow> Inl (Ambiguous query)))"

definition issue_index :: "snapshot \<Rightarrow> string \<Rightarrow> nat result" where
  "issue_index s q = resolve (map (\<lambda>v. (i_id v, i_id v)) (issues s)) q"

definition milestone_index :: "snapshot \<Rightarrow> string \<Rightarrow> nat result" where
  "milestone_index s q = resolve (map (\<lambda>v. (m_id v, m_id v)) (milestones s)) q"

definition project_index :: "snapshot \<Rightarrow> string \<Rightarrow> nat result" where
  "project_index s q = resolve (map (\<lambda>v. (p_id v, p_name v)) (projects s)) q"

definition job_index :: "snapshot \<Rightarrow> string \<Rightarrow> nat result" where
  "job_index s q = resolve (map (\<lambda>v. (j_id v, j_id v)) (jobs s)) q"

definition task_index :: "snapshot \<Rightarrow> string \<Rightarrow> nat result" where
  "task_index s q = resolve (map (\<lambda>v. (t_id v, t_id v)) (tasks s)) q"

section \<open>Write options and results\<close>

record write_options =
  actor_ref :: string
  session_ref :: "string option"
  delegated_by :: "string option"
  lease_token :: "string option"
  expected_revision :: "int option"
  idempotency_key :: "string option"

definition default_options :: write_options where
  "default_options =
     \<lparr>actor_ref = ''user:cli'', session_ref = None, delegated_by = None, lease_token = None,
      expected_revision = None, idempotency_key = None\<rparr>"

text \<open>
  The value a mutation returns. The code serialises the entity it changed; the model returns the
  entity itself, under a constructor that says which object is built.
\<close>

datatype outcome_value =
    VProject project
  | VJob job
  | VTask task "lease option"
  | VPlan plan
  | VIssue issue
  | VMilestone milestone
  | VDeletedWork string nat nat nat
  | VDeleted string
  | VSession string "string list"
  | VRecorded "string option" nat
  | VStaged "json option"

definition task_result :: "snapshot \<Rightarrow> string \<Rightarrow> outcome_value result" where
  "task_result s q =
     attempt (task_index s q) (\<lambda>i.
       let t = tasks s ! i in Inr (VTask t (find (\<lambda>l. l_task_id l = t_id t) (leases s))))"

definition agent_name :: "string \<Rightarrow> string option" where
  "agent_name executor =
     (let rest = (case strip_prefix ''agent:'' executor of Some r \<Rightarrow> r | None \<Rightarrow> executor);
          name = takeWhile (\<lambda>c. c \<noteq> CHR '':'') rest
      in if name \<in> {''codex'', ''claude'', ''pi'', ''omp'', ''opencode''} then Some name else None)"

definition default_lease_seconds :: int where
  "default_lease_seconds = 900"

section \<open>The contract of an identifier index\<close>

text \<open>
  What the mutations rely on when they resolve an identifier: the index is in range, an exact
  identifier is always found before a prefix, and a result is an exact match, a prefix match or
  a match of the display name.
\<close>

locale identifier_index =
  fixes index :: "'s \<Rightarrow> string \<Rightarrow> nat result"
    and rows :: "'s \<Rightarrow> 'a list"
    and key :: "'a \<Rightarrow> string"
    and label :: "'a \<Rightarrow> string"
  assumes index_bound: "index s q = Inr i \<Longrightarrow> i < length (rows s)"
    and index_exact: "x \<in> set (rows s) \<Longrightarrow> key x \<noteq> [] \<Longrightarrow>
      \<exists>i. index s (key x) = Inr i \<and> i < length (rows s) \<and> key (rows s ! i) = key x"
    and index_match: "index s q = Inr i \<Longrightarrow> q \<noteq> [] \<and>
      (key (rows s ! i) = q \<or> starts_with (key (rows s ! i)) q \<or> label (rows s ! i) = q)"
begin

lemma index_mem: "index s q = Inr i \<Longrightarrow> rows s ! i \<in> set (rows s)"
  by (simp add: index_bound)

lemma index_of_member:
  assumes "distinct (map key (rows s))" "x \<in> set (rows s)" "index s (key x) = Inr i"
  shows "rows s ! i = x"
proof -
  from assms(3) have "key x \<noteq> []" using index_match by blast
  with index_exact [OF assms(2)] assms(3) have "key (rows s ! i) = key x" by auto
  with assms show ?thesis by (metis distinct_key_unique index_mem)
qed

lemma index_of_nth:
  assumes "distinct (map key (rows s))" "k < length (rows s)" "index s (key (rows s ! k)) = Inr i"
  shows "i = k"
proof -
  have "rows s ! i = rows s ! k"
    by (rule index_of_member [OF assms(1) nth_mem [OF assms(2)] assms(3)])
  then show ?thesis
    using assms index_bound [OF assms(3)] by (metis length_map nth_eq_iff_index_eq nth_map)
qed

lemma index_exact_hit:
  assumes "index s q = Inr i" "x \<in> set (rows s)" "key x = q"
  shows "key (rows s ! i) = q"
  using assms index_exact [OF assms(2)] index_match [OF assms(1)] by auto

end

lemma position_Some:
  "position p xs = Some i \<longleftrightarrow> i < length xs \<and> p (xs ! i) \<and> (\<forall>k < i. \<not> p (xs ! k))"
proof
  assume "position p xs = Some i"
  then obtain k where k: "k < length xs" "p (xs ! ([0..<length xs] ! k))" "i = [0..<length xs] ! k"
      "\<forall>m<k. \<not> p (xs ! ([0..<length xs] ! m))"
    by (auto simp: position_def find_Some_iff)
  then show "i < length xs \<and> p (xs ! i) \<and> (\<forall>k < i. \<not> p (xs ! k))" by auto
next
  assume "i < length xs \<and> p (xs ! i) \<and> (\<forall>k < i. \<not> p (xs ! k))"
  then show "position p xs = Some i"
    unfolding position_def find_Some_iff by (intro exI [of _ i]) auto
qed

lemma position_None: "position p xs = None \<longleftrightarrow> (\<forall>x \<in> set xs. \<not> p x)"
  by (auto simp: position_def find_None_iff) (metis in_set_conv_nth)

lemma resolve_bound: "resolve items q = Inr i \<Longrightarrow> i < length items"
  by (auto simp: resolve_def position_Some split: if_splits option.splits list.splits
      dest!: arg_cong [where f = set])

lemma resolve_exact:
  assumes "(q, n) \<in> set items" "q \<noteq> []"
  shows "\<exists>i. resolve items q = Inr i \<and> i < length items \<and> fst (items ! i) = q"
proof -
  obtain i where i: "position (\<lambda>(ident, _). ident = q) items = Some i"
    using assms(1) by (metis (mono_tags, lifting) case_prod_conv not_Some_eq position_None)
  then have "i < length items" "fst (items ! i) = q"
    by (auto simp: position_Some split: prod.splits)
  with i assms(2) show ?thesis by (simp add: resolve_def)
qed

lemma resolve_match:
  assumes "resolve items q = Inr i"
  shows "q \<noteq> [] \<and> (fst (items ! i) = q \<or> starts_with (fst (items ! i)) q \<or> snd (items ! i) = q)"
proof (cases "position (\<lambda>(ident, _). ident = q) items")
  case (Some k)
  with assms have "k = i" "q \<noteq> []"
    by (auto simp: resolve_def split: if_splits)
  with Some show ?thesis
    by (auto simp: position_Some)
next
  case None
  let ?p = "\<lambda>i. starts_with (fst (items ! i)) q \<or> snd (items ! i) = q"
  from None assms have "filter ?p [0..<length items] = [i]" "q \<noteq> []"
    by (auto simp: resolve_def split: if_splits list.splits)
  then have "i \<in> set (filter ?p [0..<length items])" by simp
  with \<open>q \<noteq> []\<close> show ?thesis by auto
qed

lemma resolve_is_index:
  "identifier_index (\<lambda>s. resolve (map (\<lambda>v. (key v, label v)) (rows s))) rows key label"
proof
  fix s q i
  assume "resolve (map (\<lambda>v. (key v, label v)) (rows s)) q = Inr i"
  then show "i < length (rows s)" by (auto dest: resolve_bound)
next
  fix s x
  assume "x \<in> set (rows s)" "key x \<noteq> []"
  then show "\<exists>i. resolve (map (\<lambda>v. (key v, label v)) (rows s)) (key x) = Inr i
      \<and> i < length (rows s) \<and> key (rows s ! i) = key x"
    using resolve_exact [of "key x" "label x" "map (\<lambda>v. (key v, label v)) (rows s)"] by auto
next
  fix s q i
  assume r: "resolve (map (\<lambda>v. (key v, label v)) (rows s)) q = Inr i"
  then have "i < length (rows s)" by (auto dest: resolve_bound)
  with resolve_match [OF r] show "q \<noteq> [] \<and>
      (key (rows s ! i) = q \<or> starts_with (key (rows s ! i)) q \<or> label (rows s ! i) = q)"
    by simp
qed

interpretation project_ix: identifier_index project_index projects p_id p_name
  using resolve_is_index [of p_id p_name projects] by (simp add: project_index_def [abs_def])

interpretation job_ix: identifier_index job_index jobs j_id j_id
  using resolve_is_index [of j_id j_id jobs] by (simp add: job_index_def [abs_def])

interpretation task_ix: identifier_index task_index tasks t_id t_id
  using resolve_is_index [of t_id t_id tasks] by (simp add: task_index_def [abs_def])

interpretation issue_ix: identifier_index issue_index issues i_id i_id
  using resolve_is_index [of i_id i_id issues] by (simp add: issue_index_def [abs_def])

interpretation milestone_ix: identifier_index milestone_index milestones m_id m_id
  using resolve_is_index [of m_id m_id milestones] by (simp add: milestone_index_def [abs_def])

end
