(* ===== verification/Naming.thy ===== *)
theory Naming
  imports Task_Model
begin

text \<open>
  The environment of the mutation engine and \<open>naming.rs\<close>: sequence numbers of documents, dated
  file names, portable file name stems and their disambiguation.
\<close>

section \<open>The environment\<close>

text \<open>
  Code outside the repository is a field of this record: the random part of a UUID
  (\<open>uuid\<close>, by the number of the call within one mutation), Unicode lower casing, the calendar
  date of a Unix timestamp and the validity of a date text (crate \<open>time\<close>), the derived
  deserialiser of a Plan (crate \<open>serde\<close>) and the file system queries of \<open>project.move\<close>.
\<close>

record env =
  uuid :: "nat \<Rightarrow> string"
  to_lowercase :: "string \<Rightarrow> string"
  civil_date :: "int \<Rightarrow> (int \<times> nat \<times> nat) option"
  valid_date :: "string \<Rightarrow> bool"
  parse_plan :: "json \<Rightarrow> plan option"
  is_dir :: "string \<Rightarrow> bool"
  canonicalize :: "string \<Rightarrow> string option"

definition new_id :: "env \<Rightarrow> string \<Rightarrow> nat \<Rightarrow> string" where
  "new_id e prefix k = prefix @ ''_'' @ uuid e k"

section \<open>Sequence numbers\<close>

definition u64_max :: nat where
  "u64_max = 2 ^ 64 - 1"

definition checked_succ :: "nat \<Rightarrow> nat option" where
  "checked_succ n = (if n < u64_max then Some (Suc n) else None)"

lemma checked_succ_code [code]:
  "checked_succ n = (if int n < 18446744073709551615 then Some (Suc n) else None)"
  by (simp add: checked_succ_def u64_max_def)

definition day_of :: "int \<Rightarrow> int" where
  "day_of t = t div 86400"

definition next_sequence :: "int \<Rightarrow> (int \<times> nat) list \<Rightarrow> nat result" where
  "next_sequence created_at existing =
     of_option (Failed ''document sequence exhausted'')
       (checked_succ
         (foldr max (map snd (filter (\<lambda>(c, _). day_of c = day_of created_at) existing)) 0))"

definition numbered_name :: "env \<Rightarrow> string \<Rightarrow> int \<Rightarrow> nat \<Rightarrow> string result" where
  "numbered_name e name created_at sequence =
     attempt (of_option (Failed ''timestamp out of range'') (civil_date e created_at))
       (\<lambda>(year, month, day).
         Inr (padded 2 (nat (year mod 100)) @ padded 2 month @ padded 2 day @ ''-''
              @ padded 4 sequence @ ''-'' @ name))"

definition task_path_in :: "env \<Rightarrow> project \<Rightarrow> task \<Rightarrow> string result" where
  "task_path_in e p t =
     attempt (numbered_name e (t_name t) (t_created_at t) (t_sequence t))
       (\<lambda>filename. Inr (document_directory p @ ''/Tasks/'' @ filename @ ''.md''))"

definition task_path :: "env \<Rightarrow> snapshot \<Rightarrow> task \<Rightarrow> string result" where
  "task_path e s t =
     attempt (project_index s (t_project_id t)) (\<lambda>i. task_path_in e (projects s ! i) t)"

section \<open>Portable names\<close>

text \<open>The characters of the raw string literal in \<open>short_name\<close>, as code points.\<close>

definition forbidden_chars :: code_points where
  "forbidden_chars = [47, 92, 58, 42, 63, 34, 60, 62, 124, 91, 93, 35, 94]"

definition clean_char :: "nat \<Rightarrow> nat" where
  "clean_char c = (if is_control c \<or> c \<in> set forbidden_chars then 32 else c)"

function split_whitespace :: "code_points \<Rightarrow> code_points list" where
  "split_whitespace cs =
     (case dropWhile is_whitespace cs of
        [] \<Rightarrow> []
      | c # r \<Rightarrow>
          takeWhile (\<lambda>x. \<not> is_whitespace x) (c # r)
          # split_whitespace (dropWhile (\<lambda>x. \<not> is_whitespace x) (c # r)))"
  by pat_completeness auto
termination
proof (relation "measure length")
  fix cs c r
  assume d: "dropWhile is_whitespace cs = c # r"
  then have "\<not> is_whitespace c"
    using hd_dropWhile [of is_whitespace cs] by simp
  then have "length (dropWhile (\<lambda>x. \<not> is_whitespace x) (c # r)) \<le> length r"
    by (simp add: length_dropWhile_le)
  also have "length r < length (dropWhile is_whitespace cs)" using d by simp
  also have "\<dots> \<le> length cs" by (rule length_dropWhile_le)
  finally show "(dropWhile (\<lambda>x. \<not> is_whitespace x) (c # r), cs) \<in> measure length" by simp
qed simp

declare split_whitespace.simps [simp del]

fun join_space :: "code_points list \<Rightarrow> code_points" where
  "join_space [] = []"
| "join_space [w] = w"
| "join_space (w # ws) = w @ 32 # join_space ws"

definition trim_space_dot :: "code_points \<Rightarrow> code_points" where
  "trim_space_dot cs =
     (let edge = (\<lambda>c. c = 32 \<or> c = 46)
      in rev (dropWhile edge (rev (dropWhile edge cs))))"

definition ascii_upper :: "nat \<Rightarrow> nat" where
  "ascii_upper c = (if 97 \<le> c \<and> c \<le> 122 then c - 32 else c)"

definition name_stem :: "code_points \<Rightarrow> code_points" where
  "name_stem cs = map ascii_upper (takeWhile (\<lambda>c. c \<noteq> 46) cs)"

definition reserved_stems :: "string list" where
  "reserved_stems =
     [''CON'', ''PRN'', ''AUX'', ''NUL'', ''COM1'', ''COM2'', ''COM3'', ''COM4'', ''COM5'', ''COM6'',
      ''COM7'', ''COM8'', ''COM9'', ''LPT1'', ''LPT2'', ''LPT3'', ''LPT4'', ''LPT5'', ''LPT6'', ''LPT7'',
      ''LPT8'', ''LPT9'']"

definition is_reserved :: "code_points \<Rightarrow> bool" where
  "is_reserved cs = (name_stem cs \<in> set (map chars reserved_stems))"

definition short_name_chars :: "code_points \<Rightarrow> code_points" where
  "short_name_chars title =
     (let name = trim_space_dot (take 48 (join_space (split_whitespace (map clean_char title))))
      in if name = [] then chars ''Untitled''
         else if is_reserved name then name @ chars ''-1''
         else name)"

definition short_name :: "string \<Rightarrow> string" where
  "short_name title = of_chars (short_name_chars (chars title))"

section \<open>Unique names\<close>

text \<open>
  The search for an unused name. The loop of the source ends when a candidate is unused; the fuel
  is one more than the number of used names, and \<open>unique_name_unused\<close> below shows that this is
  enough whenever lower casing keeps decimal suffixes.
\<close>

fun unique_loop :: "env \<Rightarrow> string \<Rightarrow> string list \<Rightarrow> string \<Rightarrow> nat \<Rightarrow> nat \<Rightarrow> string" where
  "unique_loop e base used name suffix 0 = name"
| "unique_loop e base used name suffix (Suc fuel) =
     (if to_lowercase e name \<in> set used
      then unique_loop e base used (base @ ''-'' @ decimal suffix) (Suc suffix) fuel
      else name)"

definition unique_name :: "env \<Rightarrow> string \<Rightarrow> string list \<Rightarrow> string" where
  "unique_name e title existing =
     (let base = short_name title; used = map (to_lowercase e) existing
      in unique_loop e base used base 2 (Suc (length used)))"

section \<open>Correctness of sequence numbers\<close>

lemma foldr_max_ge: "x \<in> set xs \<Longrightarrow> x \<le> foldr max xs (0 :: nat)"
  by (induction xs) auto

lemma next_sequence_Inr:
  "next_sequence now existing = Inr n \<Longrightarrow>
     0 < n \<and> n \<le> u64_max \<and> (\<forall>c k. (c, k) \<in> set existing \<longrightarrow> day_of c = day_of now \<longrightarrow> k < n)"
proof -
  assume "next_sequence now existing = Inr n"
  then have n: "n = Suc (foldr max (map snd (filter (\<lambda>(c, _). day_of c = day_of now) existing)) 0)"
      "n \<le> u64_max"
    by (auto simp: next_sequence_def checked_succ_def result_simps split: if_splits)
  have "k < n" if "(c, k) \<in> set existing" "day_of c = day_of now" for c k
    using that foldr_max_ge [of k "map snd (filter (\<lambda>(c, _). day_of c = day_of now) existing)"]
    unfolding n(1) by (force simp: less_Suc_eq_le)
  with n show ?thesis by auto
qed

section \<open>Correctness of decimal output\<close>

fun of_decimal :: "string \<Rightarrow> nat" where
  "of_decimal s = foldl (\<lambda>n c. 10 * n + (byte c - 48)) 0 s"

lemma of_decimal_decimal: "of_decimal (decimal n) = n"
proof (induction n rule: decimal.induct)
  case (1 n)
  show ?case
  proof (cases "n < 10")
    case True
    then show ?thesis by (simp add: decimal.simps [of n])
  next
    case False
    with 1 have "of_decimal (decimal (n div 10)) = n div 10" by simp
    moreover have "byte (char_of (48 + n mod 10)) = 48 + n mod 10" by (rule byte_char_of) simp
    ultimately show ?thesis using False by (simp add: decimal.simps [of n])
  qed
qed

lemma decimal_inject: "decimal m = decimal n \<longleftrightarrow> m = n"
  by (metis of_decimal_decimal)

section \<open>Correctness of unique names\<close>

definition suffix_kept :: "env \<Rightarrow> string \<Rightarrow> bool" where
  "suffix_kept e base \<longleftrightarrow>
     (\<forall>n. to_lowercase e (base @ ''-'' @ decimal n) = to_lowercase e base @ ''-'' @ decimal n)"

definition candidate :: "string \<Rightarrow> nat \<Rightarrow> string" where
  "candidate base k = (if k = 0 then base else base @ ''-'' @ decimal (Suc k))"

lemma candidate_lower_inject:
  assumes "suffix_kept e base"
  shows "to_lowercase e (candidate base i) = to_lowercase e (candidate base k) \<longleftrightarrow> i = k"
proof -
  have low: "to_lowercase e (base @ CHR ''-'' # decimal n) = to_lowercase e base @ CHR ''-'' # decimal n" for n
    using assms by (simp add: suffix_kept_def)
  show ?thesis by (auto simp: candidate_def low decimal_inject)
qed

lemma unique_loop_candidate:
  "\<exists>k \<le> i + fuel.
     unique_loop e base used (candidate base i) (i + 2) fuel = candidate base k
     \<and> (to_lowercase e (candidate base k) \<notin> set used
        \<or> (\<forall>m. i \<le> m \<and> m < i + fuel \<longrightarrow> to_lowercase e (candidate base m) \<in> set used))"
proof (induction fuel arbitrary: i)
  case 0
  then show ?case by auto
next
  case (Suc fuel)
  show ?case
  proof (cases "to_lowercase e (candidate base i) \<in> set used")
    case False
    then show ?thesis by (auto intro!: exI [of _ i])
  next
    case True
    have "base @ ''-'' @ decimal (i + 2) = candidate base (Suc i)"
      by (simp add: candidate_def)
    with True have "unique_loop e base used (candidate base i) (i + 2) (Suc fuel)
        = unique_loop e base used (candidate base (Suc i)) (Suc i + 2) fuel"
      by simp
    with Suc.IH [of "Suc i"] True show ?thesis
      by (metis Suc_leI add_Suc_right add_Suc_shift le_eq_less_or_eq)
  qed
qed

lemma unique_name_lower_unused:
  assumes "suffix_kept e (short_name title)"
  shows "to_lowercase e (unique_name e title existing) \<notin> to_lowercase e ` set existing"
proof -
  let ?b = "short_name title" and ?used = "map (to_lowercase e) existing"
  let ?low = "\<lambda>m. to_lowercase e (candidate ?b m)"
  have un: "unique_name e title existing
      = unique_loop e ?b ?used (candidate ?b 0) (0 + 2) (Suc (length ?used))"
    unfolding unique_name_def Let_def candidate_def by (simp del: unique_loop.simps add: numeral_2_eq_2)
  obtain k where k: "unique_name e title existing = candidate ?b k"
    and end_: "?low k \<notin> set ?used \<or> (\<forall>m. 0 \<le> m \<and> m < 0 + Suc (length ?used) \<longrightarrow> ?low m \<in> set ?used)"
    using unique_loop_candidate [of 0 "Suc (length ?used)" e ?b ?used] unfolding un by blast
  have "\<not> (\<forall>m. m < Suc (length ?used) \<longrightarrow> ?low m \<in> set ?used)"
  proof
    assume "\<forall>m. m < Suc (length ?used) \<longrightarrow> ?low m \<in> set ?used"
    then have "?low ` {..<Suc (length ?used)} \<subseteq> set ?used" by auto
    then have "card (?low ` {..<Suc (length ?used)}) \<le> card (set ?used)"
      by (intro card_mono) simp_all
    moreover have "inj_on ?low {..<Suc (length ?used)}"
      by (auto simp: inj_on_def candidate_lower_inject [OF assms])
    ultimately have "Suc (length ?used) \<le> card (set ?used)" by (simp add: card_image)
    then show False using card_length [of ?used] by simp
  qed
  with end_ k show ?thesis by auto
qed

section \<open>Correctness of portable names\<close>

lemma set_split_whitespace:
  "w \<in> set (split_whitespace cs) \<Longrightarrow> w \<noteq> [] \<and> set w \<subseteq> {c \<in> set cs. \<not> is_whitespace c}"
proof (induction cs rule: split_whitespace.induct)
  case (1 cs)
  show ?case
  proof (cases "dropWhile is_whitespace cs")
    case Nil
    with "1.prems" show ?thesis by (simp add: split_whitespace.simps [of cs])
  next
    case (Cons c r)
    let ?p = "\<lambda>x. \<not> is_whitespace x"
    from Cons have sub: "set (c # r) \<subseteq> set cs" and c: "?p c"
      using set_dropWhileD hd_dropWhile [of is_whitespace cs] by (metis subsetI, simp)
    from "1.prems" Cons consider "w = takeWhile ?p (c # r)"
      | "w \<in> set (split_whitespace (dropWhile ?p (c # r)))"
      by (auto simp: split_whitespace.simps [of cs])
    then show ?thesis
    proof cases
      case 1
      with sub c show ?thesis by (auto dest: set_takeWhileD)
    next
      case 2
      with "1.IH" [OF Cons] have "w \<noteq> []" "set w \<subseteq> {x \<in> set (dropWhile ?p (c # r)). ?p x}" by auto
      moreover have "set (dropWhile ?p (c # r)) \<subseteq> set (c # r)" by (meson set_dropWhileD subsetI)
      ultimately show ?thesis using sub by blast
    qed
  qed
qed

lemma set_join_space: "set (join_space ws) \<subseteq> insert 32 (\<Union> (set ` set ws))"
  by (induction ws rule: join_space.induct) auto

lemma set_trim_space_dot: "set (trim_space_dot cs) \<subseteq> set cs"
  by (auto simp: trim_space_dot_def Let_def dest!: set_dropWhileD)

lemma length_trim_space_dot: "length (trim_space_dot cs) \<le> length cs"
proof -
  let ?e = "\<lambda>c. c = 32 \<or> c = (46 :: nat)"
  have "length (dropWhile ?e (rev (dropWhile ?e cs))) \<le> length (dropWhile ?e cs)"
    using length_dropWhile_le [of ?e "rev (dropWhile ?e cs)"] by simp
  then show ?thesis
    using length_dropWhile_le [of ?e cs] by (simp add: trim_space_dot_def Let_def)
qed

lemma clean_char_portable: "\<not> is_control (clean_char c) \<and> clean_char c \<notin> set forbidden_chars"
  by (auto simp: clean_char_def is_control_def forbidden_chars_def)

definition portable_char :: "nat \<Rightarrow> bool" where
  "portable_char c \<longleftrightarrow>
     \<not> is_control c \<and> c \<notin> set forbidden_chars \<and> (is_whitespace c \<longrightarrow> c = 32)"

lemma portable_literals:
  "\<forall>c \<in> set (chars ''Untitled''). portable_char c" "\<forall>c \<in> set (chars ''-1''). portable_char c"
  "chars ''Untitled'' \<noteq> []" "length (chars ''Untitled'') = 8" "length (chars ''-1'') = 2"
  by (simp_all add: chars_ascii byte_def portable_char_def is_control_def forbidden_chars_def
      is_whitespace_def)

lemma short_name_chars_shape:
  "short_name_chars cs \<noteq> [] \<and> length (short_name_chars cs) \<le> 50
   \<and> (\<forall>c \<in> set (short_name_chars cs). portable_char c)"
proof -
  let ?ws = "split_whitespace (map clean_char cs)"
  let ?n = "trim_space_dot (take 48 (join_space ?ws))"
  have "length ?n \<le> length (take 48 (join_space ?ws))"
    by (rule length_trim_space_dot)
  then have len: "length ?n \<le> 48" by simp
  have "set ?n \<subseteq> set (join_space ?ws)"
    by (rule subset_trans [OF set_trim_space_dot set_take_subset])
  then have sub: "set ?n \<subseteq> insert 32 {c \<in> clean_char ` set cs. \<not> is_whitespace c}"
  proof (rule subset_trans)
    have "\<Union> (set ` set ?ws) \<subseteq> {c \<in> clean_char ` set cs. \<not> is_whitespace c}"
      using set_split_whitespace [of _ "map clean_char cs"] by (auto simp only: set_map)
    then show "set (join_space ?ws) \<subseteq> insert 32 {c \<in> clean_char ` set cs. \<not> is_whitespace c}"
      using set_join_space [of ?ws] by blast
  qed
  have portable: "\<forall>c \<in> set ?n. portable_char c"
  proof
    fix c assume "c \<in> set ?n"
    with sub consider "c = 32" | d where "c = clean_char d" "\<not> is_whitespace c" by auto
    then show "portable_char c"
    proof cases
      case 1
      then show ?thesis by (simp add: portable_char_def is_control_def forbidden_chars_def)
    next
      case 2
      then show ?thesis using clean_char_portable by (simp add: portable_char_def)
    qed
  qed
  have "short_name_chars cs =
      (if ?n = [] then chars ''Untitled'' else if is_reserved ?n then ?n @ chars ''-1'' else ?n)"
    by (simp only: short_name_chars_def Let_def)
  then show ?thesis
    using len portable portable_literals by (simp add: ball_Un)
qed

end
