(* ===== verification/Mutation_Base.thy ===== *)
theory Mutation_Base
  imports Naming
begin

text \<open>
  What the mutation handlers share: the checks of a request and of the expected revision
  (\<open>mutations.rs\<close>), the choice of an entity's name, and the key of a retained sequence number
  (\<open>deletion.rs\<close>).
\<close>

definition check_revision :: "int \<Rightarrow> write_options \<Rightarrow> unit result" where
  "check_revision revision opts =
     ensure (case expected_revision opts of None \<Rightarrow> True | Some r \<Rightarrow> r = revision)
       (Conflict ''revision changed'') (Inr ())"

definition validate_request :: "json \<Rightarrow> unit result" where
  "validate_request request =
     ensure (\<not> has_field request ''inbox_ids'' \<and> \<not> has_field request ''inbox'')
       (Invalid ''unsupported association field'')
       (attempt (required request ''command'') (\<lambda>command.
         ensure (\<not> starts_with command ''inbox.'') (Invalid ''unsupported command'') (Inr ())))"

definition sequence_key :: "string \<Rightarrow> string \<Rightarrow> int \<Rightarrow> string" where
  "sequence_key project kind created =
     project @ '':'' @ kind @ '':'' @
       (let d = day_of created in if d < 0 then ''-'' @ decimal (nat (- d)) else decimal (nat d))"

definition entity_name :: "env \<Rightarrow> snapshot \<Rightarrow> string \<Rightarrow> string \<Rightarrow> string option \<Rightarrow> string \<Rightarrow> string" where
  "entity_name e s project kind excluded title =
     (case map_of (names (query_ctx s)) (project, kind) of
        Some entries \<Rightarrow>
          unique_name e title (map snd (filter (\<lambda>(ident, _). Some ident \<noteq> excluded) entries))
      | None \<Rightarrow>
          if kind = ''task'' then
            unique_name e title
              (map t_name (filter (\<lambda>t. t_project_id t = project \<and> Some (t_id t) \<noteq> excluded) (tasks s)))
          else
            unique_name e title
              (map j_name (filter (\<lambda>j. j_project_id j = project \<and> Some (j_id j) \<noteq> excluded) (jobs s))))"

definition parse_review_policy :: "json \<Rightarrow> review_policy option" where
  "parse_review_policy v =
     (case unit_variant v of
        Some n \<Rightarrow> if n = ''required'' then Some ReviewRequired
                  else if n = ''none'' then Some ReviewNone else None
      | None \<Rightarrow> None)"

definition parse_issue_type :: "json \<Rightarrow> issue_type option option" where
  "parse_issue_type v =
     (if v = JNull then Some None
      else case unit_variant v of
        Some n \<Rightarrow> map_option Some (find (\<lambda>k. issue_type_str k = n) issue_type_all)
      | None \<Rightarrow> None)"

lemma check_revision_eq_Inr [result_simps]:
  "check_revision n opts = Inr u \<longleftrightarrow> expected_revision opts \<in> {None, Some n}"
  by (auto simp: check_revision_def result_simps split: option.splits)

end
