(* ===== verification/Issues.thy ===== *)
theory Issues
  imports Mutation_Base
begin

text \<open>
  Issues and milestones: \<open>issue.rs\<close>. Each command of \<open>issue::apply\<close> and \<open>issue::milestone\<close> is
  a branch of the definitions below, in the source's order; the helpers \<open>writable\<close>, \<open>activate\<close>,
  \<open>cancel_jobs\<close> and \<open>associate\<close> are also called from the job and task handlers.
\<close>

section \<open>Helpers\<close>

definition validate_public_hashes :: "json \<Rightarrow> unit result" where
  "validate_public_hashes request =
     (if str_field request ''command'' \<in> {Some ''issue.create'', Some ''issue.update''}
      then ensure (\<not> has_field request ''content_hash'' \<and> \<not> has_field request ''review_content_hash'')
             (Invalid ''Issue content hashes are reserved for document synchronization'') (Inr ())
      else Inr ())"

definition apply_content_hashes :: "issue \<Rightarrow> string \<Rightarrow> string \<Rightarrow> (issue \<times> bool) result" where
  "apply_content_hashes issue hash review_hash =
     (let changed = i_content_hash issue \<noteq> hash
      in ensure (\<not> issue_terminal (i_status issue) \<or> \<not> changed)
           (Conflict ''reopen terminal Issue before updating content'')
           (let issue' =
              (if i_status issue = IssuePendingReview \<and> i_review_content_hash issue \<noteq> review_hash
               then issue\<lparr>i_status := IssueActive, i_pending_review_at := None, i_review_reason := None\<rparr>
               else issue)
            in Inr (issue'\<lparr>i_content_hash := hash, i_review_content_hash := review_hash\<rparr>, changed)))"

definition human :: "write_options \<Rightarrow> unit result" where
  "human opts =
     ensure (starts_with (actor_ref opts) ''user:'')
       (Forbidden ''Issue acceptance requires a human actor'') (Inr ())"

definition optional_id :: "snapshot \<Rightarrow> json \<Rightarrow> string \<Rightarrow> string option result" where
  "optional_id s request key =
     (case get_field request key of
        None \<Rightarrow> Inr None
      | Some JNull \<Rightarrow> Inr None
      | Some (JString q) \<Rightarrow> attempt (milestone_index s q) (\<lambda>i. Inr (Some (m_id (milestones s ! i))))
      | _ \<Rightarrow> Inl (Invalid (key @ '' must be a single identifier or null'')))"

definition milestone_project :: "snapshot \<Rightarrow> string option \<Rightarrow> string \<Rightarrow> unit result" where
  "milestone_project s ident project =
     (case ident of
        None \<Rightarrow> Inr ()
      | Some q \<Rightarrow>
          attempt (milestone_index s q) (\<lambda>i.
            ensure (m_project_id (milestones s ! i) = project)
              (Invalid ''Milestone must belong to the same Project'') (Inr ())))"

definition sequence :: "snapshot \<Rightarrow> string \<Rightarrow> string \<Rightarrow> int \<Rightarrow> nat result" where
  "sequence s project kind now =
     (let current = lookup_or 0 (sequences (query_ctx s)) (project, kind);
          retained = lookup_or 0 (document_sequences s) (sequence_key project kind now)
      in of_option (Invalid ''document sequence exhausted'') (checked_succ (max current retained)))"

definition terminal_jobs :: "snapshot \<Rightarrow> string \<Rightarrow> bool" where
  "terminal_jobs s issue =
     (\<not> lookup_or False (issue_active_jobs (query_ctx s)) issue
      \<and> list_all (\<lambda>j. job_terminal (j_status j)) (filter (\<lambda>j. j_issue_id j = Some issue) (jobs s)))"

definition cancel_jobs :: "snapshot \<Rightarrow> string \<Rightarrow> int \<Rightarrow> snapshot" where
  "cancel_jobs s issue now =
     (let cancelled = map j_id (filter (\<lambda>j. j_issue_id j = Some issue \<and> \<not> job_terminal (j_status j)) (jobs s));
          work = map t_id (filter (\<lambda>t. t_job_id t \<in> set cancelled) (tasks s))
      in s\<lparr>leases := filter (\<lambda>l. l_task_id l \<notin> set work) (leases s),
           tasks := upd_where (\<lambda>t. t_id t \<in> set work \<and> \<not> task_terminal (t_status t))
             (\<lambda>t. t\<lparr>t_status := TaskCancelled, t_phase := None, t_completed_at := Some now,
                    t_reason := Some ''Associated Issue cancelled by a human'',
                    t_system_block := False, t_updated_at := now, t_revision := t_revision t + 1\<rparr>)
             (tasks s),
           jobs := upd_where (\<lambda>j. j_id j \<in> set cancelled)
             (\<lambda>j. j\<lparr>j_status := JobCancelled, j_cancelled_at := Some now, j_updated_at := now,
                    j_revision := j_revision j + 1\<rparr>)
             (jobs s)\<rparr>)"

definition writable :: "snapshot \<Rightarrow> string \<Rightarrow> nat result" where
  "writable s issue =
     attempt (issue_index s issue) (\<lambda>index.
       ensure (i_status (issues s ! index) \<in> {IssueTodo, IssueActive}
               \<and> i_archived_at (issues s ! index) = None)
         (Conflict ''reject pending review or reopen terminal Issue before new work'')
         (Inr index))"

definition activate :: "snapshot \<Rightarrow> nat \<Rightarrow> int \<Rightarrow> snapshot" where
  "activate s index now =
     (if i_status (issues s ! index) = IssueTodo
      then s\<lparr>issues := upd_nth index
             (\<lambda>i. i\<lparr>i_status := IssueActive, i_started_at := Some now, i_updated_at := now,
                    i_revision := i_revision i + 1\<rparr>) (issues s)\<rparr>
      else s)"

definition associate :: "snapshot \<Rightarrow> string \<Rightarrow> json \<Rightarrow> int \<Rightarrow> snapshot result" where
  "associate s job request now =
     (case get_field request ''issue'' of
        None \<Rightarrow> Inr s
      | Some value \<Rightarrow>
          attempt (job_index s job) (\<lambda>j.
          attempt
            (case value of
               JNull \<Rightarrow> Inr None
             | JString q \<Rightarrow> attempt (issue_index s q) (\<lambda>i. Inr (Some (i_id (issues s ! i))))
             | _ \<Rightarrow> Inl (Invalid ''issue must be a single identifier or null'')) (\<lambda>ident.
          attempt
            (case ident of
               None \<Rightarrow> Inr s
             | Some q \<Rightarrow>
                 attempt (issue_index s q) (\<lambda>i.
                 ensure (case non_null request ''issue_revision'' of
                           None \<Rightarrow> True
                         | Some revision \<Rightarrow> as_i64 revision = Some (i_revision (issues s ! i)))
                   (Conflict ''selected Issue revision changed'')
                 (ensure (case non_null request ''issue_content_hash'' of
                            None \<Rightarrow> True
                          | Some hash \<Rightarrow> as_str hash = Some (i_content_hash (issues s ! i)))
                   (Conflict ''selected Issue requirement changed'')
                 (ensure (i_project_id (issues s ! i) = j_project_id (jobs s ! j))
                   (Invalid ''Issue must belong to the same Project'')
                 (if job_terminal (j_status (jobs s ! j)) then Inr s
                  else attempt (writable s q) (\<lambda>_.
                    Inr (if j_started_at (jobs s ! j) \<noteq> None then activate s i now else s)))))))
            (\<lambda>s1. Inr (s1\<lparr>jobs := upd_nth j (\<lambda>x. x\<lparr>j_issue_id := ident\<rparr>) (jobs s1)\<rparr>)))))"

definition due_date :: "env \<Rightarrow> json \<Rightarrow> string option result" where
  "due_date e request =
     (case get_field request ''due_date'' of
        None \<Rightarrow> Inr None
      | Some JNull \<Rightarrow> Inr None
      | Some (JString date) \<Rightarrow>
          ensure (valid_date e date) (Invalid ''due_date must be YYYY-MM-DD'') (Inr (Some date))
      | _ \<Rightarrow> Inl (Invalid ''due_date must be YYYY-MM-DD or null''))"

section \<open>Issue commands\<close>

definition issue_create :: "env \<Rightarrow> snapshot \<Rightarrow> json \<Rightarrow> int \<Rightarrow> (outcome_value \<times> snapshot) result" where
  "issue_create e s request now =
     attempt (required request ''project'') (\<lambda>q.
     attempt (project_index s q) (\<lambda>p.
     let project = projects s ! p in
     ensure (p_archived_at project = None) (Conflict ''Project is archived'')
     (attempt (required request ''title'') (\<lambda>title.
     let name = entity_name e s (p_id project) ''issue'' None (str_or request ''name'' title) in
     attempt (sequence s (p_id project) ''issue'' now) (\<lambda>number.
     attempt (optional_id s request ''milestone'') (\<lambda>milestone.
     attempt (milestone_project s milestone (p_id project)) (\<lambda>_.
     attempt (of_option (Invalid ''unknown Issue type'') (parse_issue_type (field request ''issue_type''))) (\<lambda>kind.
     attempt (numbered_name e name now number) (\<lambda>filename.
     let issue =
       \<lparr>i_issue_type = kind,
        i_id = (case str_field request ''id'' of Some i \<Rightarrow> i | None \<Rightarrow> new_id e ''issue'' 0),
        i_project_id = p_id project,
        i_milestone_id = milestone,
        i_title = title,
        i_name = name,
        i_sequence = number,
        i_review_content_hash = str_or request ''review_content_hash'' [],
        i_content_hash = str_or request ''content_hash'' [],
        i_status = IssueTodo,
        i_review_reason = None,
        i_revision = 1,
        i_created_at = now,
        i_updated_at = now,
        i_started_at = None,
        i_pending_review_at = None,
        i_completed_at = None,
        i_cancelled_at = None,
        i_archived_at = None,
        i_document_path = document_directory project @ ''/Issues/'' @ filename @ ''.md''\<rparr>
     in Inr (VIssue issue, s\<lparr>issues := issues s @ [issue]\<rparr>))))))))))"

definition issue_update ::
  "env \<Rightarrow> snapshot \<Rightarrow> json \<Rightarrow> nat \<Rightarrow> issue \<Rightarrow> string option \<Rightarrow> string option \<Rightarrow> snapshot result" where
  "issue_update e s request index original renamed milestone =
     attempt
       (case renamed of
          None \<Rightarrow> Inr original
        | Some name \<Rightarrow>
            attempt (of_option (Invalid ''Issue path'') (rsplit_once (CHR ''/'') (i_document_path original)))
              (\<lambda>(parent, _).
            attempt (numbered_name e name (i_created_at original) (i_sequence original)) (\<lambda>filename.
              Inr (original\<lparr>i_document_path := parent @ ''/'' @ filename @ ''.md'', i_name := name\<rparr>)))) (\<lambda>i1.
     attempt
       (if has_field request ''title''
        then attempt (required request ''title'') (\<lambda>title. Inr (i1\<lparr>i_title := title\<rparr>))
        else Inr i1) (\<lambda>i2.
     attempt (apply_content_hashes i2
         (str_or request ''content_hash'' (i_content_hash original))
         (str_or request ''review_content_hash'' (i_review_content_hash original))) (\<lambda>(i3, _).
     let i4 = (if has_field request ''milestone'' then i3\<lparr>i_milestone_id := milestone\<rparr> else i3) in
     attempt
       (if has_field request ''issue_type'' then
          attempt (of_option (Invalid ''unknown Issue type'') (parse_issue_type (field request ''issue_type'')))
            (\<lambda>kind.
          ensure (\<not> issue_terminal (i_status i4) \<or> i_issue_type i4 = kind)
            (Conflict ''reopen terminal Issue before updating type'')
            (Inr (i4\<lparr>i_issue_type := kind\<rparr>)))
        else Inr i4) (\<lambda>i5.
     Inr (s\<lparr>issues := upd_nth index (\<lambda>_. i5) (issues s)\<rparr>)))))"

definition set_issue :: "snapshot \<Rightarrow> nat \<Rightarrow> (issue \<Rightarrow> issue) \<Rightarrow> snapshot" where
  "set_issue s index f = s\<lparr>issues := upd_nth index f (issues s)\<rparr>"

text \<open>The branches of \<open>issue::apply\<close> that end with the common revision step.\<close>

definition issue_transition ::
  "env \<Rightarrow> snapshot \<Rightarrow> json \<Rightarrow> write_options \<Rightarrow> int \<Rightarrow> string \<Rightarrow> nat \<Rightarrow> issue \<Rightarrow> project \<Rightarrow> string option
   \<Rightarrow> string option \<Rightarrow> snapshot result" where
  "issue_transition e s request opts now command index original project renamed milestone =
     (if command = ''issue.update'' then issue_update e s request index original renamed milestone
      else if command = ''issue.submit'' then
        ensure (i_status original \<in> {IssueTodo, IssueActive})
          (Conflict ''Issue must be TODO or ACTIVE to submit'')
        (ensure (terminal_jobs s (i_id original))
          (Conflict ''all associated Jobs must be terminal before Issue acceptance'')
          (Inr (set_issue s index (\<lambda>i. i\<lparr>i_status := IssuePendingReview,
                  i_pending_review_at := Some now, i_review_reason := None\<rparr>))))
      else if command = ''issue.approve'' then
        attempt (human opts) (\<lambda>_.
        ensure (i_status original = IssuePendingReview) (Conflict ''Issue must be PENDING_REVIEW'')
        (ensure (terminal_jobs s (i_id original))
          (Conflict ''all associated Jobs must be terminal before Issue acceptance'')
          (Inr (set_issue s index (\<lambda>i. i\<lparr>i_status := IssueCompleted, i_completed_at := Some now\<rparr>)))))
      else if command = ''issue.reject'' then
        attempt (human opts) (\<lambda>_.
        ensure (i_status original = IssuePendingReview) (Conflict ''Issue must be PENDING_REVIEW'')
        (attempt (required request ''reason'') (\<lambda>reason.
          Inr (set_issue s index (\<lambda>i. i\<lparr>i_status := IssueActive, i_review_reason := Some reason,
                 i_pending_review_at := None\<rparr>)))))
      else if command = ''issue.cancel'' then
        attempt (human opts) (\<lambda>_.
        ensure (\<not> issue_terminal (i_status original)) (Conflict ''reopen terminal Issue before cancelling'')
          (Inr (set_issue (cancel_jobs s (i_id original) now) index
                 (\<lambda>i. i\<lparr>i_status := IssueCancelled, i_cancelled_at := Some now\<rparr>))))
      else if command = ''issue.reopen'' then
        attempt (human opts) (\<lambda>_.
        ensure (issue_terminal (i_status original)) (Conflict ''only terminal Issues can be reopened'')
          (Inr (set_issue s index (\<lambda>i. i\<lparr>i_status := IssueTodo, i_started_at := None,
                 i_pending_review_at := None, i_completed_at := None, i_cancelled_at := None,
                 i_review_reason := None\<rparr>))))
      else if command = ''issue.archive'' \<or> command = ''issue.unarchive'' then
        (let archive = (command = ''issue.archive'') in
         ensure (archive = (i_archived_at original = None)) (Conflict ''Issue archive state unchanged'')
         (ensure (issue_terminal (i_status original)) (Conflict ''complete or cancel Issue before archiving'')
         (attempt (numbered_name e (i_name original) (i_created_at original) (i_sequence original)) (\<lambda>filename.
           Inr (set_issue s index (\<lambda>i. i\<lparr>i_archived_at := (if archive then Some now else None),
             i_document_path := document_directory project @ ''/Issues/''
               @ (if archive then ''Archived/'' else []) @ filename @ ''.md''\<rparr>))))))
      else Inl (Invalid ''unknown command''))"

definition issue_apply ::
  "env \<Rightarrow> snapshot \<Rightarrow> json \<Rightarrow> write_options \<Rightarrow> int \<Rightarrow> (outcome_value \<times> snapshot) result" where
  "issue_apply e s request opts now =
     attempt (required request ''command'') (\<lambda>command.
     ensure (\<not> has_field request ''requirement'' \<and> \<not> has_field request ''acceptance''
             \<and> \<not> has_field request ''notes'')
       (Invalid ''Issue content must be written through the document service'')
     (if command = ''issue.create'' then issue_create e s request now
      else
        attempt (required request ''issue'') (\<lambda>q.
        attempt (issue_index s q) (\<lambda>index.
        let original = issues s ! index in
        attempt (check_revision (i_revision original) opts) (\<lambda>_.
        attempt (project_index s (i_project_id original)) (\<lambda>p.
        let project = projects s ! p in
        ensure (p_archived_at project = None) (Conflict ''Project is archived'')
        (ensure (command = ''issue.unarchive'' \<or> i_archived_at original = None)
          (Conflict ''Issue is archived'')
        (attempt
          (if has_field request ''name''
           then attempt (required request ''name'') (\<lambda>name.
             Inr (Some (entity_name e s (i_project_id original) ''issue'' (Some (i_id original)) name)))
           else Inr None) (\<lambda>renamed.
        attempt (optional_id s request ''milestone'') (\<lambda>milestone.
        attempt
          (if has_field request ''milestone''
           then milestone_project s milestone (i_project_id original) else Inr ()) (\<lambda>_.
        if command = ''issue.start'' then
          attempt (human opts) (\<lambda>_.
          ensure (i_status original = IssueTodo) (Conflict ''only a TODO Issue can be started'')
            (let s1 = activate s index now in Inr (VIssue (issues s1 ! index), s1)))
        else
          attempt (issue_transition e s request opts now command index original project renamed milestone)
            (\<lambda>s1.
              let s2 = set_issue s1 index (\<lambda>i. i\<lparr>i_revision := i_revision i + 1, i_updated_at := now\<rparr>)
              in Inr (VIssue (issues s2 ! index), s2)))))))))))))"

section \<open>Milestone commands\<close>

definition set_milestone :: "snapshot \<Rightarrow> nat \<Rightarrow> (milestone \<Rightarrow> milestone) \<Rightarrow> snapshot" where
  "set_milestone s index f = s\<lparr>milestones := upd_nth index f (milestones s)\<rparr>"

definition milestone_create :: "env \<Rightarrow> snapshot \<Rightarrow> json \<Rightarrow> int \<Rightarrow> (outcome_value \<times> snapshot) result" where
  "milestone_create e s request now =
     attempt (required request ''project'') (\<lambda>q.
     attempt (project_index s q) (\<lambda>p.
     let project = projects s ! p in
     ensure (p_archived_at project = None) (Conflict ''Project is archived'')
     (attempt (required request ''title'') (\<lambda>title.
     let name = entity_name e s (p_id project) ''milestone'' None (str_or request ''name'' title) in
     attempt (sequence s (p_id project) ''milestone'' now) (\<lambda>number.
     attempt (numbered_name e name now number) (\<lambda>filename.
     attempt
       (case get_field request ''order'' of
          None \<Rightarrow> Inr 0
        | Some v \<Rightarrow> of_option (Invalid ''order must be an integer'') (as_i64 v)) (\<lambda>order.
     attempt (due_date e request) (\<lambda>due.
     let milestone =
       \<lparr>m_status = MilestonePlanned, m_started_at = None, m_completed_at = None,
        m_cancelled_at = None, m_archived_at = None,
        m_id = new_id e ''milestone'' 0,
        m_project_id = p_id project,
        m_title = title,
        m_name = name,
        m_sequence = number,
        m_goal = str_or request ''goal'' [],
        m_order = order,
        m_due_date = due,
        m_revision = 1,
        m_created_at = now,
        m_updated_at = now,
        m_document_path = document_directory project @ ''/Milestones/'' @ filename @ ''.md''\<rparr>
     in Inr (VMilestone milestone, s\<lparr>milestones := milestones s @ [milestone]\<rparr>)))))))))"

definition milestone_transition ::
  "env \<Rightarrow> snapshot \<Rightarrow> nat \<Rightarrow> string \<Rightarrow> int \<Rightarrow> (outcome_value \<times> snapshot) result" where
  "milestone_transition e s index command now =
     (let original = milestones s ! index in
     attempt (project_index s (m_project_id original)) (\<lambda>p.
     let directory = document_directory (projects s ! p) in
     attempt
       (if command = ''milestone.start'' then
          ensure (m_status original = MilestonePlanned) (Conflict ''only a PLANNED Milestone can be started'')
            (Inr (set_milestone s index (\<lambda>m. m\<lparr>m_status := MilestoneActive, m_started_at := Some now\<rparr>)))
        else if command = ''milestone.complete'' \<or> command = ''milestone.cancel'' then
          ensure (\<not> milestone_terminal (m_status original)) (Conflict ''reopen terminal Milestone first'')
          (if command = ''milestone.complete'' then
             ensure (\<not> lookup_or False (milestone_active_issues (query_ctx s)) (m_id original)
                     \<and> \<not> list_ex (\<lambda>i. i_milestone_id i = Some (m_id original)
                                        \<and> \<not> issue_terminal (i_status i)) (issues s))
               (Conflict ''Milestone has unfinished Issues; complete, cancel or reassign them first'')
               (Inr (set_milestone s index (\<lambda>m. m\<lparr>m_status := MilestoneCompleted, m_completed_at := Some now\<rparr>)))
           else
             Inr (set_milestone s index (\<lambda>m. m\<lparr>m_status := MilestoneCancelled, m_cancelled_at := Some now\<rparr>)))
        else if command = ''milestone.reopen'' then
          ensure (milestone_terminal (m_status original)) (Conflict ''only terminal Milestones can be reopened'')
            (Inr (set_milestone s index (\<lambda>m. m\<lparr>m_status := MilestonePlanned, m_started_at := None,
                    m_completed_at := None, m_cancelled_at := None\<rparr>)))
        else if command = ''milestone.archive'' \<or> command = ''milestone.unarchive'' then
          (let archive = (command = ''milestone.archive'') in
           ensure (archive = (m_archived_at original = None)) (Conflict ''Milestone archive state unchanged'')
           (ensure (milestone_terminal (m_status original))
              (Conflict ''complete or cancel Milestone before archiving'')
           (attempt (numbered_name e (m_name original) (m_created_at original) (m_sequence original)) (\<lambda>filename.
             Inr (set_milestone s index (\<lambda>m. m\<lparr>m_archived_at := (if archive then Some now else None),
               m_document_path := directory @ ''/Milestones/'' @ (if archive then ''Archived/'' else [])
                 @ filename @ ''.md''\<rparr>))))))
        else Inl (Invalid ''unknown command'')) (\<lambda>s1.
     let s2 = set_milestone s1 index (\<lambda>m. m\<lparr>m_revision := m_revision m + 1, m_updated_at := now\<rparr>)
     in Inr (VMilestone (milestones s2 ! index), s2))))"

definition milestone_delete :: "snapshot \<Rightarrow> nat \<Rightarrow> (outcome_value \<times> snapshot) result" where
  "milestone_delete s i =
     (let removed = milestones s ! i;
          key = sequence_key (m_project_id removed) ''milestone'' (m_created_at removed)
      in ensure (\<not> list_ex (\<lambda>x. i_milestone_id x = Some (m_id removed)) (issues s))
           (Conflict ''unlink or reassign Issues before deleting Milestone'')
           (Inr (VDeleted (m_id removed),
                 s\<lparr>milestones := take i (milestones s) @ drop (Suc i) (milestones s),
                   document_sequences :=
                     AList.update key (max (lookup_or 0 (document_sequences s) key) (m_sequence removed))
                       (document_sequences s)\<rparr>)))"

definition milestone_update ::
  "env \<Rightarrow> snapshot \<Rightarrow> json \<Rightarrow> nat \<Rightarrow> int \<Rightarrow> (outcome_value \<times> snapshot) result" where
  "milestone_update e s request i now =
     (let original = milestones s ! i;
          name = (if has_field request ''name''
                  then Some (entity_name e s (m_project_id original) ''milestone'' (Some (m_id original))
                               (str_or request ''name'' []))
                  else None) in
     attempt (due_date e request) (\<lambda>date.
     attempt
       (if has_field request ''title''
        then attempt (required request ''title'') (\<lambda>title. Inr (original\<lparr>m_title := title\<rparr>))
        else Inr original) (\<lambda>m1.
     attempt
       (case name of
          None \<Rightarrow> Inr m1
        | Some n \<Rightarrow>
            attempt (of_option (Invalid ''Milestone path'') (rsplit_once (CHR ''/'') (m_document_path m1)))
              (\<lambda>(parent, _).
            attempt (numbered_name e n (m_created_at m1) (m_sequence m1)) (\<lambda>filename.
              Inr (m1\<lparr>m_document_path := parent @ ''/'' @ filename @ ''.md'', m_name := n\<rparr>)))) (\<lambda>m2.
     let m3 = (case str_field request ''goal'' of None \<Rightarrow> m2 | Some g \<Rightarrow> m2\<lparr>m_goal := g\<rparr>) in
     attempt
       (if has_field request ''order''
        then attempt (of_option (Invalid ''order must be an integer'') (as_i64 (field request ''order'')))
               (\<lambda>n. Inr (m3\<lparr>m_order := n\<rparr>))
        else Inr m3) (\<lambda>m4.
     let m5 = (if has_field request ''due_date'' then m4\<lparr>m_due_date := date\<rparr> else m4);
         m6 = m5\<lparr>m_revision := m_revision m5 + 1, m_updated_at := now\<rparr>
     in Inr (VMilestone m6, set_milestone s i (\<lambda>_. m6)))))))"

definition milestone_apply ::
  "env \<Rightarrow> snapshot \<Rightarrow> json \<Rightarrow> write_options \<Rightarrow> int \<Rightarrow> (outcome_value \<times> snapshot) result" where
  "milestone_apply e s request opts now =
     attempt (required request ''command'') (\<lambda>command.
     if command = ''milestone.create'' then milestone_create e s request now
     else
       attempt (required request ''milestone'') (\<lambda>q.
       attempt (milestone_index s q) (\<lambda>i.
       let original = milestones s ! i in
       attempt (check_revision (m_revision original) opts) (\<lambda>_.
       attempt (project_index s (m_project_id original)) (\<lambda>p.
       ensure (p_archived_at (projects s ! p) = None) (Conflict ''Project is archived'')
       (ensure (command = ''milestone.unarchive'' \<or> m_archived_at original = None)
         (Conflict ''Milestone is archived'')
       (if command \<noteq> ''milestone.update'' \<and> command \<noteq> ''milestone.delete''
        then milestone_transition e s i command now
        else if command = ''milestone.delete'' then milestone_delete s i
        else milestone_update e s request i now)))))))"

end
