(* ===== verification/Jobs.thy ===== *)
theory Jobs
  imports Issues
begin

text \<open>
  Job commands of \<open>mutations.rs\<close>: creation, edits, cancellation, archive, review and follow-up,
  and the readiness of a Job that the task commands aggregate.
\<close>

section \<open>Readiness and policies\<close>

definition job_ready :: "snapshot \<Rightarrow> string \<Rightarrow> bool" where
  "job_ready s job =
     (let (eligible, incomplete) = lookup_or (0, 0) (job_counts (query_ctx s)) job;
          work = filter (\<lambda>t. t_job_id t = job \<and> t_status t \<noteq> TaskCancelled) (tasks s)
      in (0 < eligible \<or> work \<noteq> []) \<and> incomplete = 0 \<and> list_all (\<lambda>t. t_status t = TaskDone) work)"

fun ready_status :: "review_policy \<Rightarrow> job_status" where
  "ready_status ReviewRequired = JobPendingReview"
| "ready_status ReviewNone = JobCompleted"

definition review_policy :: "json \<Rightarrow> review_policy option result" where
  "review_policy request =
     (case non_null request ''review_policy'' of
        None \<Rightarrow> Inr None
      | Some v \<Rightarrow>
          attempt (of_option (Invalid ''review_policy must be required or none'') (parse_review_policy v))
            (\<lambda>p. Inr (Some p)))"

definition completion_policy :: "job \<Rightarrow> json \<Rightarrow> review_policy option result" where
  "completion_policy j request =
     (case get_field request ''completion_policy'' of
        None \<Rightarrow> Inr None
      | Some value \<Rightarrow>
          attempt (of_option (Invalid ''completion_policy must be required or none'')
              (parse_review_policy value)) (\<lambda>policy.
          attempt (of_option (Invalid ''completion_policy requires expected_job_revision'')
              (Option.bind (get_field request ''expected_job_revision'') as_i64)) (\<lambda>revision.
          ensure (j_revision j = revision) (Conflict ''Job revision changed'')
          (ensure (j_status j = JobActive) (Conflict ''completion policy requires an ACTIVE Job'')
            (Inr (Some policy))))))"

definition set_job :: "snapshot \<Rightarrow> nat \<Rightarrow> (job \<Rightarrow> job) \<Rightarrow> snapshot" where
  "set_job s index f = s\<lparr>jobs := upd_nth index f (jobs s)\<rparr>"

section \<open>Creation\<close>

definition job_numbers :: "snapshot \<Rightarrow> string \<Rightarrow> int \<Rightarrow> (int \<times> nat) list" where
  "job_numbers s project now =
     map (\<lambda>j. (j_created_at j, j_sequence j)) (filter (\<lambda>j. j_project_id j = project) (jobs s))
     @ [(now, lookup_or 0 (sequences (query_ctx s)) (project, ''job''))]
     @ [(now, lookup_or 0 (document_sequences s) (sequence_key project ''job'' now))]"

definition create_job ::
  "env \<Rightarrow> snapshot \<Rightarrow> json \<Rightarrow> write_options \<Rightarrow> int \<Rightarrow> (outcome_value \<times> snapshot) result" where
  "create_job e s request opts now =
     attempt (required request ''project'') (\<lambda>q.
     attempt (project_index s q) (\<lambda>p.
     let project = projects s ! p in
     ensure (p_archived_at project = None) (Conflict ''Project is archived'')
     (attempt (required request ''title'') (\<lambda>title.
     let name = entity_name e s (p_id project) ''job'' None (str_or request ''name'' title) in
     attempt (next_sequence now (job_numbers s (p_id project) now)) (\<lambda>number.
     attempt (numbered_name e name now number) (\<lambda>filename.
     attempt (review_policy request) (\<lambda>policy.
     let j =
       \<lparr>j_id = new_id e ''job'' 0,
        j_project_id = p_id project,
        j_issue_id = None,
        j_title = title,
        j_name = name,
        j_sequence = number,
        j_goal = str_or request ''goal'' [],
        j_prompt = str_or request ''prompt'' [],
        j_conversation = [],
        j_agent = agent_name (actor_ref opts),
        j_session_id = session_ref opts,
        j_status = JobActive,
        j_review_reason = None,
        j_review_policy = (case policy of None \<Rightarrow> ReviewRequired | Some r \<Rightarrow> r),
        j_followup_task_ids = [],
        j_followup_session_id = None,
        j_followup_at = None,
        j_followup_id = None,
        j_pending_review_at = None,
        j_revision = 1,
        j_created_at = now,
        j_updated_at = now,
        j_started_at = None,
        j_completed_at = None,
        j_cancelled_at = None,
        j_archived_at = None,
        j_document_path = document_directory project @ ''/Jobs/'' @ filename @ ''.md''\<rparr>
     in Inr (VJob j, s\<lparr>jobs := jobs s @ [j]\<rparr>))))))))"

section \<open>Review\<close>

text \<open>Acceptance through Obsidian completes the open Tasks and drops their leases.\<close>

definition complete_open_tasks :: "snapshot \<Rightarrow> string \<Rightarrow> int \<Rightarrow> snapshot" where
  "complete_open_tasks s job now =
     (let done_tasks = upd_where (\<lambda>t. t_job_id t = job \<and> \<not> task_terminal (t_status t))
            (\<lambda>t. t\<lparr>t_status := TaskDone, t_phase := None, t_reason := None, t_system_block := False,
                   t_completed_at := Some now, t_updated_at := now, t_revision := t_revision t + 1\<rparr>)
            (tasks s)
      in s\<lparr>tasks := done_tasks,
           leases := filter (\<lambda>l. \<not> list_ex (\<lambda>t. t_job_id t = job \<and> t_id t = l_task_id l) done_tasks)
             (leases s)\<rparr>)"

definition review_job ::
  "snapshot \<Rightarrow> nat \<Rightarrow> json \<Rightarrow> int \<Rightarrow> bool \<Rightarrow> (outcome_value \<times> snapshot) result" where
  "review_job s index request now obsidian =
     (let j = jobs s ! index in
     attempt (required request ''command'') (\<lambda>command.
     attempt (completion_policy j request) (\<lambda>completion.
     let accept_active = (command = ''job.approve'' \<and> j_status j = JobActive);
         expected = (if command = ''job.submit'' \<or> accept_active then JobActive else JobPendingReview) in
     ensure (j_archived_at j = None \<and> j_status j = expected)
       (Conflict ''review command requires an unarchived Job in the expected state'')
     (let human_completion = (obsidian \<and> command = ''job.approve'');
          s1 = (if human_completion then complete_open_tasks s (j_id j) now else s) in
     attempt
       (if command = ''job.reject'' then attempt (required request ''reason'') (\<lambda>r. Inr (Some r))
        else if \<not> human_completion \<and> accept_active then
          (let work = filter (\<lambda>t. t_job_id t = j_id j) (tasks s1) in
           ensure (work \<noteq> [] \<and> list_all (\<lambda>t. task_terminal (t_status t)) work)
             (Conflict ''all Tasks must be DONE, FAILED or CANCELLED and at least one must exist'')
             (Inr None))
        else if \<not> human_completion then
          ensure (job_ready s1 (j_id j))
            (Conflict ''all non-cancelled Tasks must be DONE and at least one must exist'')
            (Inr None)
        else Inr None) (\<lambda>reason.
     let policy = (case completion of None \<Rightarrow> j_review_policy j | Some p \<Rightarrow> p);
         status = (if command = ''job.submit'' then ready_status policy
                   else if command = ''job.approve'' then JobCompleted else JobActive);
         s2 = set_job s1 index (\<lambda>x. x\<lparr>
                j_review_policy := policy,
                j_status := status,
                j_completed_at := (if status = JobCompleted then Some now else None),
                j_pending_review_at := (if status = JobPendingReview then Some now else j_pending_review_at x),
                j_review_reason := reason,
                j_revision := j_revision x + 1,
                j_updated_at := now\<rparr>)
     in Inr (VJob (jobs s2 ! index), s2))))))"

definition aggregate_job :: "snapshot \<Rightarrow> nat \<Rightarrow> bool \<Rightarrow> int \<Rightarrow> snapshot" where
  "aggregate_job s index was_ready now =
     (let j = jobs s ! index;
          ready = job_ready s (j_id j)
      in set_job s index (\<lambda>x.
           (if j_status x = JobActive \<and> \<not> was_ready \<and> ready
            then (let status = ready_status (j_review_policy x)
                  in x\<lparr>j_status := status,
                       j_pending_review_at := (if status = JobPendingReview then Some now else None),
                       j_completed_at := (if status = JobCompleted then Some now else None),
                       j_review_reason := None\<rparr>)
            else x)
           \<lparr>j_revision := j_revision x + 1, j_updated_at := now\<rparr>))"

section \<open>Follow-up, cancellation and edits\<close>

definition followup_job ::
  "env \<Rightarrow> snapshot \<Rightarrow> nat \<Rightarrow> json \<Rightarrow> write_options \<Rightarrow> int \<Rightarrow> (outcome_value \<times> snapshot) result" where
  "followup_job e s index request opts now =
     attempt (required request ''prompt'') (\<lambda>prompt.
     let j = jobs s ! index in
     ensure (j_status j = JobPendingReview \<and> j_archived_at j = None)
       (Conflict ''job.followup requires an unarchived PENDING_REVIEW Job'')
     (let old_tasks = map t_id (filter (\<lambda>t. t_job_id t = j_id j) (tasks s));
          followup = new_id e ''message'' 0;
          message =
            \<lparr>msg_id = ''followup:'' @ followup,
             msg_session_id = (case session_ref opts of
                Some r \<Rightarrow> r
              | None \<Rightarrow> (case j_session_id j of Some r \<Rightarrow> r | None \<Rightarrow> [])),
             msg_role = ''user'',
             msg_text = prompt,
             msg_recorded_at = now\<rparr>;
          s' = set_job s index (\<lambda>x. x\<lparr>
                 j_followup_task_ids := old_tasks,
                 j_followup_session_id := session_ref opts,
                 j_followup_at := Some now,
                 j_followup_id := Some followup,
                 j_conversation := j_conversation x @ [message],
                 j_status := JobActive,
                 j_review_reason := None,
                 j_completed_at := None,
                 j_revision := j_revision x + 1,
                 j_updated_at := now\<rparr>)
      in Inr (VJob (jobs s' ! index), s')))"

definition cancel_job :: "snapshot \<Rightarrow> nat \<Rightarrow> int \<Rightarrow> snapshot result" where
  "cancel_job s i now =
     (let j = jobs s ! i in
     ensure (\<not> job_terminal (j_status j)) (Conflict ''Job is not active'')
     (ensure (\<not> list_ex (\<lambda>l. list_ex (\<lambda>t. t_id t = l_task_id l \<and> t_job_id t = j_id j) (tasks s)) (leases s))
       (Conflict ''release active Task leases before cancelling Job'')
       (Inr (set_job
         (s\<lparr>tasks := upd_where (\<lambda>t. t_job_id t = j_id j \<and> \<not> task_terminal (t_status t))
              (\<lambda>t. t\<lparr>t_completed_at := Some now, t_status := TaskCancelled, t_phase := None,
                     t_revision := t_revision t + 1, t_updated_at := now, t_system_block := False\<rparr>)
              (tasks s)\<rparr>)
         i (\<lambda>x. x\<lparr>j_status := JobCancelled, j_cancelled_at := Some now\<rparr>)))))"

definition association_only :: "json \<Rightarrow> bool" where
  "association_only request =
     (has_field request ''issue''
      \<and> (case request of
           JObject fs \<Rightarrow>
             list_all (\<lambda>(k, _). k \<in> {''command'', ''job'', ''issue'', ''issue_revision'', ''issue_content_hash''}) fs
         | _ \<Rightarrow> False))"

text \<open>The branches \<open>job.update\<close>, \<open>job.archive\<close> and \<open>job.unarchive\<close> on the Job itself.\<close>

definition edit_job :: "env \<Rightarrow> json \<Rightarrow> string option \<Rightarrow> job \<Rightarrow> job result" where
  "edit_job e request renamed j =
     ensure ((j_status j = JobActive \<or> association_only request
              \<or> (renamed \<noteq> None \<and> \<not> has_field request ''title'' \<and> \<not> has_field request ''goal''
                 \<and> \<not> has_field request ''prompt'' \<and> \<not> has_field request ''review_policy''))
             \<and> (j_archived_at j = None \<or> association_only request))
       (Conflict ''Job is closed'')
     (attempt
       (case renamed of
          None \<Rightarrow> Inr j
        | Some name \<Rightarrow>
            attempt (of_option (Failed ''invalid Job path'') (rsplit_once (CHR ''/'') (j_document_path j)))
              (\<lambda>(parent, _).
            attempt (numbered_name e name (j_created_at j) (j_sequence j)) (\<lambda>filename.
              Inr (j\<lparr>j_document_path := parent @ ''/'' @ filename @ ''.md'', j_name := name\<rparr>)))) (\<lambda>j1.
     attempt
       (if has_field request ''title''
        then attempt (required request ''title'') (\<lambda>title. Inr (j1\<lparr>j_title := title\<rparr>))
        else Inr j1) (\<lambda>j2.
     attempt (review_policy request) (\<lambda>policy.
     let j3 = (case policy of None \<Rightarrow> j2 | Some p \<Rightarrow> j2\<lparr>j_review_policy := p\<rparr>);
         j4 = (case str_field request ''prompt'' of None \<Rightarrow> j3 | Some p \<Rightarrow> j3\<lparr>j_prompt := p\<rparr>);
         j5 = (case str_field request ''goal'' of None \<Rightarrow> j4 | Some g \<Rightarrow> j4\<lparr>j_goal := g\<rparr>)
     in Inr j5))))"

definition archive_job :: "env \<Rightarrow> string \<Rightarrow> int \<Rightarrow> job \<Rightarrow> job result" where
  "archive_job e directory now j =
     ensure (job_terminal (j_status j)) (Conflict ''complete or cancel Job before archiving'')
     (ensure (j_archived_at j = None) (Conflict ''Job already archived'')
     (attempt (numbered_name e (j_name j) (j_created_at j) (j_sequence j)) (\<lambda>filename.
       Inr (j\<lparr>j_archived_at := Some now,
              j_document_path := directory @ ''/Jobs/Archived/'' @ filename @ ''.md''\<rparr>))))"

definition unarchive_job :: "env \<Rightarrow> string \<Rightarrow> job \<Rightarrow> job result" where
  "unarchive_job e directory j =
     ensure (j_archived_at j \<noteq> None) (Conflict ''Job is not archived'')
     (attempt (numbered_name e (j_name j) (j_created_at j) (j_sequence j)) (\<lambda>filename.
       Inr (j\<lparr>j_archived_at := None,
              j_document_path := directory @ ''/Jobs/'' @ filename @ ''.md''\<rparr>)))"

text \<open>What \<open>update_job\<close> does when it has not returned for a review or a follow-up.\<close>

definition change_job ::
  "env \<Rightarrow> snapshot \<Rightarrow> json \<Rightarrow> int \<Rightarrow> string \<Rightarrow> nat \<Rightarrow> job \<Rightarrow> string \<Rightarrow> (outcome_value \<times> snapshot) result" where
  "change_job e s request now command i j directory =
     attempt (if command = ''job.cancel'' then cancel_job s i now else Inr s) (\<lambda>s1.
     attempt
       (if command = ''job.update'' \<and> has_field request ''name''
        then attempt (required request ''name'') (\<lambda>name.
          Inr (Some (entity_name e s1 (j_project_id j) ''job'' (Some (j_id j)) name)))
        else Inr None) (\<lambda>renamed.
     let current = jobs s1 ! i in
     attempt
       (if command = ''job.update'' then edit_job e request renamed current
        else if command = ''job.archive'' then archive_job e directory now current
        else if command = ''job.unarchive'' then unarchive_job e directory current
        else Inr current) (\<lambda>j1.
     let j2 = j1\<lparr>j_revision := j_revision j1 + 1, j_updated_at := now\<rparr>
     in Inr (VJob j2, set_job s1 i (\<lambda>_. j2)))))"

definition update_job ::
  "env \<Rightarrow> snapshot \<Rightarrow> json \<Rightarrow> write_options \<Rightarrow> int \<Rightarrow> (outcome_value \<times> snapshot) result" where
  "update_job e s request opts now =
     attempt (required request ''job'') (\<lambda>q.
     attempt (job_index s q) (\<lambda>i.
     let j = jobs s ! i in
     attempt (check_revision (j_revision j) opts) (\<lambda>_.
     attempt (project_index s (j_project_id j)) (\<lambda>p.
     ensure (p_archived_at (projects s ! p) = None) (Conflict ''Project is archived'')
     (attempt (required request ''command'') (\<lambda>command.
     if command \<in> {''job.submit'', ''job.approve'', ''job.reject''} then
       review_job s i request now (actor_ref opts = ''user:obsidian'')
     else if command = ''job.followup'' then
       attempt (case j_issue_id j of None \<Rightarrow> Inr 0 | Some issue \<Rightarrow> writable s issue) (\<lambda>_.
         followup_job e s i request opts now)
     else
       change_job e s request now command i j (document_directory (projects s ! p))))))))"

end
