(* ===== verification/Dependencies.thy ===== *)
theory Dependencies
  imports Task_Model
begin

text \<open>
  The dependency graph of tasks: \<open>depends_on\<close> of \<open>mutations.rs\<close>, a depth-first search with an
  explicit stack, and its equivalence with the transitive closure of the dependency edges.
\<close>

section \<open>The search\<close>

text \<open>
  The first list is \<open>pending\<close> with its last element (the next to be popped) at the head, the
  second the set \<open>seen\<close>.
\<close>

function depends_loop :: "task list \<Rightarrow> string \<Rightarrow> string list \<Rightarrow> string list \<Rightarrow> bool" where
  "depends_loop ts target [] seen = False"
| "depends_loop ts target (x # pending) seen =
     (if x \<in> set seen then depends_loop ts target pending seen
      else case find (\<lambda>t. t_id t = x) ts of
        None \<Rightarrow> depends_loop ts target pending (x # seen)
      | Some t \<Rightarrow>
          if list_ex (\<lambda>d. d = target) (t_dependencies t) then True
          else depends_loop ts target (rev (t_dependencies t) @ pending) (x # seen))"
  by pat_completeness auto
termination
proof (relation "(\<lambda>(ts, target, pending, seen). card (set (map t_id ts) - set seen))
    <*mlex*> (measure (\<lambda>(ts, target, pending, seen). length pending))")
  show "wf ((\<lambda>(ts :: task list, target :: string, pending :: string list, seen).
      card (set (map t_id ts) - set seen))
      <*mlex*> (measure (\<lambda>(ts, target, pending, seen). length pending)))"
    by (intro wf_mlex) simp
next
  fix ts :: "task list" and target x :: string and pending seen
  assume "x \<notin> set seen" "find (\<lambda>t. t_id t = x) ts = None"
  then have "set (map t_id ts) - set (x # seen) = set (map t_id ts) - set seen"
    by (auto simp: find_None_iff)
  then show "((ts, target, pending, x # seen), ts, target, x # pending, seen)
      \<in> (\<lambda>(ts, target, pending, seen). card (set (map t_id ts) - set seen))
        <*mlex*> (measure (\<lambda>(ts, target, pending, seen). length pending))"
    by (intro mlex_leq) simp_all
next
  fix ts :: "task list" and target x :: string and pending seen t
  assume "x \<notin> set seen" "find (\<lambda>t. t_id t = x) ts = Some t"
  then have "x \<in> set (map t_id ts) - set seen"
    by (auto dest: find_SomeD)
  then have "card (set (map t_id ts) - set (x # seen)) < card (set (map t_id ts) - set seen)"
    by (intro psubset_card_mono) auto
  then show "((ts, target, rev (t_dependencies t) @ pending, x # seen), ts, target, x # pending, seen)
      \<in> (\<lambda>(ts, target, pending, seen). card (set (map t_id ts) - set seen))
        <*mlex*> (measure (\<lambda>(ts, target, pending, seen). length pending))"
    by (intro mlex_less) simp
qed (auto intro: mlex_leq)

definition depends_on :: "snapshot \<Rightarrow> string \<Rightarrow> string \<Rightarrow> bool" where
  "depends_on s source target = depends_loop (tasks s) target [source] []"

section \<open>The graph it searches\<close>

definition dep_edges :: "task list \<Rightarrow> (string \<times> string) set" where
  "dep_edges ts = {(t_id t, d) | t d. t \<in> set ts \<and> d \<in> set (t_dependencies t)}"

definition find_edges :: "task list \<Rightarrow> (string \<times> string) set" where
  "find_edges ts = {(x, d) | x d t. find (\<lambda>t. t_id t = x) ts = Some t \<and> d \<in> set (t_dependencies t)}"

lemma find_edges_eq: "distinct (map t_id ts) \<Longrightarrow> find_edges ts = dep_edges ts"
  by (auto simp: find_edges_def dep_edges_def dest!: find_SomeD) (metis find_key)

lemma depends_loop_sound:
  "depends_loop ts target pending seen \<Longrightarrow> \<exists>x \<in> set pending. (x, target) \<in> (find_edges ts)\<^sup>+"
proof (induction ts target pending seen rule: depends_loop.induct)
  case (2 ts target x pending seen)
  show ?case
  proof (cases "x \<in> set seen")
    case True
    with 2 show ?thesis by auto
  next
    case False
    show ?thesis
    proof (cases "find (\<lambda>t. t_id t = x) ts")
      case None
      with 2 False show ?thesis by auto
    next
      case (Some t)
      have edge: "d \<in> set (t_dependencies t) \<Longrightarrow> (x, d) \<in> find_edges ts" for d
        using Some by (auto simp: find_edges_def)
      show ?thesis
      proof (cases "target \<in> set (t_dependencies t)")
        case True
        then show ?thesis using edge by auto
      next
        case miss: False
        with 2 False Some have "\<exists>y \<in> set (rev (t_dependencies t) @ pending). (y, target) \<in> (find_edges ts)\<^sup>+"
          by (auto simp: list_ex_iff)
        then show ?thesis using edge by (auto intro: trancl_into_trancl2)
      qed
    qed
  qed
qed simp

lemma depends_loop_complete:
  assumes "\<not> depends_loop ts target pending seen"
    and "\<forall>x \<in> set seen. find_edges ts `` {x} \<subseteq> set seen \<union> set pending \<and> target \<notin> find_edges ts `` {x}"
  shows "\<exists>S. set seen \<union> set pending \<subseteq> S \<and> find_edges ts `` S \<subseteq> S \<and> target \<notin> find_edges ts `` S"
  using assms
proof (induction ts target pending seen rule: depends_loop.induct)
  case (1 ts target seen)
  then show ?case by (intro exI [of _ "set seen"]) auto
next
  case (2 ts target x pending seen)
  show ?case
  proof (cases "x \<in> set seen")
    case True
    with 2 show ?thesis by (auto simp: insert_absorb)
  next
    case False
    show ?thesis
    proof (cases "find (\<lambda>t. t_id t = x) ts")
      case None
      then have "find_edges ts `` {x} = {}" by (auto simp: find_edges_def)
      moreover have "\<not> depends_loop ts target pending (x # seen)"
        using "2.prems"(1) False None by simp
      ultimately show ?thesis
        using "2.IH"(2) [OF False None] "2.prems"(2) by auto
    next
      case (Some t)
      then have edge: "find_edges ts `` {x} = set (t_dependencies t)" by (auto simp: find_edges_def)
      have miss: "\<not> list_ex (\<lambda>d. d = target) (t_dependencies t)"
        and rest: "\<not> depends_loop ts target (rev (t_dependencies t) @ pending) (x # seen)"
        using "2.prems"(1) False Some by (auto split: if_splits)
      have "\<forall>y \<in> set (x # seen).
          find_edges ts `` {y} \<subseteq> set (x # seen) \<union> set (rev (t_dependencies t) @ pending)
          \<and> target \<notin> find_edges ts `` {y}"
      proof
        fix y assume "y \<in> set (x # seen)"
        then consider "y = x" | "y \<in> set seen" by auto
        then show "find_edges ts `` {y} \<subseteq> set (x # seen) \<union> set (rev (t_dependencies t) @ pending)
          \<and> target \<notin> find_edges ts `` {y}"
        proof cases
          case 1
          then show ?thesis using edge miss by (auto simp: list_ex_iff)
        next
          case 2
          with "2.prems"(2) show ?thesis by auto
        qed
      qed
      from "2.IH"(3) [OF False Some miss rest this] obtain S where
        "set (x # seen) \<union> set (rev (t_dependencies t) @ pending) \<subseteq> S"
        "find_edges ts `` S \<subseteq> S" "target \<notin> find_edges ts `` S"
        by blast
      then show ?thesis by (intro exI [of _ S]) simp
    qed
  qed
qed

lemma closed_set_trancl: "(x, y) \<in> r\<^sup>+ \<Longrightarrow> x \<in> S \<Longrightarrow> r `` S \<subseteq> S \<Longrightarrow> y \<in> r `` S"
  by (induction rule: trancl_induct) auto

lemma depends_on_iff_trancl:
  assumes "distinct (map t_id (tasks s))"
  shows "depends_on s source target \<longleftrightarrow> (source, target) \<in> (dep_edges (tasks s))\<^sup>+"
proof
  assume "depends_on s source target"
  then show "(source, target) \<in> (dep_edges (tasks s))\<^sup>+"
    using depends_loop_sound [of "tasks s" target "[source]" "[]"] find_edges_eq [OF assms]
    by (simp add: depends_on_def)
next
  assume path: "(source, target) \<in> (dep_edges (tasks s))\<^sup>+"
  show "depends_on s source target"
  proof (rule ccontr)
    assume "\<not> depends_on s source target"
    then obtain S where "source \<in> S" "dep_edges (tasks s) `` S \<subseteq> S" "target \<notin> dep_edges (tasks s) `` S"
      using depends_loop_complete [of "tasks s" target "[source]" "[]"] find_edges_eq [OF assms]
      by (auto simp: depends_on_def)
    with path show False by (metis closed_set_trancl)
  qed
qed

lemma acyclic_insert_edges:
  assumes "acyclic r" and "(d, x) \<notin> r\<^sup>*"
  shows "acyclic (insert (x, d) r)"
  using assms by (simp add: acyclic_insert)

end
