(* ===== verification/Tasks.thy ===== *)
theory Tasks
  imports Jobs Dependencies
begin

text \<open>
  Task commands of \<open>mutations.rs\<close>: creation, the lease protocol (claim, heartbeat, release), the
  state machine of \<open>update_task\<close>, Plans, dependencies, and the session commands that block or
  resume the Tasks of a session.
\<close>

definition set_task :: "snapshot \<Rightarrow> nat \<Rightarrow> (task \<Rightarrow> task) \<Rightarrow> snapshot" where
  "set_task s index f = s\<lparr>tasks := upd_nth index f (tasks s)\<rparr>"

section \<open>Creation\<close>

definition task_numbers :: "snapshot \<Rightarrow> string \<Rightarrow> int \<Rightarrow> (int \<times> nat) list" where
  "task_numbers s project now =
     map (\<lambda>t. (t_created_at t, t_sequence t)) (filter (\<lambda>t. t_project_id t = project) (tasks s))
     @ [(now, lookup_or 0 (sequences (query_ctx s)) (project, ''task''))]
     @ [(now, lookup_or 0 (document_sequences s) (sequence_key project ''task'' now))]"

definition add_task ::
  "env \<Rightarrow> snapshot \<Rightarrow> json \<Rightarrow> write_options \<Rightarrow> int \<Rightarrow> (outcome_value \<times> snapshot) result" where
  "add_task e s request opts now =
     attempt (required request ''job'') (\<lambda>q.
     attempt (job_index s q) (\<lambda>i.
     let j = jobs s ! i in
     attempt (case j_issue_id j of None \<Rightarrow> Inr 0 | Some issue \<Rightarrow> writable s issue) (\<lambda>_.
     attempt (project_index s (j_project_id j)) (\<lambda>p.
     ensure (p_archived_at (projects s ! p) = None) (Conflict ''Project is archived'')
     (ensure (j_status j = JobActive \<and> j_archived_at j = None)
       (Conflict ''Job is closed or archived; create a new Job for new scope'')
     (attempt (next_sequence now (task_numbers s (j_project_id j) now)) (\<lambda>number.
     attempt (required request ''title'') (\<lambda>title.
     let t =
       \<lparr>t_id = new_id e ''task'' 0,
        t_project_id = j_project_id j,
        t_job_id = j_id j,
        t_title = title,
        t_name = entity_name e s (j_project_id j) ''task'' None (str_or request ''name'' title),
        t_sequence = number,
        t_status = TaskTodo,
        t_phase = None,
        t_revision = 1,
        t_position = (case task_count (query_ctx s) of Some n \<Rightarrow> n | None \<Rightarrow> int (length (tasks s))),
        t_created_at = now,
        t_updated_at = now,
        t_started_at = None,
        t_completed_at = None,
        t_reason = None,
        t_dependencies = j_followup_task_ids j,
        t_current_plan = None,
        t_last_executor = (case agent_name (actor_ref opts) of None \<Rightarrow> None | Some _ \<Rightarrow> Some (actor_ref opts)),
        t_last_session = session_ref opts,
        t_delegated_by = None,
        t_system_block = False\<rparr>;
       s1 = s\<lparr>tasks := tasks s @ [t]\<rparr>
     in Inr (VTask t None,
             set_job s1 i (\<lambda>x. x\<lparr>j_revision := j_revision x + 1, j_updated_at := now\<rparr>))))))))))"

section \<open>Leases\<close>

definition authorize :: "snapshot \<Rightarrow> task \<Rightarrow> write_options \<Rightarrow> int \<Rightarrow> unit result" where
  "authorize s t opts now =
     (case find (\<lambda>l. l_task_id l = t_id t) (leases s) of
        Some l \<Rightarrow>
          ensure (lease_token opts = Some (l_token l) \<and> session_ref opts = Some (l_session_ref l)
                  \<and> now < l_expires_at l)
            (Conflict ''active Task requires the current lease token and session'') (Inr ())
      | None \<Rightarrow>
          ensure (lease_token opts = None) (Conflict ''lease has expired or been released'') (Inr ()))"

definition claim :: "env \<Rightarrow> snapshot \<Rightarrow> nat \<Rightarrow> json \<Rightarrow> int \<Rightarrow> nat \<Rightarrow> snapshot result" where
  "claim e s i request now k =
     (let t = tasks s ! i in
     ensure (allows (t_status t) TaskInProgress) (Conflict ''Task cannot be claimed from its state'')
     (attempt (required request ''executor'') (\<lambda>executor.
     attempt (required request ''session'') (\<lambda>session.
     ensure (\<not> list_ex (\<lambda>l. l_task_id l = t_id t
                  \<or> (l_executor_ref l = executor \<and> l_session_ref l = session)) (leases s))
       (Conflict ''Task or executor session already leased'')
     (let delegated = str_field request ''delegated_by'';
          l = \<lparr>l_task_id = t_id t, l_executor_ref = executor, l_session_ref = session,
               l_delegated_by = delegated, l_token = new_id e ''lease'' k,
               l_expires_at = now + default_lease_seconds\<rparr>
      in Inr (set_task (s\<lparr>leases := leases s @ [l]\<rparr>) i (\<lambda>x. x\<lparr>
           t_status := TaskInProgress,
           t_phase := Some Planning,
           t_system_block := False,
           t_reason := None,
           t_last_executor := Some executor,
           t_last_session := Some session,
           t_delegated_by := delegated\<rparr>)))))))"

definition system_block :: "snapshot \<Rightarrow> nat \<Rightarrow> string \<Rightarrow> int \<Rightarrow> snapshot" where
  "system_block s index reason now =
     (let s1 = set_task s index (\<lambda>t. t\<lparr>t_status := TaskBlocked, t_phase := None, t_reason := Some reason,
            t_system_block := True, t_revision := t_revision t + 1, t_updated_at := now\<rparr>)
      in s1\<lparr>leases := filter (\<lambda>l. l_task_id l \<noteq> t_id (tasks s ! index)) (leases s1)\<rparr>)"

section \<open>The branches of \<open>update_task\<close>\<close>

definition start_task :: "snapshot \<Rightarrow> nat \<Rightarrow> nat \<Rightarrow> int \<Rightarrow> snapshot result" where
  "start_task s i j now =
     (let t = tasks s ! i in
     attempt
       (case j_issue_id (jobs s ! j) of
          None \<Rightarrow> Inr s
        | Some issue \<Rightarrow> attempt (writable s issue) (\<lambda>index. Inr (activate s index now))) (\<lambda>s1.
     ensure (t_phase t = Some Planning) (Conflict ''Task must be in PLANNING before start'')
     (ensure (t_current_plan t \<noteq> None) (Invalid ''current Plan is required before start'')
     (ensure (list_all (\<lambda>d. list_ex (\<lambda>u. t_id u = d \<and> t_status u = TaskDone) (tasks s1)) (t_dependencies t))
       (Conflict ''dependencies are incomplete'')
     (Inr (set_job
       (set_task s1 i (\<lambda>x. x\<lparr>t_phase := Some Executing,
          t_started_at := (case t_started_at x of None \<Rightarrow> Some now | a \<Rightarrow> a)\<rparr>))
       j (\<lambda>x. x\<lparr>j_started_at := (case j_started_at x of None \<Rightarrow> Some now | a \<Rightarrow> a)\<rparr>)))))))"

definition heartbeat_task :: "snapshot \<Rightarrow> task \<Rightarrow> int \<Rightarrow> snapshot result" where
  "heartbeat_task s t now =
     (case position (\<lambda>l. l_task_id l = t_id t) (leases s) of
        None \<Rightarrow> Inl (Conflict ''no active lease'')
      | Some k \<Rightarrow>
          Inr (s\<lparr>leases := upd_nth k (\<lambda>l. l\<lparr>l_expires_at := now + default_lease_seconds\<rparr>) (leases s)\<rparr>))"

definition rename_plan_files :: "string \<Rightarrow> string \<Rightarrow> plan list \<Rightarrow> plan list result" where
  "rename_plan_files task filename ps =
     map_result (\<lambda>p. if pl_task_id p = task
       then attempt (of_option (Failed ''invalid Plan path'') (rsplit_once (CHR ''/'') (pl_path p)))
              (\<lambda>(parent, _). Inr (p\<lparr>pl_path := parent @ ''/'' @ filename @ ''.md''\<rparr>))
       else Inr p) ps"

definition edit_task :: "env \<Rightarrow> snapshot \<Rightarrow> nat \<Rightarrow> nat \<Rightarrow> json \<Rightarrow> snapshot result" where
  "edit_task e s i j request =
     (let t = tasks s ! i in
     ensure ((j_status (jobs s ! j) = JobActive \<and> \<not> task_terminal (t_status t))
             \<or> (has_field request ''name'' \<and> \<not> has_field request ''title'' \<and> \<not> has_field request ''position''))
       (Conflict ''Task is closed'')
     (attempt
       (if has_field request ''name'' then
          attempt (required request ''name'') (\<lambda>n.
          let name = entity_name e s (t_project_id t) ''task'' (Some (t_id t)) n in
          attempt (numbered_name e name (t_created_at t) (t_sequence t)) (\<lambda>filename.
          attempt (rename_plan_files (t_id t) filename (plans s)) (\<lambda>ps.
          Inr (set_task (s\<lparr>plans := ps\<rparr>) i (\<lambda>x. x\<lparr>t_name := name\<rparr>)))))
        else Inr s) (\<lambda>s1.
     attempt
       (if has_field request ''title''
        then attempt (required request ''title'') (\<lambda>title. Inr (set_task s1 i (\<lambda>x. x\<lparr>t_title := title\<rparr>)))
        else Inr s1) (\<lambda>s2.
     case as_i64 (field request ''position'') of
       None \<Rightarrow> Inr s2
     | Some n \<Rightarrow>
         ensure (0 \<le> n) (Invalid ''negative position'')
           (Inr (set_task s2 i (\<lambda>x. x\<lparr>t_position := n\<rparr>)))))))"

definition depend_task :: "snapshot \<Rightarrow> nat \<Rightarrow> json \<Rightarrow> bool \<Rightarrow> snapshot result" where
  "depend_task s i request adding =
     (let t = tasks s ! i in
     ensure (t_started_at t = None) (Conflict ''dependencies cannot change after Task starts'')
     (attempt (required request ''dependency'') (\<lambda>q.
     attempt (task_index s q) (\<lambda>d.
     let dependency = tasks s ! d in
     ensure (t_project_id dependency = t_project_id t) (Invalid ''dependency must belong to the same Project'')
     (ensure (t_id dependency \<noteq> t_id t) (Invalid ''Task cannot depend on itself'')
     (if adding then
        ensure (\<not> depends_on s (t_id dependency) (t_id t)) (Invalid ''dependency cycle'')
          (Inr (if t_id dependency \<in> set (t_dependencies t) then s
                else set_task s i (\<lambda>x. x\<lparr>t_dependencies := t_dependencies x @ [t_id dependency]\<rparr>)))
      else
        Inr (set_task s i (\<lambda>x. x\<lparr>t_dependencies := filter (\<lambda>y. y \<noteq> t_id dependency) (t_dependencies x)\<rparr>))))))))"

definition next_plan_version :: "plan list \<Rightarrow> string \<Rightarrow> int" where
  "next_plan_version ps task =
     (case map pl_version (filter (\<lambda>p. pl_task_id p = task) ps) of
        [] \<Rightarrow> 0
      | v # vs \<Rightarrow> fold max vs v) + 1"

definition register_plan ::
  "env \<Rightarrow> snapshot \<Rightarrow> nat \<Rightarrow> json \<Rightarrow> int \<Rightarrow> (outcome_value \<times> snapshot) result" where
  "register_plan e s i request now =
     (let t = tasks s ! i in
     ensure (\<not> task_terminal (t_status t)) (Conflict ''Task is closed'')
     (attempt (of_option (Failed ''plan'') (parse_plan e (field request ''plan''))) (\<lambda>p.
     ensure (pl_task_id p = t_id t \<and> pl_version p = next_plan_version (plans s) (t_id t))
       (Conflict ''Plan version changed'')
     (Inr (VPlan p,
        set_task (s\<lparr>plans := filter (\<lambda>x. pl_task_id x \<noteq> t_id t) (plans s) @ [p]\<rparr>) i
          (\<lambda>x. x\<lparr>t_current_plan := Some (pl_id p), t_revision := t_revision x + 1, t_updated_at := now\<rparr>))))))"

definition reopen_task :: "snapshot \<Rightarrow> nat \<Rightarrow> nat \<Rightarrow> bool \<Rightarrow> snapshot result" where
  "reopen_task s i j retry =
     (let t = tasks s ! i in
     ensure (if retry then t_status t = TaskFailed else t_status t \<in> {TaskDone, TaskCancelled})
       (Invalid ''wrong terminal state'')
     (ensure (\<not> list_ex (\<lambda>u. t_started_at u \<noteq> None \<and> depends_on s (t_id u) (t_id t)) (tasks s))
       (Conflict ''a downstream Task has already started'')
     (Inr (set_job
       (set_task s i (\<lambda>x. x\<lparr>t_completed_at := None, t_status := TaskTodo, t_phase := None,
          t_reason := None, t_system_block := False\<rparr>))
       j (\<lambda>x. x\<lparr>j_status := JobActive, j_completed_at := None\<rparr>)))))"

definition next_status :: "string \<Rightarrow> task_status" where
  "next_status command =
     (if command = ''task.done'' then TaskDone
      else if command = ''task.fail'' then TaskFailed
      else if command = ''task.cancel'' then TaskCancelled
      else if command = ''task.wait'' then TaskWaitingUser
      else TaskBlocked)"

definition leave_task ::
  "snapshot \<Rightarrow> nat \<Rightarrow> json \<Rightarrow> int \<Rightarrow> string \<Rightarrow> bool \<Rightarrow> bool \<Rightarrow> snapshot result" where
  "leave_task s i request now command finish_blocked finish_human =
     (let t = tasks s ! i; next = next_status command in
     ensure (command = ''task.done'' \<and> \<not> finish_blocked \<and> \<not> finish_human \<longrightarrow> t_phase t = Some Executing)
       (Conflict ''Task must be EXECUTING before done; call start first'')
     (ensure (finish_human \<or> allows (t_status t) next) (Invalid ''transition'')
     (attempt
       (if next \<in> {TaskBlocked, TaskWaitingUser, TaskFailed}
        then attempt (required request ''reason'') (\<lambda>r. Inr (Some r)) else Inr None) (\<lambda>reason.
     let s1 = set_task s i (\<lambda>x. x\<lparr>
           t_completed_at := (if task_terminal next then Some now else None),
           t_status := next,
           t_phase := None,
           t_reason := reason,
           t_system_block := False\<rparr>)
     in Inr (s1\<lparr>leases := filter (\<lambda>l. l_task_id l \<noteq> t_id t) (leases s1)\<rparr>)))))"

text \<open>The match of \<open>update_task\<close>; \<open>plan.register\<close> returns from inside it and is handled below.\<close>

definition task_branch ::
  "env \<Rightarrow> snapshot \<Rightarrow> nat \<Rightarrow> nat \<Rightarrow> json \<Rightarrow> int \<Rightarrow> string \<Rightarrow> bool \<Rightarrow> bool \<Rightarrow> snapshot result" where
  "task_branch e s i j request now command finish_blocked finish_human =
     (if command = ''task.claim'' then claim e s i request now 0
      else if command = ''task.start'' then start_task s i j now
      else if command = ''task.heartbeat'' then heartbeat_task s (tasks s ! i) now
      else if command = ''task.update'' then edit_task e s i j request
      else if command = ''task.depend'' \<or> command = ''task.undepend''
        then depend_task s i request (command = ''task.depend'')
      else if command = ''task.retry'' \<or> command = ''task.reopen''
        then reopen_task s i j (command = ''task.retry'')
      else if command \<in> {''task.block'', ''task.wait'', ''task.done'', ''task.fail'', ''task.cancel'',
          ''task.release''}
        then leave_task s i request now command finish_blocked finish_human
      else Inl (Invalid ''unknown command''))"

text \<open>What \<open>update_task\<close> does after its match: the revision, the completion policy, the Job.\<close>

definition finish_task ::
  "snapshot \<Rightarrow> nat \<Rightarrow> nat \<Rightarrow> task \<Rightarrow> review_policy option \<Rightarrow> bool \<Rightarrow> int \<Rightarrow> (outcome_value \<times> snapshot) result" where
  "finish_task s1 i j t completion was_ready now =
     (let s2 = set_task s1 i (\<lambda>x. x\<lparr>t_revision := t_revision x + 1, t_updated_at := now\<rparr>) in
      attempt
        (case completion of
           None \<Rightarrow> Inr s2
         | Some policy \<Rightarrow>
             ensure (\<not> was_ready \<and> job_ready s2 (t_job_id t))
               (Conflict ''completion policy requires the final unfinished Task'')
               (Inr (set_job s2 j (\<lambda>x. x\<lparr>j_review_policy := policy\<rparr>)))) (\<lambda>s3.
      let s4 = aggregate_job s3 j was_ready now in
      attempt (task_result s4 (t_id t)) (\<lambda>v. Inr (v, s4))))"

definition update_task ::
  "env \<Rightarrow> snapshot \<Rightarrow> json \<Rightarrow> write_options \<Rightarrow> int \<Rightarrow> (outcome_value \<times> snapshot) result" where
  "update_task e s request opts now =
     attempt (required request ''task'') (\<lambda>q.
     attempt (task_index s q) (\<lambda>i.
     let t = tasks s ! i in
     attempt (job_index s (t_job_id t)) (\<lambda>j.
     let was_ready = job_ready s (t_job_id t) in
     attempt (completion_policy (jobs s ! j) request) (\<lambda>completion.
     attempt (check_revision (t_revision t) opts) (\<lambda>_.
     attempt (project_index s (t_project_id t)) (\<lambda>p.
     ensure (p_archived_at (projects s ! p) = None) (Conflict ''Project is archived'')
     (ensure (j_archived_at (jobs s ! j) = None \<and> j_status (jobs s ! j) \<noteq> JobCancelled)
       (Conflict ''Job is archived or cancelled'')
     (attempt (required request ''command'') (\<lambda>command.
     let finish_human = (command = ''task.done'' \<and> actor_ref opts = ''user:obsidian''
                         \<and> \<not> task_terminal (t_status t));
         finish_blocked = (command = ''task.done'' \<and> t_status t = TaskBlocked) in
     attempt (if command \<noteq> ''task.claim'' \<and> \<not> finish_human then authorize s t opts now else Inr ()) (\<lambda>_.
     ensure (command \<in> {''plan.register'', ''task.start'', ''task.done''} \<and> \<not> finish_blocked \<and> \<not> finish_human
             \<longrightarrow> t_status t = TaskInProgress \<and> list_ex (\<lambda>l. l_task_id l = t_id t) (leases s))
       (Conflict ''command requires an active Task lease'')
     (if command = ''plan.register'' then register_plan e s i request now
      else
        attempt (task_branch e s i j request now command finish_blocked finish_human) (\<lambda>s1.
          finish_task s1 i j t completion was_ready now))))))))))))"

section \<open>Sessions\<close>

definition other_session :: "json \<Rightarrow> string \<Rightarrow> task \<Rightarrow> bool" where
  "other_session request session t =
     (t_last_session t \<noteq> Some session
      \<or> (case str_field request ''executor'' of
           None \<Rightarrow> False
         | Some host \<Rightarrow>
             (case t_last_executor t of
                None \<Rightarrow> True
              | Some executor \<Rightarrow> executor \<noteq> host \<and> \<not> starts_with executor (host @ '':''))))"

definition opt_json :: "string option \<Rightarrow> json" where
  "opt_json x = (case x of None \<Rightarrow> JNull | Some v \<Rightarrow> JString v)"

definition session_step ::
  "env \<Rightarrow> json \<Rightarrow> string \<Rightarrow> string \<Rightarrow> int \<Rightarrow> nat \<Rightarrow> snapshot \<times> string list \<Rightarrow> snapshot \<times> string list" where
  "session_step e request command session now i acc =
     (let (s, changed) = acc; t = tasks s ! i in
      if other_session request session t then acc
      else if (command = ''session.end'' \<or> command = ''session.interrupt'') \<and> t_status t = TaskInProgress then
        (system_block s i
           (if command = ''session.interrupt'' then ''session interrupted'' else ''session ended'') now,
         changed @ [t_id t])
      else if command = ''session.start'' \<and> t_system_block t \<and> t_status t = TaskBlocked then
        (case claim e s i
            (JObject [(''executor'', opt_json (t_last_executor t)), (''session'', JString session),
                      (''delegated_by'', opt_json (t_delegated_by t))]) now i of
           Inl _ \<Rightarrow> acc
         | Inr s1 \<Rightarrow>
             (set_task s1 i (\<lambda>x. x\<lparr>t_revision := t_revision x + 1, t_updated_at := now\<rparr>),
              changed @ [t_id t]))
      else if command = ''session.heartbeat'' then
        (s\<lparr>leases := upd_where (\<lambda>l. l_task_id l = t_id t \<and> l_session_ref l = session)
             (\<lambda>l. l\<lparr>l_expires_at := now + default_lease_seconds\<rparr>) (leases s)\<rparr>, changed)
      else acc)"

definition session :: "env \<Rightarrow> snapshot \<Rightarrow> json \<Rightarrow> int \<Rightarrow> (outcome_value \<times> snapshot) result" where
  "session e s request now =
     attempt (required request ''session'') (\<lambda>ref.
     attempt (required request ''command'') (\<lambda>command.
     let (s', changed) = fold (session_step e request command ref now) [0..<length (tasks s)] (s, [])
     in Inr (VSession ref changed, s')))"

end
