(* ===== verification/Projects.thy ===== *)
theory Projects
  imports Mutation_Base
begin

text \<open>
  Project commands: registration, move, archive (\<open>mutations.rs\<close>) and renaming of the published
  folder (\<open>rename\<close> of \<open>project_rename.rs\<close>), with the part of \<open>std::path::Path\<close> on Unix that the
  renaming uses.
\<close>

section \<open>Paths\<close>

datatype component = RootDir | CurDir | ParentDir | Normal string

fun split_slash :: "string \<Rightarrow> string list" where
  "split_slash [] = [[]]"
| "split_slash (c # cs) =
     (if c = CHR ''/'' then [] # split_slash cs
      else (case split_slash cs of seg # segs \<Rightarrow> (c # seg) # segs | [] \<Rightarrow> [[c]]))"

definition path_components :: "string \<Rightarrow> component list" where
  "path_components path =
     (let segs = split_slash path
      in (if starts_with path ''/'' then [RootDir] else if hd segs = ''.'' then [CurDir] else [])
         @ map (\<lambda>x. if x = ''..'' then ParentDir else Normal x)
             (filter (\<lambda>x. x \<noteq> [] \<and> x \<noteq> ''.'') segs))"

definition is_normal :: "component \<Rightarrow> bool" where
  "is_normal c = (case c of Normal _ \<Rightarrow> True | _ \<Rightarrow> False)"

text \<open>Trailing separators and trailing \<open>.\<close> components, on the reversed path.\<close>

fun trim_tail_rev :: "string \<Rightarrow> string" where
  "trim_tail_rev s =
     (case s of
        c # r \<Rightarrow>
          if c = CHR ''/'' \<and> r \<noteq> [] then trim_tail_rev r
          else if c = CHR ''.'' \<and> r \<noteq> [] \<and> hd r = CHR ''/'' then trim_tail_rev r
          else s
      | [] \<Rightarrow> s)"

declare trim_tail_rev.simps [simp del]

definition trim_tail :: "string \<Rightarrow> string" where
  "trim_tail path = rev (trim_tail_rev (rev path))"

definition parent_path :: "string \<Rightarrow> string" where
  "parent_path path =
     (case rsplit_once (CHR ''/'') (trim_tail path) of
        None \<Rightarrow> []
      | Some (front, _) \<Rightarrow> if front = [] then ''/'' else trim_tail front)"

definition with_file_name :: "string \<Rightarrow> string \<Rightarrow> string" where
  "with_file_name path name =
     (let comps = path_components path;
          base = (if comps \<noteq> [] \<and> is_normal (last comps) then parent_path path else path)
      in if base = [] \<or> last base = CHR ''/'' then base @ name else base @ ''/'' @ name)"

section \<open>Commands\<close>

definition register_project :: "env \<Rightarrow> snapshot \<Rightarrow> json \<Rightarrow> int \<Rightarrow> (outcome_value \<times> snapshot) result" where
  "register_project e s request now =
     attempt (required request ''root'') (\<lambda>root.
     case find (\<lambda>p. p_root p = root \<or> registered_project (query_ctx s) = Some (p_id p)) (projects s) of
       Some p \<Rightarrow> Inr (VProject p, s)
     | None \<Rightarrow>
         attempt (required request ''name'') (\<lambda>name.
         let key = (case available_project_key (query_ctx s) of
                      Some k \<Rightarrow> k
                    | None \<Rightarrow> unique_name e name (map p_key (projects s)));
             project =
               \<lparr>p_id = new_id e ''prj'' 0, p_key = key, p_name = key, p_root = root,
                p_remote = str_field request ''remote'', p_revision = 1, p_created_at = now,
                p_archived_at = None, p_document_directory = None\<rparr>
         in Inr (VProject project, s\<lparr>projects := projects s @ [project]\<rparr>)))"

definition move_project :: "env \<Rightarrow> snapshot \<Rightarrow> json \<Rightarrow> write_options \<Rightarrow> (outcome_value \<times> snapshot) result" where
  "move_project e s request opts =
     attempt (required request ''project'') (\<lambda>q.
     attempt (project_index s q) (\<lambda>index.
     attempt (check_revision (p_revision (projects s ! index)) opts) (\<lambda>_.
     attempt (required request ''root'') (\<lambda>root.
     ensure (is_dir e root) (Invalid ''Project root must be an existing directory'')
     (attempt (of_option (Failed ''canonicalize'') (canonicalize e root)) (\<lambda>canonical.
     attempt
       (case get_field request ''remote'' of
          None \<Rightarrow> Inr None
        | Some JNull \<Rightarrow> Inr None
        | Some (JString r) \<Rightarrow>
            if is_blank r then Inl (Invalid ''remote must be a nonblank string or null'') else Inr (Some r)
        | _ \<Rightarrow> Inl (Invalid ''remote must be a nonblank string or null'')) (\<lambda>remote.
     let s' = s\<lparr>projects := upd_nth index
           (\<lambda>p. p\<lparr>p_root := canonical, p_remote := remote, p_revision := p_revision p + 1\<rparr>) (projects s)\<rparr>
     in Inr (VProject (projects s' ! index), s'))))))))"

definition archive_project ::
  "snapshot \<Rightarrow> json \<Rightarrow> write_options \<Rightarrow> int \<Rightarrow> (outcome_value \<times> snapshot) result" where
  "archive_project s request opts now =
     attempt (required request ''project'') (\<lambda>q.
     attempt (project_index s q) (\<lambda>i.
     let project = projects s ! i in
     attempt (check_revision (p_revision project) opts) (\<lambda>_.
     attempt (required request ''command'') (\<lambda>command.
     let archive = (command = ''project.archive'') in
     ensure (archive = (p_archived_at project = None)) (Conflict ''Project archive state unchanged'')
     (ensure (archive \<longrightarrow> \<not> list_ex (\<lambda>x. i_project_id x = p_id project \<and> \<not> issue_terminal (i_status x)) (issues s))
       (Conflict ''complete or cancel all Issues before archiving Project'')
     (ensure (archive \<longrightarrow> \<not> list_ex (\<lambda>j. j_project_id j = p_id project \<and> \<not> job_terminal (j_status j)) (jobs s))
       (Conflict ''complete or cancel all Jobs before archiving Project'')
     (let s' = s\<lparr>projects := upd_nth i
           (\<lambda>p. p\<lparr>p_archived_at := (if archive then Some now else None), p_revision := p_revision p + 1\<rparr>)
           (projects s)\<rparr>
      in Inr (VProject (projects s' ! i), s'))))))))"

definition replace_backslash :: "string \<Rightarrow> string" where
  "replace_backslash = map (\<lambda>c. if c = CHR 0x5C then CHR ''/'' else c)"

text \<open>\<open>path = new ++ path.strip_prefix(old)\<close>, with an error when the prefix is missing.\<close>

definition rebase_path :: "error \<Rightarrow> string \<Rightarrow> string \<Rightarrow> string \<Rightarrow> string result" where
  "rebase_path err old new path =
     attempt (of_option err (strip_prefix old path)) (\<lambda>rest. Inr (new @ rest))"

definition rename_project ::
  "snapshot \<Rightarrow> json \<Rightarrow> write_options \<Rightarrow> (outcome_value \<times> snapshot) result" where
  "rename_project s request opts =
     attempt (required request ''project'') (\<lambda>q.
     attempt (project_index s q) (\<lambda>index.
     let project = projects s ! index in
     attempt (check_revision (p_revision project) opts) (\<lambda>_.
     attempt (required request ''name'') (\<lambda>name.
     ensure (short_name name = name)
       (Invalid ''Project folder name must be a portable name of at most 48 characters'')
     (let old = document_directory project @ ''/'';
          directory = (case str_field request ''directory'' of
             Some d \<Rightarrow> d
           | None \<Rightarrow> replace_backslash (with_file_name (document_directory project) name)) in
     ensure (list_all is_normal (path_components directory) \<and> 2 \<le> length (split_slash directory))
       (Invalid ''project document directory'')
     (let new = directory @ ''/'';
          project' = project\<lparr>p_document_directory :=
                        (if directory \<noteq> ''Projects/'' @ name then Some directory else None),
                      p_name := name, p_key := name, p_revision := p_revision project + 1\<rparr>;
          work = map t_id (filter (\<lambda>t. t_project_id t = p_id project) (tasks s)) in
     attempt (map_result (\<lambda>x. if i_project_id x = p_id project
         then attempt (rebase_path (Failed ''invalid Issue or Milestone document path'') old new (i_document_path x))
                (\<lambda>path. Inr (x\<lparr>i_document_path := path, i_revision := i_revision x + 1\<rparr>))
         else Inr x) (issues s)) (\<lambda>issues'.
     attempt (map_result (\<lambda>x. if m_project_id x = p_id project
         then attempt (rebase_path (Failed ''invalid Issue or Milestone document path'') old new (m_document_path x))
                (\<lambda>path. Inr (x\<lparr>m_document_path := path, m_revision := m_revision x + 1\<rparr>))
         else Inr x) (milestones s)) (\<lambda>milestones'.
     attempt (map_result (\<lambda>x. if j_project_id x = p_id project
         then attempt (rebase_path (Failed ''invalid Job document path'') old new (j_document_path x))
                (\<lambda>path. Inr (x\<lparr>j_document_path := path, j_revision := j_revision x + 1\<rparr>))
         else Inr x) (jobs s)) (\<lambda>jobs'.
     attempt (map_result (\<lambda>x. if pl_task_id x \<in> set work
         then attempt (rebase_path (Failed ''invalid Plan document path'') old new (pl_path x))
                (\<lambda>path. Inr (x\<lparr>pl_path := path\<rparr>))
         else Inr x) (plans s)) (\<lambda>plans'.
     Inr (VProject project',
          s\<lparr>projects := upd_nth index (\<lambda>_. project') (projects s), issues := issues',
            milestones := milestones', jobs := jobs', plans := plans'\<rparr>)))))))))))"

end
