(* ===== verification/Deletion.thy ===== *)
theory Deletion
  imports Mutation_Base
begin

text \<open>
  Permanent removal of a Job or a Project: \<open>apply\<close> of \<open>deletion.rs\<close>. The highest sequence number
  of the removed documents is retained in \<open>document_sequences\<close>.
\<close>

definition retain_number :: "string \<Rightarrow> nat \<Rightarrow> (string \<times> nat) list \<Rightarrow> (string \<times> nat) list" where
  "retain_number key number seqs = AList.update key (max (lookup_or 0 seqs key) number) seqs"

definition deletion_apply ::
  "snapshot \<Rightarrow> json \<Rightarrow> write_options \<Rightarrow> (outcome_value \<times> snapshot) result" where
  "deletion_apply s request opts =
     attempt (required request ''command'') (\<lambda>command.
     let project_delete = (command = ''project.delete'') in
     attempt
       (if project_delete then
          attempt (required request ''project'') (\<lambda>q.
          attempt (project_index s q) (\<lambda>i.
          let p = projects s ! i in
          Inr (p_id p, p_revision p, map j_id (filter (\<lambda>j. j_project_id j = p_id p) (jobs s)))))
        else
          attempt (required request ''job'') (\<lambda>q.
          attempt (job_index s q) (\<lambda>i.
          let j = jobs s ! i in Inr (j_id j, j_revision j, [j_id j])))) (\<lambda>(ident, revision, gone).
     attempt (check_revision revision opts) (\<lambda>_.
     let work = map t_id (filter (\<lambda>t. t_job_id t \<in> set gone) (tasks s)) in
     ensure (\<not> list_ex (\<lambda>l. l_task_id l \<in> set work) (leases s))
       (Conflict ''release active Task leases before deleting'')
     (ensure (\<not> list_ex (\<lambda>t. t_id t \<notin> set work \<and> list_ex (\<lambda>d. d \<in> set work) (t_dependencies t)) (tasks s))
       (Conflict ''other Jobs depend on these Tasks; remove dependencies before deleting'')
     (let seqs1 = fold (\<lambda>j. retain_number (sequence_key (j_project_id j) ''job'' (j_created_at j)) (j_sequence j))
            (filter (\<lambda>j. j_id j \<in> set gone) (jobs s)) (document_sequences s);
          seqs2 = fold (\<lambda>t. retain_number (sequence_key (t_project_id t) ''task'' (t_created_at t)) (t_sequence t))
            (filter (\<lambda>t. t_id t \<in> set work) (tasks s)) seqs1;
          removed_plans = length (filter (\<lambda>p. pl_task_id p \<in> set work) (plans s));
          s1 = s\<lparr>document_sequences := seqs2,
                 plans := filter (\<lambda>p. pl_task_id p \<notin> set work) (plans s),
                 tasks := filter (\<lambda>t. t_id t \<notin> set work) (tasks s),
                 jobs := filter (\<lambda>j. j_id j \<notin> set gone) (jobs s)\<rparr>;
          s2 = (if project_delete then
                  s1\<lparr>issues := filter (\<lambda>x. i_project_id x \<noteq> ident) (issues s1),
                     milestones := filter (\<lambda>x. m_project_id x \<noteq> ident) (milestones s1),
                     projects := filter (\<lambda>p. p_id p \<noteq> ident) (projects s1),
                     document_sequences := filter (\<lambda>(k, _). \<not> starts_with k (ident @ '':''))
                       (document_sequences s1)\<rparr>
                else s1)
      in Inr (VDeletedWork ident (length (remdups gone)) (length (remdups work)) removed_plans, s2))))))"

end
