(* ===== verification/Conversation.thy ===== *)
theory Conversation
  imports Mutation_Base "HOL-Library.Char_ord" "HOL-Library.List_Lexorder" "HOL-Library.Product_Lexorder"
begin

text \<open>
  The conversation of a Job (\<open>conversation.rs\<close>): removal of host context from user text, the
  choice of a session's Job, and the ordered merge of recorded messages. Strings are compared by
  their bytes, pairs lexicographically, as Rust's \<open>Ord\<close> does.
\<close>

section \<open>User text\<close>

definition wrapper_tags :: "string list" where
  "wrapper_tags = [''INSTRUCTIONS'', ''environment_context'', ''system-reminder'', ''turn_aborted'']"

definition open_tag :: "string \<Rightarrow> string" where
  "open_tag tag = ''<'' @ tag @ ''>''"

definition close_tag :: "string \<Rightarrow> string" where
  "close_tag tag = ''</'' @ tag @ ''>''"

text \<open>
  One round of the loop in \<open>user_text\<close>: the block that may be a wrapper, and the text after the
  wrapper. \<open>None\<close> is a return of the text as it is.
\<close>

definition wrapper_block :: "string \<Rightarrow> string option" where
  "wrapper_block value =
     (case split_once [CHR 0x0A] value of
        None \<Rightarrow> Some value
      | Some (heading, rest) \<Rightarrow>
          if heading = ''# AGENTS.md instructions'' \<or> starts_with heading ''# AGENTS.md instructions for ''
          then (let r = trim_start rest in if starts_with r ''<INSTRUCTIONS>'' then Some r else None)
          else Some value)"

definition strip_wrapper :: "string \<Rightarrow> string option" where
  "strip_wrapper text =
     (let value = trim_start text
      in case wrapper_block value of
           None \<Rightarrow> None
         | Some block \<Rightarrow>
             (case find (\<lambda>tag. starts_with block (open_tag tag)) wrapper_tags of
                None \<Rightarrow> None
              | Some tag \<Rightarrow>
                  if tag = ''INSTRUCTIONS'' \<and> block = value then None
                  else map_option (\<lambda>(_, rest). trim_start rest) (split_once (close_tag tag) block)))"

lemma wrapper_block_length: "wrapper_block value = Some block \<Longrightarrow> length block \<le> length value"
proof (cases "split_once [CHR 0x0A] value")
  case None
  assume "wrapper_block value = Some block"
  with None show ?thesis by (simp add: wrapper_block_def)
next
  case (Some x)
  assume w: "wrapper_block value = Some block"
  obtain h rest where x: "x = (h, rest)" by (cases x)
  with w Some have "block = value \<or> block = trim_start rest"
    by (auto simp: wrapper_block_def Let_def split: if_splits)
  moreover have "length rest \<le> length value"
    using split_once_Some [OF Some [unfolded x]] by simp
  ultimately show ?thesis using trim_start_length [of rest] by auto
qed

lemma strip_wrapper_shorter:
  assumes "strip_wrapper raw = Some t"
  shows "length t < length raw"
proof -
  obtain block where block: "wrapper_block (trim_start raw) = Some block"
    using assms by (auto simp: strip_wrapper_def Let_def split: option.splits)
  obtain tag where "find (\<lambda>tag. starts_with block (open_tag tag)) wrapper_tags = Some tag"
    using assms block by (auto simp: strip_wrapper_def Let_def split: option.splits)
  with assms block obtain a rest where r: "split_once (close_tag tag) block = Some (a, rest)"
      "t = trim_start rest"
    by (auto simp: strip_wrapper_def Let_def split: if_splits)
  from split_once_Some [OF r(1)] have "length rest < length block"
    by (simp add: close_tag_def)
  with wrapper_block_length [OF block] show ?thesis
    unfolding r(2) using trim_start_length [of rest] trim_start_length [of raw] by linarith
qed

function user_text :: "string \<Rightarrow> string" where
  "user_text text = (case strip_wrapper text of None \<Rightarrow> text | Some t \<Rightarrow> user_text t)"
  by pat_completeness auto
termination
  by (relation "measure length") (auto dest: strip_wrapper_shorter)

declare user_text.simps [simp del]

section \<open>The Job of a session\<close>

definition associated :: "snapshot \<Rightarrow> string \<Rightarrow> job \<Rightarrow> bool" where
  "associated s session j =
     (j_session_id j = Some session \<or> j_followup_session_id j = Some session
      \<or> list_ex (\<lambda>t. t_job_id t = j_id j \<and> t_last_session t = Some session) (tasks s))"

definition id_suffix :: "string \<Rightarrow> string" where
  "id_suffix ident = (case split_once ''_'' ident of None \<Rightarrow> ident | Some (_, rest) \<Rightarrow> rest)"

definition activity :: "snapshot \<Rightarrow> string \<Rightarrow> job \<Rightarrow> int \<times> string" where
  "activity s session j =
     (let own = (j_created_at j, id_suffix (j_id j));
          worked = fold (\<lambda>t acc. max acc (t_updated_at t, id_suffix (t_id t)))
            (filter (\<lambda>t. t_job_id t = j_id j \<and> t_last_session t = Some session) (tasks s)) own
      in if j_followup_session_id j = Some session
         then max worked
           ((case j_followup_at j of None \<Rightarrow> j_created_at j | Some a \<Rightarrow> a),
            id_suffix (case j_followup_id j of None \<Rightarrow> j_id j | Some f \<Rightarrow> f))
         else worked)"

text \<open>\<open>Iterator::max_by_key\<close>: the last of the elements with the greatest key.\<close>

definition max_by_key :: "('a \<Rightarrow> 'k :: linorder) \<Rightarrow> 'a list \<Rightarrow> 'a option" where
  "max_by_key f xs =
     fold (\<lambda>x best. case best of None \<Rightarrow> Some x | Some b \<Rightarrow> if f b \<le> f x then Some x else Some b) xs None"

definition session_job_index :: "snapshot \<Rightarrow> json \<Rightarrow> string \<Rightarrow> nat option result" where
  "session_job_index s request session =
     (case str_field request ''job'' of
        Some q \<Rightarrow>
          attempt (job_index s q) (\<lambda>index.
          ensure (associated s session (jobs s ! index)) (Conflict ''Job belongs to another session'')
            (Inr (Some index)))
      | None \<Rightarrow>
          Inr (max_by_key (\<lambda>i. activity s session (jobs s ! i))
            (filter (\<lambda>i. associated s session (jobs s ! i) \<and> j_archived_at (jobs s ! i) = None)
              [0..<length (jobs s)])))"

definition planning_prompt :: "json \<Rightarrow> json list \<Rightarrow> string option result" where
  "planning_prompt request messages =
     (case get_field request ''planning'' of
        None \<Rightarrow> Inr None
      | Some planning \<Rightarrow>
          attempt (required planning ''prompt'') (\<lambda>raw.
          let prompt = user_text raw in
          attempt (required planning ''implementation_prompt'') (\<lambda>implementation.
          ensure (\<not> is_blank prompt \<and> implementation = ''Implement the plan.''
              \<and> (case find (\<lambda>m. str_field m ''role'' = Some ''user'') messages of
                   None \<Rightarrow> False
                 | Some m \<Rightarrow> map_option user_text (str_field m ''text'') = Some prompt)
              \<and> list_ex (\<lambda>m. str_field m ''role'' = Some ''user''
                    \<and> str_field m ''text'' = Some implementation) messages)
            (Invalid ''planning capture must include its original and implementation prompts'')
            (Inr (Some prompt)))))"

section \<open>Merging messages\<close>

definition session_indexes :: "job_message list \<Rightarrow> string \<Rightarrow> (string \<times> nat) list" where
  "session_indexes entries session =
     fold (\<lambda>i acc. if msg_session_id (entries ! i) = session
                     then AList.update (msg_id (entries ! i)) i acc else acc)
       [0..<length entries] []"

text \<open>The last entry, a follow-up prompt of this session, takes the identity of its message.\<close>

definition adopt_followup ::
  "job_message list \<Rightarrow> (string \<times> nat) list \<Rightarrow> json list \<Rightarrow> string
   \<Rightarrow> (job_message list \<times> (string \<times> nat) list \<times> nat) result" where
  "adopt_followup entries indexes messages session =
     (if entries \<noteq> [] \<and> msg_role (last entries) = ''user'' \<and> msg_session_id (last entries) = session
         \<and> starts_with (msg_id (last entries)) ''followup:''
      then
        (case find (\<lambda>m. str_field m ''role'' = Some ''user''
              \<and> map_option user_text (str_field m ''text'') = Some (msg_text (last entries))
              \<and> (case str_field m ''id'' of None \<Rightarrow> False | Some i \<Rightarrow> map_of indexes i = None)) messages of
           None \<Rightarrow> Inr (entries, indexes, 0)
         | Some m \<Rightarrow>
             attempt (required m ''id'') (\<lambda>i.
               Inr (butlast entries @ [(last entries)\<lparr>msg_id := i\<rparr>],
                    AList.update i (length entries - 1)
                      (AList.delete (msg_id (last entries)) indexes), 1)))
      else Inr (entries, indexes, 0))"

fun anchors_from :: "(string \<times> nat) list \<Rightarrow> json list \<Rightarrow> nat \<Rightarrow> nat list \<times> nat" where
  "anchors_from indexes [] next = ([], next)"
| "anchors_from indexes (m # ms) next =
     (let (rest, here) = anchors_from indexes ms next
      in (here # rest,
          case str_field m ''id'' of
            None \<Rightarrow> here
          | Some i \<Rightarrow> (case map_of indexes i of None \<Rightarrow> here | Some k \<Rightarrow> k)))"

record merge_state =
  ms_entries :: "job_message list"
  ms_indexes :: "(string \<times> nat) list"
  ms_inserted :: "nat list"
  ms_prompt :: string
  ms_recorded :: nat

definition merge_one :: "string \<Rightarrow> int \<Rightarrow> merge_state \<Rightarrow> json \<times> nat \<Rightarrow> merge_state result" where
  "merge_one session now st entry =
     (let (message, anchor) = entry in
     attempt (required message ''id'') (\<lambda>ident.
     attempt (required message ''role'') (\<lambda>role.
     ensure (role = ''user'' \<or> role = ''assistant'')
       (Invalid ''only user and assistant text may be recorded'')
     (attempt (required message ''text'') (\<lambda>raw.
     let text = (if role = ''user'' then user_text raw else raw);
         finish = (\<lambda>st'. st'\<lparr>ms_prompt := (if ms_prompt st' = [] \<and> role = ''user'' then text else ms_prompt st'),
                            ms_recorded := ms_recorded st' + 1\<rparr>) in
     if is_blank text then Inr st
     else case map_of (ms_indexes st) ident of
       Some k \<Rightarrow>
         ensure (msg_role (ms_entries st ! k) = role) (Conflict ''message role changed'')
         (if msg_text (ms_entries st ! k) = text then Inr st
          else Inr (finish (st\<lparr>ms_entries := upd_nth k (\<lambda>m. m\<lparr>msg_text := text\<rparr>) (ms_entries st)\<rparr>)))
     | None \<Rightarrow>
         Inr (finish (st\<lparr>ms_indexes := AList.update ident (length (ms_entries st)) (ms_indexes st),
              ms_entries := ms_entries st @
                [\<lparr>msg_id = ident, msg_session_id = session, msg_role = role, msg_text = text,
                  msg_recorded_at = now\<rparr>],
              ms_inserted := ms_inserted st @ [anchor]\<rparr>)))))))"

definition place_inserted :: "nat \<Rightarrow> job_message list \<Rightarrow> nat list \<Rightarrow> job_message list" where
  "place_inserted original_len entries inserted =
     (if inserted = [] then entries
      else
        let fresh = zip (drop original_len entries) inserted;
            bucket = (\<lambda>a. map fst (filter (\<lambda>(_, b). b = a) fresh))
        in concat (map (\<lambda>i. bucket i @ [entries ! i]) [0..<original_len]) @ bucket original_len)"

definition merge_messages ::
  "job \<Rightarrow> json list \<Rightarrow> string \<Rightarrow> int \<Rightarrow> bool \<Rightarrow> string option \<Rightarrow> (job \<times> nat) result" where
  "merge_messages j messages session now ordered earlier =
     (let original_len = length (j_conversation j) in
     attempt (adopt_followup (j_conversation j) (session_indexes (j_conversation j) session) messages session)
       (\<lambda>(entries, indexes, recorded).
     let next = (case earlier of
                   None \<Rightarrow> original_len
                 | Some i \<Rightarrow> lookup_or original_len indexes i);
         anchors = (if ordered then fst (anchors_from indexes messages next)
                    else replicate (length messages) original_len) in
     attempt (fold_result (merge_one session now)
         \<lparr>ms_entries = entries, ms_indexes = indexes, ms_inserted = [], ms_prompt = j_prompt j,
          ms_recorded = recorded\<rparr>
         (zip messages anchors)) (\<lambda>st.
     Inr (j\<lparr>j_conversation := place_inserted original_len (ms_entries st) (ms_inserted st),
            j_prompt := ms_prompt st\<rparr>, ms_recorded st))))"

definition record_conversation ::
  "snapshot \<Rightarrow> json \<Rightarrow> write_options \<Rightarrow> int \<Rightarrow> (outcome_value \<times> snapshot) result" where
  "record_conversation s request opts now =
     attempt (required request ''session'') (\<lambda>session.
     ensure (session_ref opts = Some session) (Conflict ''conversation session mismatch'')
     (attempt (session_job_index s request session) (\<lambda>found.
     case found of
       None \<Rightarrow> Inr (VRecorded None 0, s)
     | Some index \<Rightarrow>
         attempt (of_option (Invalid ''conversation messages'') (as_array (field request ''messages''))) (\<lambda>messages.
         let j = jobs s ! index in
         attempt (planning_prompt request messages) (\<lambda>planned.
         let change = (case planned of
               None \<Rightarrow> False
             | Some p \<Rightarrow> (j_prompt j = [] \<or> j_prompt j = ''Implement the plan.'') \<and> j_prompt j \<noteq> p);
             j1 = (if change then j\<lparr>j_prompt := the planned\<rparr> else j) in
         attempt (merge_messages j1 messages session now
             (planned \<noteq> None \<or> field request ''ordered'' = JBool True) (str_field request ''before_message''))
           (\<lambda>(j2, recorded).
         let j3 = (if 0 < recorded \<or> change
                   then j2\<lparr>j_revision := j_revision j2 + 1, j_updated_at := now\<rparr> else j2)
         in Inr (VRecorded (Some (j_id j3)) recorded, s\<lparr>jobs := upd_nth index (\<lambda>_. j3) (jobs s)\<rparr>)))))))"

end
