(* ===== verification/Mutations.thy ===== *)
theory Mutations
  imports Tasks Projects Deletion Conversation
begin

text \<open>
  The dispatcher \<open>apply\<close> of \<open>mutations.rs\<close>: every write of Taskix is one call of it on a snapshot.
  The Rust function changes the snapshot in place and its callers drop the snapshot on an error, so
  the model returns either the error or the value with the new snapshot.
\<close>

definition attach_conversation :: "snapshot \<Rightarrow> json \<Rightarrow> write_options \<Rightarrow> (outcome_value \<times> snapshot) result" where
  "attach_conversation s request opts =
     attempt (required request ''job'') (\<lambda>q.
     attempt (job_index s q) (\<lambda>i.
     let j = jobs s ! i in
     attempt (check_revision (j_revision j) opts) (\<lambda>_.
     ensure (j_status j = JobActive \<and> j_archived_at j = None)
       (Conflict ''conversation attachment requires an ACTIVE Job'')
       (Inr (VJob j, s)))))"

definition dispatch ::
  "env \<Rightarrow> snapshot \<Rightarrow> json \<Rightarrow> write_options \<Rightarrow> int \<Rightarrow> string \<Rightarrow> (outcome_value \<times> snapshot) result" where
  "dispatch e s request opts now command =
     (if starts_with command ''issue.'' then issue_apply e s request opts now
      else if starts_with command ''milestone.'' then milestone_apply e s request opts now
      else if command = ''project.register'' then register_project e s request now
      else if command = ''project.move'' then move_project e s request opts
      else if command = ''project.rename'' \<or> command = ''project.relocate'' then rename_project s request opts
      else if command = ''project.delete'' \<or> command = ''job.delete'' then deletion_apply s request opts
      else if command = ''project.archive'' \<or> command = ''project.unarchive'' then archive_project s request opts now
      else if command = ''session.record'' then record_conversation s request opts now
      else if command = ''session.stage'' then
        Inr (VStaged (case field request ''recorded_job'' of JString v \<Rightarrow> Some (JString v) | _ \<Rightarrow> None), s)
      else if command = ''conversation.attach'' then attach_conversation s request opts
      else if command = ''job.create'' then create_job e s request opts now
      else if command \<in> {''job.update'', ''job.cancel'', ''job.archive'', ''job.unarchive'', ''job.submit'',
          ''job.approve'', ''job.reject'', ''job.followup''} then update_job e s request opts now
      else if command = ''task.add'' then add_task e s request opts now
      else if command \<in> {''session.start'', ''session.end'', ''session.interrupt'', ''session.heartbeat''}
        then session e s request now
      else if starts_with command ''task.'' \<or> command = ''plan.register'' then update_task e s request opts now
      else Inl (Invalid ''unknown command''))"

definition value_id :: "outcome_value \<Rightarrow> string result" where
  "value_id v =
     (case v of
        VJob j \<Rightarrow> if is_blank (j_id j) then Inl (Invalid ''id must not be blank'') else Inr (j_id j)
      | _ \<Rightarrow> Inl (Invalid ''id must not be blank''))"

definition mutate ::
  "env \<Rightarrow> snapshot \<Rightarrow> json \<Rightarrow> write_options \<Rightarrow> int \<Rightarrow> (outcome_value \<times> snapshot) result" where
  "mutate e s request opts now =
     attempt (validate_request request) (\<lambda>_.
     attempt (required request ''command'') (\<lambda>command.
     ensure (\<not> has_field request ''completion_policy''
             \<or> command \<in> {''task.done'', ''task.cancel'', ''job.submit''})
       (Invalid ''completion_policy requires task.done, task.cancel or job.submit'')
     (attempt (dispatch e s request opts now command) (\<lambda>(v, s1).
     if command \<in> {''job.create'', ''job.update'', ''job.followup''} then
       attempt (value_id v) (\<lambda>ident.
       attempt (associate s1 ident request now) (\<lambda>s2.
       attempt (job_index s2 ident) (\<lambda>i. Inr (VJob (jobs s2 ! i), s2))))
     else Inr (v, s1)))))"

end
