(* ===== verification/Effects.thy ===== *)
theory Effects
  imports Mutations
begin

text \<open>
  What a successful run of a handler tells: the guards that held and the shape of the new
  snapshot, as elimination rules. The invariant proofs work on these rules only.
\<close>

section \<open>Frames of the updates\<close>

lemma set_task_simps [simp]:
  "jobs (set_task s i f) = jobs s" "issues (set_task s i f) = issues s"
  "leases (set_task s i f) = leases s" "plans (set_task s i f) = plans s"
  "projects (set_task s i f) = projects s" "tasks (set_task s i f) = upd_nth i f (tasks s)"
  "milestones (set_task s i f) = milestones s" "query_ctx (set_task s i f) = query_ctx s"
  by (simp_all add: set_task_def)

lemma set_job_simps [simp]:
  "jobs (set_job s i g) = upd_nth i g (jobs s)" "issues (set_job s i g) = issues s"
  "leases (set_job s i g) = leases s" "plans (set_job s i g) = plans s"
  "projects (set_job s i g) = projects s" "tasks (set_job s i g) = tasks s"
  "milestones (set_job s i g) = milestones s" "query_ctx (set_job s i g) = query_ctx s"
  by (simp_all add: set_job_def)

lemma set_issue_simps [simp]:
  "jobs (set_issue s i f) = jobs s" "issues (set_issue s i f) = upd_nth i f (issues s)"
  "leases (set_issue s i f) = leases s" "plans (set_issue s i f) = plans s"
  "projects (set_issue s i f) = projects s" "tasks (set_issue s i f) = tasks s"
  "milestones (set_issue s i f) = milestones s" "query_ctx (set_issue s i f) = query_ctx s"
  by (simp_all add: set_issue_def)

lemma set_milestone_simps [simp]:
  "jobs (set_milestone s i f) = jobs s" "issues (set_milestone s i f) = issues s"
  "leases (set_milestone s i f) = leases s" "plans (set_milestone s i f) = plans s"
  "projects (set_milestone s i f) = projects s" "tasks (set_milestone s i f) = tasks s"
  "milestones (set_milestone s i f) = upd_nth i f (milestones s)"
  by (simp_all add: set_milestone_def)

lemma set_job_id [simp]: "set_job s j (\<lambda>x. x) = s"
  by (simp add: set_job_def)

lemma activate_simps [simp]:
  "jobs (activate s i now) = jobs s" "tasks (activate s i now) = tasks s"
  "leases (activate s i now) = leases s" "plans (activate s i now) = plans s"
  "projects (activate s i now) = projects s" "milestones (activate s i now) = milestones s"
  "query_ctx (activate s i now) = query_ctx s"
  by (simp_all add: activate_def)

lemma map_activate: "(\<And>x. g (x\<lparr>i_status := IssueActive, i_started_at := Some now, i_updated_at := now,
      i_revision := i_revision x + 1\<rparr>) = g x) \<Longrightarrow> map g (issues (activate s i now)) = map g (issues s)"
  by (simp add: activate_def map_upd_nth)

section \<open>Task handlers\<close>

lemma start_taskE:
  assumes "start_task s i j now = Inr s'"
  obtains s1 where
    "j_issue_id (jobs s ! j) = None \<and> s1 = s
     \<or> (\<exists>issue k. j_issue_id (jobs s ! j) = Some issue \<and> writable s issue = Inr k \<and> s1 = activate s k now)"
    "t_phase (tasks s ! i) = Some Planning" "t_current_plan (tasks s ! i) \<noteq> None"
    "\<forall>d \<in> set (t_dependencies (tasks s ! i)). \<exists>u \<in> set (tasks s). t_id u = d \<and> t_status u = TaskDone"
    "s' = set_job
       (set_task s1 i (\<lambda>x. x\<lparr>t_phase := Some Executing,
          t_started_at := (case t_started_at x of None \<Rightarrow> Some now | a \<Rightarrow> a)\<rparr>))
       j (\<lambda>x. x\<lparr>j_started_at := (case j_started_at x of None \<Rightarrow> Some now | a \<Rightarrow> a)\<rparr>)"
proof (cases "j_issue_id (jobs s ! j)")
  case None
  with assms show ?thesis
    by (intro that [of s]) (auto simp: start_task_def Let_def result_simps list_all_iff list_ex_iff)
next
  case (Some issue)
  with assms obtain k where "writable s issue = Inr k"
    by (auto simp: start_task_def Let_def result_simps)
  with assms Some show ?thesis
    by (intro that [of "activate s k now"])
       (auto simp: start_task_def Let_def result_simps list_all_iff list_ex_iff)
qed

lemma claimE:
  assumes "claim e s i request now k = Inr s'"
  obtains executor ref delegated where "allows (t_status (tasks s ! i)) TaskInProgress"
    "required request ''executor'' = Inr executor" "required request ''session'' = Inr ref"
    "\<forall>l \<in> set (leases s). l_task_id l \<noteq> t_id (tasks s ! i)"
    "\<forall>l \<in> set (leases s). (l_executor_ref l, l_session_ref l) \<noteq> (executor, ref)"
    "s' = set_task (s\<lparr>leases := leases s @
         [\<lparr>l_task_id = t_id (tasks s ! i), l_executor_ref = executor, l_session_ref = ref,
           l_delegated_by = delegated, l_token = new_id e ''lease'' k,
           l_expires_at = now + default_lease_seconds\<rparr>]\<rparr>) i
       (\<lambda>x. x\<lparr>t_status := TaskInProgress, t_phase := Some Planning, t_system_block := False,
          t_reason := None, t_last_executor := Some executor, t_last_session := Some ref,
          t_delegated_by := delegated\<rparr>)"
  using assms unfolding claim_def Let_def
proof (elim ensureE attemptE, goal_cases)
  case (1 executor ref)
  have "\<forall>l \<in> set (leases s). l_task_id l \<noteq> t_id (tasks s ! i)"
    "\<forall>l \<in> set (leases s). (l_executor_ref l, l_session_ref l) \<noteq> (executor, ref)"
    using 1(5) by (auto simp: list_ex_iff)
  then show ?case
    by (rule 1(1) [OF 1(2-4) _ _ 1(6) [unfolded sum.inject, symmetric]])
qed

lemma edit_taskE:
  assumes "edit_task e s i j request = Inr s'"
  obtains s1 s2 where
    "s1 = s \<or> (\<exists>ps name. s1 = set_task (s\<lparr>plans := ps\<rparr>) i (\<lambda>x. x\<lparr>t_name := name\<rparr>))"
    "s2 = s1 \<or> (\<exists>title. s2 = set_task s1 i (\<lambda>x. x\<lparr>t_title := title\<rparr>))"
    "s' = s2 \<or> (\<exists>n. s' = set_task s2 i (\<lambda>x. x\<lparr>t_position := n\<rparr>))"
  using assms by (simp add: edit_task_def Let_def result_simps split: if_splits option.splits) blast+

lemma leave_taskE:
  assumes "leave_task s i request now command b h = Inr s'"
  obtains reason where "h \<or> allows (t_status (tasks s ! i)) (next_status command)"
    "command = ''task.done'' \<Longrightarrow> \<not> b \<Longrightarrow> \<not> h \<Longrightarrow> t_phase (tasks s ! i) = Some Executing"
    "next_status command \<in> {TaskBlocked, TaskWaitingUser, TaskFailed} \<Longrightarrow> reason \<noteq> None"
    "s' = set_task (s\<lparr>leases := filter (\<lambda>l. l_task_id l \<noteq> t_id (tasks s ! i)) (leases s)\<rparr>) i (\<lambda>x. x\<lparr>
       t_completed_at := (if task_terminal (next_status command) then Some now else None),
       t_status := next_status command, t_phase := None, t_reason := reason, t_system_block := False\<rparr>)"
  using assms unfolding leave_task_def Let_def
proof (elim ensureE attemptE, goal_cases)
  case (1 reason)
  have "next_status command \<in> {TaskBlocked, TaskWaitingUser, TaskFailed} \<Longrightarrow> reason \<noteq> None"
    using 1(4) by (auto simp: attempt_eq_Inr split: if_splits)
  then show ?case
    by (intro 1(1) [of reason]) (use 1(2,3,5) in \<open>auto simp: set_task_def\<close>)
qed

lemma depend_taskE:
  assumes "depend_task s i request adding = Inr s'"
  obtains q d where "t_started_at (tasks s ! i) = None" "task_index s q = Inr d"
    "t_project_id (tasks s ! d) = t_project_id (tasks s ! i)" "t_id (tasks s ! d) \<noteq> t_id (tasks s ! i)"
    "adding \<and> \<not> depends_on s (t_id (tasks s ! d)) (t_id (tasks s ! i))
       \<and> (t_id (tasks s ! d) \<in> set (t_dependencies (tasks s ! i)) \<and> s' = s
          \<or> s' = set_task s i (\<lambda>x. x\<lparr>t_dependencies := t_dependencies x @ [t_id (tasks s ! d)]\<rparr>))
     \<or> \<not> adding \<and> s' = set_task s i
          (\<lambda>x. x\<lparr>t_dependencies := filter (\<lambda>y. y \<noteq> t_id (tasks s ! d)) (t_dependencies x)\<rparr>)"
  using assms unfolding depend_task_def Let_def
proof (elim ensureE attemptE, goal_cases)
  case (1 q d)
  show ?case
    by (rule 1(1) [OF 1(2,4-6)]) (use 1(7) in \<open>auto simp: ensure_eq_Inr split: if_splits\<close>)
qed

lemma reopen_taskE:
  assumes "reopen_task s i j retry = Inr s'"
  obtains "task_terminal (t_status (tasks s ! i))"
    "\<forall>u \<in> set (tasks s). t_started_at u \<noteq> None \<longrightarrow> \<not> depends_on s (t_id u) (t_id (tasks s ! i))"
    "s' = set_job
       (set_task s i (\<lambda>x. x\<lparr>t_completed_at := None, t_status := TaskTodo, t_phase := None,
          t_reason := None, t_system_block := False\<rparr>))
       j (\<lambda>x. x\<lparr>j_status := JobActive, j_completed_at := None\<rparr>)"
  using assms unfolding reopen_task_def Let_def
proof (elim ensureE, goal_cases)
  case 1
  show ?case
    by (rule 1(1)) (use 1(2-4) in \<open>auto simp: list_ex_iff split: if_splits\<close>)
qed

lemma task_branchE:
  assumes "task_branch e s i j request now command b h = Inr s'"
  obtains (claim) "command = ''task.claim''" "claim e s i request now 0 = Inr s'"
  | (start) "command = ''task.start''" "start_task s i j now = Inr s'"
  | (heartbeat) "command = ''task.heartbeat''" "heartbeat_task s (tasks s ! i) now = Inr s'"
  | (edit) "command = ''task.update''" "edit_task e s i j request = Inr s'"
  | (depend) "command = ''task.depend'' \<or> command = ''task.undepend''"
      "depend_task s i request (command = ''task.depend'') = Inr s'"
  | (reopen) "command = ''task.retry'' \<or> command = ''task.reopen''"
      "reopen_task s i j (command = ''task.retry'') = Inr s'"
  | (leave) "command \<in> {''task.block'', ''task.wait'', ''task.done'', ''task.fail'', ''task.cancel'',
        ''task.release''}" "leave_task s i request now command b h = Inr s'"
  using assms unfolding task_branch_def
  by (elim if_resultE) (erule (1) that | simp)+

lemma finish_taskE:
  assumes "finish_task s1 i j t completion was_ready now = Inr (v, s')"
  obtains g where "g = (\<lambda>x. x) \<or> (\<exists>policy. g = (\<lambda>x. x\<lparr>j_review_policy := policy\<rparr>))"
    "s' = aggregate_job
       (set_job (set_task s1 i (\<lambda>x. x\<lparr>t_revision := t_revision x + 1, t_updated_at := now\<rparr>)) j g)
       j was_ready now"
proof (cases completion)
  case None
  with assms show ?thesis by (intro that [of "\<lambda>x. x"]) (auto simp: finish_task_def Let_def result_simps)
next
  case (Some policy)
  with assms show ?thesis
    by (intro that [of "\<lambda>x. x\<lparr>j_review_policy := policy\<rparr>"])
       (auto simp: finish_task_def Let_def result_simps)
qed

lemma update_taskE:
  assumes "update_task e s request opts now = Inr (v, s')"
  obtains q i j p command h b where
    "required request ''task'' = Inr q" "task_index s q = Inr i"
    "job_index s (t_job_id (tasks s ! i)) = Inr j" "project_index s (t_project_id (tasks s ! i)) = Inr p"
    "expected_revision opts \<in> {None, Some (t_revision (tasks s ! i))}"
    "p_archived_at (projects s ! p) = None" "j_archived_at (jobs s ! j) = None"
    "j_status (jobs s ! j) \<noteq> JobCancelled" "required request ''command'' = Inr command"
    "h = (command = ''task.done'' \<and> actor_ref opts = ''user:obsidian'' \<and> \<not> task_terminal (t_status (tasks s ! i)))"
    "b = (command = ''task.done'' \<and> t_status (tasks s ! i) = TaskBlocked)"
    "command \<noteq> ''task.claim'' \<Longrightarrow> \<not> h \<Longrightarrow> authorize s (tasks s ! i) opts now = Inr ()"
    "command \<in> {''plan.register'', ''task.start'', ''task.done''} \<Longrightarrow> \<not> b \<Longrightarrow> \<not> h \<Longrightarrow>
       t_status (tasks s ! i) = TaskInProgress \<and> list_ex (\<lambda>l. l_task_id l = t_id (tasks s ! i)) (leases s)"
    "command = ''plan.register'' \<and> register_plan e s i request now = Inr (v, s')
     \<or> command \<noteq> ''plan.register'' \<and>
       (\<exists>s1 completion. task_branch e s i j request now command b h = Inr s1
         \<and> finish_task s1 i j (tasks s ! i) completion (job_ready s (t_job_id (tasks s ! i))) now = Inr (v, s'))"
  using assms unfolding update_task_def Let_def
proof (elim attemptE ensureE, goal_cases)
  case (1 q i j c u p command w)
  show ?case
  proof (rule that [OF 1(2-4) 1(7) _ 1(8) _ _ 1(10) refl refl])
    show "expected_revision opts \<in> {None, Some (t_revision (tasks s ! i))}"
      using 1(6) by (simp add: check_revision_eq_Inr)
    show "j_archived_at (jobs s ! j) = None" "j_status (jobs s ! j) \<noteq> JobCancelled"
      using 1(9) by blast+
  next
    let ?h = "command = ''task.done'' \<and> actor_ref opts = ''user:obsidian'' \<and> \<not> task_terminal (t_status (tasks s ! i))"
    assume "command \<noteq> ''task.claim''" "\<not> ?h"
    then have "command \<noteq> ''task.claim'' \<and> \<not> ?h" by blast
    from 1(11) [unfolded if_P [OF this]] show "authorize s (tasks s ! i) opts now = Inr ()" by simp
  next
    let ?b = "command = ''task.done'' \<and> t_status (tasks s ! i) = TaskBlocked"
    let ?h = "command = ''task.done'' \<and> actor_ref opts = ''user:obsidian'' \<and> \<not> task_terminal (t_status (tasks s ! i))"
    assume "command \<in> {''plan.register'', ''task.start'', ''task.done''}" "\<not> ?b" "\<not> ?h"
    with 1(12) show "t_status (tasks s ! i) = TaskInProgress
        \<and> list_ex (\<lambda>l. l_task_id l = t_id (tasks s ! i)) (leases s)"
      by blast
  qed (use 1(13) in \<open>elim if_resultE attemptE; blast\<close>)
qed

lemma add_taskE:
  assumes "add_task e s request opts now = Inr (v, s')"
  obtains q i p t where "job_index s q = Inr i" "project_index s (j_project_id (jobs s ! i)) = Inr p"
    "p_archived_at (projects s ! p) = None" "j_status (jobs s ! i) = JobActive"
    "j_archived_at (jobs s ! i) = None"
    "s' = set_job (s\<lparr>tasks := tasks s @ [t]\<rparr>) i (\<lambda>x. x\<lparr>j_revision := j_revision x + 1, j_updated_at := now\<rparr>)"
    "t_id t = new_id e ''task'' 0" "t_project_id t = j_project_id (jobs s ! i)"
    "t_job_id t = j_id (jobs s ! i)" "t_status t = TaskTodo" "t_phase t = None" "t_started_at t = None"
    "t_completed_at t = None" "t_dependencies t = j_followup_task_ids (jobs s ! i)"
    "\<not> t_system_block t" "t_created_at t = now"
    "next_sequence now (task_numbers s (j_project_id (jobs s ! i)) now) = Inr (t_sequence t)"
    "\<forall>issue. j_issue_id (jobs s ! i) = Some issue \<longrightarrow> is_ok (writable s issue)"
  using assms unfolding add_task_def Let_def
proof (elim attemptE ensureE, goal_cases)
  case (1 q i w p number title)
  have issue: "\<forall>issue. j_issue_id (jobs s ! i) = Some issue \<longrightarrow> is_ok (writable s issue)"
    using 1(4) by (auto simp: is_ok_iff)
  show ?case
    by (rule 1(1) [OF 1(3) 1(5,6) _ _ 1(10) [unfolded sum.inject prod.inject, THEN conjunct2, symmetric]])
       (use 1(7,8) issue in simp_all)
qed

section \<open>Job handlers\<close>

lemma job_readyD:
  "job_ready s job \<Longrightarrow> t \<in> set (tasks s) \<Longrightarrow> t_job_id t = job \<Longrightarrow> t_status t \<in> {TaskDone, TaskCancelled}"
  by (auto simp: job_ready_def Let_def list_all_iff split: prod.splits)

lemma review_jobE:
  assumes "review_job s i request now obsidian = Inr (v, s')"
  obtains command policy status reason human where
    "required request ''command'' = Inr command"
    "j_archived_at (jobs s ! i) = None" "\<not> job_terminal (j_status (jobs s ! i))"
    "human = (obsidian \<and> command = ''job.approve'')"
    "status = (if command = ''job.submit'' then ready_status policy
               else if command = ''job.approve'' then JobCompleted else JobActive)"
    "command = ''job.submit'' \<Longrightarrow> job_ready s (j_id (jobs s ! i))"
    "command = ''job.approve'' \<Longrightarrow> \<not> human \<Longrightarrow>
       \<forall>t \<in> set (tasks s). t_job_id t = j_id (jobs s ! i) \<longrightarrow> task_terminal (t_status t)"
    "s' = set_job (if human then complete_open_tasks s (j_id (jobs s ! i)) now else s) i (\<lambda>x. x\<lparr>
       j_review_policy := policy, j_status := status,
       j_completed_at := (if status = JobCompleted then Some now else None),
       j_pending_review_at := (if status = JobPendingReview then Some now else j_pending_review_at x),
       j_review_reason := reason, j_revision := j_revision x + 1, j_updated_at := now\<rparr>)"
    "v = VJob (jobs s' ! i)"
  using assms unfolding review_job_def Let_def
proof (elim attemptE ensureE, goal_cases)
  case (1 command completion reason)
  let ?j = "jobs s ! i" and ?human = "obsidian \<and> command = ''job.approve''"
  note eqs = 1(6) [unfolded sum.inject prod.inject]
  note s' = eqs [THEN conjunct2, symmetric]
  show ?case
  proof (rule that [OF 1(2) _ _ refl refl _ _ s'])
    show "v = VJob (jobs s' ! i)" unfolding s' by (rule eqs [THEN conjunct1, symmetric])
  next
    show "j_archived_at ?j = None" "\<not> job_terminal (j_status ?j)"
      using 1(4) by (auto split: if_splits)
  next
    assume c: "command = ''job.submit''"
    show "job_ready s (j_id ?j)" using 1(5) by (simp add: c ensure_eq_Inr)
  next
    assume c: "command = ''job.approve''" "\<not> ?human"
    then have o: "\<not> obsidian" by simp
    show "\<forall>t \<in> set (tasks s). t_job_id t = j_id ?j \<longrightarrow> task_terminal (t_status t)"
    proof (cases "j_status ?j = JobActive")
      case True
      then show ?thesis using 1(5) by (simp add: c(1) o ensure_eq_Inr list_all_iff)
    next
      case False
      then have "job_ready s (j_id ?j)" using 1(5) by (simp add: c(1) o ensure_eq_Inr)
      then show ?thesis by (auto dest: job_readyD)
    qed
  qed
qed

lemma edit_jobE:
  assumes "edit_job e request renamed j = Inr j'"
  obtains path name title policy prompt goal where
    "j' = j\<lparr>j_document_path := path, j_name := name, j_title := title, j_review_policy := policy,
            j_prompt := prompt, j_goal := goal\<rparr>"
  using assms unfolding edit_job_def Let_def
proof (elim attemptE ensureE, goal_cases)
  case (1 j1 j2 pol)
  define path name title where "path = j_document_path j1" and "name = j_name j1" and "title = j_title j2"
  from 1(3) have j1: "j1 = j\<lparr>j_document_path := path, j_name := name\<rparr>"
    by (cases renamed) (auto simp: result_simps path_def name_def)
  from 1(4) have j2: "j2 = j1\<lparr>j_title := title\<rparr>"
    by (cases "has_field request ''title''") (auto simp: result_simps title_def)
  define policy where "policy = (case pol of None \<Rightarrow> j_review_policy j | Some p \<Rightarrow> p)"
  define prompt where "prompt = str_or request ''prompt'' (j_prompt j)"
  define goal where "goal = str_or request ''goal'' (j_goal j)"
  have "j' = j\<lparr>j_document_path := path, j_name := name, j_title := title, j_review_policy := policy,
            j_prompt := prompt, j_goal := goal\<rparr>"
    using 1(6) unfolding j2 j1
    by (cases pol; cases "str_field request ''prompt''"; cases "str_field request ''goal''")
       (auto simp: policy_def prompt_def goal_def str_or_def)
  then show ?case by (rule 1(1))
qed

lemma change_jobE:
  assumes "change_job e s request now command i j directory = Inr (v, s')"
  obtains s1 j1 where
    "command = ''job.cancel'' \<and> cancel_job s i now = Inr s1 \<or> s1 = s"
    "j1 = jobs s1 ! i \<or> (\<exists>renamed. edit_job e request renamed (jobs s1 ! i) = Inr j1)
     \<or> (\<exists>directory. archive_job e directory now (jobs s1 ! i) = Inr j1)
     \<or> (\<exists>directory. unarchive_job e directory (jobs s1 ! i) = Inr j1)"
    "s' = set_job s1 i (\<lambda>_. j1\<lparr>j_revision := j_revision j1 + 1, j_updated_at := now\<rparr>)"
    "v = VJob (j1\<lparr>j_revision := j_revision j1 + 1, j_updated_at := now\<rparr>)"
  using assms unfolding change_job_def Let_def
proof (elim attemptE, goal_cases)
  case (1 s1 renamed j1)
  show ?case
  proof (rule that)
    show "command = ''job.cancel'' \<and> cancel_job s i now = Inr s1 \<or> s1 = s"
      using 1(2) by (auto elim: if_resultE)
    show "s' = set_job s1 i (\<lambda>_. j1\<lparr>j_revision := j_revision j1 + 1, j_updated_at := now\<rparr>)"
      "v = VJob (j1\<lparr>j_revision := j_revision j1 + 1, j_updated_at := now\<rparr>)"
      using 1(5) by (simp_all only: sum.inject prod.inject)
  qed (use 1(4) in \<open>elim if_resultE; blast\<close>)
qed

lemma update_jobE:
  assumes "update_job e s request opts now = Inr (v, s')"
  obtains q i p command where
    "required request ''job'' = Inr q" "job_index s q = Inr i"
    "project_index s (j_project_id (jobs s ! i)) = Inr p" "p_archived_at (projects s ! p) = None"
    "expected_revision opts \<in> {None, Some (j_revision (jobs s ! i))}"
    "required request ''command'' = Inr command"
    "command \<in> {''job.submit'', ''job.approve'', ''job.reject''}
       \<and> review_job s i request now (actor_ref opts = ''user:obsidian'') = Inr (v, s')
     \<or> command = ''job.followup'' \<and> followup_job e s i request opts now = Inr (v, s')
       \<and> (\<forall>issue. j_issue_id (jobs s ! i) = Some issue \<longrightarrow> is_ok (writable s issue))
     \<or> change_job e s request now command i (jobs s ! i) (document_directory (projects s ! p)) = Inr (v, s')"
  using assms unfolding update_job_def Let_def
proof (elim attemptE ensureE, goal_cases)
  case (1 q i u p command)
  show ?case
  proof (rule that [OF 1(2,3,5,6) _ 1(7)])
    show "expected_revision opts \<in> {None, Some (j_revision (jobs s ! i))}"
      using 1(4) by (simp add: check_revision_eq_Inr)
  qed (use 1(8) in \<open>elim if_resultE attemptE; auto simp: is_ok_iff\<close>)
qed

lemma create_jobE:
  assumes "create_job e s request opts now = Inr (v, s')"
  obtains q p x where "project_index s q = Inr p" "p_archived_at (projects s ! p) = None"
    "v = VJob x" "s' = s\<lparr>jobs := jobs s @ [x]\<rparr>" "j_id x = new_id e ''job'' 0"
    "j_project_id x = p_id (projects s ! p)" "j_issue_id x = None" "j_status x = JobActive"
    "j_followup_task_ids x = []" "j_completed_at x = None" "j_cancelled_at x = None"
    "j_archived_at x = None" "j_created_at x = now"
    "next_sequence now (job_numbers s (p_id (projects s ! p)) now) = Inr (j_sequence x)"
  using assms unfolding create_job_def Let_def
proof (elim attemptE ensureE, goal_cases)
  case (1 q p title number filename policy)
  note eqs = 1(9) [unfolded sum.inject prod.inject]
  show ?case
    by (rule 1(1) [OF 1(3) 1(4) eqs [THEN conjunct1, symmetric] eqs [THEN conjunct2, symmetric]])
       (simp_all add: 1(6))
qed

lemma followup_jobE:
  assumes "followup_job e s i request opts now = Inr (v, s')"
  obtains message followup where
    "j_status (jobs s ! i) = JobPendingReview" "j_archived_at (jobs s ! i) = None"
    "s' = set_job s i (\<lambda>x. x\<lparr>
       j_followup_task_ids := map t_id (filter (\<lambda>t. t_job_id t = j_id (jobs s ! i)) (tasks s)),
       j_followup_session_id := session_ref opts, j_followup_at := Some now,
       j_followup_id := Some followup, j_conversation := j_conversation x @ [message],
       j_status := JobActive, j_review_reason := None, j_completed_at := None,
       j_revision := j_revision x + 1, j_updated_at := now\<rparr>)"
    "v = VJob (jobs s' ! i)"
  using assms unfolding followup_job_def Let_def
proof (elim attemptE ensureE, goal_cases)
  case (1 prompt)
  from 1(3) have "j_status (jobs s ! i) = JobPendingReview" "j_archived_at (jobs s ! i) = None" by simp_all
  note eqs = 1(4) [unfolded sum.inject prod.inject]
  have "v = VJob (jobs s' ! i)"
    unfolding eqs [THEN conjunct2, symmetric] by (rule eqs [THEN conjunct1, symmetric])
  then show ?case by (rule 1(1) [OF \<open>j_status _ = _\<close> \<open>j_archived_at _ = _\<close> eqs [THEN conjunct2, symmetric]])
qed

section \<open>Issue handlers\<close>

definition open_jobs :: "snapshot \<Rightarrow> string \<Rightarrow> string set" where
  "open_jobs s issue = j_id ` {j \<in> set (jobs s). j_issue_id j = Some issue \<and> \<not> job_terminal (j_status j)}"

lemma cancel_jobs_eqs:
  "jobs (cancel_jobs s issue now) = upd_where (\<lambda>j. j_id j \<in> open_jobs s issue)
     (\<lambda>j. j\<lparr>j_status := JobCancelled, j_cancelled_at := Some now, j_updated_at := now,
            j_revision := j_revision j + 1\<rparr>) (jobs s)"
  "tasks (cancel_jobs s issue now) = upd_where
     (\<lambda>t. t_id t \<in> t_id ` {t \<in> set (tasks s). t_job_id t \<in> open_jobs s issue} \<and> \<not> task_terminal (t_status t))
     (\<lambda>t. t\<lparr>t_status := TaskCancelled, t_phase := None, t_completed_at := Some now,
            t_reason := Some ''Associated Issue cancelled by a human'',
            t_system_block := False, t_updated_at := now, t_revision := t_revision t + 1\<rparr>) (tasks s)"
  "leases (cancel_jobs s issue now) =
     filter (\<lambda>l. l_task_id l \<notin> t_id ` {t \<in> set (tasks s). t_job_id t \<in> open_jobs s issue}) (leases s)"
  by (simp_all add: cancel_jobs_def Let_def open_jobs_def)

lemma cancel_jobs_frame [simp]:
  "issues (cancel_jobs s issue now) = issues s" "milestones (cancel_jobs s issue now) = milestones s"
  "projects (cancel_jobs s issue now) = projects s" "plans (cancel_jobs s issue now) = plans s"
  "query_ctx (cancel_jobs s issue now) = query_ctx s"
  by (simp_all add: cancel_jobs_def Let_def)

lemma open_jobs_member:
  assumes "distinct (map j_id (jobs s))" "j \<in> set (jobs s)"
  shows "j_id j \<in> open_jobs s issue \<longleftrightarrow> j_issue_id j = Some issue \<and> \<not> job_terminal (j_status j)"
  using distinct_key_unique [OF assms] assms(2) by (auto simp: open_jobs_def)

lemma associateE:
  assumes "associate s job request now = Inr s'"
  obtains (none) "s' = s"
  | (unlink) j where "job_index s job = Inr j" "s' = set_job s j (\<lambda>x. x\<lparr>j_issue_id := None\<rparr>)"
  | (link) j i s1 where "job_index s job = Inr j" "i < length (issues s)"
      "issue_index s (i_id (issues s ! i)) = Inr i"
      "i_project_id (issues s ! i) = j_project_id (jobs s ! j)"
      "s1 = s \<or> s1 = activate s i now"
      "job_terminal (j_status (jobs s ! j)) \<or> writable s (i_id (issues s ! i)) = Inr i"
      "s' = set_job s1 j (\<lambda>x. x\<lparr>j_issue_id := Some (i_id (issues s ! i))\<rparr>)"
proof (cases "get_field request ''issue''")
  case None
  with assms show ?thesis by (intro none) (simp add: associate_def)
next
  case (Some val)
  from assms obtain j ident s1 where j: "job_index s job = Inr j"
    and ident: "(case val of JNull \<Rightarrow> Inr None
             | JString q \<Rightarrow> attempt (issue_index s q) (\<lambda>i. Inr (Some (i_id (issues s ! i))))
             | _ \<Rightarrow> Inl (Invalid ''issue must be a single identifier or null'')) = Inr ident"
    and s1: "(case ident of
               None \<Rightarrow> Inr s
             | Some q \<Rightarrow>
                 attempt (issue_index s q) (\<lambda>i.
                 ensure (case non_null request ''issue_revision'' of
                           None \<Rightarrow> True
                         | Some revision \<Rightarrow> as_i64 revision = Some (i_revision (issues s ! i)))
                   (Conflict ''selected Issue revision changed'')
                 (ensure (case non_null request ''issue_content_hash'' of
                            None \<Rightarrow> True
                          | Some hash \<Rightarrow> as_str hash = Some (i_content_hash (issues s ! i)))
                   (Conflict ''selected Issue requirement changed'')
                 (ensure (i_project_id (issues s ! i) = j_project_id (jobs s ! j))
                   (Invalid ''Issue must belong to the same Project'')
                 (if job_terminal (j_status (jobs s ! j)) then Inr s
                  else attempt (writable s q) (\<lambda>_.
                    Inr (if j_started_at (jobs s ! j) \<noteq> None then activate s i now else s))))))) = Inr s1"
    and s': "s' = set_job s1 j (\<lambda>x. x\<lparr>j_issue_id := ident\<rparr>)"
    unfolding associate_def Some option.case set_job_def by (elim attemptE) simp
  show ?thesis
  proof (cases ident)
    case None
    with s1 s' j show ?thesis by (intro unlink) simp_all
  next
    case ident': (Some q)
    with ident obtain q' k where k: "issue_index s q' = Inr k" "q = i_id (issues s ! k)"
      by (auto simp: result_simps split: json.splits)
    with s1 ident' obtain i where i: "issue_index s q = Inr i"
        "i_project_id (issues s ! i) = j_project_id (jobs s ! j)"
        "s1 = s \<or> s1 = activate s i now"
        "job_terminal (j_status (jobs s ! j)) \<or> is_ok (writable s q)"
      by (auto simp: result_simps is_ok_iff split: if_splits)
    have q: "i_id (issues s ! i) = q"
      using issue_ix.index_exact_hit [OF i(1) issue_ix.index_mem [OF k(1)]] k(2) by simp
    have w: "is_ok (writable s q) \<Longrightarrow> writable s q = Inr i"
      using i(1) by (auto simp: is_ok_iff writable_def result_simps)
    show ?thesis
      using i w s' ident' by (intro link [OF j issue_ix.index_bound [OF i(1)]]) (auto simp: q)
  qed
qed

lemma writableD:
  assumes "writable s issue = Inr i"
  shows "issue_index s issue = Inr i" "i_status (issues s ! i) \<in> {IssueTodo, IssueActive}"
    "i_archived_at (issues s ! i) = None"
  using assms by (auto simp: writable_def result_simps)

text \<open>The status part of an issue transition: no other field of the guards' entities changes.\<close>

lemma apply_content_hashesE:
  assumes "apply_content_hashes i h r = Inr (i', changed)"
  obtains "i' = i\<lparr>i_content_hash := h, i_review_content_hash := r\<rparr>"
  | "i_status i = IssuePendingReview"
    "i' = i\<lparr>i_status := IssueActive, i_pending_review_at := None, i_review_reason := None,
           i_content_hash := h, i_review_content_hash := r\<rparr>"
  using assms unfolding apply_content_hashes_def Let_def
  by (elim ensureE) (cases "i_status i = IssuePendingReview \<and> i_review_content_hash i \<noteq> r"; auto)

lemma issue_updateE:
  assumes "issue_update e s request index original renamed milestone = Inr s'"
  obtains i0 path name title h r m kind where
    "i0 = original \<or> i_status original = IssuePendingReview
       \<and> i0 = original\<lparr>i_status := IssueActive, i_pending_review_at := None, i_review_reason := None\<rparr>"
    "s' = set_issue s index (\<lambda>_. i0\<lparr>i_document_path := path, i_name := name, i_title := title,
       i_content_hash := h, i_review_content_hash := r, i_milestone_id := m, i_issue_type := kind\<rparr>)"
  using assms unfolding issue_update_def Let_def
proof (elim attempt_pairE attemptE, goal_cases)
  case (1 i1 i2 i3 changed i5)
  define path name title where "path = i_document_path i1" and "name = i_name i1" and "title = i_title i2"
  from 1(2) have i1: "i1 = original\<lparr>i_document_path := path, i_name := name\<rparr>"
    by (cases renamed) (auto simp: result_simps path_def name_def)
  from 1(3) have i2: "i2 = i1\<lparr>i_title := title\<rparr>"
    by (cases "has_field request ''title''") (auto simp: result_simps title_def)
  have i5: "i5 = i3\<lparr>i_milestone_id := i_milestone_id i5, i_issue_type := i_issue_type i5\<rparr>"
    using 1(5) by (cases "has_field request ''milestone''"; cases "has_field request ''issue_type''")
      (auto simp: result_simps)
  from 1(6) have s': "s' = set_issue s index (\<lambda>_. i5)" by (simp add: set_issue_def)
  let ?h = "str_or request ''content_hash'' (i_content_hash original)"
    and ?r = "str_or request ''review_content_hash'' (i_review_content_hash original)"
  from 1(4) show ?case
  proof (rule apply_content_hashesE, goal_cases)
    case c: 1
    show ?thesis
      by (rule 1(1) [of original "i_issue_type i5" "i_milestone_id i5" ?r ?h title name path])
         (simp, subst s', subst i5, simp add: c i2 i1)
  next
    case c: 2
    show ?thesis
      by (rule 1(1) [of "original\<lparr>i_status := IssueActive, i_pending_review_at := None, i_review_reason := None\<rparr>"
            "i_issue_type i5" "i_milestone_id i5" ?r ?h title name path])
         (use c(1) in \<open>simp add: i2 i1\<close>, subst s', subst i5, cases original, simp add: c i2 i1)
  qed
qed

lemma issue_createE:
  assumes "issue_create e s request now = Inr (v, s')"
  obtains q p x where "project_index s q = Inr p" "p_archived_at (projects s ! p) = None"
    "s' = s\<lparr>issues := issues s @ [x]\<rparr>"
    "i_id x = (case str_field request ''id'' of Some i \<Rightarrow> i | None \<Rightarrow> new_id e ''issue'' 0)"
    "i_project_id x = p_id (projects s ! p)" "i_status x = IssueTodo" "i_completed_at x = None"
    "i_cancelled_at x = None" "i_archived_at x = None"
  using assms unfolding issue_create_def Let_def
proof (elim attemptE ensureE, goal_cases)
  case (1 q p title number milestone u kind filename)
  from 1(11) [unfolded sum.inject prod.inject, THEN conjunct2, symmetric] show ?case
    by (rule 1(1) [OF 1(3) 1(4)]) simp_all
qed

lemma issue_applyE:
  assumes "issue_apply e s request opts now = Inr (v, s')"
  obtains (create) "issue_create e s request now = Inr (v, s')"
  | (start) q index p where "issue_index s q = Inr index"
      "project_index s (i_project_id (issues s ! index)) = Inr p" "p_archived_at (projects s ! p) = None"
      "i_status (issues s ! index) = IssueTodo" "i_archived_at (issues s ! index) = None"
      "starts_with (actor_ref opts) ''user:''" "s' = activate s index now"
  | (change) q index p command renamed milestone s1 where "required request ''command'' = Inr command"
      "issue_index s q = Inr index"
      "project_index s (i_project_id (issues s ! index)) = Inr p" "p_archived_at (projects s ! p) = None"
      "command = ''issue.unarchive'' \<or> i_archived_at (issues s ! index) = None"
      "issue_transition e s request opts now command index (issues s ! index) (projects s ! p) renamed milestone
         = Inr s1"
      "s' = set_issue s1 index (\<lambda>i. i\<lparr>i_revision := i_revision i + 1, i_updated_at := now\<rparr>)"
  using assms unfolding issue_apply_def Let_def
proof (elim attemptE ensureE if_resultE [where y = "(v, s')"], goal_cases)
  case (2 command q index u p renamed milestone w a)
  then have "i_archived_at (issues s ! index) = None" by auto
  with 2 show ?case
    by (intro start) (auto simp: human_def ensure_eq_Inr)
next
  case (3 command q index u p renamed milestone w s1)
  then show ?case by (intro change [of command q index p renamed milestone s1]) auto
qed blast

section \<open>Milestone handlers\<close>

lemma milestone_createE:
  assumes "milestone_create e s request now = Inr (v, s')"
  obtains q p x where "project_index s q = Inr p" "p_archived_at (projects s ! p) = None"
    "s' = s\<lparr>milestones := milestones s @ [x]\<rparr>" "m_id x = new_id e ''milestone'' 0"
    "m_project_id x = p_id (projects s ! p)" "m_status x = MilestonePlanned" "m_started_at x = None"
    "m_completed_at x = None" "m_cancelled_at x = None" "m_archived_at x = None"
  using assms unfolding milestone_create_def Let_def
proof (elim attemptE ensureE, goal_cases)
  case (1 q p title number filename order due)
  from 1(10) [unfolded sum.inject prod.inject, THEN conjunct2, symmetric] show ?case
    by (rule 1(1) [OF 1(3) 1(4)]) simp_all
qed

lemma milestone_updateE:
  assumes "milestone_update e s request i now = Inr (v, s')"
  obtains title path name goal ord due where
    "s' = set_milestone s i (\<lambda>_. (milestones s ! i)\<lparr>m_title := title, m_document_path := path, m_name := name,
       m_goal := goal, m_order := ord, m_due_date := due,
       m_revision := m_revision (milestones s ! i) + 1, m_updated_at := now\<rparr>)"
  using assms unfolding milestone_update_def Let_def
proof (elim attemptE, goal_cases)
  case (1 date m1 m2 m4)
  define title path name where "title = m_title m1" and "path = m_document_path m2" and "name = m_name m2"
  from 1(3) have m1: "m1 = (milestones s ! i)\<lparr>m_title := title\<rparr>"
    by (cases "has_field request ''title''") (auto simp: result_simps title_def)
  from 1(4) have m2: "m2 = m1\<lparr>m_document_path := path, m_name := name\<rparr>"
    by (cases "has_field request ''name''") (auto simp: result_simps path_def name_def)
  define goal ord due where "goal = m_goal m4" and "ord = m_order m4"
    and "due = (if has_field request ''due_date'' then date else m_due_date m4)"
  have m4: "m4 = m2\<lparr>m_goal := goal, m_order := ord\<rparr>"
    using 1(5) by (cases "str_field request ''goal''"; cases "has_field request ''order''")
      (auto simp: result_simps goal_def ord_def)
  have due: "(if has_field request ''due_date'' then m4\<lparr>m_due_date := date\<rparr> else m4) = m4\<lparr>m_due_date := due\<rparr>"
    by (simp add: due_def)
  have "s' = set_milestone s i (\<lambda>_. m4\<lparr>m_due_date := due, m_revision := m_revision m4 + 1, m_updated_at := now\<rparr>)"
    using 1(6) unfolding due by simp
  then show ?case
    by (intro 1(1) [of due ord goal name path title]) (simp add: m4 m2 m1)
qed

section \<open>Conversations\<close>

lemma upd_nth_const: "upd_nth i (\<lambda>_. g (xs ! i)) xs = upd_nth i g xs"
  by (simp add: upd_nth_def)

lemma merge_messages_fields:
  assumes "merge_messages j messages ref now ordered before = Inr (j', n)"
  shows "j' = j\<lparr>j_conversation := j_conversation j', j_prompt := j_prompt j'\<rparr>"
  using assms unfolding merge_messages_def Let_def by (elim attempt_pairE) (auto simp: result_simps split: prod.splits)

lemma record_conversationE:
  assumes "record_conversation s request opts now = Inr (v, s')"
  obtains (same) "s' = s"
  | (merged) index conv prompt n u where
    "s' = set_job s index (\<lambda>x. x\<lparr>j_conversation := conv, j_prompt := prompt, j_revision := n, j_updated_at := u\<rparr>)"
  using assms unfolding record_conversation_def Let_def
proof (elim attemptE ensureE, goal_cases)
  case (1 ref found)
  show ?case
  proof (cases found)
    case None
    with 1(6) show ?thesis by (intro same) simp
  next
    case (Some index)
    let ?j = "jobs s ! index"
    from 1(6) [unfolded Some option.case] obtain j1 j2 m ref before ordered recorded j3 where
      j1: "j1 = ?j\<lparr>j_prompt := j_prompt j1\<rparr>"
      and m: "merge_messages j1 m ref now ordered before = Inr (j2, recorded)"
      and j3: "j3 = j2\<lparr>j_revision := j_revision j3, j_updated_at := j_updated_at j3\<rparr>"
      and s': "s' = s\<lparr>jobs := upd_nth index (\<lambda>_. j3) (jobs s)\<rparr>"
    proof (elim attempt_pairE attemptE, goal_cases)
      case (1 m planned j2 recorded)
      show ?case
        by (rule 1(1) [OF _ 1(4) _ 1(5) [unfolded sum.inject prod.inject, THEN conjunct2, symmetric]]) simp_all
    qed
    note j2 = merge_messages_fields [OF m]
    define conv prompt n u where "conv = j_conversation j3" and "prompt = j_prompt j3"
      and "n = j_revision j3" and "u = j_updated_at j3"
    have "j3 = ?j\<lparr>j_conversation := conv, j_prompt := prompt, j_revision := n, j_updated_at := u\<rparr>"
      unfolding conv_def prompt_def n_def u_def
      by (subst j3, subst j2, subst j1, subst (1 2) j3) simp
    then show ?thesis
      by (intro merged [of index u n prompt conv]) (simp add: s' set_job_def upd_nth_def)
  qed
qed

section \<open>Renaming\<close>

lemma rebase_rows:
  assumes "map_result (\<lambda>x. if c x then attempt (rebase_path err old new (path x)) (\<lambda>p. Inr (g p x)) else Inr x) xs
      = Inr ys"
  shows "list_all2 (\<lambda>x y. y = x \<and> \<not> c x \<or> c x \<and> (\<exists>p. y = g p x)) xs ys"
  using assms unfolding map_result_eq_Inr
  by (rule list_all2_mono) (auto simp: attempt_eq_Inr split: if_splits)

lemma rename_projectE:
  assumes "rename_project s request opts = Inr (v, s')"
  obtains q index name dir xs ms js ps where "project_index s q = Inr index"
    "expected_revision opts \<in> {None, Some (p_revision (projects s ! index))}"
    "list_all2 (\<lambda>x y. y = x \<or> (\<exists>p. y = x\<lparr>i_document_path := p, i_revision := i_revision x + 1\<rparr>)) (issues s) xs"
    "list_all2 (\<lambda>x y. y = x \<or> (\<exists>p. y = x\<lparr>m_document_path := p, m_revision := m_revision x + 1\<rparr>)) (milestones s) ms"
    "list_all2 (\<lambda>x y. y = x \<or> (\<exists>p. y = x\<lparr>j_document_path := p, j_revision := j_revision x + 1\<rparr>)) (jobs s) js"
    "list_all2 (\<lambda>x y. y = x \<or> (\<exists>p. y = x\<lparr>pl_path := p\<rparr>)) (plans s) ps"
    "s' = s\<lparr>projects := upd_nth index (\<lambda>p. p\<lparr>p_document_directory := dir, p_name := name, p_key := name,
            p_revision := p_revision p + 1\<rparr>) (projects s),
       issues := xs, milestones := ms, jobs := js, plans := ps\<rparr>"
  using assms unfolding rename_project_def Let_def
proof (elim attemptE ensureE, goal_cases)
  case (1 q index u name xs ms js ps)
  let ?dir = "case str_field request ''directory'' of Some d \<Rightarrow> d
      | None \<Rightarrow> replace_backslash (with_file_name (document_directory (projects s ! index)) name)"
  let ?f = "\<lambda>p. p\<lparr>p_document_directory := (if ?dir \<noteq> ''Projects/'' @ name then Some ?dir else None),
      p_name := name, p_key := name, p_revision := p_revision p + 1\<rparr>"
  from 1(12) have "s' = s\<lparr>projects := upd_nth index (\<lambda>_. ?f (projects s ! index)) (projects s),
      issues := xs, milestones := ms, jobs := js, plans := ps\<rparr>"
    by (simp only: sum.inject prod.inject)
  then have s': "s' = s\<lparr>projects := upd_nth index ?f (projects s),
      issues := xs, milestones := ms, jobs := js, plans := ps\<rparr>"
    by (simp add: upd_nth_def)
  show ?case
    by (rule 1(1) [OF 1(3) _ list_all2_mono [OF rebase_rows [OF 1(8)]] list_all2_mono [OF rebase_rows [OF 1(9)]]
          list_all2_mono [OF rebase_rows [OF 1(10)]] list_all2_mono [OF rebase_rows [OF 1(11)]] s'])
       (use 1(4) in \<open>auto simp: check_revision_eq_Inr\<close>)
qed

section \<open>Deletion\<close>

lemma deletion_applyE:
  assumes "deletion_apply s request opts = Inr (v, s')"
  obtains all gone ident work where
    "all \<Longrightarrow> \<exists>i q. project_index s q = Inr i \<and> ident = p_id (projects s ! i)
       \<and> gone = j_id ` {j \<in> set (jobs s). j_project_id j = ident}"
    "\<not> all \<Longrightarrow> \<exists>i q. job_index s q = Inr i \<and> ident = j_id (jobs s ! i) \<and> gone = {ident}"
    "work = t_id ` {t \<in> set (tasks s). t_job_id t \<in> gone}"
    "\<forall>l \<in> set (leases s). l_task_id l \<notin> work"
    "\<forall>t \<in> set (tasks s). t_id t \<notin> work \<longrightarrow> set (t_dependencies t) \<inter> work = {}"
    "tasks s' = filter (\<lambda>t. t_id t \<notin> work) (tasks s)" "jobs s' = filter (\<lambda>j. j_id j \<notin> gone) (jobs s)"
    "plans s' = filter (\<lambda>p. pl_task_id p \<notin> work) (plans s)" "leases s' = leases s"
    "query_ctx s' = query_ctx s"
    "issues s' = (if all then filter (\<lambda>x. i_project_id x \<noteq> ident) (issues s) else issues s)"
    "milestones s' = (if all then filter (\<lambda>x. m_project_id x \<noteq> ident) (milestones s) else milestones s)"
    "projects s' = (if all then filter (\<lambda>p. p_id p \<noteq> ident) (projects s) else projects s)"
  using assms unfolding deletion_apply_def Let_def
proof (elim attemptE ensureE, goal_cases)
  case (1 command found)
  obtain ident revision gone where found: "found = (ident, revision, gone)" by (cases found)
  let ?all = "command = ''project.delete''"
  let ?work = "t_id ` {t \<in> set (tasks s). t_job_id t \<in> set gone}"
  from 1(4) [unfolded found split] have
    free: "\<not> list_ex (\<lambda>l. l_task_id l \<in> ?work) (leases s)"
    and used: "\<not> list_ex (\<lambda>t. t_id t \<notin> ?work \<and> list_ex (\<lambda>d. d \<in> ?work) (t_dependencies t)) (tasks s)"
    and s': "\<exists>seqs. let s1 = s\<lparr>document_sequences := seqs,
                 plans := filter (\<lambda>p. pl_task_id p \<notin> ?work) (plans s),
                 tasks := filter (\<lambda>t. t_id t \<notin> ?work) (tasks s),
                 jobs := filter (\<lambda>j. j_id j \<notin> set gone) (jobs s)\<rparr>
          in s' = (if ?all then
                  s1\<lparr>issues := filter (\<lambda>x. i_project_id x \<noteq> ident) (issues s1),
                     milestones := filter (\<lambda>x. m_project_id x \<noteq> ident) (milestones s1),
                     projects := filter (\<lambda>p. p_id p \<noteq> ident) (projects s1),
                     document_sequences := filter (\<lambda>(k, _). \<not> starts_with k (ident @ '':''))
                       (document_sequences s1)\<rparr>
                else s1)"
    by (elim attemptE ensureE; simp only: set_map set_filter sum.inject prod.inject Let_def; blast)+
  define all work where "all = ?all" and "work = ?work"
  from s' obtain seqs where s'': "s' = (let s1 = s\<lparr>document_sequences := seqs,
                 plans := filter (\<lambda>p. pl_task_id p \<notin> work) (plans s),
                 tasks := filter (\<lambda>t. t_id t \<notin> work) (tasks s),
                 jobs := filter (\<lambda>j. j_id j \<notin> set gone) (jobs s)\<rparr>
          in if all then
                  s1\<lparr>issues := filter (\<lambda>x. i_project_id x \<noteq> ident) (issues s1),
                     milestones := filter (\<lambda>x. m_project_id x \<noteq> ident) (milestones s1),
                     projects := filter (\<lambda>p. p_id p \<noteq> ident) (projects s1),
                     document_sequences := filter (\<lambda>(k, _). \<not> starts_with k (ident @ '':''))
                       (document_sequences s1)\<rparr>
                else s1)"
    unfolding Let_def all_def work_def by blast
  show ?case
  proof (rule 1(1) [of all ident "set gone" work])
    assume all
    then show "\<exists>i q. project_index s q = Inr i \<and> ident = p_id (projects s ! i)
       \<and> set gone = j_id ` {j \<in> set (jobs s). j_project_id j = ident}"
      using 1(3) found by (auto simp: attempt_eq_Inr all_def)
  next
    assume "\<not> all"
    then show "\<exists>i q. job_index s q = Inr i \<and> ident = j_id (jobs s ! i) \<and> set gone = {ident}"
      using 1(3) found by (auto simp: attempt_eq_Inr all_def)
  next
    show "\<forall>l \<in> set (leases s). l_task_id l \<notin> work" using free by (auto simp: list_ex_iff work_def)
    show "\<forall>t \<in> set (tasks s). t_id t \<notin> work \<longrightarrow> set (t_dependencies t) \<inter> work = {}"
      using used by (auto simp: list_ex_iff work_def)
    show "work = ?work" by (fact work_def)
  qed (simp_all add: s'' Let_def)
qed

section \<open>Sessions\<close>

lemma session_step_cases:
  obtains (same) "session_step e request command ref now i (s, changed) = (s, changed)"
  | (block) reason where "t_status (tasks s ! i) = TaskInProgress"
      "session_step e request command ref now i (s, changed)
         = (system_block s i reason now, changed @ [t_id (tasks s ! i)])"
  | (resume) r s1 where "t_system_block (tasks s ! i)" "claim e s i r now i = Inr s1"
      "session_step e request command ref now i (s, changed)
         = (set_task s1 i (\<lambda>x. x\<lparr>t_revision := t_revision x + 1, t_updated_at := now\<rparr>),
            changed @ [t_id (tasks s ! i)])"
  | (beat) "session_step e request command ref now i (s, changed)
         = (s\<lparr>leases := upd_where (\<lambda>l. l_task_id l = t_id (tasks s ! i) \<and> l_session_ref l = ref)
               (\<lambda>l. l\<lparr>l_expires_at := now + default_lease_seconds\<rparr>) (leases s)\<rparr>, changed)"
proof -
  let ?t = "tasks s ! i" and ?step = "session_step e request command ref now i (s, changed)"
  consider "other_session request ref ?t"
    | "\<not> other_session request ref ?t" "(command = ''session.end'' \<or> command = ''session.interrupt'') \<and> t_status ?t = TaskInProgress"
    | "\<not> other_session request ref ?t" "\<not> ((command = ''session.end'' \<or> command = ''session.interrupt'') \<and> t_status ?t = TaskInProgress)"
      "command = ''session.start'' \<and> t_system_block ?t \<and> t_status ?t = TaskBlocked"
    | "\<not> other_session request ref ?t" "\<not> ((command = ''session.end'' \<or> command = ''session.interrupt'') \<and> t_status ?t = TaskInProgress)"
      "\<not> (command = ''session.start'' \<and> t_system_block ?t \<and> t_status ?t = TaskBlocked)"
    by blast
  then show ?thesis
  proof cases
    case 1
    then show ?thesis by (intro same) (simp add: session_step_def Let_def)
  next
    case 2
    then show ?thesis by (intro block) (simp_all add: session_step_def Let_def)
  next
    case 3
    let ?r = "JObject [(''executor'', opt_json (t_last_executor ?t)), (''session'', JString ref),
                      (''delegated_by'', opt_json (t_delegated_by ?t))]"
    show ?thesis
    proof (cases "claim e s i ?r now i")
      case (Inl x)
      with 3 show ?thesis by (intro same) (simp add: session_step_def Let_def)
    next
      case (Inr s1)
      with 3 show ?thesis by (intro resume) (simp_all add: session_step_def Let_def)
    qed
  next
    case 4
    have nots: "((command = ''session.end'' \<or> command = ''session.interrupt'') \<and> t_status ?t = TaskInProgress) = False"
        "(command = ''session.start'' \<and> t_system_block ?t \<and> t_status ?t = TaskBlocked) = False"
        "other_session request ref ?t = False"
      using 4 by blast+
    show ?thesis
    proof (cases "command = ''session.heartbeat''")
      case True
      with nots show ?thesis by (intro beat) (simp only: session_step_def Let_def split if_False, simp)
    next
      case False
      with nots show ?thesis by (intro same) (simp only: session_step_def Let_def split if_False)
    qed
  qed
qed

lemma session_invariant:
  assumes "session e s request now = Inr (v, s')" and "P s"
    and step: "\<And>s changed i command ref. P s \<Longrightarrow> i < length (tasks s) \<Longrightarrow>
      P (fst (session_step e request command ref now i (s, changed)))"
    and len: "\<And>s changed i command ref.
      length (tasks (fst (session_step e request command ref now i (s, changed)))) = length (tasks s)"
  shows "P s'"
proof -
  have fold: "P (fst (fold (session_step e request command ref now) is acc))"
    if "P (fst acc)" "set is \<subseteq> {..<length (tasks (fst acc))}" for command ref "is" acc
    using that
  proof (induction "is" arbitrary: acc)
    case (Cons i "is")
    obtain t changed where acc: "acc = (t, changed)" by (cases acc)
    show ?case
      using Cons.prems step [of t i command ref changed] len [of command ref i t changed]
      by (simp add: acc Cons.IH)
  qed simp
  from assms(1) obtain command ref where
      "s' = fst (fold (session_step e request command ref now) [0..<length (tasks s)] (s, []))"
    unfolding session_def Let_def case_prod_beta by (elim attemptE) auto
  then show ?thesis using fold [of "(s, [])" "[0..<length (tasks s)]"] assms(2) by force
qed

end
