(* ===== verification/Identity.thy ===== *)
theory Identity
  imports Effects
begin

text \<open>
  Identifiers: every table has distinct keys, no Task has an empty one, a lease is the only one of its Task, and every command
  keeps this, provided that the identifiers it generates (or takes from an \<open>issue.create\<close>
  request) are new. The interface \<open>mutation_invariant\<close> states what an invariant has to show for the
  handlers, and gives that every mutation keeps it.
\<close>

section \<open>The interface of an invariant\<close>

locale mutation_invariant =
  fixes inv :: "snapshot \<Rightarrow> bool" and admissible :: "env \<Rightarrow> snapshot \<Rightarrow> json \<Rightarrow> bool"
  assumes inv_issue: "inv s \<Longrightarrow> admissible e s r \<Longrightarrow> issue_apply e s r opts now = Inr (v, s') \<Longrightarrow> inv s'"
    and inv_milestone: "inv s \<Longrightarrow> admissible e s r \<Longrightarrow> milestone_apply e s r opts now = Inr (v, s') \<Longrightarrow> inv s'"
    and inv_register: "inv s \<Longrightarrow> admissible e s r \<Longrightarrow> register_project e s r now = Inr (v, s') \<Longrightarrow> inv s'"
    and inv_move: "inv s \<Longrightarrow> admissible e s r \<Longrightarrow> move_project e s r opts = Inr (v, s') \<Longrightarrow> inv s'"
    and inv_rename: "inv s \<Longrightarrow> rename_project s r opts = Inr (v, s') \<Longrightarrow> inv s'"
    and inv_delete: "inv s \<Longrightarrow> deletion_apply s r opts = Inr (v, s') \<Longrightarrow> inv s'"
    and inv_archive: "inv s \<Longrightarrow> archive_project s r opts now = Inr (v, s') \<Longrightarrow> inv s'"
    and inv_record: "inv s \<Longrightarrow> record_conversation s r opts now = Inr (v, s') \<Longrightarrow> inv s'"
    and inv_create_job: "inv s \<Longrightarrow> admissible e s r \<Longrightarrow> create_job e s r opts now = Inr (v, s') \<Longrightarrow> inv s'"
    and inv_update_job: "inv s \<Longrightarrow> admissible e s r \<Longrightarrow> update_job e s r opts now = Inr (v, s') \<Longrightarrow> inv s'"
    and inv_add_task: "inv s \<Longrightarrow> admissible e s r \<Longrightarrow> add_task e s r opts now = Inr (v, s') \<Longrightarrow> inv s'"
    and inv_session: "inv s \<Longrightarrow> admissible e s r \<Longrightarrow> session e s r now = Inr (v, s') \<Longrightarrow> inv s'"
    and inv_update_task: "inv s \<Longrightarrow> admissible e s r \<Longrightarrow> update_task e s r opts now = Inr (v, s') \<Longrightarrow> inv s'"
    and inv_associate: "inv s \<Longrightarrow> required r ''command'' = Inr c \<Longrightarrow>
      (c = ''job.create'' \<and> create_job e s0 r opts now = Inr (VJob j, s))
      \<or> (c = ''job.update'' \<or> c = ''job.followup'') \<and> update_job e s0 r opts now = Inr (VJob j, s) \<Longrightarrow>
      inv s0 \<Longrightarrow> admissible e s0 r \<Longrightarrow> associate s (j_id j) r now = Inr s' \<Longrightarrow> inv s'"
begin

lemma inv_attach: "inv s \<Longrightarrow> attach_conversation s r opts = Inr (v, s') \<Longrightarrow> inv s'"
  unfolding attach_conversation_def Let_def by (elim attemptE ensureE) simp

lemma inv_stage: "inv s \<Longrightarrow> Inr (u, s) = (Inr (v, s') :: (outcome_value \<times> snapshot) result) \<Longrightarrow> inv s'"
  by simp

lemma inv_dispatch:
  assumes "inv s" "admissible e s r" "dispatch e s r opts now command = Inr (v, s')"
  shows "inv s'"
  using assms(3) unfolding dispatch_def
  by (elim if_resultE)
     (erule inv_issue [OF assms(1,2)] inv_milestone [OF assms(1,2)] inv_register [OF assms(1,2)]
        inv_move [OF assms(1,2)] inv_rename [OF assms(1)] inv_delete [OF assms(1)]
        inv_archive [OF assms(1)] inv_record [OF assms(1)] inv_attach [OF assms(1)]
        inv_create_job [OF assms(1,2)] inv_update_job [OF assms(1,2)] inv_add_task [OF assms(1,2)]
        inv_session [OF assms(1,2)] inv_update_task [OF assms(1,2)] inv_stage [OF assms(1)] sum.distinct [THEN notE])+

lemma dispatch_job:
  assumes "dispatch e s r opts now c = Inr (v, s')" "c \<in> {''job.create'', ''job.update'', ''job.followup''}"
  shows "c = ''job.create'' \<and> create_job e s r opts now = Inr (v, s')
    \<or> (c = ''job.update'' \<or> c = ''job.followup'') \<and> update_job e s r opts now = Inr (v, s')"
  using assms by (auto simp: dispatch_def starts_with_def)

lemma inv_mutate:
  assumes "inv s" "admissible e s r" "mutate e s r opts now = Inr (v, s')"
  shows "inv s'"
  using assms(3) unfolding mutate_def
proof (elim attempt_pairE attemptE ensureE if_resultE, goal_cases)
  case (1 u c v1 s1 ident s2 i)
  obtain j where j: "v1 = VJob j" "ident = j_id j"
    using 1(6) by (auto simp: value_id_def split: outcome_value.splits if_splits)
  have "inv s2"
    by (rule inv_associate [OF inv_dispatch [OF assms(1,2) 1(4)] 1(2) _ assms(1,2)])
       (use 1(7) dispatch_job [OF 1(4,5)] in \<open>simp_all add: j\<close>)
  with 1(9) show ?case by simp
next
  case (2 u c v1 s1)
  with inv_dispatch [OF assms(1,2)] show ?case by simp
qed

end

section \<open>Distinct identifiers\<close>

definition ids_ok :: "snapshot \<Rightarrow> bool" where
  "ids_ok s \<longleftrightarrow>
     distinct (map p_id (projects s)) \<and> distinct (map j_id (jobs s)) \<and> distinct (map t_id (tasks s))
     \<and> distinct (map i_id (issues s)) \<and> distinct (map m_id (milestones s))
     \<and> distinct (map l_task_id (leases s)) \<and> [] \<notin> set (map t_id (tasks s))"

text \<open>The identifiers a command may introduce are not in use.\<close>

definition fresh_ids :: "env \<Rightarrow> snapshot \<Rightarrow> json \<Rightarrow> bool" where
  "fresh_ids e s request \<longleftrightarrow>
     new_id e ''prj'' 0 \<notin> set (map p_id (projects s))
     \<and> new_id e ''job'' 0 \<notin> set (map j_id (jobs s))
     \<and> new_id e ''task'' 0 \<notin> set (map t_id (tasks s))
     \<and> new_id e ''milestone'' 0 \<notin> set (map m_id (milestones s))
     \<and> (case str_field request ''id'' of Some i \<Rightarrow> i | None \<Rightarrow> new_id e ''issue'' 0) \<notin> set (map i_id (issues s))"

text \<open>A change that leaves the key columns alone, up to appended and removed rows.\<close>

definition same_ids :: "snapshot \<Rightarrow> snapshot \<Rightarrow> bool" where
  "same_ids s s' \<longleftrightarrow>
     map p_id (projects s') = map p_id (projects s) \<and> map j_id (jobs s') = map j_id (jobs s)
     \<and> map t_id (tasks s') = map t_id (tasks s) \<and> map i_id (issues s') = map i_id (issues s)
     \<and> map m_id (milestones s') = map m_id (milestones s)
     \<and> (distinct (map l_task_id (leases s)) \<longrightarrow> distinct (map l_task_id (leases s')))"

lemma same_ids_refl [simp]: "same_ids s s"
  by (simp add: same_ids_def)

lemma same_ids_trans [trans]: "same_ids s s1 \<Longrightarrow> same_ids s1 s' \<Longrightarrow> same_ids s s'"
  by (simp add: same_ids_def)

lemma ids_ok_same: "ids_ok s \<Longrightarrow> same_ids s s' \<Longrightarrow> ids_ok s'"
  by (simp add: ids_ok_def same_ids_def)

lemma same_ids_updates:
  "(\<And>x. t_id (f x) = t_id x) \<Longrightarrow> same_ids s (set_task s i f)"
  "(\<And>x. j_id (g x) = j_id x) \<Longrightarrow> same_ids s (set_job s i g)"
  "(\<And>x. i_id (h x) = i_id x) \<Longrightarrow> same_ids s (set_issue s i h)"
  "(\<And>x. m_id (k x) = m_id x) \<Longrightarrow> same_ids s (set_milestone s i k)"
  "same_ids s (activate s i now)"
  "same_ids s (s\<lparr>plans := ps\<rparr>)"
  by (simp_all add: same_ids_def set_task_def set_job_def set_issue_def set_milestone_def activate_def map_upd_nth)

lemma same_ids_leases:
  "(distinct (map l_task_id (leases s)) \<Longrightarrow> distinct (map l_task_id ls)) \<Longrightarrow> same_ids s (s\<lparr>leases := ls\<rparr>)"
  by (simp add: same_ids_def)

lemma same_ids_claim: "claim e s i request now k = Inr s' \<Longrightarrow> same_ids s s'"
  by (erule claimE) (auto simp: same_ids_def map_upd_nth)

lemma same_ids_system_block: "same_ids s (system_block s i reason now)"
  by (simp add: system_block_def Let_def same_ids_def map_upd_nth distinct_map_filter)

lemma same_ids_branch:
  assumes "task_branch e s i j request now command b h = Inr s'"
  shows "same_ids s s'"
  using assms
proof (cases rule: task_branchE)
  case start
  then show ?thesis by (elim start_taskE) (auto simp: same_ids_def map_upd_nth map_activate)
next
  case heartbeat
  then show ?thesis
    by (auto simp: heartbeat_task_def same_ids_def map_upd_nth split: option.splits)
next
  case edit
  then show ?thesis by (elim edit_taskE disjE exE) (simp_all add: same_ids_def map_upd_nth)
next
  case depend
  then show ?thesis
    by (elim depend_taskE) (auto simp: same_ids_def map_upd_nth)
next
  case reopen
  then show ?thesis by (elim reopen_taskE) (simp add: same_ids_def map_upd_nth)
next
  case leave
  then show ?thesis
    by (elim leave_taskE) (simp add: same_ids_def map_upd_nth distinct_map_filter)
qed (rule same_ids_claim)

lemma same_ids_update_task:
  assumes "update_task e s request opts now = Inr (v, s')"
  shows "same_ids s s'"
  using assms
proof (rule update_taskE, goal_cases)
  case (1 q i j p command h b)
  from 1(14) show ?case
  proof (elim disjE conjE exE)
    fix s1 completion
    assume "task_branch e s i j request now command b h = Inr s1"
    then have "same_ids s s1" by (rule same_ids_branch)
    moreover assume "finish_task s1 i j (tasks s ! i) completion (job_ready s (t_job_id (tasks s ! i))) now = Inr (v, s')"
    then have "same_ids s1 s'"
      by (elim finish_taskE) (auto simp: same_ids_def aggregate_job_def Let_def map_upd_nth)
    ultimately show ?thesis by (rule same_ids_trans)
  next
    assume "register_plan e s i request now = Inr (v, s')"
    then show ?thesis
      unfolding register_plan_def Let_def by (elim ensureE attemptE) (auto simp: same_ids_def map_upd_nth)
  qed
qed

lemma same_ids_session_step:
  "same_ids s (fst (session_step e request command ref now i (s, changed)))"
  by (rule session_step_cases [of e request command ref now i s changed])
     (auto simp: system_block_def Let_def same_ids_def map_upd_nth map_upd_where distinct_map_filter
       dest!: same_ids_claim)

lemma session_step_length:
  "length (tasks (fst (session_step e request command ref now i (s, changed)))) = length (tasks s)"
  using same_ids_session_step unfolding same_ids_def by (metis length_map)

lemma same_ids_session:
  assumes "session e s request now = Inr (v, s')"
  shows "same_ids s s'"
  by (rule session_invariant [OF assms, of "same_ids s"])
     (auto simp: session_step_length intro: same_ids_trans [OF _ same_ids_session_step])

lemma same_ids_update_job:
  assumes "update_job e s request opts now = Inr (v, s')"
  shows "same_ids s s'"
  using assms
proof (rule update_jobE, goal_cases)
  case (1 q i p command)
  from 1(7) show ?case
  proof (elim disjE conjE)
    assume "review_job s i request now (actor_ref opts = ''user:obsidian'') = Inr (v, s')"
    then show ?thesis
      by (elim review_jobE) (auto simp: same_ids_def complete_open_tasks_def Let_def map_upd_nth
          map_upd_where distinct_map_filter)
  next
    assume "followup_job e s i request opts now = Inr (v, s')"
    then show ?thesis by (elim followup_jobE) (simp add: same_ids_def map_upd_nth)
  next
    assume "change_job e s request now command i (jobs s ! i) (document_directory (projects s ! p)) = Inr (v, s')"
    then show ?thesis
    proof (rule change_jobE)
      fix s1 j1
      assume s1: "command = ''job.cancel'' \<and> cancel_job s i now = Inr s1 \<or> s1 = s"
        and j1: "j1 = jobs s1 ! i \<or> (\<exists>renamed. edit_job e request renamed (jobs s1 ! i) = Inr j1)
          \<or> (\<exists>directory. archive_job e directory now (jobs s1 ! i) = Inr j1)
          \<or> (\<exists>directory. unarchive_job e directory (jobs s1 ! i) = Inr j1)"
        and s': "s' = set_job s1 i (\<lambda>_. j1\<lparr>j_revision := j_revision j1 + 1, j_updated_at := now\<rparr>)"
      from s1 have "same_ids s s1"
        by (auto simp: cancel_job_def Let_def result_simps same_ids_def map_upd_nth map_upd_where)
      moreover from j1 have "j_id j1 = j_id (jobs s1 ! i)"
        by (elim disjE exE; (elim edit_jobE)?) (auto simp: archive_job_def unarchive_job_def result_simps)
      then have "same_ids s1 s'"
        by (auto simp: s' same_ids_def upd_nth_def map_update list_update_same_conv)
      ultimately show ?thesis by (rule same_ids_trans)
    qed
  qed
qed

lemma same_ids_cancel_jobs: "same_ids s (cancel_jobs s issue now)"
  by (simp add: same_ids_def cancel_jobs_eqs map_upd_where distinct_map_filter)

lemma same_ids_issue_step:
  "(Inr (set_issue s i f) :: snapshot result) = Inr s1 \<Longrightarrow> (\<And>x. i_id (f x) = i_id x) \<Longrightarrow> same_ids s s1"
  using same_ids_updates(3) [of f s i] by simp

lemma same_ids_transition:
  assumes "issue_transition e s request opts now command index original project renamed milestone = Inr s'"
    and "original = issues s ! index"
  shows "same_ids s s'"
  using assms(1) unfolding issue_transition_def Let_def
proof (elim if_resultE, goal_cases)
  case 1
  from 1(2) show ?case
    by (rule issue_updateE)
       (auto simp: assms(2) same_ids_def upd_nth_def map_update list_update_same_conv)
next
  case 5
  from 5(6) have s': "s' = set_issue (cancel_jobs s (i_id original) now) index
      (\<lambda>i. i\<lparr>i_status := IssueCancelled, i_cancelled_at := Some now\<rparr>)"
    by (elim attemptE ensureE) simp
  show ?case
    unfolding s' by (rule same_ids_trans [OF same_ids_cancel_jobs same_ids_updates(3)]) simp
qed ((elim attemptE ensureE, erule same_ids_issue_step, simp) | (erule notE [OF sum.distinct(1)]))+

lemma same_ids_associate: "associate s job request now = Inr s' \<Longrightarrow> same_ids s s'"
  by (erule associateE) (auto simp: same_ids_def map_upd_nth map_activate)

lemma ids_issue_apply:
  assumes "ids_ok s" "fresh_ids e s request" "issue_apply e s request opts now = Inr (v, s')"
  shows "ids_ok s'"
  using assms(3)
proof (cases rule: issue_applyE)
  case create
  then show ?thesis using assms(1,2) by (elim issue_createE) (simp add: ids_ok_def fresh_ids_def)
next
  case start
  then show ?thesis using assms(1) ids_ok_same same_ids_updates(5) by blast
next
  case (change q index p command renamed milestone s1)
  from same_ids_transition [OF change(6) refl] have "same_ids s s'"
    unfolding change(7) by (rule same_ids_trans) (simp add: same_ids_updates(3))
  with assms(1) show ?thesis by (rule ids_ok_same)
qed

lemma same_ids_milestone_step:
  "(Inr (set_milestone s i f) :: snapshot result) = Inr s1 \<Longrightarrow> (\<And>x. m_id (f x) = m_id x) \<Longrightarrow> same_ids s s1"
  using same_ids_updates(4) [of f s i] by simp

lemma ids_milestone_apply:
  assumes "ids_ok s" "fresh_ids e s request" "milestone_apply e s request opts now = Inr (v, s')"
  shows "ids_ok s'"
  using assms(3) unfolding milestone_apply_def Let_def
proof (elim attemptE ensureE if_resultE [where y = "(v, s')"], goal_cases)
  case 1
  from 1(3) assms(1,2) show ?case
    by (elim milestone_createE) (simp add: ids_ok_def fresh_ids_def)
next
  case (2 command q i u p)
  have "same_ids s s'"
    using 2(10) unfolding milestone_transition_def Let_def
  proof (elim attemptE, goal_cases)
    case (1 k s1)
    from 1(2) have "same_ids s s1"
      by (elim if_resultE attemptE ensureE) ((erule same_ids_milestone_step, simp) | simp)+
    with 1(3) show ?thesis by (auto simp: same_ids_def map_upd_nth)
  qed
  with assms(1) show ?case by (rule ids_ok_same)
next
  case (3 command q i u p)
  have "map m_id (milestones s') = take i (map m_id (milestones s)) @ drop (Suc i) (map m_id (milestones s))"
    "projects s' = projects s" "jobs s' = jobs s" "tasks s' = tasks s" "issues s' = issues s" "leases s' = leases s"
    using 3(11) by (auto simp: milestone_delete_def Let_def ensure_eq_Inr take_map drop_map)
  with assms(1) show ?case
    by (auto simp: ids_ok_def dest: in_set_takeD in_set_dropD) (metis disjoint_iff set_take_disj_set_drop_if_distinct lessI less_imp_le)
next
  case (4 command q i u p)
  have "same_ids s s'"
    using 4(11) by (elim milestone_updateE) (auto simp: same_ids_def upd_nth_def map_update list_update_same_conv)
  with assms(1) show ?case by (rule ids_ok_same)
qed

lemma same_ids_list_all2: "list_all2 R xs ys \<Longrightarrow> (\<And>x y. R x y \<Longrightarrow> key y = key x) \<Longrightarrow> map key ys = map key xs"
  by (induction rule: list_all2_induct) auto

lemma same_ids_rename:
  assumes "rename_project s request opts = Inr (v, s')"
  shows "same_ids s s'"
  using assms
proof (rule rename_projectE, goal_cases)
  case (1 q index name dir xs ms js ps)
  have "map i_id xs = map i_id (issues s)" by (rule same_ids_list_all2 [OF 1(3)]) auto
  moreover have "map m_id ms = map m_id (milestones s)" by (rule same_ids_list_all2 [OF 1(4)]) auto
  moreover have "map j_id js = map j_id (jobs s)" by (rule same_ids_list_all2 [OF 1(5)]) auto
  ultimately show ?case by (simp add: same_ids_def 1(7) map_upd_nth)
qed

lemma ids_register:
  "ids_ok s \<Longrightarrow> fresh_ids e s request \<Longrightarrow> register_project e s request now = Inr (v, s') \<Longrightarrow> ids_ok s'"
  by (auto simp: register_project_def Let_def result_simps ids_ok_def fresh_ids_def split: option.splits)

lemma same_ids_move: "move_project e s request opts = Inr (v, s') \<Longrightarrow> same_ids s s'"
  unfolding move_project_def Let_def by (elim attemptE ensureE) (auto simp: same_ids_def map_upd_nth)

lemma same_ids_archive: "archive_project s request opts now = Inr (v, s') \<Longrightarrow> same_ids s s'"
  unfolding archive_project_def Let_def by (elim attemptE ensureE) (auto simp: same_ids_def map_upd_nth)

lemma ids_delete: "ids_ok s \<Longrightarrow> deletion_apply s request opts = Inr (v, s') \<Longrightarrow> ids_ok s'"
  by (erule deletion_applyE) (auto simp: ids_ok_def distinct_map_filter image_iff)

lemma same_ids_record: "record_conversation s request opts now = Inr (v, s') \<Longrightarrow> same_ids s s'"
  by (erule record_conversationE) (auto simp: same_ids_def map_upd_nth)

interpretation ids: mutation_invariant ids_ok fresh_ids
proof unfold_locales
  fix s e r opts now v s'
  assume ok: "ids_ok s" and fresh: "fresh_ids e s r"
  show "create_job e s r opts now = Inr (v, s') \<Longrightarrow> ids_ok s'"
    using ok fresh by (elim create_jobE) (simp add: ids_ok_def fresh_ids_def)
  show "add_task e s r opts now = Inr (v, s') \<Longrightarrow> ids_ok s'"
    using ok fresh by (elim add_taskE) (simp add: ids_ok_def fresh_ids_def map_upd_nth new_id_def)
next
  fix s s0 e r c opts now j s'
  assume "ids_ok s" "associate s (j_id j) r now = Inr s'"
  then show "ids_ok s'" using ids_ok_same same_ids_associate by blast
qed ((erule (2) ids_issue_apply ids_milestone_apply ids_register) | (erule (1) ids_delete)
    | (erule ids_ok_same, erule same_ids_rename same_ids_move same_ids_archive same_ids_record
        same_ids_session same_ids_update_task same_ids_update_job))+

end
