(* ===== verification/Entity_Invariants.thy ===== *)
theory Entity_Invariants
  imports Identity
begin

text \<open>
  The shape of single entities: which timestamps, phases and reasons go with which status. Every
  command keeps these shapes, whatever the request, the environment and the other entities are.
\<close>

section \<open>Well-formed entities\<close>

definition task_ok :: "task \<Rightarrow> bool" where
  "task_ok t \<longleftrightarrow>
     (t_phase t \<noteq> None \<longleftrightarrow> t_status t = TaskInProgress)
     \<and> (t_completed_at t \<noteq> None \<longleftrightarrow> task_terminal (t_status t))
     \<and> (t_phase t = Some Executing \<longrightarrow> t_started_at t \<noteq> None \<and> t_current_plan t \<noteq> None)
     \<and> (t_status t \<in> {TaskBlocked, TaskWaitingUser, TaskFailed} \<longrightarrow> t_reason t \<noteq> None)
     \<and> (t_system_block t \<longrightarrow> t_status t = TaskBlocked)"

definition job_ok :: "job \<Rightarrow> bool" where
  "job_ok j \<longleftrightarrow>
     (j_completed_at j \<noteq> None \<longleftrightarrow> j_status j = JobCompleted)
     \<and> (j_cancelled_at j \<noteq> None \<longleftrightarrow> j_status j = JobCancelled)
     \<and> (j_status j = JobPendingReview \<longrightarrow> j_pending_review_at j \<noteq> None)
     \<and> (j_archived_at j \<noteq> None \<longrightarrow> job_terminal (j_status j))"

definition issue_ok :: "issue \<Rightarrow> bool" where
  "issue_ok i \<longleftrightarrow>
     (i_completed_at i \<noteq> None \<longleftrightarrow> i_status i = IssueCompleted)
     \<and> (i_cancelled_at i \<noteq> None \<longleftrightarrow> i_status i = IssueCancelled)
     \<and> (i_status i = IssuePendingReview \<longrightarrow> i_pending_review_at i \<noteq> None)
     \<and> (i_archived_at i \<noteq> None \<longrightarrow> issue_terminal (i_status i))"

definition milestone_ok :: "milestone \<Rightarrow> bool" where
  "milestone_ok m \<longleftrightarrow>
     (m_completed_at m \<noteq> None \<longleftrightarrow> m_status m = MilestoneCompleted)
     \<and> (m_cancelled_at m \<noteq> None \<longleftrightarrow> m_status m = MilestoneCancelled)
     \<and> (m_status m = MilestonePlanned \<longrightarrow> m_started_at m = None)
     \<and> (m_status m = MilestoneActive \<longrightarrow> m_started_at m \<noteq> None)
     \<and> (m_archived_at m \<noteq> None \<longrightarrow> milestone_terminal (m_status m))"

definition entities_ok :: "snapshot \<Rightarrow> bool" where
  "entities_ok s \<longleftrightarrow>
     (\<forall>t \<in> set (tasks s). task_ok t) \<and> (\<forall>j \<in> set (jobs s). job_ok j)
     \<and> (\<forall>i \<in> set (issues s). issue_ok i) \<and> (\<forall>m \<in> set (milestones s). milestone_ok m)"

section \<open>Updates that keep the shapes\<close>

lemma entities_ok_frame [simp]:
  "entities_ok (s\<lparr>leases := l\<rparr>) = entities_ok s"
  "entities_ok (s\<lparr>plans := ps\<rparr>) = entities_ok s"
  "entities_ok (s\<lparr>projects := p\<rparr>) = entities_ok s"
  "entities_ok (s\<lparr>document_sequences := d\<rparr>) = entities_ok s"
  by (simp_all add: entities_ok_def)

lemma entities_okD:
  assumes "entities_ok s"
  shows "i < length (tasks s) \<Longrightarrow> task_ok (tasks s ! i)"
    and "i < length (jobs s) \<Longrightarrow> job_ok (jobs s ! i)"
    and "i < length (issues s) \<Longrightarrow> issue_ok (issues s ! i)"
    and "i < length (milestones s) \<Longrightarrow> milestone_ok (milestones s ! i)"
  using assms by (auto simp: entities_ok_def)

lemma ok_set_task:
  assumes "entities_ok s" "\<And>t. task_ok t \<Longrightarrow> t = tasks s ! i \<Longrightarrow> task_ok (f t)"
  shows "entities_ok (set_task s i f)"
  using assms ball_upd_nth [of "tasks s" task_ok i f] by (simp add: entities_ok_def set_task_def)

lemma ok_set_job:
  assumes "entities_ok s" "\<And>j. job_ok j \<Longrightarrow> j = jobs s ! i \<Longrightarrow> job_ok (f j)"
  shows "entities_ok (set_job s i f)"
  using assms ball_upd_nth [of "jobs s" job_ok i f] by (simp add: entities_ok_def set_job_def)

lemma ok_set_issue:
  assumes "entities_ok s" "\<And>x. issue_ok x \<Longrightarrow> x = issues s ! i \<Longrightarrow> issue_ok (f x)"
  shows "entities_ok (set_issue s i f)"
  using assms ball_upd_nth [of "issues s" issue_ok i f] by (simp add: entities_ok_def set_issue_def)

lemma ok_set_milestone:
  assumes "entities_ok s" "\<And>x. milestone_ok x \<Longrightarrow> x = milestones s ! i \<Longrightarrow> milestone_ok (f x)"
  shows "entities_ok (set_milestone s i f)"
  using assms ball_upd_nth [of "milestones s" milestone_ok i f]
  by (simp add: entities_ok_def set_milestone_def)

lemma ok_upd_tasks:
  assumes "entities_ok s" "\<And>t. task_ok t \<Longrightarrow> p t \<Longrightarrow> task_ok (f t)"
  shows "entities_ok (s\<lparr>tasks := upd_where p f (tasks s)\<rparr>)"
  using assms ball_upd_where [of "tasks s" task_ok p f] by (simp add: entities_ok_def)

lemma ok_upd_jobs:
  assumes "entities_ok s" "\<And>j. j \<in> set (jobs s) \<Longrightarrow> job_ok j \<Longrightarrow> p j \<Longrightarrow> job_ok (f j)"
  shows "entities_ok (s\<lparr>jobs := upd_where p f (jobs s)\<rparr>)"
  using assms by (auto simp: entities_ok_def set_upd_where)

section \<open>Task commands\<close>

lemma ok_claim: "entities_ok s \<Longrightarrow> claim e s i request now k = Inr s' \<Longrightarrow> entities_ok s'"
  by (auto simp: claim_def Let_def result_simps intro!: ok_set_task)
     (cases "t_status (tasks s ! i)"; simp add: task_ok_def)

lemma ok_activate: "entities_ok s \<Longrightarrow> entities_ok (activate s index now)"
  using ok_set_issue [of s index] by (auto simp: activate_def set_issue_def issue_ok_def)

lemma ok_start_task: "entities_ok s \<Longrightarrow> start_task s i j now = Inr s' \<Longrightarrow> entities_ok s'"
  by (erule start_taskE) (auto simp: task_ok_def job_ok_def ok_activate intro!: ok_set_job ok_set_task
      split: option.splits)

lemma ok_leave_task:
  "entities_ok s \<Longrightarrow> leave_task s i request now command b h = Inr s' \<Longrightarrow> entities_ok s'"
  by (auto simp: leave_task_def Let_def result_simps next_status_def task_ok_def intro!: ok_set_task
      split: if_splits)

lemma ok_reopen_task:
  assumes "entities_ok s" "reopen_task s i j retry = Inr s'"
    and "j_status (jobs s ! j) \<noteq> JobCancelled" "j_archived_at (jobs s ! j) = None"
  shows "entities_ok s'"
  using assms
  by (auto simp: reopen_task_def Let_def result_simps task_ok_def job_ok_def intro!: ok_set_task ok_set_job)

lemma ok_edit_task:
  assumes "entities_ok s" "edit_task e s i j request = Inr s'"
  shows "entities_ok s'"
  using assms(2)
proof (rule edit_taskE)
  fix s1 s2
  assume s1: "s1 = s \<or> (\<exists>ps name. s1 = set_task (s\<lparr>plans := ps\<rparr>) i (\<lambda>x. x\<lparr>t_name := name\<rparr>))"
    and s2: "s2 = s1 \<or> (\<exists>title. s2 = set_task s1 i (\<lambda>x. x\<lparr>t_title := title\<rparr>))"
    and s': "s' = s2 \<or> (\<exists>n. s' = set_task s2 i (\<lambda>x. x\<lparr>t_position := n\<rparr>))"
  have "entities_ok s1" using s1 assms(1) by (auto intro!: ok_set_task simp: task_ok_def)
  then have "entities_ok s2" using s2 by (auto intro!: ok_set_task simp: task_ok_def)
  then show ?thesis using s' by (auto intro!: ok_set_task simp: task_ok_def)
qed

lemma ok_depend_task: "entities_ok s \<Longrightarrow> depend_task s i request adding = Inr s' \<Longrightarrow> entities_ok s'"
  by (auto simp: depend_task_def Let_def result_simps intro!: ok_set_task split: if_splits)
     (auto simp: task_ok_def)

lemma ok_heartbeat_task: "entities_ok s \<Longrightarrow> heartbeat_task s t now = Inr s' \<Longrightarrow> entities_ok s'"
  by (auto simp: heartbeat_task_def split: option.splits)

lemma ok_system_block:
  "entities_ok s \<Longrightarrow> t_status (tasks s ! i) = TaskInProgress \<Longrightarrow> entities_ok (system_block s i reason now)"
  by (auto simp: system_block_def Let_def task_ok_def intro!: ok_set_task)

lemma ok_register_plan: "entities_ok s \<Longrightarrow> register_plan e s i request now = Inr (v, s') \<Longrightarrow> entities_ok s'"
  by (auto simp: register_plan_def Let_def result_simps task_ok_def intro!: ok_set_task)

lemma ok_task_branch:
  assumes "entities_ok s" "task_branch e s i j request now command b h = Inr s'"
    and "j_status (jobs s ! j) \<noteq> JobCancelled" "j_archived_at (jobs s ! j) = None"
  shows "entities_ok s'"
  using assms(2)
  by (rule task_branchE) (erule ok_claim [OF assms(1)] ok_start_task [OF assms(1)]
      ok_heartbeat_task [OF assms(1)] ok_edit_task [OF assms(1)] ok_depend_task [OF assms(1)]
      ok_reopen_task [OF assms(1) _ assms(3,4)] ok_leave_task [OF assms(1)])+

lemma ok_aggregate_job: "entities_ok s \<Longrightarrow> entities_ok (aggregate_job s j was_ready now)"
  unfolding aggregate_job_def Let_def
proof (erule ok_set_job)
  fix x
  assume ok: "job_ok x"
  show "job_ok ((if j_status x = JobActive \<and> \<not> was_ready \<and> job_ready s (j_id (jobs s ! j))
      then x\<lparr>j_status := ready_status (j_review_policy x),
             j_pending_review_at := (if ready_status (j_review_policy x) = JobPendingReview then Some now else None),
             j_completed_at := (if ready_status (j_review_policy x) = JobCompleted then Some now else None),
             j_review_reason := None\<rparr>
      else x)\<lparr>j_revision := j_revision x + 1, j_updated_at := now\<rparr>)"
    using ok by (cases "j_review_policy x"; cases "j_status x") (simp_all add: job_ok_def)
qed

lemma ok_finish_task:
  assumes "entities_ok s1" "finish_task s1 i j t completion was_ready now = Inr (v, s')"
  shows "entities_ok s'"
  using assms(2)
proof (rule finish_taskE)
  fix g
  assume g: "g = (\<lambda>x. x) \<or> (\<exists>policy. g = (\<lambda>x. x\<lparr>j_review_policy := policy\<rparr>))"
    and s': "s' = aggregate_job
       (set_job (set_task s1 i (\<lambda>x. x\<lparr>t_revision := t_revision x + 1, t_updated_at := now\<rparr>)) j g)
       j was_ready now"
  show ?thesis
    unfolding s' using g assms(1)
    by (intro ok_aggregate_job ok_set_job ok_set_task) (auto simp: task_ok_def job_ok_def)
qed

lemma ok_update_task:
  assumes "entities_ok s" "update_task e s request opts now = Inr (v, s')"
  shows "entities_ok s'"
  using assms(2)
proof (rule update_taskE, goal_cases)
  case (1 q i j p command h b)
  from 1(14) show ?case
    by (elim disjE conjE exE)
       (erule ok_register_plan [OF assms(1)] ok_finish_task [OF ok_task_branch [OF assms(1) _ 1(8) 1(7)]])+
qed

lemma ok_add_task: "entities_ok s \<Longrightarrow> add_task e s request opts now = Inr (v, s') \<Longrightarrow> entities_ok s'"
proof (erule add_taskE, goal_cases)
  case (1 q i p t)
  then have "entities_ok (s\<lparr>tasks := tasks s @ [t]\<rparr>)"
    by (simp add: entities_ok_def task_ok_def)
  then show ?case unfolding 1(7) by (rule ok_set_job) (simp add: job_ok_def)
qed

lemma ok_session_step:
  "entities_ok s \<Longrightarrow> entities_ok (fst (session_step e request command ref now i (s, changed)))"
  by (rule session_step_cases [of e request command ref now i s changed])
     (auto simp: task_ok_def ok_system_block dest: ok_claim intro!: ok_set_task)

lemma ok_session: "entities_ok s \<Longrightarrow> session e s request now = Inr (v, s') \<Longrightarrow> entities_ok s'"
  by (erule session_invariant) (simp_all add: ok_session_step session_step_length)

section \<open>Job commands\<close>

lemma ok_complete_open_tasks: "entities_ok s \<Longrightarrow> entities_ok (complete_open_tasks s job now)"
  unfolding complete_open_tasks_def Let_def
  by (subst entities_ok_frame, rule ok_upd_tasks) (simp_all add: task_ok_def)

lemma ok_review_job:
  assumes "entities_ok s" "review_job s i request now obsidian = Inr (v, s')"
  shows "entities_ok s'"
  using assms(2)
proof (rule review_jobE)
  fix command policy status reason human
  let ?s1 = "if human then complete_open_tasks s (j_id (jobs s ! i)) now else s"
  let ?upd = "\<lambda>x. x\<lparr>j_review_policy := policy, j_status := status,
       j_completed_at := (if status = JobCompleted then Some now else None),
       j_pending_review_at := (if status = JobPendingReview then Some now else j_pending_review_at x),
       j_review_reason := reason, j_revision := j_revision x + 1, j_updated_at := now\<rparr>"
  assume arch: "j_archived_at (jobs s ! i) = None" and open_job: "\<not> job_terminal (j_status (jobs s ! i))"
    and status: "status = (if command = ''job.submit'' then ready_status policy
               else if command = ''job.approve'' then JobCompleted else JobActive)"
    and s': "s' = set_job ?s1 i ?upd"
  have "status \<noteq> JobCancelled" unfolding status by (cases policy) simp_all
  moreover have "jobs ?s1 = jobs s" by (simp add: complete_open_tasks_def Let_def)
  ultimately show ?thesis
    unfolding s' using arch open_job assms(1)
    by (intro ok_set_job; cases "j_status (jobs s ! i)") (simp_all add: ok_complete_open_tasks job_ok_def)
qed

lemma ok_followup_job:
  "entities_ok s \<Longrightarrow> followup_job e s i request opts now = Inr (v, s') \<Longrightarrow> entities_ok s'"
  by (erule followup_jobE, erule ssubst, erule ok_set_job) (simp add: job_ok_def)

lemma ok_cancel_job: "entities_ok s \<Longrightarrow> cancel_job s i now = Inr s' \<Longrightarrow> entities_ok s'"
  unfolding cancel_job_def Let_def
proof (elim ensureE, goal_cases)
  case 1
  let ?s = "s\<lparr>tasks := upd_where (\<lambda>t. t_job_id t = j_id (jobs s ! i) \<and> \<not> task_terminal (t_status t))
              (\<lambda>t. t\<lparr>t_completed_at := Some now, t_status := TaskCancelled, t_phase := None,
                     t_revision := t_revision t + 1, t_updated_at := now, t_system_block := False\<rparr>)
              (tasks s)\<rparr>"
  have "entities_ok ?s"
    by (rule ok_upd_tasks [OF 1(1)]) (simp add: task_ok_def)
  then have "entities_ok (set_job ?s i (\<lambda>x. x\<lparr>j_status := JobCancelled, j_cancelled_at := Some now\<rparr>))"
    by (rule ok_set_job) (use 1(2) in \<open>cases "j_status (jobs s ! i)"; simp add: job_ok_def\<close>)
  then show ?case using 1(4) by simp
qed

lemma ok_change_job:
  assumes "entities_ok s" "i < length (jobs s)"
    and "change_job e s request now command i j directory = Inr (v, s')"
  shows "entities_ok s'"
  using assms(3)
proof (rule change_jobE)
  fix s1 j1
  assume s1: "command = ''job.cancel'' \<and> cancel_job s i now = Inr s1 \<or> s1 = s"
    and j1: "j1 = jobs s1 ! i \<or> (\<exists>renamed. edit_job e request renamed (jobs s1 ! i) = Inr j1)
       \<or> (\<exists>directory. archive_job e directory now (jobs s1 ! i) = Inr j1)
       \<or> (\<exists>directory. unarchive_job e directory (jobs s1 ! i) = Inr j1)"
    and s': "s' = set_job s1 i (\<lambda>_. j1\<lparr>j_revision := j_revision j1 + 1, j_updated_at := now\<rparr>)"
  from s1 have "entities_ok s1" "length (jobs s1) = length (jobs s)"
    using assms(1) ok_cancel_job by (auto simp: cancel_job_def Let_def result_simps)
  then have "job_ok (jobs s1 ! i)" using assms(2) entities_okD by simp
  then have "job_ok j1"
    using j1
  proof (elim disjE exE)
    fix renamed
    assume "job_ok (jobs s1 ! i)" "edit_job e request renamed (jobs s1 ! i) = Inr j1"
    then show ?thesis by (elim edit_jobE) (simp add: job_ok_def)
  qed (auto simp: job_ok_def archive_job_def unarchive_job_def result_simps)
  with \<open>entities_ok s1\<close> show ?thesis
    unfolding s' by (intro ok_set_job) (simp_all add: job_ok_def)
qed

lemma ok_update_job:
  assumes "entities_ok s" "update_job e s request opts now = Inr (v, s')"
  shows "entities_ok s'"
  using assms(2)
proof (rule update_jobE, goal_cases)
  case (1 q i p command)
  from 1(7) show ?case
    by (elim disjE conjE) (erule ok_review_job [OF assms(1)] ok_followup_job [OF assms(1)]
      ok_change_job [OF assms(1) job_ix.index_bound [OF 1(2)]])+
qed

lemma ok_create_job: "entities_ok s \<Longrightarrow> create_job e s request opts now = Inr (v, s') \<Longrightarrow> entities_ok s'"
  by (erule create_jobE) (simp add: entities_ok_def job_ok_def)

section \<open>Issue and milestone commands\<close>

lemma ok_cancel_jobs:
  assumes "entities_ok s" "distinct (map j_id (jobs s))"
  shows "entities_ok (cancel_jobs s issue now)"
proof -
  have close: "job_ok (j\<lparr>j_status := JobCancelled, j_cancelled_at := Some now, j_updated_at := now,
      j_revision := j_revision j + 1\<rparr>)"
    if "j \<in> set (jobs s)" "job_ok j" "j_id j \<in> open_jobs s issue" for j
    using that open_jobs_member [OF assms(2), of j issue]
    by (cases "j_status j") (simp_all add: job_ok_def)
  have "entities_ok (s\<lparr>jobs := jobs (cancel_jobs s issue now)\<rparr>)"
    unfolding cancel_jobs_eqs by (rule ok_upd_jobs [OF assms(1)]) (rule close)
  moreover have "entities_ok (s\<lparr>tasks := tasks (cancel_jobs s issue now)\<rparr>)"
    unfolding cancel_jobs_eqs by (rule ok_upd_tasks [OF assms(1)]) (simp add: task_ok_def)
  ultimately show ?thesis
    using assms(1) by (simp add: entities_ok_def)
qed

lemma ok_issue_create: "entities_ok s \<Longrightarrow> issue_create e s request now = Inr (v, s') \<Longrightarrow> entities_ok s'"
  by (erule issue_createE) (simp add: entities_ok_def issue_ok_def)

lemma ok_issue_transition:
  assumes "entities_ok s" "distinct (map j_id (jobs s))" "index < length (issues s)"
    and "command = ''issue.unarchive'' \<or> i_archived_at (issues s ! index) = None"
    and "issue_transition e s request opts now command index (issues s ! index) project renamed milestone = Inr s'"
  shows "entities_ok s'"
proof -
  have ok: "issue_ok (issues s ! index)" using assms(1,3) entities_okD(3) by blast
  have jobs: "entities_ok (cancel_jobs s ident now)" "issues (cancel_jobs s ident now) = issues s" for ident
    using ok_cancel_jobs assms(1,2) by simp_all
  show ?thesis
    using assms(5) unfolding issue_transition_def Let_def
  proof (elim if_resultE, goal_cases)
    case 1
    from 1(2) show ?case
      by (rule issue_updateE) (use ok assms(1) in \<open>auto simp: issue_ok_def intro!: ok_set_issue\<close>)
  next
    case 5
    let ?s = "cancel_jobs s (i_id (issues s ! index)) now"
    from 5(6) have open_issue: "\<not> issue_terminal (i_status (issues s ! index))"
      and s': "s' = set_issue ?s index (\<lambda>i. i\<lparr>i_status := IssueCancelled, i_cancelled_at := Some now\<rparr>)"
      by (auto simp: result_simps)
    show ?case
      unfolding s' by (rule ok_set_issue [OF jobs(1)])
        (use open_issue in \<open>cases "i_status (issues s ! index)"; simp add: issue_ok_def\<close>)
  qed ((elim attemptE ensureE, use assms(1,4) in \<open>cases "i_status (issues s ! index)";
      force simp: issue_ok_def intro!: ok_set_issue\<close>) | simp)+
qed

lemma ok_issue_apply:
  assumes "entities_ok s" "distinct (map j_id (jobs s))" "issue_apply e s request opts now = Inr (v, s')"
  shows "entities_ok s'"
  using assms(3)
proof (cases rule: issue_applyE)
  case create
  then show ?thesis by (rule ok_issue_create [OF assms(1)])
next
  case start
  then show ?thesis using assms(1) by (simp add: ok_activate)
next
  case (change q index p command renamed milestone s1)
  have "entities_ok s1"
    by (rule ok_issue_transition [OF assms(1,2) issue_ix.index_bound change(5,6)]) (rule change(2))
  then show ?thesis unfolding change(7) by (rule ok_set_issue) (simp add: issue_ok_def)
qed

lemma ok_milestone_transition:
  assumes "entities_ok s" "milestone_transition e s index command now = Inr (v, s')"
    and "command = ''milestone.unarchive'' \<or> m_archived_at (milestones s ! index) = None"
  shows "entities_ok s'"
  using assms(2) unfolding milestone_transition_def Let_def
proof (elim attemptE, goal_cases)
  case (1 p s1)
  let ?m = "milestones s ! index"
  from 1(2) have "entities_ok s1"
    by (elim if_resultE attemptE ensureE)
       (use assms(1,3) in \<open>cases "m_status ?m"; force simp: milestone_ok_def intro!: ok_set_milestone\<close>)+
  moreover from 1(3) have
    "s' = set_milestone s1 index (\<lambda>m. m\<lparr>m_revision := m_revision m + 1, m_updated_at := now\<rparr>)"
    by simp
  ultimately show ?case by (simp only:, intro ok_set_milestone) (simp_all add: milestone_ok_def)
qed

lemma ok_milestone_update:
  "entities_ok s \<Longrightarrow> milestone_update e s request i now = Inr (v, s') \<Longrightarrow> entities_ok s'"
  by (erule milestone_updateE, erule ssubst, erule ok_set_milestone) (simp add: milestone_ok_def)

lemma ok_milestone_delete: "entities_ok s \<Longrightarrow> milestone_delete s i = Inr (v, s') \<Longrightarrow> entities_ok s'"
  unfolding milestone_delete_def Let_def
proof (elim ensureE, goal_cases)
  case 1
  have "\<forall>m \<in> set (take i (milestones s) @ drop (Suc i) (milestones s)). milestone_ok m"
    using 1(1) by (metis Un_iff entities_ok_def in_set_dropD in_set_takeD set_append)
  with 1(1) have "entities_ok (s\<lparr>milestones := take i (milestones s) @ drop (Suc i) (milestones s)\<rparr>)"
    by (simp add: entities_ok_def)
  with 1(3) show ?case by (auto simp: entities_ok_def)
qed

lemma ok_milestone_create: "entities_ok s \<Longrightarrow> milestone_create e s request now = Inr (v, s') \<Longrightarrow> entities_ok s'"
  by (erule milestone_createE) (simp add: entities_ok_def milestone_ok_def)

lemma ok_milestone_apply:
  assumes "entities_ok s" "milestone_apply e s request opts now = Inr (v, s')"
  shows "entities_ok s'"
  using assms(2) unfolding milestone_apply_def Let_def
  by (elim attemptE ensureE if_resultE [where y = "(v, s')"])
     (erule ok_milestone_create [OF assms(1)] ok_milestone_transition [OF assms(1)]
        ok_milestone_delete [OF assms(1)] ok_milestone_update [OF assms(1)]; simp)+

section \<open>Project commands, deletion and conversations\<close>

lemma ok_register_project:
  "entities_ok s \<Longrightarrow> register_project e s request now = Inr (v, s') \<Longrightarrow> entities_ok s'"
  by (auto simp: register_project_def Let_def result_simps split: option.splits)

lemma ok_move_project: "entities_ok s \<Longrightarrow> move_project e s request opts = Inr (v, s') \<Longrightarrow> entities_ok s'"
  unfolding move_project_def Let_def by (elim attemptE ensureE) auto

lemma ok_archive_project:
  "entities_ok s \<Longrightarrow> archive_project s request opts now = Inr (v, s') \<Longrightarrow> entities_ok s'"
  unfolding archive_project_def Let_def by (elim attemptE ensureE) auto

lemma ok_deletion_apply: "entities_ok s \<Longrightarrow> deletion_apply s request opts = Inr (v, s') \<Longrightarrow> entities_ok s'"
  by (erule deletion_applyE) (simp add: entities_ok_def)

text \<open>Renaming rebases paths and counts revisions; every other field of a row stays.\<close>

lemma ball_list_all2:
  assumes "list_all2 R xs ys" "\<forall>x \<in> set xs. P x" "\<And>x y. P x \<Longrightarrow> R x y \<Longrightarrow> P y"
  shows "\<forall>y \<in> set ys. P y"
  using assms by (induction rule: list_all2_induct) auto

lemma ok_rename_project:
  assumes "entities_ok s" "rename_project s request opts = Inr (v, s')"
  shows "entities_ok s'"
  using assms(2)
proof (rule rename_projectE, goal_cases)
  case (1 q index name dir xs ms js ps)
  have "\<forall>x \<in> set xs. issue_ok x"
    by (rule ball_list_all2 [where P = issue_ok, OF 1(3)])
       (use assms(1) in \<open>simp add: entities_ok_def\<close>, elim disjE exE, simp_all add: issue_ok_def)
  moreover have "\<forall>x \<in> set ms. milestone_ok x"
    by (rule ball_list_all2 [where P = milestone_ok, OF 1(4)])
       (use assms(1) in \<open>simp add: entities_ok_def\<close>, elim disjE exE, simp_all add: milestone_ok_def)
  moreover have "\<forall>x \<in> set js. job_ok x"
    by (rule ball_list_all2 [where P = job_ok, OF 1(5)])
       (use assms(1) in \<open>simp add: entities_ok_def\<close>, elim disjE exE, simp_all add: job_ok_def)
  ultimately show ?case using 1(7) assms(1) by (simp add: entities_ok_def)
qed

lemma ok_record_conversation:
  "entities_ok s \<Longrightarrow> record_conversation s request opts now = Inr (v, s') \<Longrightarrow> entities_ok s'"
  by (erule record_conversationE) (auto simp: job_ok_def intro!: ok_set_job)

lemma ok_associate: "entities_ok s \<Longrightarrow> associate s job request now = Inr s' \<Longrightarrow> entities_ok s'"
  by (erule associateE) (auto simp: job_ok_def ok_activate intro!: ok_set_job)

section \<open>Every mutation keeps the shapes\<close>

interpretation shapes: mutation_invariant "\<lambda>s. ids_ok s \<and> entities_ok s" fresh_ids
proof unfold_locales
  fix s s0 e r c opts now j s'
  assume "ids_ok s \<and> entities_ok s" "associate s (j_id j) r now = Inr s'"
  then show "ids_ok s' \<and> entities_ok s'"
    using ids_ok_same same_ids_associate ok_associate by blast
next
  fix s e r opts now v s'
  assume inv: "ids_ok s \<and> entities_ok s" and fresh: "fresh_ids e s r"
  show "issue_apply e s r opts now = Inr (v, s') \<Longrightarrow> ids_ok s' \<and> entities_ok s'"
    using inv fresh ids.inv_issue ok_issue_apply by (metis ids_ok_def)
  show "milestone_apply e s r opts now = Inr (v, s') \<Longrightarrow> ids_ok s' \<and> entities_ok s'"
    using inv fresh ids.inv_milestone ok_milestone_apply by blast
  show "register_project e s r now = Inr (v, s') \<Longrightarrow> ids_ok s' \<and> entities_ok s'"
    using inv fresh ids.inv_register ok_register_project by blast
  show "move_project e s r opts = Inr (v, s') \<Longrightarrow> ids_ok s' \<and> entities_ok s'"
    using inv fresh ids.inv_move ok_move_project by blast
  show "create_job e s r opts now = Inr (v, s') \<Longrightarrow> ids_ok s' \<and> entities_ok s'"
    using inv fresh ids.inv_create_job ok_create_job by blast
  show "update_job e s r opts now = Inr (v, s') \<Longrightarrow> ids_ok s' \<and> entities_ok s'"
    using inv fresh ids.inv_update_job ok_update_job by blast
  show "add_task e s r opts now = Inr (v, s') \<Longrightarrow> ids_ok s' \<and> entities_ok s'"
    using inv fresh ids.inv_add_task ok_add_task by blast
  show "session e s r now = Inr (v, s') \<Longrightarrow> ids_ok s' \<and> entities_ok s'"
    using inv fresh ids.inv_session ok_session by blast
  show "update_task e s r opts now = Inr (v, s') \<Longrightarrow> ids_ok s' \<and> entities_ok s'"
    using inv fresh ids.inv_update_task ok_update_task by blast
next
  fix s r opts now v s'
  assume inv: "ids_ok s \<and> entities_ok s"
  show "rename_project s r opts = Inr (v, s') \<Longrightarrow> ids_ok s' \<and> entities_ok s'"
    using inv ids.inv_rename ok_rename_project by blast
  show "deletion_apply s r opts = Inr (v, s') \<Longrightarrow> ids_ok s' \<and> entities_ok s'"
    using inv ids.inv_delete ok_deletion_apply by blast
  show "archive_project s r opts now = Inr (v, s') \<Longrightarrow> ids_ok s' \<and> entities_ok s'"
    using inv ids.inv_archive ok_archive_project by blast
  show "record_conversation s r opts now = Inr (v, s') \<Longrightarrow> ids_ok s' \<and> entities_ok s'"
    using inv ids.inv_record ok_record_conversation by blast
qed

end
