(* ===== verification/Workflow.thy ===== *)
theory Workflow
  imports Task_Model
begin

text \<open>
  The specification of Taskix as an abstract state machine: projects, Jobs, Tasks, issues and leases
  as partial functions, with one rule per kind of transition, and the invariants of its reachable
  states. The theory \<open>Refinement\<close> shows that every mutation of the code is a sequence of these
  transitions.
\<close>

section \<open>States\<close>

record wtask =
  wt_job :: string
  wt_project :: string
  wt_status :: task_status
  wt_started :: bool
  wt_deps :: "string set"

record wjob =
  wj_project :: string
  wj_issue :: "string option"
  wj_status :: job_status
  wj_followups :: "string set"

record wissue =
  wi_project :: string
  wi_status :: issue_status

record workflow =
  w_projects :: "string \<rightharpoonup> bool"
  w_jobs :: "string \<rightharpoonup> wjob"
  w_tasks :: "string \<rightharpoonup> wtask"
  w_issues :: "string \<rightharpoonup> wissue"
  w_leases :: "string \<rightharpoonup> string \<times> string"

definition w_edges :: "workflow \<Rightarrow> (string \<times> string) set" where
  "w_edges w = {(t, d). \<exists>x. w_tasks w t = Some x \<and> d \<in> wt_deps x}"

definition closed_project :: "workflow \<Rightarrow> string \<Rightarrow> bool" where
  "closed_project w p \<longleftrightarrow>
     (\<forall>j x. w_jobs w j = Some x \<and> wj_project x = p \<longrightarrow> job_terminal (wj_status x))
     \<and> (\<forall>i x. w_issues w i = Some x \<and> wi_project x = p \<longrightarrow> issue_terminal (wi_status x))"

text \<open>A Job may leave \<open>ACTIVE\<close> for a status only when its Tasks allow that status.\<close>

definition tasks_allow :: "workflow \<Rightarrow> string \<Rightarrow> job_status \<Rightarrow> bool" where
  "tasks_allow w j n \<longleftrightarrow>
     (\<forall>t x. w_tasks w t = Some x \<and> wt_job x = j \<longrightarrow>
        (n \<noteq> JobActive \<longrightarrow> task_terminal (wt_status x))
        \<and> (n = JobPendingReview \<longrightarrow> wt_status x \<in> {TaskDone, TaskCancelled}))"

definition close_task :: "string set \<Rightarrow> task_status \<Rightarrow> wtask \<Rightarrow> wtask" where
  "close_task js n x =
     (if wt_job x \<in> js \<and> \<not> task_terminal (wt_status x) then x\<lparr>wt_status := n\<rparr> else x)"

definition tasks_of :: "workflow \<Rightarrow> string set \<Rightarrow> string set" where
  "tasks_of w js = {t. \<exists>x. w_tasks w t = Some x \<and> wt_job x \<in> js}"

lemma close_task_simps [simp]:
  "wt_job (close_task js n x) = wt_job x" "wt_project (close_task js n x) = wt_project x"
  "wt_deps (close_task js n x) = wt_deps x" "wt_started (close_task js n x) = wt_started x"
  "wt_status (close_task js n x) =
     (if wt_job x \<in> js \<and> \<not> task_terminal (wt_status x) then n else wt_status x)"
  by (simp_all add: close_task_def)

section \<open>Transitions\<close>

inductive wstep :: "workflow \<Rightarrow> workflow \<Rightarrow> bool" where
  add_project:
    "w_projects w p = None \<Longrightarrow> wstep w (w\<lparr>w_projects := (w_projects w)(p \<mapsto> False)\<rparr>)"
| set_archived:
    "w_projects w p \<noteq> None \<Longrightarrow> (b \<Longrightarrow> closed_project w p) \<Longrightarrow>
     wstep w (w\<lparr>w_projects := (w_projects w)(p \<mapsto> b)\<rparr>)"
| add_job:
    "w_jobs w j = None \<Longrightarrow> w_projects w p = Some False \<Longrightarrow>
     wstep w (w\<lparr>w_jobs := (w_jobs w)
       (j \<mapsto> \<lparr>wj_project = p, wj_issue = None, wj_status = JobActive, wj_followups = {}\<rparr>)\<rparr>)"
| add_issue:
    "w_issues w i = None \<Longrightarrow> w_projects w p = Some False \<Longrightarrow>
     wstep w (w\<lparr>w_issues := (w_issues w)(i \<mapsto> \<lparr>wi_project = p, wi_status = IssueTodo\<rparr>)\<rparr>)"
| issue_status:
    "w_issues w i = Some x \<Longrightarrow> w_projects w (wi_project x) = Some False \<or> issue_terminal n \<Longrightarrow>
     wstep w (w\<lparr>w_issues := (w_issues w)(i \<mapsto> x\<lparr>wi_status := n\<rparr>)\<rparr>)"
| link:
    "w_jobs w j = Some x \<Longrightarrow>
     (\<And>i. issue = Some i \<Longrightarrow> \<exists>y. w_issues w i = Some y \<and> wi_project y = wj_project x) \<Longrightarrow>
     wstep w (w\<lparr>w_jobs := (w_jobs w)(j \<mapsto> x\<lparr>wj_issue := issue\<rparr>)\<rparr>)"
| add_task:
    "w_tasks w t = None \<Longrightarrow> w_jobs w j = Some x \<Longrightarrow> wj_status x = JobActive \<Longrightarrow>
     wstep w (w\<lparr>w_tasks := (w_tasks w)(t \<mapsto> \<lparr>wt_job = j, wt_project = wj_project x,
       wt_status = TaskTodo, wt_started = False, wt_deps = wj_followups x\<rparr>)\<rparr>)"
| claim:
    "w_tasks w t = Some x \<Longrightarrow> allows (wt_status x) TaskInProgress \<Longrightarrow> w_leases w t = None \<Longrightarrow>
     owner \<notin> ran (w_leases w) \<Longrightarrow>
     wstep w (w\<lparr>w_tasks := (w_tasks w)(t \<mapsto> x\<lparr>wt_status := TaskInProgress\<rparr>),
               w_leases := (w_leases w)(t \<mapsto> owner)\<rparr>)"
| leave:
    "w_tasks w t = Some x \<Longrightarrow> \<not> task_terminal (wt_status x) \<Longrightarrow> n \<noteq> TaskInProgress \<Longrightarrow>
     wstep w (w\<lparr>w_tasks := (w_tasks w)(t \<mapsto> x\<lparr>wt_status := n\<rparr>),
               w_leases := (w_leases w)(t := None)\<rparr>)"
| start:
    "w_tasks w t = Some x \<Longrightarrow> wt_status x = TaskInProgress \<Longrightarrow>
     (\<And>d. d \<in> wt_deps x \<Longrightarrow> \<exists>y. w_tasks w d = Some y \<and> wt_status y = TaskDone) \<Longrightarrow>
     wstep w (w\<lparr>w_tasks := (w_tasks w)(t \<mapsto> x\<lparr>wt_started := True\<rparr>)\<rparr>)"
| depend:
    "w_tasks w t = Some x \<Longrightarrow> \<not> wt_started x \<Longrightarrow> w_tasks w d = Some y \<Longrightarrow> wt_project y = wt_project x \<Longrightarrow>
     (d, t) \<notin> (w_edges w)\<^sup>* \<Longrightarrow>
     wstep w (w\<lparr>w_tasks := (w_tasks w)(t \<mapsto> x\<lparr>wt_deps := insert d (wt_deps x)\<rparr>)\<rparr>)"
| undepend:
    "w_tasks w t = Some x \<Longrightarrow> ds \<subseteq> wt_deps x \<Longrightarrow>
     wstep w (w\<lparr>w_tasks := (w_tasks w)(t \<mapsto> x\<lparr>wt_deps := ds\<rparr>)\<rparr>)"
| reopen:
    "w_tasks w t = Some x \<Longrightarrow> task_terminal (wt_status x) \<Longrightarrow>
     (\<And>u y. w_tasks w u = Some y \<Longrightarrow> wt_started y \<Longrightarrow> t \<notin> wt_deps y) \<Longrightarrow>
     w_jobs w (wt_job x) = Some j \<Longrightarrow> wj_status j \<noteq> JobCancelled \<Longrightarrow>
     w_projects w (wj_project j) = Some False \<Longrightarrow>
     wstep w (w\<lparr>w_tasks := (w_tasks w)(t \<mapsto> x\<lparr>wt_status := TaskTodo\<rparr>),
               w_jobs := (w_jobs w)(wt_job x \<mapsto> j\<lparr>wj_status := JobActive\<rparr>)\<rparr>)"
| job_status:
    "w_jobs w j = Some x \<Longrightarrow> wj_status x \<noteq> JobCancelled \<Longrightarrow> n \<noteq> JobCancelled \<Longrightarrow>
     w_projects w (wj_project x) = Some False \<Longrightarrow> tasks_allow w j n \<Longrightarrow> fs \<subseteq> tasks_of w {j} \<Longrightarrow>
     wstep w (w\<lparr>w_jobs := (w_jobs w)(j \<mapsto> x\<lparr>wj_status := n, wj_followups := fs\<rparr>)\<rparr>)"
| close:
    "(\<And>j. j \<in> js \<Longrightarrow> \<exists>x. w_jobs w j = Some x \<and> \<not> job_terminal (wj_status x)) \<Longrightarrow>
     (n, m) \<in> {(TaskDone, JobCompleted), (TaskCancelled, JobCancelled)} \<Longrightarrow>
     wstep w (w\<lparr>w_tasks := (\<lambda>t. map_option (close_task js n) (w_tasks w t)),
               w_jobs := (\<lambda>j. if j \<in> js then map_option (\<lambda>x. x\<lparr>wj_status := m\<rparr>) (w_jobs w j) else w_jobs w j),
               w_leases := w_leases w |` (- tasks_of w js)\<rparr>)"
| delete_jobs:
    "dom (w_leases w) \<inter> tasks_of w js = {} \<Longrightarrow>
     (\<And>t x. w_tasks w t = Some x \<Longrightarrow> t \<notin> tasks_of w js \<Longrightarrow> wt_deps x \<inter> tasks_of w js = {}) \<Longrightarrow>
     wstep w (w\<lparr>w_tasks := w_tasks w |` (- tasks_of w js), w_jobs := w_jobs w |` (- js)\<rparr>)"
| delete_project:
    "(\<And>j x. w_jobs w j = Some x \<Longrightarrow> wj_project x \<noteq> p) \<Longrightarrow>
     wstep w (w\<lparr>w_projects := (w_projects w)(p := None),
               w_issues := (\<lambda>i. case w_issues w i of Some x \<Rightarrow> if wi_project x = p then None else Some x | None \<Rightarrow> None)\<rparr>)"

section \<open>Invariants\<close>

definition ref_job :: "workflow \<Rightarrow> bool" where
  "ref_job w \<longleftrightarrow>
     (\<forall>t x. w_tasks w t = Some x \<longrightarrow> (\<exists>j. w_jobs w (wt_job x) = Some j \<and> wj_project j = wt_project x))"

definition ref_deps :: "workflow \<Rightarrow> bool" where
  "ref_deps w \<longleftrightarrow>
     (\<forall>t x d. w_tasks w t = Some x \<and> d \<in> wt_deps x \<longrightarrow> (\<exists>y. w_tasks w d = Some y \<and> wt_project y = wt_project x))"

definition ref_project :: "workflow \<Rightarrow> bool" where
  "ref_project w \<longleftrightarrow>
     (\<forall>j x. w_jobs w j = Some x \<longrightarrow> w_projects w (wj_project x) \<noteq> None)
     \<and> (\<forall>i x. w_issues w i = Some x \<longrightarrow> w_projects w (wi_project x) \<noteq> None)"

definition ref_followups :: "workflow \<Rightarrow> bool" where
  "ref_followups w \<longleftrightarrow> (\<forall>j x. w_jobs w j = Some x \<longrightarrow> wj_followups x \<subseteq> tasks_of w {j})"

definition ref_issue :: "workflow \<Rightarrow> bool" where
  "ref_issue w \<longleftrightarrow>
     (\<forall>j x i. w_jobs w j = Some x \<and> wj_issue x = Some i \<longrightarrow>
        (\<exists>y. w_issues w i = Some y \<and> wi_project y = wj_project x))"

definition w_refs :: "workflow \<Rightarrow> bool" where
  "w_refs w \<longleftrightarrow> ref_job w \<and> ref_deps w \<and> ref_project w \<and> ref_followups w \<and> ref_issue w"

definition w_leased :: "workflow \<Rightarrow> bool" where
  "w_leased w \<longleftrightarrow>
     (\<forall>t. w_leases w t \<noteq> None \<longleftrightarrow> (\<exists>x. w_tasks w t = Some x \<and> wt_status x = TaskInProgress))"

definition w_owners :: "workflow \<Rightarrow> bool" where
  "w_owners w \<longleftrightarrow> (\<forall>t u owner. w_leases w t = Some owner \<and> w_leases w u = Some owner \<longrightarrow> t = u)"

definition w_started :: "workflow \<Rightarrow> bool" where
  "w_started w \<longleftrightarrow>
     (\<forall>t x d. w_tasks w t = Some x \<and> wt_started x \<and> d \<in> wt_deps x \<longrightarrow>
        (\<exists>y. w_tasks w d = Some y \<and> wt_status y = TaskDone))"

definition w_settled :: "workflow \<Rightarrow> bool" where
  "w_settled w \<longleftrightarrow> (\<forall>j x. w_jobs w j = Some x \<longrightarrow> tasks_allow w j (wj_status x))"

definition w_archived :: "workflow \<Rightarrow> bool" where
  "w_archived w \<longleftrightarrow> (\<forall>p. w_projects w p = Some True \<longrightarrow> closed_project w p)"

definition w_inv :: "workflow \<Rightarrow> bool" where
  "w_inv w \<longleftrightarrow> w_refs w \<and> w_leased w \<and> w_owners w \<and> w_started w \<and> w_settled w \<and> w_archived w \<and> acyclic (w_edges w)"

section \<open>Every transition keeps the invariants\<close>

lemmas ref_defs = ref_job_def ref_deps_def ref_project_def ref_followups_def ref_issue_def tasks_of_def

lemma ref_job_step: "wstep w w' \<Longrightarrow> ref_job w \<Longrightarrow> ref_job w'"
proof (induction rule: wstep.induct)
  case delete_jobs
  then show ?case unfolding ref_defs by (auto simp: restrict_map_def split: if_splits; fastforce)
qed (unfold ref_defs; auto; fastforce)+

lemma ref_deps_step: "wstep w w' \<Longrightarrow> ref_deps w \<Longrightarrow> ref_job w \<Longrightarrow> ref_followups w \<Longrightarrow> ref_deps w'"
proof (induction rule: wstep.induct)
  case delete_jobs
  then show ?case unfolding ref_defs by (clarsimp simp: restrict_map_def split: if_splits) blast
next
  case close
  then show ?case unfolding ref_defs by (fastforce split: if_splits)
qed (unfold ref_defs; auto; fastforce)+

lemma ref_project_step: "wstep w w' \<Longrightarrow> ref_project w \<Longrightarrow> ref_project w'"
proof (induction rule: wstep.induct)
  case delete_jobs
  then show ?case unfolding ref_defs by (auto simp: restrict_map_def split: if_splits)
next
  case delete_project
  then show ?case unfolding ref_defs by (auto split: if_splits option.splits)
qed (unfold ref_defs; auto; fastforce)+

lemma ref_followups_step: "wstep w w' \<Longrightarrow> ref_followups w \<Longrightarrow> ref_followups w'"
proof (induction rule: wstep.induct)
  case delete_jobs
  then show ?case unfolding ref_defs by (auto simp: restrict_map_def split: if_splits; fastforce)
next
  case close
  then show ?case unfolding ref_defs by (fastforce split: if_splits)
qed (unfold ref_defs; auto; fastforce)+

lemma ref_issue_step: "wstep w w' \<Longrightarrow> ref_issue w \<Longrightarrow> ref_issue w'"
proof (induction rule: wstep.induct)
  case delete_jobs
  then show ?case unfolding ref_defs by (auto simp: restrict_map_def split: if_splits)
next
  case delete_project
  then show ?case unfolding ref_defs by (auto split: if_splits option.splits; fastforce)
qed (unfold ref_defs; auto; fastforce)+

lemma w_refs_step: "wstep w w' \<Longrightarrow> w_refs w \<Longrightarrow> w_refs w'"
  by (simp add: w_refs_def ref_job_step ref_deps_step ref_project_step ref_followups_step ref_issue_step)

lemma w_leased_step: "wstep w w' \<Longrightarrow> w_leased w \<Longrightarrow> w_leased w'"
proof (induction rule: wstep.induct)
  case (close js w n m)
  then have n: "n \<noteq> TaskInProgress" by auto
  show ?case
    unfolding w_leased_def
  proof
    fix t
    show "(w_leases (w\<lparr>w_tasks := \<lambda>t. map_option (close_task js n) (w_tasks w t),
          w_jobs := \<lambda>j. if j \<in> js then map_option (\<lambda>x. x\<lparr>wj_status := m\<rparr>) (w_jobs w j) else w_jobs w j,
          w_leases := w_leases w |` (- tasks_of w js)\<rparr>) t \<noteq> None) =
        (\<exists>x. w_tasks (w\<lparr>w_tasks := \<lambda>t. map_option (close_task js n) (w_tasks w t),
          w_jobs := \<lambda>j. if j \<in> js then map_option (\<lambda>x. x\<lparr>wj_status := m\<rparr>) (w_jobs w j) else w_jobs w j,
          w_leases := w_leases w |` (- tasks_of w js)\<rparr>) t = Some x \<and> wt_status x = TaskInProgress)"
    proof (cases "w_tasks w t")
      case None
      with close.prems have "w_leases w t = None" unfolding w_leased_def by force
      with None show ?thesis by (simp add: restrict_map_def)
    next
      case (Some x)
      with close.prems have "w_leases w t \<noteq> None \<longleftrightarrow> wt_status x = TaskInProgress"
        by (auto simp: w_leased_def)
      with Some n show ?thesis by (auto simp: restrict_map_def tasks_of_def)
    qed
  qed
next
  case delete_jobs
  then show ?case unfolding w_leased_def by (auto simp: restrict_map_def split: if_splits; blast)
qed (unfold w_leased_def; auto; fastforce)+

lemma w_owners_step: "wstep w w' \<Longrightarrow> w_owners w \<Longrightarrow> w_owners w'"
proof (induction rule: wstep.induct)
  case close
  then show ?case unfolding w_owners_def by (auto simp: restrict_map_def split: if_splits)
qed (unfold w_owners_def; auto simp: ran_def; fastforce)+

lemma w_started_step: "wstep w w' \<Longrightarrow> w_started w \<Longrightarrow> w_started w'"
proof (induction rule: wstep.induct)
  case delete_jobs
  then show ?case
    unfolding w_started_def tasks_of_def by (auto simp: restrict_map_def split: if_splits; fastforce)
next
  case close
  then show ?case unfolding w_started_def by (fastforce split: if_splits)
qed (unfold w_started_def; auto; fastforce)+

lemma settled_open:
  "w_settled w \<Longrightarrow> w_tasks w t = Some x \<Longrightarrow> \<not> task_terminal (wt_status x) \<Longrightarrow> w_jobs w (wt_job x) = Some j \<Longrightarrow>
   wj_status j = JobActive"
  unfolding w_settled_def tasks_allow_def by blast

lemma allows_open: "allows n m \<Longrightarrow> \<not> task_terminal n"
  by (cases n) auto

lemma settled_upd_open:
  assumes "w_settled w" "w_tasks w t = Some x" "\<not> task_terminal (wt_status x)" "wt_job y = wt_job x"
  shows "w_settled (w\<lparr>w_tasks := (w_tasks w)(t \<mapsto> y), w_leases := ls\<rparr>)"
  using assms settled_open [OF assms(1-3)] unfolding w_settled_def tasks_allow_def by auto

lemma w_settled_step: "wstep w w' \<Longrightarrow> w_settled w \<Longrightarrow> ref_job w \<Longrightarrow> w_settled w'"
proof (induction rule: wstep.induct)
  case (claim w t x owner)
  then show ?case by (intro settled_upd_open) (auto dest: allows_open)
next
  case (leave w t x n)
  then show ?case by (intro settled_upd_open) auto
next
  case delete_jobs
  then show ?case
    unfolding w_settled_def tasks_allow_def by (auto simp: restrict_map_def split: if_splits; fastforce)
next
  case close
  then show ?case unfolding w_settled_def tasks_allow_def by (fastforce split: if_splits)
qed (unfold w_settled_def tasks_allow_def ref_job_def; auto; fastforce)+

lemma w_archived_step: "wstep w w' \<Longrightarrow> w_archived w \<Longrightarrow> ref_project w \<Longrightarrow> w_archived w'"
proof (induction rule: wstep.induct)
  case delete_jobs
  then show ?case
    unfolding w_archived_def closed_project_def by (auto simp: restrict_map_def split: if_splits; fastforce)
next
  case delete_project
  then show ?case
    unfolding w_archived_def closed_project_def by (auto split: if_splits option.splits; fastforce)
next
  case close
  then show ?case
    unfolding w_archived_def closed_project_def by (fastforce split: if_splits)
qed (unfold w_archived_def closed_project_def ref_project_def; auto; fastforce)+

text \<open>Only \<open>add_task\<close> and \<open>depend\<close> add edges to the dependency graph.\<close>

lemma acyclic_step:
  assumes "wstep w w'" "acyclic (w_edges w)" "ref_deps w" "ref_followups w"
  shows "acyclic (w_edges w')"
  using assms
proof (induction rule: wstep.induct)
  case (add_task w t j x)
  let ?new = "{t} \<times> wj_followups x"
  have "t \<notin> snd ` w_edges w"
    using add_task.prems(2) add_task.hyps(1) by (force simp: w_edges_def ref_deps_def)
  moreover have "t \<notin> wj_followups x"
    using add_task.prems(3) add_task.hyps(1,2) by (force simp: ref_followups_def tasks_of_def)
  ultimately have "t \<notin> snd ` (w_edges w \<union> ?new)" by auto
  then have "(y, t) \<notin> (w_edges w \<union> ?new)\<^sup>+" for y
    by (metis imageI snd_conv tranclE)
  moreover have "(y, z) \<in> (w_edges w)\<^sup>+" if "(y, z) \<in> (w_edges w \<union> ?new)\<^sup>+" "y \<noteq> t" for y z
    using that
  proof (induction rule: trancl_induct)
    case (step u z)
    have "u \<noteq> t" using step.hyps(1) \<open>\<And>y. (y, t) \<notin> (w_edges w \<union> ?new)\<^sup>+\<close> by blast
    with step show ?case by (auto intro: trancl_into_trancl)
  qed auto
  ultimately have "acyclic (w_edges w \<union> ?new)"
    using add_task.prems(1) unfolding acyclic_def by metis
  then show ?case
    by (rule acyclic_subset) (auto simp: w_edges_def split: if_splits)
next
  case (depend w t x d y)
  then have "acyclic (insert (t, d) (w_edges w))" by simp
  then show ?case by (rule acyclic_subset) (use depend.hyps(1) in \<open>auto simp: w_edges_def split: if_splits\<close>)
next
  case (close js w n m)
  show ?case by (rule acyclic_subset [OF close.prems(1)]) (auto simp: w_edges_def)
next
  case (delete_jobs w js)
  show ?case
    by (rule acyclic_subset [OF delete_jobs.prems(1)]) (auto simp: w_edges_def restrict_map_def split: if_splits)
next
  case (undepend w t x ds)
  show ?case
    by (rule acyclic_subset [OF undepend.prems(1)])
       (use undepend.hyps(1) subsetD [OF undepend.hyps(2)] in \<open>auto simp: w_edges_def split: if_splits\<close>)
qed (auto simp: w_edges_def elim!: acyclic_subset split: if_splits)

lemma w_inv_step: "wstep w w' \<Longrightarrow> w_inv w \<Longrightarrow> w_inv w'"
  unfolding w_inv_def
  using w_refs_step w_leased_step w_owners_step w_started_step w_settled_step w_archived_step acyclic_step
  by (simp add: w_refs_def)

lemma w_inv_steps: "wstep\<^sup>*\<^sup>* w w' \<Longrightarrow> w_inv w \<Longrightarrow> w_inv w'"
  by (induction rule: rtranclp_induct) (auto intro: w_inv_step)

text \<open>A cancelled Job is never active again, and a Job never leaves its Project.\<close>

lemma cancelled_step:
  "wstep w w' \<Longrightarrow> w_jobs w j = Some x \<Longrightarrow> wj_status x = JobCancelled \<Longrightarrow>
   w_jobs w' j = None \<or> (\<exists>y. w_jobs w' j = Some y \<and> wj_status y = JobCancelled)"
  by (induction rule: wstep.induct) (auto simp: restrict_map_def; force)+

end
