(* ===== verification/Refinement.thy ===== *)
theory Refinement
  imports Entity_Invariants Workflow Dependencies
begin

text \<open>
  The mutation engine refines the abstract state machine of \<open>Workflow\<close>: the abstraction forgets
  texts, paths, timestamps and revisions, and every command of the code is a sequence of abstract
  transitions. The invariants of the machine therefore hold of every snapshot the code reaches.
\<close>

section \<open>Tables as partial functions\<close>

definition rows :: "('a \<Rightarrow> string) \<Rightarrow> ('a \<Rightarrow> 'b) \<Rightarrow> 'a list \<Rightarrow> string \<rightharpoonup> 'b" where
  "rows key val xs = map_of (map (\<lambda>x. (key x, val x)) xs)"

lemma rows_None: "rows key val xs k = None \<longleftrightarrow> k \<notin> key ` set xs"
  by (force simp: rows_def map_of_eq_None_iff)

lemma rows_SomeD: "rows key val xs k = Some v \<Longrightarrow> \<exists>x \<in> set xs. key x = k \<and> v = val x"
  by (auto simp: rows_def dest!: map_of_SomeD)

lemma rows_mem: "distinct (map key xs) \<Longrightarrow> x \<in> set xs \<Longrightarrow> rows key val xs (key x) = Some (val x)"
  unfolding rows_def by (intro map_of_is_SomeI) (auto simp: o_def)

lemma rows_nth: "distinct (map key xs) \<Longrightarrow> i < length xs \<Longrightarrow> rows key val xs (key (xs ! i)) = Some (val (xs ! i))"
  by (simp add: rows_mem)

lemma rows_append: "key x \<notin> key ` set xs \<Longrightarrow> rows key val (xs @ [x]) = (rows key val xs)(key x \<mapsto> val x)"
proof
  fix k
  assume "key x \<notin> key ` set xs"
  then show "rows key val (xs @ [x]) k = ((rows key val xs)(key x \<mapsto> val x)) k"
    using rows_None [of key val xs "key x"] by (auto simp: rows_def map_add_def split: option.splits)
qed

lemma rows_same: "map key ys = map key xs \<Longrightarrow> map val ys = map val xs \<Longrightarrow> rows key val ys = rows key val xs"
proof -
  assume "map key ys = map key xs" "map val ys = map val xs"
  then have "zip (map key ys) (map val ys) = zip (map key xs) (map val xs)" by simp
  then show ?thesis by (simp add: rows_def zip_map_map zip_same_conv_map o_def)
qed

lemma rows_filter: "rows key val (filter (\<lambda>x. key x \<notin> S) xs) = rows key val xs |` (- S)"
  by (induction xs) (auto simp: rows_def restrict_map_def fun_eq_iff)

lemma rows_filter_val:
  assumes "distinct (map key xs)" "\<And>x. p x \<longleftrightarrow> q (val x)"
  shows "rows key val (filter p xs) =
    (\<lambda>k. case rows key val xs k of Some v \<Rightarrow> if q v then Some v else None | None \<Rightarrow> None)"
  using assms(1)
proof (induction xs)
  case (Cons x xs)
  then have "rows key val xs (key x) = None" by (auto simp: rows_None)
  with Cons show ?case by (auto simp: rows_def fun_eq_iff assms(2))
qed (simp add: rows_def)

lemma rows_upd_where:
  assumes "\<And>x. x \<in> set xs \<Longrightarrow> val (if p x then f x else x) = g (val x)" "\<And>x. key (f x) = key x"
  shows "rows key val (upd_where p f xs) k = map_option g (rows key val xs k)"
  using assms(1) by (induction xs) (auto simp: rows_def upd_where_def assms(2) split: if_splits)

lemma rows_upd_nth:
  assumes "distinct (map key xs)" "i < length xs" "key (f (xs ! i)) = key (xs ! i)"
  shows "rows key val (upd_nth i f xs) = (rows key val xs)(key (xs ! i) \<mapsto> val (f (xs ! i)))"
proof
  fix k
  let ?ys = "upd_nth i f xs"
  have keys: "map key ?ys = map key xs"
    using assms(2,3) by (simp add: upd_nth_def map_update list_update_same_conv)
  with assms(1) have d: "distinct (map key ?ys)" by simp
  show "rows key val ?ys k = ((rows key val xs)(key (xs ! i) \<mapsto> val (f (xs ! i)))) k"
  proof (cases "k \<in> key ` set xs")
    case False
    then have "k \<notin> key ` set ?ys" using keys by (metis set_map)
    with False assms(2) show ?thesis using rows_None [of key val] by (metis fun_upd_other image_eqI nth_mem)
  next
    case True
    then obtain m where m: "m < length xs" "k = key (xs ! m)" by (auto simp: in_set_conv_nth)
    have "key (?ys ! m) = k" using keys m by (metis length_map nth_map length_upd_nth)
    with rows_nth [OF d, of m val] m have "rows key val ?ys k = Some (val (?ys ! m))" by simp
    moreover have "k = key (xs ! i) \<longleftrightarrow> m = i"
      using assms(1,2) m by (metis length_map nth_eq_iff_index_eq nth_map)
    ultimately show ?thesis
      using m assms(2) rows_nth [OF assms(1) m(1), of val] by (auto simp: nth_upd_nth)
  qed
qed

section \<open>The abstraction\<close>

definition abs_task :: "task \<Rightarrow> wtask" where
  "abs_task t = \<lparr>wt_job = t_job_id t, wt_project = t_project_id t, wt_status = t_status t,
     wt_started = (t_started_at t \<noteq> None), wt_deps = set (t_dependencies t)\<rparr>"

definition abs_job :: "job \<Rightarrow> wjob" where
  "abs_job j = \<lparr>wj_project = j_project_id j, wj_issue = j_issue_id j, wj_status = j_status j,
     wj_followups = set (j_followup_task_ids j)\<rparr>"

definition abs_issue :: "issue \<Rightarrow> wissue" where
  "abs_issue i = \<lparr>wi_project = i_project_id i, wi_status = i_status i\<rparr>"

definition abs_lease :: "lease \<Rightarrow> string \<times> string" where
  "abs_lease l = (l_executor_ref l, l_session_ref l)"

definition abs_state :: "snapshot \<Rightarrow> workflow" where
  "abs_state s =
     \<lparr>w_projects = rows p_id (\<lambda>p. p_archived_at p \<noteq> None) (projects s),
      w_jobs = rows j_id abs_job (jobs s),
      w_tasks = rows t_id abs_task (tasks s),
      w_issues = rows i_id abs_issue (issues s),
      w_leases = rows l_task_id abs_lease (leases s)\<rparr>"

lemma abs_state_sel [simp]:
  "w_projects (abs_state s) = rows p_id (\<lambda>p. p_archived_at p \<noteq> None) (projects s)"
  "w_jobs (abs_state s) = rows j_id abs_job (jobs s)"
  "w_tasks (abs_state s) = rows t_id abs_task (tasks s)"
  "w_issues (abs_state s) = rows i_id abs_issue (issues s)"
  "w_leases (abs_state s) = rows l_task_id abs_lease (leases s)"
  by (simp_all add: abs_state_def)

lemma abs_task_sel [simp]:
  "wt_job (abs_task t) = t_job_id t" "wt_project (abs_task t) = t_project_id t"
  "wt_status (abs_task t) = t_status t" "wt_started (abs_task t) \<longleftrightarrow> t_started_at t \<noteq> None"
  "wt_deps (abs_task t) = set (t_dependencies t)"
  by (simp_all add: abs_task_def)

lemma abs_job_sel [simp]:
  "wj_project (abs_job j) = j_project_id j" "wj_issue (abs_job j) = j_issue_id j"
  "wj_status (abs_job j) = j_status j" "wj_followups (abs_job j) = set (j_followup_task_ids j)"
  by (simp_all add: abs_job_def)

lemma abs_issue_sel [simp]: "wi_project (abs_issue i) = i_project_id i" "wi_status (abs_issue i) = i_status i"
  by (simp_all add: abs_issue_def)

lemma ids_okD:
  assumes "ids_ok s"
  shows "distinct (map p_id (projects s))" "distinct (map j_id (jobs s))" "distinct (map t_id (tasks s))"
    "distinct (map i_id (issues s))" "distinct (map l_task_id (leases s))"
  using assms by (simp_all add: ids_ok_def)

text \<open>Updates that the abstraction does not see, and the ones it sees.\<close>

lemma abs_set_task_same:
  "(\<And>x. t_id (f x) = t_id x) \<Longrightarrow> (\<And>x. abs_task (f x) = abs_task x) \<Longrightarrow> abs_state (set_task s i f) = abs_state s"
  using rows_same [of t_id "upd_nth i f (tasks s)" "tasks s" abs_task] by (simp add: abs_state_def map_upd_nth)

lemma abs_set_job_same:
  "(\<And>x. j_id (f x) = j_id x) \<Longrightarrow> (\<And>x. abs_job (f x) = abs_job x) \<Longrightarrow> abs_state (set_job s i f) = abs_state s"
  using rows_same [of j_id "upd_nth i f (jobs s)" "jobs s" abs_job] by (simp add: abs_state_def map_upd_nth)

lemma abs_set_task:
  assumes "ids_ok s" "i < length (tasks s)" "t_id (f (tasks s ! i)) = t_id (tasks s ! i)"
  shows "abs_state (set_task s i f) = (abs_state s)\<lparr>w_tasks :=
    (w_tasks (abs_state s))(t_id (tasks s ! i) \<mapsto> abs_task (f (tasks s ! i)))\<rparr>"
  using assms by (simp add: abs_state_def rows_upd_nth ids_okD)

lemma abs_set_job:
  assumes "ids_ok s" "i < length (jobs s)" "j_id (f (jobs s ! i)) = j_id (jobs s ! i)"
  shows "abs_state (set_job s i f) = (abs_state s)\<lparr>w_jobs :=
    (w_jobs (abs_state s))(j_id (jobs s ! i) \<mapsto> abs_job (f (jobs s ! i)))\<rparr>"
  using assms by (simp add: abs_state_def rows_upd_nth ids_okD)

lemma abs_set_issue:
  assumes "ids_ok s" "i < length (issues s)" "i_id (f (issues s ! i)) = i_id (issues s ! i)"
  shows "abs_state (set_issue s i f) = (abs_state s)\<lparr>w_issues :=
    (w_issues (abs_state s))(i_id (issues s ! i) \<mapsto> abs_issue (f (issues s ! i)))\<rparr>"
  using assms by (simp add: abs_state_def rows_upd_nth ids_okD)

lemma rows_drop: "rows key val (filter (\<lambda>x. key x \<noteq> k) xs) = (rows key val xs)(k := None)"
  using rows_filter [of key val "{k}" xs] by (simp add: restrict_complement_singleton_eq)

section \<open>References\<close>

text \<open>In a coherent snapshot the indexes that the handlers resolve are the referenced rows.\<close>

definition coherent :: "snapshot \<Rightarrow> bool" where
  "coherent s \<longleftrightarrow> ids_ok s \<and> w_inv (abs_state s)"

lemma coherentD:
  assumes "coherent s"
  shows "ids_ok s" "ref_job (abs_state s)" "ref_deps (abs_state s)" "ref_project (abs_state s)"
    "ref_followups (abs_state s)" "ref_issue (abs_state s)" "w_leased (abs_state s)" "w_inv (abs_state s)"
  using assms by (simp_all add: coherent_def w_inv_def w_refs_def)

lemma project_of_job:
  assumes "coherent s" "j < length (jobs s)" "project_index s (j_project_id (jobs s ! j)) = Inr p"
  shows "p_id (projects s ! p) = j_project_id (jobs s ! j)"
    and "w_projects (abs_state s) (j_project_id (jobs s ! j)) = Some (p_archived_at (projects s ! p) \<noteq> None)"
proof -
  have "w_jobs (abs_state s) (j_id (jobs s ! j)) = Some (abs_job (jobs s ! j))"
    using assms(1,2) by (simp add: rows_nth coherentD ids_okD)
  then obtain b where "w_projects (abs_state s) (j_project_id (jobs s ! j)) = Some b"
    using coherentD(4) [OF assms(1)] unfolding ref_project_def by fastforce
  then obtain x where x: "x \<in> set (projects s)" "p_id x = j_project_id (jobs s ! j)"
    by (auto dest!: rows_SomeD)
  show p: "p_id (projects s ! p) = j_project_id (jobs s ! j)"
    by (rule project_ix.index_exact_hit [OF assms(3) x])
  show "w_projects (abs_state s) (j_project_id (jobs s ! j)) = Some (p_archived_at (projects s ! p) \<noteq> None)"
    using rows_nth [OF ids_okD(1) [OF coherentD(1) [OF assms(1)]] project_ix.index_bound [OF assms(3)],
        of "\<lambda>p. p_archived_at p \<noteq> None"] by (simp add: p)
qed

lemma job_of_task:
  assumes "coherent s" "i < length (tasks s)" "job_index s (t_job_id (tasks s ! i)) = Inr j"
  shows "j < length (jobs s)" "j_id (jobs s ! j) = t_job_id (tasks s ! i)"
    "j_project_id (jobs s ! j) = t_project_id (tasks s ! i)"
proof -
  show j: "j < length (jobs s)" by (rule job_ix.index_bound [OF assms(3)])
  have "w_tasks (abs_state s) (t_id (tasks s ! i)) = Some (abs_task (tasks s ! i))"
    using assms(1,2) by (simp add: rows_nth coherentD ids_okD)
  then obtain y where y: "w_jobs (abs_state s) (t_job_id (tasks s ! i)) = Some y"
      "wj_project y = t_project_id (tasks s ! i)"
    using coherentD(2) [OF assms(1)] unfolding ref_job_def by fastforce
  then obtain x where x: "x \<in> set (jobs s)" "j_id x = t_job_id (tasks s ! i)" "y = abs_job x"
    by (auto dest!: rows_SomeD)
  show id: "j_id (jobs s ! j) = t_job_id (tasks s ! i)"
    by (rule job_ix.index_exact_hit [OF assms(3) x(1,2)])
  have "x = jobs s ! j"
    using distinct_key_unique [OF ids_okD(2) [OF coherentD(1) [OF assms(1)]] x(1) nth_mem [OF j]] x(2) id by simp
  with x(3) y(2) show "j_project_id (jobs s ! j) = t_project_id (tasks s ! i)" by simp
qed

lemma issue_of_job:
  assumes "coherent s" "j < length (jobs s)" "j_issue_id (jobs s ! j) = Some issue" "issue_index s issue = Inr k"
  shows "k < length (issues s)" "i_id (issues s ! k) = issue"
    "i_project_id (issues s ! k) = j_project_id (jobs s ! j)"
proof -
  show k: "k < length (issues s)" by (rule issue_ix.index_bound [OF assms(4)])
  have "w_jobs (abs_state s) (j_id (jobs s ! j)) = Some (abs_job (jobs s ! j))"
    using assms(1,2) by (simp add: rows_nth coherentD ids_okD)
  then obtain y where y: "w_issues (abs_state s) issue = Some y" "wi_project y = j_project_id (jobs s ! j)"
    using coherentD(6) [OF assms(1)] assms(3) unfolding ref_issue_def by fastforce
  then obtain x where x: "x \<in> set (issues s)" "i_id x = issue" "y = abs_issue x"
    by (auto dest!: rows_SomeD)
  show id: "i_id (issues s ! k) = issue"
    by (rule issue_ix.index_exact_hit [OF assms(4) x(1,2)])
  have "x = issues s ! k"
    using distinct_key_unique [OF ids_okD(4) [OF coherentD(1) [OF assms(1)]] x(1) nth_mem [OF k]] x(2) id by simp
  with x(3) y(2) show "i_project_id (issues s ! k) = j_project_id (jobs s ! j)" by simp
qed

lemma edges_eq: "distinct (map t_id (tasks s)) \<Longrightarrow> w_edges (abs_state s) = dep_edges (tasks s)"
  by (auto simp: w_edges_def dep_edges_def rows_mem dest!: rows_SomeD)

end
