(* ===== verification/Task_Refinement.thy ===== *)
theory Task_Refinement
  imports Refinement
begin

text \<open>
  The Task commands as abstract transitions: claim, start, heartbeat, edits, dependencies, reopening
  and leaving, the aggregation of the Job after each of them, and the session commands.
\<close>

definition simulated :: "snapshot \<Rightarrow> snapshot \<Rightarrow> bool" where
  "simulated s s' \<longleftrightarrow> wstep\<^sup>*\<^sup>* (abs_state s) (abs_state s')"

lemma simulated_refl: "abs_state s' = abs_state s \<Longrightarrow> simulated s s'"
  by (simp add: simulated_def)

lemma simulated_step: "wstep (abs_state s) (abs_state s') \<Longrightarrow> simulated s s'"
  by (simp add: simulated_def)

lemma simulated_trans [trans]: "simulated s s1 \<Longrightarrow> simulated s1 s' \<Longrightarrow> simulated s s'"
  by (simp add: simulated_def)

lemma coherent_simulated: "coherent s \<Longrightarrow> ids_ok s' \<Longrightarrow> simulated s s' \<Longrightarrow> coherent s'"
  by (auto simp: coherent_def simulated_def intro: w_inv_steps)

lemma task_row: "ids_ok s \<Longrightarrow> i < length (tasks s) \<Longrightarrow>
  w_tasks (abs_state s) (t_id (tasks s ! i)) = Some (abs_task (tasks s ! i))"
  by (simp add: rows_nth ids_okD)

lemma job_row: "ids_ok s \<Longrightarrow> j < length (jobs s) \<Longrightarrow>
  w_jobs (abs_state s) (j_id (jobs s ! j)) = Some (abs_job (jobs s ! j))"
  by (simp add: rows_nth ids_okD)

lemma issue_row: "ids_ok s \<Longrightarrow> k < length (issues s) \<Longrightarrow>
  w_issues (abs_state s) (i_id (issues s ! k)) = Some (abs_issue (issues s ! k))"
  by (simp add: rows_nth ids_okD)

lemma abs_frame [simp]:
  "abs_state (s\<lparr>plans := ps\<rparr>) = abs_state s" "abs_state (s\<lparr>milestones := ms\<rparr>) = abs_state s"
  "abs_state (s\<lparr>document_sequences := ds\<rparr>) = abs_state s"
  by (simp_all add: abs_state_def)

section \<open>Branches\<close>

lemma sim_claim:
  assumes "ids_ok s" "i < length (tasks s)" "claim e s i request now k = Inr s'"
  shows "simulated s s'"
  using assms(3)
proof (rule claimE, goal_cases)
  case (1 executor ref delegated)
  let ?t = "tasks s ! i" and ?w = "abs_state s"
  have free: "w_leases ?w (t_id ?t) = None" using 1(4) by (auto simp: rows_None)
  have owner: "(executor, ref) \<notin> ran (w_leases ?w)"
    using 1(5) by (auto simp: ran_def abs_lease_def dest!: rows_SomeD)
  have "abs_state s' = ?w\<lparr>w_tasks := (w_tasks ?w)(t_id ?t \<mapsto> (abs_task ?t)\<lparr>wt_status := TaskInProgress\<rparr>),
      w_leases := (w_leases ?w)(t_id ?t \<mapsto> (executor, ref))\<rparr>"
    using assms(1,2) free unfolding 1(6)
    by (simp add: abs_state_def rows_upd_nth rows_append rows_None ids_okD abs_task_def abs_lease_def)
  then show ?case
    using wstep.claim [OF task_row [OF assms(1,2)] _ free owner] 1(1) by (simp add: simulated_step)
qed

lemma sim_leave:
  assumes "ids_ok s" "i < length (tasks s)" "\<not> task_terminal (t_status (tasks s ! i))" "n \<noteq> TaskInProgress"
    and "\<And>x. t_id (f x) = t_id x" "\<And>x. abs_task (f x) = (abs_task x)\<lparr>wt_status := n\<rparr>"
  shows "simulated s (set_task (s\<lparr>leases := filter (\<lambda>l. l_task_id l \<noteq> t_id (tasks s ! i)) (leases s)\<rparr>) i f)"
proof -
  let ?t = "tasks s ! i" and ?w = "abs_state s"
  have "abs_state (set_task (s\<lparr>leases := filter (\<lambda>l. l_task_id l \<noteq> t_id ?t) (leases s)\<rparr>) i f)
      = ?w\<lparr>w_tasks := (w_tasks ?w)(t_id ?t \<mapsto> (abs_task ?t)\<lparr>wt_status := n\<rparr>),
           w_leases := (w_leases ?w)(t_id ?t := None)\<rparr>"
    using assms by (simp add: abs_state_def rows_upd_nth rows_drop ids_okD)
  then show ?thesis
    using wstep.leave [OF task_row [OF assms(1,2)] _ assms(4)] assms(3) by (simp add: simulated_step)
qed

lemma sim_system_block:
  assumes "ids_ok s" "i < length (tasks s)" "t_status (tasks s ! i) = TaskInProgress"
  shows "simulated s (system_block s i reason now)"
proof -
  have "system_block s i reason now = set_task
      (s\<lparr>leases := filter (\<lambda>l. l_task_id l \<noteq> t_id (tasks s ! i)) (leases s)\<rparr>) i
      (\<lambda>t. t\<lparr>t_status := TaskBlocked, t_phase := None, t_reason := Some reason,
            t_system_block := True, t_revision := t_revision t + 1, t_updated_at := now\<rparr>)"
    by (simp add: system_block_def Let_def set_task_def)
  then show ?thesis
    using sim_leave [OF assms(1,2), of TaskBlocked] assms(3) by (simp add: abs_task_def)
qed

lemma sim_activate:
  assumes "ids_ok s" "k < length (issues s)"
    and "w_projects (abs_state s) (i_project_id (issues s ! k)) = Some False"
  shows "simulated s (activate s k now)"
proof (cases "i_status (issues s ! k) = IssueTodo")
  case False
  then show ?thesis by (intro simulated_refl) (simp add: activate_def)
next
  case True
  let ?w = "abs_state s" and ?i = "issues s ! k"
  have "activate s k now = set_issue s k (\<lambda>i. i\<lparr>i_status := IssueActive, i_started_at := Some now,
      i_updated_at := now, i_revision := i_revision i + 1\<rparr>)"
    using True by (simp add: activate_def set_issue_def)
  then have "abs_state (activate s k now) =
      ?w\<lparr>w_issues := (w_issues ?w)(i_id ?i \<mapsto> (abs_issue ?i)\<lparr>wi_status := IssueActive\<rparr>)\<rparr>"
    using abs_set_issue [OF assms(1,2)] by (simp add: abs_issue_def)
  then show ?thesis
    using wstep.issue_status [OF issue_row [OF assms(1,2)], of IssueActive] assms(3)
    by (simp add: simulated_step)
qed

lemma sim_start:
  assumes "coherent s" "i < length (tasks s)" "job_index s (t_job_id (tasks s ! i)) = Inr j"
    and "w_projects (abs_state s) (t_project_id (tasks s ! i)) = Some False"
    and "t_status (tasks s ! i) = TaskInProgress" "start_task s i j now = Inr s'"
  shows "simulated s s'"
  using assms(6)
proof (rule start_taskE, goal_cases)
  case (1 s1)
  note ids = coherentD(1) [OF assms(1)] and job = job_of_task [OF assms(1-3)]
  have "simulated s s1"
    using 1(1)
  proof (elim disjE conjE exE)
    fix issue k
    assume issue: "j_issue_id (jobs s ! j) = Some issue" and w: "writable s issue = Inr k"
      and s1: "s1 = activate s k now"
    note k = issue_of_job [OF assms(1) job(1) issue writableD(1) [OF w]]
    show ?thesis unfolding s1 by (rule sim_activate [OF ids k(1)]) (use assms(4) k(3) job(3) in simp)
  qed (simp add: simulated_refl)
  moreover have "ids_ok s1" using 1(1) ids ids_ok_same same_ids_updates(5) by blast
  moreover have eq: "tasks s1 = tasks s" "jobs s1 = jobs s" using 1(1) by auto
  let ?w = "abs_state s1" and ?t = "tasks s ! i"
  have "wstep ?w (?w\<lparr>w_tasks := (w_tasks ?w)(t_id ?t \<mapsto> (abs_task ?t)\<lparr>wt_started := True\<rparr>)\<rparr>)"
  proof (rule wstep.start)
    show "w_tasks ?w (t_id ?t) = Some (abs_task ?t)"
      using task_row [OF ids assms(2)] by (simp add: eq)
    show "\<exists>y. w_tasks ?w d = Some y \<and> wt_status y = TaskDone" if "d \<in> wt_deps (abs_task ?t)" for d
      using that 1(4) rows_mem [OF ids_okD(3) [OF ids]] by (fastforce simp: eq)
  qed (use assms(5) in simp)
  moreover have "abs_state s' = ?w\<lparr>w_tasks := (w_tasks ?w)(t_id ?t \<mapsto> (abs_task ?t)\<lparr>wt_started := True\<rparr>)\<rparr>"
    unfolding 1(5) using \<open>ids_ok s1\<close> assms(2)
    by (subst abs_set_job_same; (subst abs_set_task)?) (auto simp: eq abs_job_def abs_task_def split: option.splits)
  ultimately show ?case by (metis simulated_step simulated_trans)
qed

lemma sim_depend:
  assumes "ids_ok s" "i < length (tasks s)" "depend_task s i request adding = Inr s'"
  shows "simulated s s'"
  using assms(3)
proof (rule depend_taskE, goal_cases)
  case (1 q d)
  let ?t = "tasks s ! i" and ?d = "tasks s ! d" and ?w = "abs_state s"
  note row = task_row [OF assms(1,2)] and d = task_ix.index_bound [OF 1(2)]
  have upd: "abs_state (set_task s i (\<lambda>x. x\<lparr>t_dependencies := g (t_dependencies x)\<rparr>))
      = ?w\<lparr>w_tasks := (w_tasks ?w)(t_id ?t \<mapsto> (abs_task ?t)\<lparr>wt_deps := set (g (t_dependencies ?t))\<rparr>)\<rparr>" for g
    by (subst abs_set_task [OF assms(1,2)]) (simp_all add: abs_task_def)
  from 1(5) show ?case
  proof (elim disjE conjE)
    assume cycle: "\<not> depends_on s (t_id ?d) (t_id ?t)"
      and s': "s' = set_task s i (\<lambda>x. x\<lparr>t_dependencies := t_dependencies x @ [t_id ?d]\<rparr>)"
    have "(t_id ?d, t_id ?t) \<notin> (w_edges ?w)\<^sup>*"
      using cycle 1(4) depends_on_iff_trancl [OF ids_okD(3) [OF assms(1)]] edges_eq [OF ids_okD(3) [OF assms(1)]]
      by (metis rtranclD)
    then have "wstep ?w (?w\<lparr>w_tasks := (w_tasks ?w)(t_id ?t \<mapsto>
        (abs_task ?t)\<lparr>wt_deps := insert (t_id ?d) (wt_deps (abs_task ?t))\<rparr>)\<rparr>)"
      by (intro wstep.depend [OF row _ task_row [OF assms(1) d]]) (use 1(1,3) in simp_all)
    then show ?thesis
      unfolding s' using upd [of "\<lambda>ds. ds @ [t_id ?d]"] by (intro simulated_step) simp
  next
    assume s': "s' = set_task s i (\<lambda>x. x\<lparr>t_dependencies := filter (\<lambda>y. y \<noteq> t_id ?d) (t_dependencies x)\<rparr>)"
    have "wstep ?w (?w\<lparr>w_tasks := (w_tasks ?w)(t_id ?t \<mapsto>
        (abs_task ?t)\<lparr>wt_deps := set (filter (\<lambda>y. y \<noteq> t_id ?d) (t_dependencies ?t))\<rparr>)\<rparr>)"
      by (intro wstep.undepend [OF row]) simp
    then show ?thesis
      unfolding s' using upd [of "filter (\<lambda>y. y \<noteq> t_id ?d)"] by (intro simulated_step) simp
  qed (simp add: simulated_refl)
qed

lemma sim_reopen:
  assumes "coherent s" "i < length (tasks s)" "job_index s (t_job_id (tasks s ! i)) = Inr j"
    and "w_projects (abs_state s) (t_project_id (tasks s ! i)) = Some False"
    and "j_status (jobs s ! j) \<noteq> JobCancelled" "reopen_task s i j retry = Inr s'"
  shows "simulated s s'"
  using assms(6)
proof (rule reopen_taskE, goal_cases)
  case 1
  note ids = coherentD(1) [OF assms(1)] and job = job_of_task [OF assms(1-3)]
  let ?w = "abs_state s" and ?t = "tasks s ! i" and ?j = "jobs s ! j"
  let ?w' = "?w\<lparr>w_tasks := (w_tasks ?w)(t_id ?t \<mapsto> (abs_task ?t)\<lparr>wt_status := TaskTodo\<rparr>),
      w_jobs := (w_jobs ?w)(t_job_id ?t \<mapsto> (abs_job ?j)\<lparr>wj_status := JobActive\<rparr>)\<rparr>"
  have step: "wstep ?w (?w\<lparr>w_tasks := (w_tasks ?w)(t_id ?t \<mapsto> (abs_task ?t)\<lparr>wt_status := TaskTodo\<rparr>),
      w_jobs := (w_jobs ?w)(wt_job (abs_task ?t) \<mapsto> (abs_job ?j)\<lparr>wj_status := JobActive\<rparr>)\<rparr>)"
  proof (rule wstep.reopen [OF task_row [OF ids assms(2)]])
    fix u y
    assume u: "w_tasks ?w u = Some y" and started: "wt_started y"
    then obtain x where x: "x \<in> set (tasks s)" "t_id x = u" "y = abs_task x" by (auto dest!: rows_SomeD)
    with started 1(2) have "\<not> depends_on s u (t_id ?t)" by auto
    then have "(u, t_id ?t) \<notin> dep_edges (tasks s)"
      using depends_on_iff_trancl [OF ids_okD(3) [OF ids]] by blast
    with x show "t_id ?t \<notin> wt_deps y" by (auto simp: dep_edges_def)
  next
    show "w_jobs ?w (wt_job (abs_task ?t)) = Some (abs_job ?j)"
      using job_row [OF ids job(1)] job(2) by simp
  qed (use 1(1) assms(4,5) job(3) in simp_all)
  have "ids_ok (set_task s i (\<lambda>x. x\<lparr>t_completed_at := None, t_status := TaskTodo, t_phase := None,
      t_reason := None, t_system_block := False\<rparr>))"
    using ids ids_ok_same same_ids_updates(1) by fastforce
  then have "abs_state s' = ?w'"
    unfolding 1(3) using ids assms(2) job
    by (simp add: abs_set_job abs_set_task) (simp add: abs_job_def abs_task_def)
  with step show ?case by (simp add: simulated_step)
qed

lemma sim_leave_task:
  assumes "ids_ok s" "i < length (tasks s)" "leave_task s i request now command b h = Inr s'"
    and "h \<Longrightarrow> \<not> task_terminal (t_status (tasks s ! i))"
  shows "simulated s s'"
  using assms(3)
proof (rule leave_taskE, goal_cases)
  case (1 reason)
  have "\<not> task_terminal (t_status (tasks s ! i))" using 1(1) assms(4) allows_open by blast
  moreover have "next_status command \<noteq> TaskInProgress" by (simp add: next_status_def)
  ultimately show ?case
    unfolding 1(4) by (rule sim_leave [OF assms(1,2)]) (simp_all add: abs_task_def)
qed

lemma abs_leases_same:
  "map l_task_id ls = map l_task_id (leases s) \<Longrightarrow> map abs_lease ls = map abs_lease (leases s) \<Longrightarrow>
   abs_state (s\<lparr>leases := ls\<rparr>) = abs_state s"
  using rows_same [of l_task_id ls "leases s" abs_lease] by (simp add: abs_state_def)

lemma sim_branch:
  assumes "coherent s" "i < length (tasks s)" "job_index s (t_job_id (tasks s ! i)) = Inr j"
    and "w_projects (abs_state s) (t_project_id (tasks s ! i)) = Some False"
    and "j_status (jobs s ! j) \<noteq> JobCancelled" "h \<Longrightarrow> \<not> task_terminal (t_status (tasks s ! i))"
    and "command = ''task.start'' \<Longrightarrow> t_status (tasks s ! i) = TaskInProgress"
    and "task_branch e s i j request now command b h = Inr s'"
  shows "simulated s s'"
  using assms(8)
proof (cases rule: task_branchE)
  case claim
  then show ?thesis using sim_claim [OF coherentD(1) [OF assms(1)] assms(2)] by blast
next
  case start
  then show ?thesis using sim_start [OF assms(1-4) assms(7)] by blast
next
  case heartbeat
  then obtain k where
      "s' = s\<lparr>leases := upd_nth k (\<lambda>l. l\<lparr>l_expires_at := now + default_lease_seconds\<rparr>) (leases s)\<rparr>"
    by (auto simp: heartbeat_task_def split: option.splits)
  then show ?thesis
    by (intro simulated_refl) (simp add: abs_leases_same map_upd_nth abs_lease_def)
next
  case edit
  from edit(2) have "abs_state s' = abs_state s"
  proof (rule edit_taskE, goal_cases)
    case (1 s1 s2)
    have "abs_state s1 = abs_state s"
      using 1(1) by (elim disjE exE) (simp_all add: abs_set_task_same abs_task_def)
    moreover have "abs_state s2 = abs_state s1"
      using 1(2) by (elim disjE exE) (simp_all add: abs_set_task_same abs_task_def)
    moreover have "abs_state s' = abs_state s2"
      using 1(3) by (elim disjE exE) (simp_all add: abs_set_task_same abs_task_def)
    ultimately show ?case by simp
  qed
  then show ?thesis by (rule simulated_refl)
next
  case depend
  then show ?thesis using sim_depend [OF coherentD(1) [OF assms(1)] assms(2)] by blast
next
  case reopen
  then show ?thesis using sim_reopen [OF assms(1-5)] by blast
next
  case leave
  then show ?thesis using sim_leave_task [OF coherentD(1) [OF assms(1)] assms(2) _ assms(6)] by blast
qed

section \<open>The Job after a Task command\<close>

lemma abs_set_job_nth:
  assumes "j < length (jobs s)" "j_id (f (jobs s ! j)) = j_id (jobs s ! j)"
    and "abs_job (f (jobs s ! j)) = abs_job (jobs s ! j)"
  shows "abs_state (set_job s j f) = abs_state s"
  using rows_same [of j_id "upd_nth j f (jobs s)" "jobs s" abs_job] assms
  by (simp add: abs_state_def upd_nth_def map_update list_update_same_conv)

lemma tasks_allow_ready:
  assumes "job_ready s job"
  shows "tasks_allow (abs_state s) job n"
  using job_readyD [OF assms] unfolding tasks_allow_def by (fastforce dest!: rows_SomeD)

lemma sim_job_status:
  assumes "coherent s" "j < length (jobs s)" "j_status (jobs s ! j) \<noteq> JobCancelled" "n \<noteq> JobCancelled"
    and "w_projects (abs_state s) (j_project_id (jobs s ! j)) = Some False"
    and "tasks_allow (abs_state s) (j_id (jobs s ! j)) n"
    and "fs \<subseteq> tasks_of (abs_state s) {j_id (jobs s ! j)}"
    and "j_id (f (jobs s ! j)) = j_id (jobs s ! j)"
    and "abs_job (f (jobs s ! j)) = (abs_job (jobs s ! j))\<lparr>wj_status := n, wj_followups := fs\<rparr>"
  shows "simulated s (set_job s j f)"
proof -
  note ids = coherentD(1) [OF assms(1)]
  have "abs_state (set_job s j f) = (abs_state s)\<lparr>w_jobs := (w_jobs (abs_state s))(j_id (jobs s ! j) \<mapsto>
      (abs_job (jobs s ! j))\<lparr>wj_status := n, wj_followups := fs\<rparr>)\<rparr>"
    using abs_set_job [OF ids assms(2), of f] assms(8,9) by simp
  then show ?thesis
    using wstep.job_status [OF job_row [OF ids assms(2)] _ assms(4) _ assms(6,7)] assms(3,5)
    by (simp add: simulated_step)
qed

lemma followups_row:
  "coherent s \<Longrightarrow> j < length (jobs s) \<Longrightarrow>
   set (j_followup_task_ids (jobs s ! j)) \<subseteq> tasks_of (abs_state s) {j_id (jobs s ! j)}"
  using coherentD(5) job_row [OF coherentD(1)] unfolding ref_followups_def by fastforce

lemma sim_aggregate:
  assumes "coherent s" "j < length (jobs s)"
    and "w_projects (abs_state s) (j_project_id (jobs s ! j)) = Some False"
  shows "simulated s (aggregate_job s j was_ready now)"
proof (cases "j_status (jobs s ! j) = JobActive \<and> \<not> was_ready \<and> job_ready s (j_id (jobs s ! j))")
  case True
  let ?n = "ready_status (j_review_policy (jobs s ! j))"
  have n: "?n \<noteq> JobCancelled" by (cases "j_review_policy (jobs s ! j)") simp_all
  show ?thesis
    unfolding aggregate_job_def Let_def
    by (rule sim_job_status [OF assms(1,2) _ n assms(3) tasks_allow_ready followups_row [OF assms(1,2)]])
       (use True in \<open>simp_all add: abs_job_def\<close>)
next
  case False
  have "abs_state (aggregate_job s j was_ready now) = abs_state s"
    unfolding aggregate_job_def Let_def using False assms(1,2)
    by (intro abs_set_job_nth) (auto simp: abs_job_def)
  then show ?thesis by (rule simulated_refl)
qed

lemma branch_frame:
  assumes "task_branch e s i j request now command b h = Inr s'"
  shows "projects s' = projects s" "map j_id (jobs s') = map j_id (jobs s)"
    "map j_project_id (jobs s') = map j_project_id (jobs s)"
proof -
  have "projects s' = projects s \<and> map j_id (jobs s') = map j_id (jobs s)
      \<and> map j_project_id (jobs s') = map j_project_id (jobs s)"
    using assms
  proof (cases rule: task_branchE)
    case claim
    then show ?thesis by (elim claimE) simp
  next
    case start
    then show ?thesis by (elim start_taskE) (auto simp: map_upd_nth)
  next
    case heartbeat
    then show ?thesis by (auto simp: heartbeat_task_def split: option.splits)
  next
    case edit
    then show ?thesis by (elim edit_taskE disjE exE) simp_all
  next
    case depend
    then show ?thesis by (elim depend_taskE) auto
  next
    case reopen
    then show ?thesis by (elim reopen_taskE) (simp add: map_upd_nth)
  next
    case leave
    then show ?thesis by (elim leave_taskE) simp
  qed
  then show "projects s' = projects s" "map j_id (jobs s') = map j_id (jobs s)"
    "map j_project_id (jobs s') = map j_project_id (jobs s)"
    by blast+
qed

lemma sim_finish:
  assumes "coherent s" "j < length (jobs s)"
    and "w_projects (abs_state s) (j_project_id (jobs s ! j)) = Some False"
    and "finish_task s i j t completion was_ready now = Inr (v, s')"
  shows "simulated s s'"
  using assms(4)
proof (rule finish_taskE)
  fix g
  assume g: "g = (\<lambda>x. x) \<or> (\<exists>policy. g = (\<lambda>x. x\<lparr>j_review_policy := policy\<rparr>))"
    and s': "s' = aggregate_job
       (set_job (set_task s i (\<lambda>x. x\<lparr>t_revision := t_revision x + 1, t_updated_at := now\<rparr>)) j g)
       j was_ready now"
  let ?s = "set_job (set_task s i (\<lambda>x. x\<lparr>t_revision := t_revision x + 1, t_updated_at := now\<rparr>)) j g"
  have same: "j_id (g x) = j_id x" "abs_job (g x) = abs_job x" "j_project_id (g x) = j_project_id x" for x
    using g by (auto simp: abs_job_def)
  have abs: "abs_state ?s = abs_state s"
    by (simp add: abs_set_job_same same abs_set_task_same abs_task_def)
  have "same_ids s ?s" by (simp add: same_ids_def map_upd_nth same)
  then have "coherent ?s"
    using assms(1) abs ids_ok_same [OF coherentD(1) [OF assms(1)]] by (simp add: coherent_def)
  moreover have "j < length (jobs ?s)" "j_project_id (jobs ?s ! j) = j_project_id (jobs s ! j)"
    using assms(2) by (simp_all add: same)
  ultimately show ?thesis
    unfolding s' using sim_aggregate [of ?s j was_ready now] assms(3) abs
    by (simp add: simulated_def)
qed

lemma sim_update_task:
  assumes "coherent s" "update_task e s request opts now = Inr (v, s')"
  shows "simulated s s'"
  using assms(2)
proof (rule update_taskE, goal_cases)
  case (1 q i j p command h b)
  note i = task_ix.index_bound [OF 1(2)]
  note job = job_of_task [OF assms(1) i 1(3)]
  have project: "w_projects (abs_state s) (t_project_id (tasks s ! i)) = Some False"
    using project_of_job(2) [OF assms(1) job(1), of p] 1(4,6) job(3) by simp
  from 1(14) show ?case
  proof (elim disjE conjE exE)
    assume "register_plan e s i request now = Inr (v, s')"
    then obtain p where "s' = set_task (s\<lparr>plans := filter (\<lambda>x. pl_task_id x \<noteq> t_id (tasks s ! i)) (plans s) @ [p]\<rparr>) i
        (\<lambda>x. x\<lparr>t_current_plan := Some (pl_id p), t_revision := t_revision x + 1, t_updated_at := now\<rparr>)"
      unfolding register_plan_def Let_def by (elim ensureE attemptE) auto
    then show ?thesis
      by (intro simulated_refl) (simp add: abs_set_task_same abs_task_def)
  next
    fix s1 completion
    assume branch: "task_branch e s i j request now command b h = Inr s1"
      and finish: "finish_task s1 i j (tasks s ! i) completion (job_ready s (t_job_id (tasks s ! i))) now = Inr (v, s')"
    have start: "t_status (tasks s ! i) = TaskInProgress" if "command = ''task.start''"
      using 1(13) 1(10,11) that by simp
    have sim: "simulated s s1"
      by (rule sim_branch [OF assms(1) i 1(3) project 1(8) _ start branch]) (use 1(10) in simp)
    have "coherent s1"
      by (rule coherent_simulated [OF assms(1) ids_ok_same [OF coherentD(1) [OF assms(1)]
            same_ids_branch [OF branch]] sim])
    moreover have j: "j < length (jobs s1)" "j_project_id (jobs s1 ! j) = t_project_id (tasks s ! i)"
      using branch_frame [OF branch] job by (metis length_map, metis length_map nth_map)
    ultimately have "simulated s1 s'"
      by (intro sim_finish [OF _ j(1) _ finish])
         (use project branch_frame(1) [OF branch] j(2) in simp_all)
    with sim show ?thesis by (rule simulated_trans)
  qed
qed

section \<open>New Tasks and sessions\<close>

lemma sim_add_task:
  assumes "coherent s" "fresh_ids e s request" "add_task e s request opts now = Inr (v, s')"
  shows "simulated s s'"
  using assms(3)
proof (rule add_taskE, goal_cases)
  case (1 q i p t)
  note ids = coherentD(1) [OF assms(1)] and i = job_ix.index_bound [OF 1(1)]
  let ?w = "abs_state s" and ?j = "jobs s ! i"
  have new: "t_id t \<notin> t_id ` set (tasks s)" using assms(2) 1(7) by (simp add: fresh_ids_def)
  have "abs_state s' = ?w\<lparr>w_tasks := (w_tasks ?w)(t_id t \<mapsto> abs_task t)\<rparr>"
    unfolding 1(6) by (subst abs_set_job_same) (simp_all add: abs_job_def abs_state_def rows_append new)
  moreover have "abs_task t = \<lparr>wt_job = j_id ?j, wt_project = wj_project (abs_job ?j), wt_status = TaskTodo,
      wt_started = False, wt_deps = wj_followups (abs_job ?j)\<rparr>"
    by (simp add: abs_task_def 1)
  moreover have "w_tasks ?w (t_id t) = None" using new by (simp add: rows_None)
  ultimately show ?case
    using wstep.add_task [OF _ job_row [OF ids i]] 1(4) by (simp add: simulated_step)
qed

lemma sim_session_step:
  assumes "coherent s" "i < length (tasks s)"
  shows "simulated s (fst (session_step e request command ref now i (s, changed)))"
proof (rule session_step_cases [of e request command ref now i s changed])
  note ids = coherentD(1) [OF assms(1)]
  {
    fix reason
    assume "t_status (tasks s ! i) = TaskInProgress"
      and "session_step e request command ref now i (s, changed)
         = (system_block s i reason now, changed @ [t_id (tasks s ! i)])"
    then show ?thesis using sim_system_block [OF ids assms(2)] by simp
  next
    fix r s1
    assume "claim e s i r now i = Inr s1"
      and "session_step e request command ref now i (s, changed)
         = (set_task s1 i (\<lambda>x. x\<lparr>t_revision := t_revision x + 1, t_updated_at := now\<rparr>),
            changed @ [t_id (tasks s ! i)])"
    then show ?thesis
      using sim_claim [OF ids assms(2)] by (simp add: simulated_def abs_set_task_same abs_task_def)
  next
    assume "session_step e request command ref now i (s, changed)
         = (s\<lparr>leases := upd_where (\<lambda>l. l_task_id l = t_id (tasks s ! i) \<and> l_session_ref l = ref)
               (\<lambda>l. l\<lparr>l_expires_at := now + default_lease_seconds\<rparr>) (leases s)\<rparr>, changed)"
    then show ?thesis
      by (intro simulated_refl) (simp add: abs_leases_same map_upd_where abs_lease_def)
  }
qed (simp add: simulated_refl)

lemma sim_session:
  assumes "coherent s" "session e s request now = Inr (v, s')"
  shows "simulated s s'"
proof -
  have "coherent s' \<and> simulated s s'"
  proof (rule session_invariant [OF assms(2), of "\<lambda>t. coherent t \<and> simulated s t"])
    fix t changed i command ref
    assume t: "coherent t \<and> simulated s t" and i: "i < length (tasks t)"
    let ?t' = "fst (session_step e request command ref now i (t, changed))"
    have "simulated t ?t'" using t i sim_session_step by blast
    moreover have "ids_ok ?t'"
      using t coherentD(1) ids_ok_same same_ids_session_step by blast
    ultimately show "coherent ?t' \<and> simulated s ?t'"
      using t coherent_simulated simulated_trans by blast
  qed (use assms(1) session_step_length in \<open>simp_all add: simulated_refl\<close>)
  then show ?thesis ..
qed

end
