(* ===== verification/Job_Refinement.thy ===== *)
theory Job_Refinement
  imports Task_Refinement
begin

text \<open>
  Jobs, issues, Projects, deletion and conversations as abstract transitions, and the result: every
  mutation is simulated, so the invariants of the abstract machine hold of the code's snapshots.
\<close>

section \<open>Closing Jobs\<close>

lemma rows_upd_key:
  assumes "\<And>x. key (f x) = key x" "\<And>x. val (f x) = g (val x)"
  shows "rows key val (upd_where (\<lambda>x. key x \<in> S) f xs) k =
    (if k \<in> S then map_option g (rows key val xs k) else rows key val xs k)"
  by (induction xs) (auto simp: rows_def upd_where_def assms)

lemma list_ex_upd_where: "(\<And>x. q (f x) = q x) \<Longrightarrow> list_ex q (upd_where p f xs) = list_ex q xs"
  by (induction xs) (auto simp: upd_where_def)

lemma tasks_of_abs:
  "ids_ok s \<Longrightarrow> tasks_of (abs_state s) js = t_id ` {t \<in> set (tasks s). t_job_id t \<in> js}"
  by (force simp: tasks_of_def rows_mem ids_okD dest!: rows_SomeD)

lemma sim_close:
  assumes "ids_ok s" and js: "\<And>j. j \<in> js \<Longrightarrow> \<exists>x \<in> set (jobs s). j_id x = j \<and> \<not> job_terminal (j_status x)"
    and nm: "(n, m) \<in> {(TaskDone, JobCompleted), (TaskCancelled, JobCancelled)}"
    and tasks: "tasks s' = upd_where p f (tasks s)" "\<And>t. t_id (f t) = t_id t"
      "\<And>t. t \<in> set (tasks s) \<Longrightarrow> abs_task (if p t then f t else t) = close_task js n (abs_task t)"
    and jobs: "rows j_id abs_job (jobs s') =
      (\<lambda>j. if j \<in> js then map_option (\<lambda>x. x\<lparr>wj_status := m\<rparr>) (rows j_id abs_job (jobs s) j)
            else rows j_id abs_job (jobs s) j)"
    and leases: "rows l_task_id abs_lease (leases s')
      = rows l_task_id abs_lease (leases s) |` (- (t_id ` {t \<in> set (tasks s). t_job_id t \<in> js}))"
    and rest: "projects s' = projects s" "rows i_id abs_issue (issues s') = rows i_id abs_issue (issues s)"
  shows "simulated s s'"
proof -
  let ?w = "abs_state s"
  have "rows t_id abs_task (tasks s') = (\<lambda>t. map_option (close_task js n) (rows t_id abs_task (tasks s) t))"
    unfolding tasks(1) using rows_upd_where [of "tasks s" abs_task p f "close_task js n" t_id] tasks(2,3) by auto
  then have "abs_state s' = ?w\<lparr>w_tasks := (\<lambda>t. map_option (close_task js n) (w_tasks ?w t)),
      w_jobs := (\<lambda>j. if j \<in> js then map_option (\<lambda>x. x\<lparr>wj_status := m\<rparr>) (w_jobs ?w j) else w_jobs ?w j),
      w_leases := w_leases ?w |` (- tasks_of ?w js)\<rparr>"
    unfolding tasks_of_abs [OF assms(1)] by (simp add: abs_state_def jobs leases rest cong: if_cong)
  moreover have "\<exists>x. w_jobs ?w j = Some x \<and> \<not> job_terminal (wj_status x)" if "j \<in> js" for j
    using js [OF that] rows_mem [OF ids_okD(2) [OF assms(1)]] by fastforce
  ultimately show ?thesis using wstep.close [of js ?w n m] nm by (simp add: simulated_step)
qed

lemma rows_set_one:
  assumes "distinct (map key xs)" "i < length xs" "key (f (xs ! i)) = key (xs ! i)" "val (f (xs ! i)) = g (val (xs ! i))"
  shows "rows key val (upd_nth i f xs) =
    (\<lambda>k. if k \<in> {key (xs ! i)} then map_option g (rows key val xs k) else rows key val xs k)"
  using assms by (auto simp: rows_upd_nth rows_nth)

lemma sim_complete_open_tasks:
  assumes "ids_ok s" "j < length (jobs s)" "\<not> job_terminal (j_status (jobs s ! j))"
    and "j_id (f (jobs s ! j)) = j_id (jobs s ! j)"
    and "abs_job (f (jobs s ! j)) = (abs_job (jobs s ! j))\<lparr>wj_status := JobCompleted\<rparr>"
  shows "simulated s (set_job (complete_open_tasks s (j_id (jobs s ! j)) now) j f)"
proof (rule sim_close [OF assms(1), of "{j_id (jobs s ! j)}" TaskDone JobCompleted])
  let ?id = "j_id (jobs s ! j)"
  let ?p = "\<lambda>t. t_job_id t = ?id \<and> \<not> task_terminal (t_status t)"
  let ?f = "\<lambda>t. t\<lparr>t_status := TaskDone, t_phase := None, t_reason := None, t_system_block := False,
                   t_completed_at := Some now, t_updated_at := now, t_revision := t_revision t + 1\<rparr>"
  show "\<exists>x \<in> set (jobs s). j_id x = k \<and> \<not> job_terminal (j_status x)" if "k \<in> {?id}" for k
    using that assms(2,3) by auto
  show "tasks (set_job (complete_open_tasks s ?id now) j f) = upd_where ?p ?f (tasks s)"
    by (simp add: complete_open_tasks_def Let_def)
  show "abs_task (if ?p t then ?f t else t) = close_task {?id} TaskDone (abs_task t)" for t
    by (simp add: abs_task_def close_task_def)
  have jobs: "jobs (complete_open_tasks s ?id now) = jobs s" by (simp add: complete_open_tasks_def Let_def)
  show "rows j_id abs_job (jobs (set_job (complete_open_tasks s ?id now) j f)) =
      (\<lambda>k. if k \<in> {?id} then map_option (\<lambda>x. x\<lparr>wj_status := JobCompleted\<rparr>) (rows j_id abs_job (jobs s) k)
            else rows j_id abs_job (jobs s) k)"
    unfolding set_job_simps jobs
    by (rule rows_set_one) (simp_all add: ids_okD assms)
  have mem: "l_task_id l \<in> t_id ` {t \<in> set (tasks s). t_job_id t \<in> {?id}} \<longleftrightarrow>
      list_ex (\<lambda>t. t_job_id t = ?id \<and> t_id t = l_task_id l) (upd_where ?p ?f (tasks s))" for l
    by (subst list_ex_upd_where) (simp, force simp: list_ex_iff)
  have "leases (complete_open_tasks s ?id now) =
      filter (\<lambda>l. \<not> list_ex (\<lambda>t. t_job_id t = ?id \<and> t_id t = l_task_id l) (upd_where ?p ?f (tasks s))) (leases s)"
    by (simp add: complete_open_tasks_def Let_def)
  also have "\<dots> = filter (\<lambda>l. l_task_id l \<notin> t_id ` {t \<in> set (tasks s). t_job_id t \<in> {?id}}) (leases s)"
    by (intro filter_cong refl) (simp only: mem)
  finally have leases: "leases (complete_open_tasks s ?id now) =
      filter (\<lambda>l. l_task_id l \<notin> t_id ` {t \<in> set (tasks s). t_job_id t \<in> {?id}}) (leases s)" .
  show "rows l_task_id abs_lease (leases (set_job (complete_open_tasks s ?id now) j f))
      = rows l_task_id abs_lease (leases s) |` (- (t_id ` {t \<in> set (tasks s). t_job_id t \<in> {?id}}))"
    unfolding set_job_simps leases by (rule rows_filter)
qed (simp_all add: complete_open_tasks_def Let_def)

lemma sim_cancel_job:
  assumes "ids_ok s" "i < length (jobs s)" "cancel_job s i now = Inr s'"
  shows "simulated s s'"
proof -
  let ?id = "j_id (jobs s ! i)"
  let ?p = "\<lambda>t. t_job_id t = ?id \<and> \<not> task_terminal (t_status t)"
  let ?f = "\<lambda>t. t\<lparr>t_completed_at := Some now, t_status := TaskCancelled, t_phase := None,
                     t_revision := t_revision t + 1, t_updated_at := now, t_system_block := False\<rparr>"
  let ?g = "\<lambda>x. x\<lparr>j_status := JobCancelled, j_cancelled_at := Some now\<rparr>"
  from assms(3) have open_job: "\<not> job_terminal (j_status (jobs s ! i))"
    and free: "\<not> list_ex (\<lambda>l. list_ex (\<lambda>t. t_id t = l_task_id l \<and> t_job_id t = ?id) (tasks s)) (leases s)"
    and s': "s' = set_job (s\<lparr>tasks := upd_where ?p ?f (tasks s)\<rparr>) i ?g"
    unfolding cancel_job_def Let_def by (elim ensureE; simp)+
  show ?thesis
  proof (rule sim_close [OF assms(1), of "{?id}" TaskCancelled JobCancelled])
    show "\<exists>x \<in> set (jobs s). j_id x = k \<and> \<not> job_terminal (j_status x)" if "k \<in> {?id}" for k
      using that assms(2) open_job by auto
    show "tasks s' = upd_where ?p ?f (tasks s)" by (simp add: s')
    show "abs_task (if ?p t then ?f t else t) = close_task {?id} TaskCancelled (abs_task t)" for t
      by (simp add: abs_task_def close_task_def)
    show "rows j_id abs_job (jobs s') =
        (\<lambda>k. if k \<in> {?id} then map_option (\<lambda>x. x\<lparr>wj_status := JobCancelled\<rparr>) (rows j_id abs_job (jobs s) k)
              else rows j_id abs_job (jobs s) k)"
      using rows_set_one [OF ids_okD(2) [OF assms(1)] assms(2), of ?g abs_job "\<lambda>x. x\<lparr>wj_status := JobCancelled\<rparr>"]
      by (simp add: s' abs_job_def)
    have "\<forall>l \<in> set (leases s). l_task_id l \<notin> t_id ` {t \<in> set (tasks s). t_job_id t \<in> {?id}}"
      using free by (auto simp: list_ex_iff)
    then have "filter (\<lambda>l. l_task_id l \<notin> t_id ` {t \<in> set (tasks s). t_job_id t \<in> {?id}}) (leases s) = leases s"
      by (simp add: filter_id_conv)
    then show "rows l_task_id abs_lease (leases s')
        = rows l_task_id abs_lease (leases s) |` (- (t_id ` {t \<in> set (tasks s). t_job_id t \<in> {?id}}))"
      using rows_filter [of l_task_id abs_lease "t_id ` {t \<in> set (tasks s). t_job_id t \<in> {?id}}" "leases s"]
      by (simp add: s')
  qed (simp_all add: s')
qed

lemma sim_cancel_jobs:
  assumes "ids_ok s"
  shows "simulated s (cancel_jobs s issue now)"
proof (rule sim_close [OF assms, of "open_jobs s issue" TaskCancelled JobCancelled, OF _ _ cancel_jobs_eqs(2)])
  show "\<exists>x \<in> set (jobs s). j_id x = k \<and> \<not> job_terminal (j_status x)" if "k \<in> open_jobs s issue" for k
    using that by (auto simp: open_jobs_def)
  show "abs_task (if t_id t \<in> t_id ` {t \<in> set (tasks s). t_job_id t \<in> open_jobs s issue} \<and> \<not> task_terminal (t_status t)
      then t\<lparr>t_status := TaskCancelled, t_phase := None, t_completed_at := Some now,
            t_reason := Some ''Associated Issue cancelled by a human'', t_system_block := False,
            t_updated_at := now, t_revision := t_revision t + 1\<rparr> else t)
      = close_task (open_jobs s issue) TaskCancelled (abs_task t)" if "t \<in> set (tasks s)" for t
  proof -
    have "t_id t \<in> t_id ` {t \<in> set (tasks s). t_job_id t \<in> open_jobs s issue} \<longleftrightarrow> t_job_id t \<in> open_jobs s issue"
      using that distinct_key_unique [OF ids_okD(3) [OF assms] that] by auto
    then show ?thesis by (simp add: abs_task_def close_task_def)
  qed
  show "rows j_id abs_job (jobs (cancel_jobs s issue now)) =
      (\<lambda>j. if j \<in> open_jobs s issue then map_option (\<lambda>x. x\<lparr>wj_status := JobCancelled\<rparr>) (rows j_id abs_job (jobs s) j)
            else rows j_id abs_job (jobs s) j)"
    unfolding cancel_jobs_eqs by (rule ext, rule rows_upd_key) (simp_all add: abs_job_def)
  show "rows l_task_id abs_lease (leases (cancel_jobs s issue now)) =
      rows l_task_id abs_lease (leases s) |` (- (t_id ` {t \<in> set (tasks s). t_job_id t \<in> open_jobs s issue}))"
    unfolding cancel_jobs_eqs by (rule rows_filter)
qed simp_all

section \<open>Job commands\<close>

lemma tasks_allow_terminal:
  assumes "\<forall>t \<in> set (tasks s). t_job_id t = job \<longrightarrow> task_terminal (t_status t)" "n \<noteq> JobPendingReview"
  shows "tasks_allow (abs_state s) job n"
  using assms unfolding tasks_allow_def by (fastforce dest!: rows_SomeD)

lemma sim_review_job:
  assumes "coherent s" "i < length (jobs s)"
    and "w_projects (abs_state s) (j_project_id (jobs s ! i)) = Some False"
    and "review_job s i request now obsidian = Inr (v, s')"
  shows "simulated s s'"
  using assms(4)
proof (rule review_jobE, goal_cases)
  case (1 command policy status reason human)
  let ?j = "jobs s ! i"
  let ?upd = "\<lambda>x. x\<lparr>j_review_policy := policy, j_status := status,
       j_completed_at := (if status = JobCompleted then Some now else None),
       j_pending_review_at := (if status = JobPendingReview then Some now else j_pending_review_at x),
       j_review_reason := reason, j_revision := j_revision x + 1, j_updated_at := now\<rparr>"
  have upd: "j_id (?upd x) = j_id x" "abs_job (?upd x) = (abs_job x)\<lparr>wj_status := status\<rparr>" for x
    by (simp_all add: abs_job_def)
  show ?case
  proof (cases human)
    case True
    then have c: "command = ''job.approve''" using 1(4) by simp
    have "status = JobCompleted" unfolding 1(5) c by simp
    with True show ?thesis
      unfolding 1(8) if_P [OF True]
      by (intro sim_complete_open_tasks [OF coherentD(1) [OF assms(1)] assms(2) 1(3)]) (simp_all add: abs_job_def)
  next
    case False
    have n: "status \<noteq> JobCancelled" unfolding 1(5) by (cases policy) simp_all
    consider "command = ''job.submit''" | "command = ''job.approve''" | "status = JobActive"
      using 1(5) by metis
    then have allow: "tasks_allow (abs_state s) (j_id ?j) status"
    proof cases
      case 1
      with \<open>command = ''job.submit'' \<Longrightarrow> job_ready s (j_id ?j)\<close> show ?thesis by (intro tasks_allow_ready) simp
    next
      case 2
      then have "status = JobCompleted" unfolding \<open>status = _\<close> by simp
      with 2 False \<open>command = ''job.approve'' \<Longrightarrow> \<not> human \<Longrightarrow> _\<close> show ?thesis
        by (intro tasks_allow_terminal) simp_all
    next
      case 3
      then show ?thesis by (simp add: tasks_allow_def)
    qed
    show ?thesis
      unfolding 1(8) if_not_P [OF False]
      by (rule sim_job_status [OF assms(1,2) _ n assms(3) allow followups_row [OF assms(1,2)]])
         (use 1(3) in \<open>auto simp: abs_job_def\<close>)
  qed
qed

lemma sim_followup_job:
  assumes "coherent s" "i < length (jobs s)"
    and "w_projects (abs_state s) (j_project_id (jobs s ! i)) = Some False"
    and "followup_job e s i request opts now = Inr (v, s')"
  shows "simulated s s'"
  using assms(4)
proof (rule followup_jobE, goal_cases)
  case (1 message followup)
  let ?fs = "t_id ` {t \<in> set (tasks s). t_job_id t = j_id (jobs s ! i)}"
  have fs: "?fs \<subseteq> tasks_of (abs_state s) {j_id (jobs s ! i)}"
    unfolding tasks_of_abs [OF coherentD(1) [OF assms(1)]] by simp
  show ?case
    unfolding 1(3)
    by (rule sim_job_status [OF assms(1,2) _ _ assms(3) _ fs, of JobActive])
       (use 1(1) in \<open>simp_all add: abs_job_def tasks_allow_def\<close>)
qed

lemma sim_change_job:
  assumes "coherent s" "i < length (jobs s)"
    and "change_job e s request now command i j directory = Inr (v, s')"
  shows "simulated s s'"
  using assms(3)
proof (rule change_jobE, goal_cases)
  case (1 s1 j1)
  have "simulated s s1" "length (jobs s1) = length (jobs s)"
    using 1(1) sim_cancel_job [OF coherentD(1) [OF assms(1)] assms(2)]
    by (auto simp: simulated_refl cancel_job_def Let_def result_simps)
  moreover from 1(2) have "j_id j1 = j_id (jobs s1 ! i) \<and> abs_job j1 = abs_job (jobs s1 ! i)"
  proof (elim disjE exE)
    fix renamed
    assume "edit_job e request renamed (jobs s1 ! i) = Inr j1"
    then show ?thesis by (elim edit_jobE) (simp add: abs_job_def)
  qed (auto simp: archive_job_def unarchive_job_def result_simps abs_job_def)
  ultimately have "abs_state s' = abs_state s1"
    unfolding 1(3) using assms(2) by (intro abs_set_job_nth) (simp_all add: abs_job_def)
  with \<open>simulated s s1\<close> show ?case by (simp add: simulated_def)
qed

lemma sim_update_job:
  assumes "coherent s" "update_job e s request opts now = Inr (v, s')"
  shows "simulated s s'"
  using assms(2)
proof (rule update_jobE, goal_cases)
  case (1 q i p command)
  note i = job_ix.index_bound [OF 1(2)]
  have project: "w_projects (abs_state s) (j_project_id (jobs s ! i)) = Some False"
    using project_of_job(2) [OF assms(1) i 1(3)] 1(4) by simp
  from 1(7) show ?case
    by (elim disjE conjE) (erule sim_review_job [OF assms(1) i project] sim_followup_job [OF assms(1) i project]
      sim_change_job [OF assms(1) i])+
qed

lemma project_row:
  "ids_ok s \<Longrightarrow> p < length (projects s) \<Longrightarrow>
   w_projects (abs_state s) (p_id (projects s ! p)) = Some (p_archived_at (projects s ! p) \<noteq> None)"
  by (simp add: rows_nth ids_okD)

lemma sim_create_job:
  assumes "coherent s" "fresh_ids e s request" "create_job e s request opts now = Inr (v, s')"
  shows "simulated s s'"
  using assms(3)
proof (rule create_jobE, goal_cases)
  case (1 q p x)
  let ?w = "abs_state s"
  have new: "j_id x \<notin> j_id ` set (jobs s)" using assms(2) 1(5) by (simp add: fresh_ids_def)
  have "abs_state s' = ?w\<lparr>w_jobs := (w_jobs ?w)(j_id x \<mapsto> \<lparr>wj_project = p_id (projects s ! p),
      wj_issue = None, wj_status = JobActive, wj_followups = {}\<rparr>)\<rparr>"
    unfolding 1(4) by (simp add: abs_state_def rows_append new abs_job_def 1(6-9))
  moreover have "w_projects ?w (p_id (projects s ! p)) = Some False"
    using project_row [OF coherentD(1) [OF assms(1)] project_ix.index_bound [OF 1(1)]] 1(2) by simp
  moreover have "w_jobs ?w (j_id x) = None" using new by (simp add: rows_None)
  ultimately show ?case using wstep.add_job [of ?w "j_id x"] by (simp add: simulated_step)
qed

section \<open>Issues\<close>

lemma project_of_issue:
  assumes "coherent s" "k < length (issues s)" "project_index s (i_project_id (issues s ! k)) = Inr p"
  shows "w_projects (abs_state s) (i_project_id (issues s ! k)) = Some (p_archived_at (projects s ! p) \<noteq> None)"
proof -
  note ids = coherentD(1) [OF assms(1)]
  obtain b where "w_projects (abs_state s) (i_project_id (issues s ! k)) = Some b"
    using coherentD(4) [OF assms(1)] issue_row [OF ids assms(2)] unfolding ref_project_def by fastforce
  then obtain x where x: "x \<in> set (projects s)" "p_id x = i_project_id (issues s ! k)"
    by (auto dest!: rows_SomeD)
  have "p_id (projects s ! p) = i_project_id (issues s ! k)"
    by (rule project_ix.index_exact_hit [OF assms(3) x])
  then show ?thesis
    using project_row [OF ids project_ix.index_bound [OF assms(3)]] by simp
qed

lemma abs_set_issue_same:
  "(\<And>x. i_id (f x) = i_id x) \<Longrightarrow> (\<And>x. abs_issue (f x) = abs_issue x) \<Longrightarrow> abs_state (set_issue s i f) = abs_state s"
  using rows_same [of i_id "upd_nth i f (issues s)" "issues s" abs_issue] by (simp add: abs_state_def map_upd_nth)

lemma sim_set_issue:
  assumes "ids_ok s" "k < length (issues s)"
    and "w_projects (abs_state s) (i_project_id (issues s ! k)) = Some False"
    and "i_id (f (issues s ! k)) = i_id (issues s ! k)"
    and "i_project_id (f (issues s ! k)) = i_project_id (issues s ! k)"
  shows "simulated s (set_issue s k f)"
proof -
  let ?w = "abs_state s" and ?i = "issues s ! k"
  have "abs_state (set_issue s k f) =
      ?w\<lparr>w_issues := (w_issues ?w)(i_id ?i \<mapsto> (abs_issue ?i)\<lparr>wi_status := i_status (f ?i)\<rparr>)\<rparr>"
    using abs_set_issue [OF assms(1,2), of f] assms(4,5) by (simp add: abs_issue_def)
  then show ?thesis
    using wstep.issue_status [OF issue_row [OF assms(1,2)], of "i_status (f ?i)"] assms(3)
    by (simp add: simulated_step)
qed

lemma sim_issue_step:
  assumes "ids_ok s" "k < length (issues s)"
    and "w_projects (abs_state s) (i_project_id (issues s ! k)) = Some False"
    and "(Inr (set_issue s k f) :: snapshot result) = Inr s'"
    and "\<And>x. i_id (f x) = i_id x" "\<And>x. i_project_id (f x) = i_project_id x"
  shows "simulated s s'"
  using sim_set_issue [OF assms(1-3), of f] assms(4-6) by simp

lemma sim_transition:
  assumes "ids_ok s" "k < length (issues s)"
    and "w_projects (abs_state s) (i_project_id (issues s ! k)) = Some False"
    and "issue_transition e s request opts now command k (issues s ! k) project renamed milestone = Inr s'"
  shows "simulated s s'"
  using assms(4) unfolding issue_transition_def Let_def
proof (elim if_resultE, goal_cases)
  case 1
  from 1(2) show ?case
    by (rule issue_updateE) (use assms(1-3) in \<open>auto intro!: sim_set_issue\<close>)
next
  case 5
  let ?s = "cancel_jobs s (i_id (issues s ! k)) now"
  from 5(6) have s': "s' = set_issue ?s k (\<lambda>i. i\<lparr>i_status := IssueCancelled, i_cancelled_at := Some now\<rparr>)"
    by (elim attemptE ensureE) simp
  have "ids_ok ?s" using ids_ok_same [OF assms(1) same_ids_cancel_jobs] .
  then have "simulated ?s s'"
    unfolding s' by (rule sim_set_issue) (use assms(2,3) in simp_all)
  then show ?case using sim_cancel_jobs [OF assms(1)] simulated_trans by blast
qed ((elim attemptE ensureE, erule sim_issue_step [OF assms(1-3)], simp, simp) | (erule notE [OF sum.distinct(1)]))+

lemma sim_issue_apply:
  assumes "coherent s" "fresh_ids e s request" "issue_apply e s request opts now = Inr (v, s')"
  shows "simulated s s'"
  using assms(3)
proof (cases rule: issue_applyE)
  case create
  then show ?thesis
  proof (rule issue_createE, goal_cases)
    case (1 q p x)
    let ?w = "abs_state s"
    have new: "i_id x \<notin> i_id ` set (issues s)" using assms(2) 1(4) by (simp add: fresh_ids_def)
    have "abs_state s' = ?w\<lparr>w_issues := (w_issues ?w)(i_id x \<mapsto>
        \<lparr>wi_project = p_id (projects s ! p), wi_status = IssueTodo\<rparr>)\<rparr>"
      unfolding 1(3) by (simp add: abs_state_def rows_append new abs_issue_def 1(5,6))
    moreover have "w_projects ?w (p_id (projects s ! p)) = Some False"
      using project_row [OF coherentD(1) [OF assms(1)] project_ix.index_bound [OF 1(1)]] 1(2) by simp
    moreover have "w_issues ?w (i_id x) = None" using new by (simp add: rows_None)
    ultimately show ?case using wstep.add_issue [of ?w "i_id x"] by (simp add: simulated_step)
  qed
next
  case (start q index p)
  note k = issue_ix.index_bound [OF start(1)]
  have "w_projects (abs_state s) (i_project_id (issues s ! index)) = Some False"
    using project_of_issue [OF assms(1) k start(2)] start(3) by simp
  then show ?thesis unfolding start(7) by (rule sim_activate [OF coherentD(1) [OF assms(1)] k])
next
  case (change q index p command renamed milestone s1)
  note ids = coherentD(1) [OF assms(1)] and k = issue_ix.index_bound [OF change(2)]
  have "w_projects (abs_state s) (i_project_id (issues s ! index)) = Some False"
    using project_of_issue [OF assms(1) k change(3)] change(4) by simp
  then have "simulated s s1" by (rule sim_transition [OF ids k _ change(6)])
  moreover have "abs_state s' = abs_state s1"
    unfolding change(7) by (rule abs_set_issue_same) (simp_all add: abs_issue_def)
  ultimately show ?thesis by (simp add: simulated_def)
qed

lemma milestone_step: "(Inr (set_milestone s i f) :: snapshot result) = Inr s1 \<Longrightarrow> \<exists>f. s1 = set_milestone s i f"
  by auto

lemma sim_milestone_apply:
  assumes "milestone_apply e s request opts now = Inr (v, s')"
  shows "simulated s s'"
proof -
  have "projects s' = projects s \<and> jobs s' = jobs s \<and> tasks s' = tasks s \<and> issues s' = issues s \<and> leases s' = leases s"
    using assms unfolding milestone_apply_def Let_def
  proof (elim attemptE ensureE if_resultE [where y = "(v, s')"], goal_cases)
    case 1
    from 1(3) show ?case by (elim milestone_createE) simp
  next
    case (2 command q i u p)
    from 2(10) show ?case
      unfolding milestone_transition_def Let_def
    proof (elim attemptE, goal_cases)
      case (1 k s1)
      from 1(2) have "\<exists>f. s1 = set_milestone s i f"
        by (elim if_resultE attemptE ensureE) (erule milestone_step | erule notE [OF sum.distinct(1)])+
      with 1(3) show ?thesis by auto
    qed
  next
    case (3 command q i u p)
    from 3(11) show ?case by (auto simp: milestone_delete_def Let_def ensure_eq_Inr)
  next
    case (4 command q i u p)
    from 4(11) show ?case by (elim milestone_updateE) simp
  qed
  then show ?thesis by (intro simulated_refl) (simp add: abs_state_def)
qed

section \<open>Projects, deletion and conversations\<close>

lemma sim_register:
  assumes "fresh_ids e s request" "register_project e s request now = Inr (v, s')"
  shows "simulated s s'"
proof -
  from assms(2) consider "s' = s"
    | x where "s' = s\<lparr>projects := projects s @ [x]\<rparr>" "p_id x = new_id e ''prj'' 0" "p_archived_at x = None"
    by (auto simp: register_project_def Let_def attempt_eq_Inr split: option.splits)
  then show ?thesis
  proof cases
    case 1
    then show ?thesis by (simp add: simulated_refl)
  next
    case (2 x)
    have new: "p_id x \<notin> p_id ` set (projects s)" using assms(1) 2(2) by (simp add: fresh_ids_def)
    let ?w = "abs_state s"
    have "abs_state s' = ?w\<lparr>w_projects := (w_projects ?w)(p_id x \<mapsto> False)\<rparr>"
      using rows_append [of p_id x "projects s" "\<lambda>p. p_archived_at p \<noteq> None"] new 2(1,3)
      by (simp add: abs_state_def)
    moreover have "w_projects ?w (p_id x) = None" using new by (simp add: rows_None)
    ultimately show ?thesis using wstep.add_project [of ?w "p_id x"] by (simp add: simulated_step)
  qed
qed

lemma abs_upd_project:
  "(\<And>x. p_id (f x) = p_id x) \<Longrightarrow> (\<And>x. p_archived_at (f x) = p_archived_at x) \<Longrightarrow>
   abs_state (s\<lparr>projects := upd_nth i f (projects s)\<rparr>) = abs_state s"
  using rows_same [of p_id "upd_nth i f (projects s)" "projects s" "\<lambda>p. p_archived_at p \<noteq> None"]
  by (simp add: abs_state_def map_upd_nth)

lemma sim_move:
  assumes "move_project e s request opts = Inr (v, s')"
  shows "simulated s s'"
  using assms unfolding move_project_def Let_def
proof (elim attemptE ensureE, goal_cases)
  case (1 q i u root canonical remote)
  from 1(8) [unfolded sum.inject prod.inject, THEN conjunct2, symmetric] show ?case
    by (intro simulated_refl) (simp add: abs_upd_project)
qed

lemma map_list_all2: "list_all2 R xs ys \<Longrightarrow> (\<And>x y. R x y \<Longrightarrow> g y = g x) \<Longrightarrow> map g ys = map g xs"
  by (induction rule: list_all2_induct) auto

lemma sim_rename:
  assumes "rename_project s request opts = Inr (v, s')"
  shows "simulated s s'"
  using assms
proof (rule rename_projectE, goal_cases)
  case (1 q index name dir xs ms js ps)
  have "rows i_id abs_issue xs = rows i_id abs_issue (issues s)"
    by (rule rows_same; rule map_list_all2 [OF 1(3)]) (auto simp: abs_issue_def)
  moreover have "rows j_id abs_job js = rows j_id abs_job (jobs s)"
    by (rule rows_same; rule map_list_all2 [OF 1(5)]; elim disjE exE) (simp_all add: abs_job_def)
  ultimately have "abs_state s' = abs_state (s\<lparr>projects := upd_nth index (\<lambda>p. p\<lparr>p_document_directory := dir,
      p_name := name, p_key := name, p_revision := p_revision p + 1\<rparr>) (projects s)\<rparr>)"
    by (simp add: abs_state_def 1(7))
  then show ?case by (intro simulated_refl) (simp add: abs_upd_project)
qed

lemma sim_archive:
  assumes "coherent s" "archive_project s request opts now = Inr (v, s')"
  shows "simulated s s'"
  using assms(2) unfolding archive_project_def Let_def
proof (elim attemptE ensureE, goal_cases)
  case (1 q i u command)
  let ?p = "projects s ! i" and ?w = "abs_state s" and ?b = "command = ''project.archive''"
  let ?f = "\<lambda>p. p\<lparr>p_archived_at := (if ?b then Some now else None), p_revision := p_revision p + 1\<rparr>"
  note ids = coherentD(1) [OF assms(1)] and i = project_ix.index_bound [OF 1(2)]
  have "closed_project ?w (p_id ?p)" if ?b
    using that 1(6,7) unfolding closed_project_def by (fastforce simp: list_ex_iff dest!: rows_SomeD)
  then have "wstep ?w (?w\<lparr>w_projects := (w_projects ?w)(p_id ?p \<mapsto> ?b)\<rparr>)"
    using project_row [OF ids i] by (intro wstep.set_archived) simp_all
  moreover from 1(8) have "s' = s\<lparr>projects := upd_nth i ?f (projects s)\<rparr>" by simp
  then have "abs_state s' = ?w\<lparr>w_projects := (w_projects ?w)(p_id ?p \<mapsto> ?b)\<rparr>"
    using rows_upd_nth [OF ids_okD(1) [OF ids] i, of ?f "\<lambda>p. p_archived_at p \<noteq> None"]
    by (simp add: abs_state_def)
  ultimately show ?case by (simp add: simulated_step)
qed

lemma sim_record: "record_conversation s request opts now = Inr (v, s') \<Longrightarrow> simulated s s'"
  by (erule record_conversationE) (auto simp: abs_set_job_same abs_job_def intro!: simulated_refl)

lemma sim_delete:
  assumes "coherent s" "deletion_apply s request opts = Inr (v, s')"
  shows "simulated s s'"
  using assms(2)
proof (rule deletion_applyE, goal_cases)
  case (1 all gone ident work)
  note ids = coherentD(1) [OF assms(1)]
  let ?w = "abs_state s"
  let ?w1 = "?w\<lparr>w_tasks := w_tasks ?w |` (- work), w_jobs := w_jobs ?w |` (- gone)\<rparr>"
  have work: "tasks_of ?w gone = work" using tasks_of_abs [OF ids] 1(3) by simp
  have step: "wstep ?w ?w1"
  proof (rule wstep.delete_jobs [of ?w gone, unfolded work], goal_cases)
    case 1
    show ?case using \<open>\<forall>l \<in> set (leases s). l_task_id l \<notin> work\<close>
      by (auto dest!: rows_SomeD)
  next
    case (2 t x)
    then obtain y where "y \<in> set (tasks s)" "t_id y = t" "x = abs_task y" by (auto dest!: rows_SomeD)
    with 2(2) \<open>\<forall>t \<in> set (tasks s). t_id t \<notin> work \<longrightarrow> set (t_dependencies t) \<inter> work = {}\<close>
    show ?case by (metis abs_task_sel(5))
  qed
  have tj: "rows t_id abs_task (tasks s') = w_tasks ?w1" "rows j_id abs_job (jobs s') = w_jobs ?w1"
    unfolding 1(6,7) by (simp_all add: rows_filter)
  show ?case
  proof (cases all)
    case False
    then have "abs_state s' = ?w1"
      using tj 1(9,11,13) by (simp add: abs_state_def)
    with step show ?thesis by (simp add: simulated_step)
  next
    case True
    have jobs: "wj_project x \<noteq> ident" if x: "w_jobs ?w1 j = Some x" for j x
    proof
      assume p: "wj_project x = ident"
      from x have "j \<notin> gone" "w_jobs ?w j = Some x" by (auto simp: restrict_map_def split: if_splits)
      moreover then obtain y where "y \<in> set (jobs s)" "j_id y = j" "x = abs_job y"
        by (auto dest!: rows_SomeD)
      ultimately show False using 1(1) [OF True] p by auto
    qed
    let ?w2 = "?w1\<lparr>w_projects := (w_projects ?w1)(ident := None),
        w_issues := (\<lambda>i. case w_issues ?w1 i of Some x \<Rightarrow> if wi_project x = ident then None else Some x | None \<Rightarrow> None)\<rparr>"
    have "wstep ?w1 ?w2" by (rule wstep.delete_project) (rule jobs)
    moreover have "rows i_id abs_issue (issues s') = w_issues ?w2"
      using True rows_filter_val [OF ids_okD(4) [OF ids], of "\<lambda>x. i_project_id x \<noteq> ident" "\<lambda>x. wi_project x \<noteq> ident" abs_issue]
      unfolding 1(11) by (auto simp: fun_eq_iff split: option.splits)
    moreover have "rows p_id (\<lambda>p. p_archived_at p \<noteq> None) (projects s') = w_projects ?w2"
      using True rows_drop [of p_id "\<lambda>p. p_archived_at p \<noteq> None" ident "projects s"] unfolding 1(13) by simp
    ultimately have "wstep ?w1 (abs_state s')"
      using tj 1(9) by (simp add: abs_state_def)
    with step show ?thesis by (simp add: simulated_def)
  qed
qed

lemma sim_associate:
  assumes "coherent s" "associate s job request now = Inr s'"
    and "\<And>i. job_index s job = Inr i \<Longrightarrow>
      w_projects (abs_state s) (j_project_id (jobs s ! i)) = Some False"
  shows "simulated s s'"
  using assms(2)
proof (cases rule: associateE)
  case none
  then show ?thesis by (simp add: simulated_refl)
next
  case (unlink j)
  note ids = coherentD(1) [OF assms(1)] and j = job_ix.index_bound [OF unlink(1)]
  show ?thesis
    unfolding unlink(2) using wstep.link [OF job_row [OF ids j], of None]
    by (intro simulated_step) (simp add: abs_set_job [OF ids j] abs_job_def)
next
  case (link j i s1)
  note ids = coherentD(1) [OF assms(1)] and j = job_ix.index_bound [OF link(1)]
  let ?i = "issues s ! i"
  have "w_projects (abs_state s) (i_project_id ?i) = Some False"
    using assms(3) [OF link(1)] link(4) by simp
  then have sim: "simulated s s1"
    using link(5) sim_activate [OF ids link(2)] by (auto simp: simulated_refl)
  have s1: "ids_ok s1" "jobs s1 = jobs s" "i < length (issues s1)"
      "i_id (issues s1 ! i) = i_id ?i" "i_project_id (issues s1 ! i) = i_project_id ?i"
    using link(5) link(2) ids ids_ok_same [OF ids same_ids_updates(5)]
    by (auto simp: activate_def)
  then have row: "w_issues (abs_state s1) (i_id ?i) = Some (abs_issue (issues s1 ! i))"
    using issue_row [OF s1(1,3)] by simp
  have "wstep (abs_state s1) ((abs_state s1)\<lparr>w_jobs := (w_jobs (abs_state s1))
      (j_id (jobs s1 ! j) \<mapsto> (abs_job (jobs s1 ! j))\<lparr>wj_issue := Some (i_id ?i)\<rparr>)\<rparr>)"
    using job_row [OF s1(1), of j] j row link(4) s1(2,5) by (intro wstep.link) auto
  moreover have "abs_state s' = (abs_state s1)\<lparr>w_jobs := (w_jobs (abs_state s1))
      (j_id (jobs s1 ! j) \<mapsto> (abs_job (jobs s1 ! j))\<lparr>wj_issue := Some (i_id ?i)\<rparr>)\<rparr>"
    unfolding link(7) using abs_set_job [OF s1(1), of j "\<lambda>x. x\<lparr>j_issue_id := Some (i_id ?i)\<rparr>"] j s1(2)
    by (simp add: abs_job_def)
  ultimately show ?thesis using sim by (metis simulated_step simulated_trans)
qed

text \<open>The Job that a \<open>job.create\<close>, \<open>job.update\<close> or \<open>job.followup\<close> returns lies in an open Project.\<close>

lemma created_job_open:
  assumes "coherent s0" "coherent s" "create_job e s0 r opts now = Inr (VJob j, s)" "job_index s (j_id j) = Inr i"
  shows "w_projects (abs_state s) (j_project_id (jobs s ! i)) = Some False"
  using assms(3)
proof (rule create_jobE, goal_cases)
  case (1 q p x)
  then have "j \<in> set (jobs s)" by simp
  then have "jobs s ! i = j"
    using job_ix.index_of_member [OF ids_okD(2) [OF coherentD(1) [OF assms(2)]] _ assms(4)] by blast
  then show ?case
    using project_row [OF coherentD(1) [OF assms(1)] project_ix.index_bound [OF 1(1)]] 1 by simp
qed

lemma update_job_value:
  assumes "update_job e s0 r opts now = Inr (VJob j, s)"
  obtains k p where "k < length (jobs s0)" "length (jobs s) = length (jobs s0)" "j = jobs s ! k"
    "j_project_id j = j_project_id (jobs s0 ! k)" "projects s = projects s0"
    "project_index s0 (j_project_id (jobs s0 ! k)) = Inr p" "p_archived_at (projects s0 ! p) = None"
  using assms
proof (rule update_jobE, goal_cases)
  case (1 q k p command)
  note k = job_ix.index_bound [OF 1(3)]
  have "length (jobs s) = length (jobs s0) \<and> j = jobs s ! k
      \<and> j_project_id j = j_project_id (jobs s0 ! k) \<and> projects s = projects s0"
    using 1(8)
  proof (elim disjE conjE)
    assume "review_job s0 k r now (actor_ref opts = ''user:obsidian'') = Inr (VJob j, s)"
    then show ?thesis
      using k by (elim review_jobE) (auto simp: complete_open_tasks_def Let_def)
  next
    assume "followup_job e s0 k r opts now = Inr (VJob j, s)"
    then show ?thesis using k by (elim followup_jobE) simp
  next
    assume "change_job e s0 r now command k (jobs s0 ! k) (document_directory (projects s0 ! p)) = Inr (VJob j, s)"
    then show ?thesis
    proof (rule change_jobE, goal_cases)
      case (1 s1 j1)
      have s1: "length (jobs s1) = length (jobs s0)" "projects s1 = projects s0"
          "j_project_id (jobs s1 ! k) = j_project_id (jobs s0 ! k)"
        using 1(1) k by (auto simp: cancel_job_def Let_def result_simps)
      have "j_project_id j1 = j_project_id (jobs s1 ! k)"
        using 1(2)
      proof (elim disjE exE)
        fix renamed
        assume "edit_job e r renamed (jobs s1 ! k) = Inr j1"
        then show ?thesis by (elim edit_jobE) simp
      qed (auto simp: archive_job_def unarchive_job_def result_simps)
      with 1(3,4) s1 k show ?case by simp
    qed
  qed
  with 1(1) [OF k] 1(4,5) show ?case by blast
qed

lemma updated_job_open:
  assumes "coherent s0" "coherent s" "update_job e s0 r opts now = Inr (VJob j, s)" "job_index s (j_id j) = Inr i"
  shows "w_projects (abs_state s) (j_project_id (jobs s ! i)) = Some False"
  using assms(3)
proof (rule update_job_value, goal_cases)
  case (1 k p)
  have "i = k"
    using job_ix.index_of_nth [OF ids_okD(2) [OF coherentD(1) [OF assms(2)]], of k i] assms(4) 1(1-3) by simp
  then show ?case
    using project_of_job(2) [OF assms(1) 1(1,6)] 1 by simp
qed

section \<open>Every mutation refines the abstract machine\<close>

lemma sim_dispatch_job:
  assumes "coherent s0" "coherent s"
    and "c = ''job.create'' \<and> create_job e s0 r opts now = Inr (VJob j, s)
      \<or> (c = ''job.update'' \<or> c = ''job.followup'') \<and> update_job e s0 r opts now = Inr (VJob j, s)"
    and "associate s (j_id j) r now = Inr s'"
  shows "simulated s s'"
  by (rule sim_associate [OF assms(2,4)])
     (use assms(3) created_job_open [OF assms(1,2)] updated_job_open [OF assms(1,2)] in blast)

interpretation work: mutation_invariant coherent fresh_ids
proof unfold_locales
  fix s s0 e r c opts now j s'
  assume "coherent s" "coherent s0" "associate s (j_id j) r now = Inr s'"
    "c = ''job.create'' \<and> create_job e s0 r opts now = Inr (VJob j, s)
      \<or> (c = ''job.update'' \<or> c = ''job.followup'') \<and> update_job e s0 r opts now = Inr (VJob j, s)"
  then show "coherent s'"
    using sim_dispatch_job coherent_simulated coherentD(1) ids_ok_same same_ids_associate by meson
next
  fix s e r opts now v s'
  assume inv: "coherent s" and fresh: "fresh_ids e s r"
  note ids = coherentD(1) [OF inv] and result = coherent_simulated [OF inv]
  show "issue_apply e s r opts now = Inr (v, s') \<Longrightarrow> coherent s'"
    by (rule result [OF ids.inv_issue [OF ids fresh] sim_issue_apply [OF inv fresh]])
  show "milestone_apply e s r opts now = Inr (v, s') \<Longrightarrow> coherent s'"
    by (rule result [OF ids.inv_milestone [OF ids fresh] sim_milestone_apply])
  show "register_project e s r now = Inr (v, s') \<Longrightarrow> coherent s'"
    by (rule result [OF ids.inv_register [OF ids fresh] sim_register [OF fresh]])
  show "move_project e s r opts = Inr (v, s') \<Longrightarrow> coherent s'"
    by (rule result [OF ids.inv_move [OF ids fresh] sim_move])
  show "create_job e s r opts now = Inr (v, s') \<Longrightarrow> coherent s'"
    by (rule result [OF ids.inv_create_job [OF ids fresh] sim_create_job [OF inv fresh]])
  show "update_job e s r opts now = Inr (v, s') \<Longrightarrow> coherent s'"
    by (rule result [OF ids.inv_update_job [OF ids fresh] sim_update_job [OF inv]])
  show "add_task e s r opts now = Inr (v, s') \<Longrightarrow> coherent s'"
    by (rule result [OF ids.inv_add_task [OF ids fresh] sim_add_task [OF inv fresh]])
  show "session e s r now = Inr (v, s') \<Longrightarrow> coherent s'"
    by (rule result [OF ids.inv_session [OF ids fresh] sim_session [OF inv]])
  show "update_task e s r opts now = Inr (v, s') \<Longrightarrow> coherent s'"
    by (rule result [OF ids.inv_update_task [OF ids fresh] sim_update_task [OF inv]])
next
  fix s r opts now v s'
  assume inv: "coherent s"
  note ids = coherentD(1) [OF inv] and result = coherent_simulated [OF inv]
  show "rename_project s r opts = Inr (v, s') \<Longrightarrow> coherent s'"
    by (rule result [OF ids.inv_rename [OF ids] sim_rename])
  show "deletion_apply s r opts = Inr (v, s') \<Longrightarrow> coherent s'"
    by (rule result [OF ids.inv_delete [OF ids] sim_delete [OF inv]])
  show "archive_project s r opts now = Inr (v, s') \<Longrightarrow> coherent s'"
    by (rule result [OF ids.inv_archive [OF ids] sim_archive [OF inv]])
  show "record_conversation s r opts now = Inr (v, s') \<Longrightarrow> coherent s'"
    by (rule result [OF ids.inv_record [OF ids] sim_record])
qed

text \<open>The simulation itself, composed along \<open>mutations::apply\<close>.\<close>

lemma sim_same: "(Inr (u, s) :: (outcome_value \<times> snapshot) result) = Inr (v, s') \<Longrightarrow> simulated s s'"
  by (simp add: simulated_refl)

lemma sim_attach: "attach_conversation s r opts = Inr (v, s') \<Longrightarrow> simulated s s'"
  unfolding attach_conversation_def Let_def by (elim attemptE ensureE) (erule sim_same)

lemma sim_dispatch:
  assumes "coherent s" "fresh_ids e s r" "dispatch e s r opts now command = Inr (v, s')"
  shows "simulated s s'"
  using assms(3) unfolding dispatch_def
  by (elim if_resultE)
     (erule sim_issue_apply [OF assms(1,2)] sim_milestone_apply sim_register [OF assms(2)] sim_move sim_rename
        sim_delete [OF assms(1)] sim_archive [OF assms(1)] sim_record sim_create_job [OF assms(1,2)]
        sim_update_job [OF assms(1)] sim_add_task [OF assms(1,2)] sim_session [OF assms(1)]
        sim_update_task [OF assms(1)] sim_same sim_attach notE [OF sum.distinct(1)])+

lemma sim_mutate:
  assumes "coherent s" "fresh_ids e s r" "mutate e s r opts now = Inr (v, s')"
  shows "simulated s s'"
  using assms(3) unfolding mutate_def
proof (elim attempt_pairE attemptE ensureE if_resultE, goal_cases)
  case (1 u c v1 s1 ident s2 i)
  obtain j where j: "v1 = VJob j" "ident = j_id j"
    using 1(6) by (auto simp: value_id_def split: outcome_value.splits if_splits)
  have "simulated s s1" by (rule sim_dispatch [OF assms(1,2) 1(4)])
  moreover have "simulated s1 s2"
    by (rule sim_dispatch_job [OF assms(1) work.inv_dispatch [OF assms(1,2) 1(4)]])
       (use work.dispatch_job [OF 1(4,5)] 1(7) in \<open>simp_all add: j\<close>)
  ultimately show ?case using 1(9) simulated_trans by simp
next
  case (2 u c v1 s1)
  with sim_dispatch [OF assms(1,2)] show ?case by simp
qed

end
