(* ===== verification/Reachability.thy ===== *)
theory Reachability
  imports Job_Refinement "HOL-Library.List_Lexorder" "HOL-Library.Char_ord"
begin

text \<open>
  The runs of the store: from the empty database every state is reached by mutations and by the
  reaper of expired leases (\<open>Store::reap_expired\<close> of \<open>store.rs\<close>, which \<open>Store::execute\<close> runs before
  each command). The interface \<open>reachable_invariant\<close> turns an invariant of the mutations that the
  reaper keeps into a fact about every reachable snapshot.
\<close>

section \<open>The reaper\<close>

definition expired :: "snapshot \<Rightarrow> int \<Rightarrow> string list" where
  "expired s now = remdups (sort (map l_task_id (filter (\<lambda>l. l_expires_at l \<le> now) (leases s))))"

definition reap_one :: "int \<Rightarrow> snapshot \<Rightarrow> string \<Rightarrow> snapshot result" where
  "reap_one now s task =
     attempt (task_index s task) (\<lambda>i. Inr (system_block s i ''lease expired'' now))"

definition reap_expired :: "snapshot \<Rightarrow> int \<Rightarrow> (nat \<times> snapshot) result" where
  "reap_expired s now =
     (let ids = expired s now in
      if ids = [] then Inr (0, s)
      else attempt (fold_result (reap_one now) s ids) (\<lambda>s'. Inr (length ids, s')))"

text \<open>What the loop computes, without its order and its index lookups.\<close>

definition expire_task :: "int \<Rightarrow> task \<Rightarrow> task" where
  "expire_task now t = t\<lparr>t_status := TaskBlocked, t_phase := None, t_reason := Some ''lease expired'',
     t_system_block := True, t_revision := t_revision t + 1, t_updated_at := now\<rparr>"

definition expire_all :: "int \<Rightarrow> string set \<Rightarrow> snapshot \<Rightarrow> snapshot" where
  "expire_all now ids s =
     s\<lparr>tasks := upd_where (\<lambda>t. t_id t \<in> ids) (expire_task now) (tasks s),
       leases := filter (\<lambda>l. l_task_id l \<notin> ids) (leases s)\<rparr>"

lemma expire_task_id [simp]: "t_id (expire_task now t) = t_id t"
  by (simp add: expire_task_def)

lemma expired_set: "set (expired s now) = l_task_id ` {l \<in> set (leases s). l_expires_at l \<le> now}"
  by (simp add: expired_def)

lemma distinct_expired: "distinct (expired s now)"
  by (simp add: expired_def)

lemma system_block_expire:
  assumes "ids_ok s" "i < length (tasks s)"
  shows "system_block s i ''lease expired'' now = expire_all now {t_id (tasks s ! i)} s"
  using upd_nth_eq_upd_where [OF ids_okD(3) [OF assms(1)] assms(2), of "expire_task now"]
  by (simp add: system_block_def expire_all_def Let_def set_task_def expire_task_def [abs_def])

lemma upd_where_twice:
  assumes "\<And>x. p (f x) = p x" "\<And>x. q (f x) = q x" "\<And>x. \<not> (p x \<and> q x)"
  shows "upd_where q f (upd_where p f xs) = upd_where (\<lambda>x. p x \<or> q x) f xs"
  using assms by (auto simp: upd_where_def)

lemma expire_all_insert:
  assumes "x \<notin> ids"
  shows "expire_all now ids (expire_all now {x} s) = expire_all now (insert x ids) s"
  using upd_where_twice [of "\<lambda>t. t_id t = x" "expire_task now" "\<lambda>t. t_id t \<in> ids" "tasks s"] assms
  by (auto simp: expire_all_def intro!: filter_cong)

lemma reap_one_expire:
  assumes "ids_ok s" "x \<in> t_id ` set (tasks s)"
  shows "reap_one now s x = Inr (expire_all now {x} s)"
proof -
  from assms obtain t where t: "t \<in> set (tasks s)" "t_id t = x" "x \<noteq> []"
    by (auto simp: ids_ok_def image_iff)
  with task_ix.index_exact [of t s] obtain i where i: "task_index s x = Inr i" "t_id (tasks s ! i) = x"
    by auto
  with system_block_expire [OF assms(1) task_ix.index_bound [OF i(1)]] show ?thesis
    by (simp add: reap_one_def)
qed

lemma ids_ok_expire_all: "ids_ok s \<Longrightarrow> ids_ok (expire_all now ids s)"
  by (simp add: ids_ok_def expire_all_def distinct_map_filter map_upd_where flip: set_map)

lemma reap_loop:
  assumes "ids_ok s" "set xs \<subseteq> t_id ` set (tasks s)" "distinct xs"
  shows "fold_result (reap_one now) s xs = Inr (expire_all now (set xs) s)"
  using assms
proof (induction xs arbitrary: s)
  case Nil
  then show ?case by (simp add: expire_all_def upd_where_def)
next
  case (Cons x xs)
  have "t_id ` set (tasks (expire_all now {x} s)) = t_id ` set (tasks s)"
    by (simp add: expire_all_def map_upd_where flip: set_map)
  with Cons.prems have "fold_result (reap_one now) (expire_all now {x} s) xs
      = Inr (expire_all now (set xs) (expire_all now {x} s))"
    by (intro Cons.IH ids_ok_expire_all) auto
  with Cons.prems show ?case by (simp add: reap_one_expire expire_all_insert)
qed

lemma lease_task:
  assumes "coherent s" "l \<in> set (leases s)"
  obtains t where "t \<in> set (tasks s)" "t_id t = l_task_id l" "t_status t = TaskInProgress"
proof -
  have "rows l_task_id abs_lease (leases s) (l_task_id l) = Some (abs_lease l)"
    by (rule rows_mem [OF ids_okD(5) [OF coherentD(1) [OF assms(1)]] assms(2)])
  then have "w_leases (abs_state s) (l_task_id l) \<noteq> None" by simp
  with coherentD(7) [OF assms(1)] obtain x where
    x: "rows t_id abs_task (tasks s) (l_task_id l) = Some x" "wt_status x = TaskInProgress"
    unfolding w_leased_def abs_state_sel by blast
  from rows_SomeD [OF x(1)] x(2) that show ?thesis by auto
qed

lemma reap_result:
  assumes "coherent s"
  shows "reap_expired s now = Inr (length (expired s now), expire_all now (set (expired s now)) s)"
proof -
  have "set (expired s now) \<subseteq> t_id ` set (tasks s)"
    unfolding expired_set using lease_task [OF assms] by (metis (no_types, lifting) image_iff image_subsetI mem_Collect_eq)
  from reap_loop [OF coherentD(1) [OF assms] this distinct_expired] show ?thesis
    by (simp add: reap_expired_def Let_def expire_all_def upd_where_def)
qed

text \<open>Every step of the loop is an abstract \<open>leave\<close>.\<close>

lemma expire_one_step:
  assumes "coherent s" "entities_ok s" "l \<in> set (leases s)"
  shows "simulated s (expire_all now {l_task_id l} s)" "entities_ok (expire_all now {l_task_id l} s)"
proof -
  obtain t where t: "t \<in> set (tasks s)" "t_id t = l_task_id l" "t_status t = TaskInProgress"
    using lease_task [OF assms(1,3)] .
  then obtain i where i: "i < length (tasks s)" "tasks s ! i = t" by (auto simp: in_set_conv_nth)
  have eq: "expire_all now {l_task_id l} s = system_block s i ''lease expired'' now"
    using system_block_expire [OF coherentD(1) [OF assms(1)] i(1)] t i by simp
  show "simulated s (expire_all now {l_task_id l} s)"
    unfolding eq by (rule sim_system_block [OF coherentD(1) [OF assms(1)] i(1)]) (simp add: i t)
  show "entities_ok (expire_all now {l_task_id l} s)"
    unfolding eq by (rule ok_system_block [OF assms(2)]) (simp add: i t)
qed

lemma expire_many:
  assumes "coherent s" "entities_ok s" "finite ids" "ids \<subseteq> l_task_id ` set (leases s)"
  shows "simulated s (expire_all now ids s) \<and> entities_ok (expire_all now ids s)"
  using assms(3,1,2,4)
proof (induction ids arbitrary: s rule: finite_induct)
  case empty
  then show ?case by (simp add: expire_all_def upd_where_def simulated_refl)
next
  case (insert x ids)
  then obtain l where l: "l \<in> set (leases s)" "l_task_id l = x" by auto
  note one = expire_one_step [OF insert.prems(1,2) l(1), of now, unfolded l(2)]
  have c: "coherent (expire_all now {x} s)"
    using coherent_simulated [OF insert.prems(1)] ids_ok_expire_all coherentD(1) [OF insert.prems(1)] one(1) by blast
  have "ids \<subseteq> l_task_id ` set (leases (expire_all now {x} s))"
    using insert.prems(3) insert.hyps(2) by (fastforce simp: expire_all_def)
  with insert.IH [OF c one(2)] one(1) show ?case
    using simulated_trans [of s "expire_all now {x} s"] by (simp add: expire_all_insert insert.hyps(2))
qed

lemma reap_keeps:
  assumes "coherent s" "entities_ok s" "reap_expired s now = Inr (n, s')"
  shows "coherent s'" "entities_ok s'" "simulated s s'"
proof -
  have s': "s' = expire_all now (set (expired s now)) s" using reap_result [OF assms(1)] assms(3) by simp
  have "set (expired s now) \<subseteq> l_task_id ` set (leases s)" by (auto simp: expired_set)
  with expire_many [OF assms(1,2)] show "simulated s s'" "entities_ok s'" by (simp_all add: s')
  then show "coherent s'"
    using coherent_simulated [OF assms(1)] ids_ok_expire_all coherentD(1) [OF assms(1)] by (simp add: s')
qed

section \<open>Reachable snapshots\<close>

inductive reachable :: "snapshot \<Rightarrow> bool" where
  start: "reachable empty_snapshot"
| mutation: "reachable s \<Longrightarrow> fresh_ids e s r \<Longrightarrow> mutate e (s\<lparr>query_ctx := c\<rparr>) r opts now = Inr (v, s') \<Longrightarrow>
    reachable s'"
| reap: "reachable s \<Longrightarrow> reap_expired s now = Inr (n, s') \<Longrightarrow> reachable s'"

text \<open>
  A command that fails leaves the database as it was: the transaction of \<open>execute_as\<close> is dropped,
  so only successful mutations are steps. The summaries of the query context are recomputed by SQL
  before every command; a step may find any of them.
\<close>

lemma context_frame [simp]:
  "fresh_ids e (s\<lparr>query_ctx := c\<rparr>) r = fresh_ids e s r" "ids_ok (s\<lparr>query_ctx := c\<rparr>) = ids_ok s"
  "entities_ok (s\<lparr>query_ctx := c\<rparr>) = entities_ok s" "abs_state (s\<lparr>query_ctx := c\<rparr>) = abs_state s"
  "coherent (s\<lparr>query_ctx := c\<rparr>) = coherent s"
  by (simp_all add: fresh_ids_def ids_ok_def entities_ok_def abs_state_def coherent_def)

locale reachable_invariant = mutation_invariant inv fresh_ids for inv :: "snapshot \<Rightarrow> bool" +
  assumes inv_empty: "inv empty_snapshot"
    and inv_context: "inv s \<Longrightarrow> inv (s\<lparr>query_ctx := c\<rparr>)"
    and inv_reap: "inv s \<Longrightarrow> reap_expired s now = Inr (n, s') \<Longrightarrow> inv s'"
begin

lemma inv_step: "inv s \<Longrightarrow> fresh_ids e s r \<Longrightarrow> mutate e (s\<lparr>query_ctx := c\<rparr>) r opts now = Inr (v, s') \<Longrightarrow> inv s'"
  by (rule inv_mutate [OF inv_context]) simp_all

lemma inv_reachable: "reachable s \<Longrightarrow> inv s"
  by (induction rule: reachable.induct) (blast intro: inv_empty inv_step inv_reap)+

end

definition snapshot_ok :: "snapshot \<Rightarrow> bool" where
  "snapshot_ok s \<longleftrightarrow> coherent s \<and> entities_ok s"

lemma empty_snapshot_ok: "snapshot_ok empty_snapshot"
  by (simp add: snapshot_ok_def coherent_def ids_ok_def entities_ok_def empty_snapshot_def w_inv_def w_refs_def
      ref_defs w_leased_def w_owners_def w_started_def w_settled_def w_archived_def w_edges_def rows_def abs_state_def acyclic_def)

lemma snapshot_ok_frames:
  assumes "snapshot_ok s"
  shows "coherent s" "entities_ok s" "ids_ok s \<and> entities_ok s"
  using assms by (auto simp: snapshot_ok_def coherentD)

interpretation store: reachable_invariant snapshot_ok
proof unfold_locales
  show "snapshot_ok empty_snapshot" by (rule empty_snapshot_ok)
  show "snapshot_ok s \<Longrightarrow> snapshot_ok (s\<lparr>query_ctx := c\<rparr>)" for s c by (simp add: snapshot_ok_def)
next
  fix s now n s'
  assume "snapshot_ok s" "reap_expired s now = Inr (n, s')"
  then show "snapshot_ok s'" unfolding snapshot_ok_def by (blast intro: reap_keeps(1,2))
next
  fix s s0 e r c opts now j s'
  assume ok: "snapshot_ok s" "snapshot_ok s0" and c: "required r ''command'' = Inr c" and fresh: "fresh_ids e s0 r"
    and assoc: "associate s (j_id j) r now = Inr s'"
    and job: "c = ''job.create'' \<and> create_job e s0 r opts now = Inr (VJob j, s)
      \<or> (c = ''job.update'' \<or> c = ''job.followup'') \<and> update_job e s0 r opts now = Inr (VJob j, s)"
  have "coherent s'"
    by (rule work.inv_associate [OF snapshot_ok_frames(1) [OF ok(1)] c job snapshot_ok_frames(1) [OF ok(2)] fresh assoc])
  with ok_associate [OF snapshot_ok_frames(2) [OF ok(1)] assoc] show "snapshot_ok s'" by (simp add: snapshot_ok_def)
next
  fix s e r opts now v s'
  assume inv: "snapshot_ok s" and fresh: "fresh_ids e s r"
  note w = snapshot_ok_frames(1) [OF inv] and x = snapshot_ok_frames(3) [OF inv]
  show "issue_apply e s r opts now = Inr (v, s') \<Longrightarrow> snapshot_ok s'"
    using work.inv_issue [OF w fresh] shapes.inv_issue [OF x fresh] by (simp add: snapshot_ok_def)
  show "milestone_apply e s r opts now = Inr (v, s') \<Longrightarrow> snapshot_ok s'"
    using work.inv_milestone [OF w fresh] shapes.inv_milestone [OF x fresh] by (simp add: snapshot_ok_def)
  show "register_project e s r now = Inr (v, s') \<Longrightarrow> snapshot_ok s'"
    using work.inv_register [OF w fresh] shapes.inv_register [OF x fresh] by (simp add: snapshot_ok_def)
  show "move_project e s r opts = Inr (v, s') \<Longrightarrow> snapshot_ok s'"
    using work.inv_move [OF w fresh] shapes.inv_move [OF x fresh] by (simp add: snapshot_ok_def)
  show "create_job e s r opts now = Inr (v, s') \<Longrightarrow> snapshot_ok s'"
    using work.inv_create_job [OF w fresh] shapes.inv_create_job [OF x fresh] by (simp add: snapshot_ok_def)
  show "update_job e s r opts now = Inr (v, s') \<Longrightarrow> snapshot_ok s'"
    using work.inv_update_job [OF w fresh] shapes.inv_update_job [OF x fresh] by (simp add: snapshot_ok_def)
  show "add_task e s r opts now = Inr (v, s') \<Longrightarrow> snapshot_ok s'"
    using work.inv_add_task [OF w fresh] shapes.inv_add_task [OF x fresh] by (simp add: snapshot_ok_def)
  show "session e s r now = Inr (v, s') \<Longrightarrow> snapshot_ok s'"
    using work.inv_session [OF w fresh] shapes.inv_session [OF x fresh] by (simp add: snapshot_ok_def)
  show "update_task e s r opts now = Inr (v, s') \<Longrightarrow> snapshot_ok s'"
    using work.inv_update_task [OF w fresh] shapes.inv_update_task [OF x fresh] by (simp add: snapshot_ok_def)
next
  fix s r opts now v s'
  assume inv: "snapshot_ok s"
  note w = snapshot_ok_frames(1) [OF inv] and x = snapshot_ok_frames(3) [OF inv]
  show "rename_project s r opts = Inr (v, s') \<Longrightarrow> snapshot_ok s'"
    using work.inv_rename [OF w] shapes.inv_rename [OF x] by (simp add: snapshot_ok_def)
  show "deletion_apply s r opts = Inr (v, s') \<Longrightarrow> snapshot_ok s'"
    using work.inv_delete [OF w] shapes.inv_delete [OF x] by (simp add: snapshot_ok_def)
  show "archive_project s r opts now = Inr (v, s') \<Longrightarrow> snapshot_ok s'"
    using work.inv_archive [OF w] shapes.inv_archive [OF x] by (simp add: snapshot_ok_def)
  show "record_conversation s r opts now = Inr (v, s') \<Longrightarrow> snapshot_ok s'"
    using work.inv_record [OF w] shapes.inv_record [OF x] by (simp add: snapshot_ok_def)
qed

lemmas reachable_ok = store.inv_reachable

end
