(* ===== verification/Demo.thy ===== *)
theory Demo
  imports Reachability "HOL-Library.Code_Target_Nat"
begin

text \<open>
  A concrete run of the mutation engine, evaluated by the kernel: a Project, an Issue, a Job and two
  Tasks, the first of which is claimed, planned and started while the second depends on it. The
  witnesses of the properties use its snapshots, which are all reachable.
\<close>

definition demo_env :: "nat \<Rightarrow> env" where
  "demo_env n = \<lparr>uuid = (\<lambda>k. decimal (10 * n + k)), to_lowercase = (\<lambda>s. s),
     civil_date = (\<lambda>_. Some (2025, 1, 2)), valid_date = (\<lambda>_. True),
     parse_plan = (\<lambda>v. case v of
        JString t \<Rightarrow> Some \<lparr>pl_id = ''plan_'' @ t, pl_task_id = t, pl_version = 1, pl_path = ''Plans/p.md'',
          pl_hash = ''h'', pl_created_at = 3, pl_updated_at = 3, pl_pending_body = None\<rparr>
      | _ \<Rightarrow> None),
     is_dir = (\<lambda>_. True), canonicalize = Some\<rparr>"

definition demo_step :: "snapshot \<Rightarrow> nat \<times> (string \<times> string) list \<times> write_options \<Rightarrow> snapshot result" where
  "demo_step s st = (case st of (n, fs, opts) \<Rightarrow>
     let r = JObject (map (\<lambda>(k, v). (k, JString v)) fs) in
     ensure (fresh_ids (demo_env n) s r) (Failed ''id'')
       (attempt (mutate (demo_env n) s r opts (int n)) (\<lambda>(v, s'). Inr s')))"

definition held :: write_options where
  "held = default_options\<lparr>lease_token := Some ''lease_50'', session_ref := Some ''s1''\<rparr>"

definition demo_steps :: "(nat \<times> (string \<times> string) list \<times> write_options) list" where
  "demo_steps =
    [(0, [(''command'', ''project.register''), (''root'', ''/w''), (''name'', ''Demo'')], default_options),
     (1, [(''command'', ''issue.create''), (''project'', ''prj_0''), (''title'', ''Need'')], default_options),
     (2, [(''command'', ''job.create''), (''project'', ''prj_0''), (''title'', ''Work''), (''issue'', ''issue_10'')], default_options),
     (3, [(''command'', ''task.add''), (''job'', ''job_20''), (''title'', ''First'')], default_options),
     (4, [(''command'', ''task.add''), (''job'', ''job_20''), (''title'', ''Second'')], default_options),
     (5, [(''command'', ''task.claim''), (''task'', ''task_30''), (''executor'', ''agent:codex''), (''session'', ''s1'')], default_options),
     (6, [(''command'', ''task.depend''), (''task'', ''task_40''), (''dependency'', ''task_30'')], default_options),
     (7, [(''command'', ''plan.register''), (''task'', ''task_30''), (''plan'', ''task_30'')], held),
     (8, [(''command'', ''task.start''), (''task'', ''task_30'')], held)]"

definition run :: "(nat \<times> (string \<times> string) list \<times> write_options) list \<Rightarrow> snapshot" where
  "run steps = (case fold_result demo_step empty_snapshot steps of Inr s \<Rightarrow> s | Inl _ \<Rightarrow> empty_snapshot)"

definition demo :: "nat \<Rightarrow> snapshot" where
  "demo k = run (take k demo_steps)"

text \<open>More runs: both Tasks in turn up to the end of the second one, a Job that is cancelled before its
  Project is archived, and an Issue whose only Job is cancelled and that is submitted for acceptance.\<close>

definition held_second :: write_options where
  "held_second = default_options\<lparr>lease_token := Some ''lease_100'', session_ref := Some ''s1''\<rparr>"

definition finish_steps :: "(nat \<times> (string \<times> string) list \<times> write_options) list" where
  "finish_steps = demo_steps @
    [(9, [(''command'', ''task.done''), (''task'', ''task_30'')], held),
     (10, [(''command'', ''task.claim''), (''task'', ''task_40''), (''executor'', ''agent:codex''), (''session'', ''s1'')], default_options),
     (11, [(''command'', ''plan.register''), (''task'', ''task_40''), (''plan'', ''task_40'')], held_second),
     (12, [(''command'', ''task.start''), (''task'', ''task_40'')], held_second),
     (13, [(''command'', ''task.done''), (''task'', ''task_40'')], held_second)]"

definition cancel_steps :: "(nat \<times> (string \<times> string) list \<times> write_options) list" where
  "cancel_steps =
    [(0, [(''command'', ''project.register''), (''root'', ''/w''), (''name'', ''Demo'')], default_options),
     (1, [(''command'', ''job.create''), (''project'', ''prj_0''), (''title'', ''Work'')], default_options),
     (2, [(''command'', ''task.add''), (''job'', ''job_10''), (''title'', ''First'')], default_options),
     (3, [(''command'', ''job.cancel''), (''job'', ''job_10'')], default_options),
     (4, [(''command'', ''project.archive''), (''project'', ''prj_0'')], default_options)]"

definition review_steps :: "(nat \<times> (string \<times> string) list \<times> write_options) list" where
  "review_steps =
    [(0, [(''command'', ''project.register''), (''root'', ''/w''), (''name'', ''Demo'')], default_options),
     (1, [(''command'', ''issue.create''), (''project'', ''prj_0''), (''title'', ''Need'')], default_options),
     (2, [(''command'', ''job.create''), (''project'', ''prj_0''), (''title'', ''Work''), (''issue'', ''issue_10'')], default_options),
     (3, [(''command'', ''job.cancel''), (''job'', ''job_20'')], default_options),
     (4, [(''command'', ''issue.submit''), (''issue'', ''issue_10'')], default_options)]"

lemma reachable_demo_step: "reachable s \<Longrightarrow> demo_step s st = Inr s' \<Longrightarrow> reachable s'"
proof (cases st)
  case (fields n fs opts)
  assume "reachable s" "demo_step s st = Inr s'"
  then show "reachable s'"
    using reachable.mutation [of s "demo_env n" _ "query_ctx s"]
    unfolding demo_step_def Let_def fields prod.case by (elim ensureE attempt_pairE) simp
qed

lemma reachable_run: "reachable (run steps)"
proof -
  have "reachable s'" if "fold_result demo_step empty_snapshot steps = Inr s'" for s'
    using fold_result_invariant [OF that, of reachable] reachable.start reachable_demo_step by blast
  then show ?thesis by (auto simp: run_def reachable.start split: sum.splits)
qed

lemma reachable_demo: "reachable (demo k)"
  by (simp add: demo_def reachable_run)

end
