(* ===== verification/Guarantees.thy ===== *)
theory Guarantees
  imports Demo
begin

text \<open>
  What holds of every snapshot the store can reach: the refinement of the abstract workflow, the lease
  discipline, referential integrity, the dependency order, the shape of the entities, and the exact
  effect of the reaper.
\<close>

section \<open>Rows of a reachable snapshot\<close>

lemma row_abs:
  assumes "coherent s"
  shows "t \<in> set (tasks s) \<Longrightarrow> w_tasks (abs_state s) (t_id t) = Some (abs_task t)"
    and "j \<in> set (jobs s) \<Longrightarrow> w_jobs (abs_state s) (j_id j) = Some (abs_job j)"
    and "i \<in> set (issues s) \<Longrightarrow> w_issues (abs_state s) (i_id i) = Some (abs_issue i)"
    and "p \<in> set (projects s) \<Longrightarrow> w_projects (abs_state s) (p_id p) = Some (p_archived_at p \<noteq> None)"
    and "l \<in> set (leases s) \<Longrightarrow> w_leases (abs_state s) (l_task_id l) = Some (abs_lease l)"
  using ids_okD [OF coherentD(1) [OF assms]] by (simp_all add: rows_mem)

lemma row_conc:
  "w_tasks (abs_state s) k = Some x \<Longrightarrow> \<exists>t \<in> set (tasks s). t_id t = k \<and> x = abs_task t"
  "w_jobs (abs_state s) k = Some y \<Longrightarrow> \<exists>j \<in> set (jobs s). j_id j = k \<and> y = abs_job j"
  "w_issues (abs_state s) k = Some z \<Longrightarrow> \<exists>i \<in> set (issues s). i_id i = k \<and> z = abs_issue i"
  "w_projects (abs_state s) k = Some b \<Longrightarrow> \<exists>p \<in> set (projects s). p_id p = k \<and> (b \<longleftrightarrow> p_archived_at p \<noteq> None)"
  "w_leases (abs_state s) k = Some o' \<Longrightarrow> \<exists>l \<in> set (leases s). l_task_id l = k \<and> o' = abs_lease l"
  using rows_SomeD by (auto dest!: rows_SomeD)

lemma reachableD:
  assumes "reachable s"
  shows "coherent s" "entities_ok s" "w_inv (abs_state s)" "ids_ok s"
  using reachable_ok [OF assms] by (auto simp: snapshot_ok_def coherent_def)

section \<open>The mutation engine refines the workflow\<close>

text \<open>C1: every successful command, on any reachable snapshot and with whatever summaries the query
  context holds, is a sequence of transitions of the abstract workflow.\<close>

theorem mutate_refines_workflow:
  assumes "reachable s" "fresh_ids e s r" "mutate e (s\<lparr>query_ctx := c\<rparr>) r opts now = Inr (v, s')"
  shows "wstep\<^sup>*\<^sup>* (abs_state s) (abs_state s')"
  using sim_mutate [OF _ _ assms(3)] assms(2) reachableD(1) [OF assms(1)] by (simp add: simulated_def)

theorem mutate_refines_workflow_witness:
  "\<exists>v s'. mutate (demo_env 3) (demo 3) (JObject [(''command'', JString ''task.add''), (''job'', JString ''job_20''),
      (''title'', JString ''First'')]) default_options 3 = Inr (v, s')
    \<and> wstep\<^sup>*\<^sup>* (abs_state (demo 3)) (abs_state s')"
proof -
  let ?r = "JObject [(''command'', JString ''task.add''), (''job'', JString ''job_20''), (''title'', JString ''First'')]"
  have fresh: "fresh_ids (demo_env 3) (demo 3) ?r" by code_simp
  have "is_ok (mutate (demo_env 3) (demo 3) ?r default_options 3)" by code_simp
  then obtain v s' where m: "mutate (demo_env 3) (demo 3) ?r default_options 3 = Inr (v, s')"
    by (auto simp: is_ok_iff)
  from mutate_refines_workflow [OF reachable_demo fresh, of "query_ctx (demo 3)"] m show ?thesis by auto
qed

section \<open>Leases\<close>

text \<open>C2: a Task is in progress exactly when it is leased, and then by exactly one lease; no lease is
  left behind by a Task that is gone.\<close>

theorem leased_iff_in_progress:
  assumes "reachable s"
  shows "(\<exists>t \<in> set (tasks s). t_id t = k \<and> t_status t = TaskInProgress) \<longleftrightarrow> (\<exists>!l. l \<in> set (leases s) \<and> l_task_id l = k)"
proof -
  note c = reachableD(1) [OF assms]
  have "(\<exists>t \<in> set (tasks s). t_id t = k \<and> t_status t = TaskInProgress)
      \<longleftrightarrow> (\<exists>x. w_tasks (abs_state s) k = Some x \<and> wt_status x = TaskInProgress)"
    using row_abs(1) [OF c] row_conc(1) by fastforce
  also have "\<dots> \<longleftrightarrow> w_leases (abs_state s) k \<noteq> None"
    using coherentD(7) [OF c] unfolding w_leased_def by blast
  also have "\<dots> \<longleftrightarrow> (\<exists>l \<in> set (leases s). l_task_id l = k)"
    using row_abs(5) [OF c] row_conc(5) by fastforce
  also have "\<dots> \<longleftrightarrow> (\<exists>!l. l \<in> set (leases s) \<and> l_task_id l = k)"
    using distinct_key_unique [OF ids_okD(5) [OF reachableD(4) [OF assms]]] by (metis (no_types, lifting))
  finally show ?thesis .
qed

theorem leased_iff_in_progress_witness:
  "\<exists>!l. l \<in> set (leases (demo 6)) \<and> l_task_id l = ''task_30''"
proof -
  have "list_ex (\<lambda>t. t_id t = ''task_30'' \<and> t_status t = TaskInProgress) (tasks (demo 6))" by code_simp
  then show ?thesis using leased_iff_in_progress [of "demo 6" "''task_30''", OF reachable_demo] by (auto simp: list_ex_iff)
qed

text \<open>C3: an executor holds at most one Task per session.\<close>

theorem one_lease_per_session:
  assumes "reachable s" "l \<in> set (leases s)" "m \<in> set (leases s)"
    "l_executor_ref l = l_executor_ref m" "l_session_ref l = l_session_ref m"
  shows "l = m"
proof -
  note c = reachableD(1) [OF assms(1)]
  have "w_leases (abs_state s) (l_task_id l) = Some (abs_lease l)" "w_leases (abs_state s) (l_task_id m) = Some (abs_lease l)"
    using row_abs(5) [OF c] assms by (simp_all add: abs_lease_def)
  then have "l_task_id l = l_task_id m"
    using reachableD(3) [OF assms(1)] unfolding w_inv_def w_owners_def by blast
  with distinct_key_unique [OF ids_okD(5) [OF reachableD(4) [OF assms(1)]] assms(2,3)] show ?thesis .
qed

theorem one_lease_per_session_witness:
  "hd (leases (demo 6)) = last (leases (demo 6))"
proof -
  have "(let ls = leases (demo 6) in 0 < length ls \<and> l_executor_ref (hd ls) = l_executor_ref (last ls)
      \<and> l_session_ref (hd ls) = l_session_ref (last ls))" by code_simp
  with one_lease_per_session [OF reachable_demo hd_in_set last_in_set] show ?thesis
    by (simp add: Let_def)
qed

section \<open>References, dependencies and closed work\<close>

text \<open>C4: references never dangle and never cross Projects: the Job of a Task, the Project of a Job and
  of an Issue, the Issue of a Job, the dependencies of a Task and the follow-up Tasks of a Job.\<close>

theorem references_resolve:
  assumes "reachable s"
  shows "(\<forall>t \<in> set (tasks s). (\<exists>j \<in> set (jobs s). j_id j = t_job_id t \<and> j_project_id j = t_project_id t)
      \<and> (\<forall>d \<in> set (t_dependencies t). \<exists>u \<in> set (tasks s). t_id u = d \<and> t_project_id u = t_project_id t))
    \<and> (\<forall>j \<in> set (jobs s). (\<exists>p \<in> set (projects s). p_id p = j_project_id j)
      \<and> (\<forall>k. j_issue_id j = Some k \<longrightarrow> (\<exists>i \<in> set (issues s). i_id i = k \<and> i_project_id i = j_project_id j))
      \<and> (\<forall>d \<in> set (j_followup_task_ids j). \<exists>t \<in> set (tasks s). t_id t = d \<and> t_job_id t = j_id j))
    \<and> (\<forall>i \<in> set (issues s). \<exists>p \<in> set (projects s). p_id p = i_project_id i)"
proof (intro conjI ballI allI impI)
  note c = reachableD(1) [OF assms]
  show "\<exists>j \<in> set (jobs s). j_id j = t_job_id t \<and> j_project_id j = t_project_id t" if "t \<in> set (tasks s)" for t
    using coherentD(2) [OF c] row_abs(1) [OF c that] row_conc(2) unfolding ref_job_def by (metis abs_job_sel(1) abs_task_sel(1,2))
  show "\<exists>u \<in> set (tasks s). t_id u = d \<and> t_project_id u = t_project_id t"
    if "t \<in> set (tasks s)" "d \<in> set (t_dependencies t)" for t d
    using coherentD(3) [OF c] row_abs(1) [OF c that(1)] that(2) row_conc(1) unfolding ref_deps_def by (metis abs_task_sel(2,5))
  show "\<exists>p \<in> set (projects s). p_id p = j_project_id j" if "j \<in> set (jobs s)" for j
    using coherentD(4) [OF c] row_abs(2) [OF c that] row_conc(4) unfolding ref_project_def by (metis abs_job_sel(1) not_Some_eq)
  show "\<exists>i \<in> set (issues s). i_id i = k \<and> i_project_id i = j_project_id j"
    if "j \<in> set (jobs s)" "j_issue_id j = Some k" for j k
    using coherentD(6) [OF c] row_abs(2) [OF c that(1)] that(2) row_conc(3) unfolding ref_issue_def
    by (metis abs_issue_sel(1) abs_job_sel(1,2))
  show "\<exists>t \<in> set (tasks s). t_id t = d \<and> t_job_id t = j_id j"
    if "j \<in> set (jobs s)" "d \<in> set (j_followup_task_ids j)" for j d
  proof -
    have "d \<in> tasks_of (abs_state s) {j_id j}"
      using coherentD(5) [OF c] row_abs(2) [OF c that(1)] that(2) unfolding ref_followups_def by fastforce
    then show ?thesis unfolding tasks_of_def using row_conc(1) by fastforce
  qed
  show "\<exists>p \<in> set (projects s). p_id p = i_project_id i" if "i \<in> set (issues s)" for i
    using coherentD(4) [OF c] row_abs(3) [OF c that] row_conc(4) unfolding ref_project_def by (metis abs_issue_sel(1) not_Some_eq)
qed

theorem references_resolve_witness:
  "\<exists>u \<in> set (tasks (demo 7)). t_id u = ''task_30'' \<and> t_project_id u = ''prj_0''"
proof -
  have "list_ex (\<lambda>t. t_project_id t = ''prj_0'' \<and> t_dependencies t = [''task_30'']) (tasks (demo 7))" by code_simp
  then obtain t where "t \<in> set (tasks (demo 7))" "t_project_id t = ''prj_0''" "t_dependencies t = [''task_30'']"
    by (auto simp: list_ex_iff)
  with references_resolve [OF reachable_demo, of 7] show ?thesis by auto
qed

text \<open>C5: the dependencies of the Tasks never form a cycle.\<close>

theorem dependencies_acyclic:
  assumes "reachable s"
  shows "acyclic (dep_edges (tasks s))"
  using reachableD(3) [OF assms] edges_eq [OF ids_okD(3) [OF reachableD(4) [OF assms]]] by (simp add: w_inv_def)

theorem dependencies_acyclic_witness:
  "acyclic (dep_edges (tasks (demo 7))) \<and> (''task_40'', ''task_30'') \<in> dep_edges (tasks (demo 7))"
proof -
  have "list_ex (\<lambda>t. t_id t = ''task_40'' \<and> t_dependencies t = [''task_30'']) (tasks (demo 7))" by code_simp
  then have "(''task_40'', ''task_30'') \<in> dep_edges (tasks (demo 7))"
    by (auto simp: list_ex_iff dep_edges_def) (metis list.set_intros(1))
  with dependencies_acyclic [OF reachable_demo] show ?thesis by blast
qed

text \<open>C6: a Task that has been started has only finished dependencies, also after later commands.\<close>

theorem started_after_dependencies:
  assumes "reachable s" "t \<in> set (tasks s)" "t_started_at t \<noteq> None" "d \<in> set (t_dependencies t)"
  shows "\<exists>u \<in> set (tasks s). t_id u = d \<and> t_status u = TaskDone"
proof -
  note c = reachableD(1) [OF assms(1)]
  from reachableD(3) [OF assms(1)] row_abs(1) [OF c assms(2)] assms(3,4)
  obtain y where "w_tasks (abs_state s) d = Some y" "wt_status y = TaskDone"
    unfolding w_inv_def w_started_def by (metis abs_task_sel(4,5))
  with row_conc(1) show ?thesis by fastforce
qed

theorem started_after_dependencies_witness:
  "\<exists>u \<in> set (tasks (run (take 13 finish_steps))). t_id u = ''task_30'' \<and> t_status u = TaskDone"
proof -
  have "list_ex (\<lambda>t. t_started_at t \<noteq> None \<and> t_dependencies t = [''task_30'']) (tasks (run (take 13 finish_steps)))"
    by code_simp
  then obtain t where "t \<in> set (tasks (run (take 13 finish_steps)))" "t_started_at t \<noteq> None" "t_dependencies t = [''task_30'']"
    by (auto simp: list_ex_iff)
  with started_after_dependencies [OF reachable_run] show ?thesis by fastforce
qed

text \<open>C7: the Tasks of a Job that is not active are closed, and those of a Job in review are done or
  cancelled.\<close>

theorem inactive_job_settled:
  assumes "reachable s" "j \<in> set (jobs s)" "t \<in> set (tasks s)" "t_job_id t = j_id j" "j_status j \<noteq> JobActive"
  shows "task_terminal (t_status t) \<and> (j_status j = JobPendingReview \<longrightarrow> t_status t \<in> {TaskDone, TaskCancelled})"
proof -
  note c = reachableD(1) [OF assms(1)]
  have "tasks_allow (abs_state s) (j_id j) (j_status j)"
    using reachableD(3) [OF assms(1)] row_abs(2) [OF c assms(2)] unfolding w_inv_def w_settled_def by fastforce
  with row_abs(1) [OF c assms(3)] assms(4,5) show ?thesis unfolding tasks_allow_def by fastforce
qed

theorem inactive_job_settled_witness:
  "\<exists>t \<in> set (tasks (run (take 4 cancel_steps))). task_terminal (t_status t)"
proof -
  have "(let s = run (take 4 cancel_steps) in list_ex (\<lambda>j. j_status j \<noteq> JobActive
      \<and> list_ex (\<lambda>t. t_job_id t = j_id j) (tasks s)) (jobs s))" by code_simp
  then show ?thesis
    using inactive_job_settled [OF reachable_run] by (auto simp: list_ex_iff Let_def)
qed

text \<open>An archived Project has only closed Jobs and closed Issues.\<close>

theorem archived_project_closed:
  assumes "reachable s" "p \<in> set (projects s)" "p_archived_at p \<noteq> None"
  shows "(\<forall>j \<in> set (jobs s). j_project_id j = p_id p \<longrightarrow> job_terminal (j_status j))
    \<and> (\<forall>i \<in> set (issues s). i_project_id i = p_id p \<longrightarrow> issue_terminal (i_status i))"
proof -
  note c = reachableD(1) [OF assms(1)]
  have "closed_project (abs_state s) (p_id p)"
    using reachableD(3) [OF assms(1)] row_abs(4) [OF c assms(2)] assms(3) unfolding w_inv_def w_archived_def by simp
  then show ?thesis
    using row_abs(2,3) [OF c] unfolding closed_project_def by (metis abs_issue_sel abs_job_sel(1,3))
qed

theorem archived_project_closed_witness:
  "\<exists>j \<in> set (jobs (run cancel_steps)). job_terminal (j_status j)"
proof -
  have "(let s = run cancel_steps in list_ex (\<lambda>p. p_archived_at p \<noteq> None
      \<and> list_ex (\<lambda>j. j_project_id j = p_id p) (jobs s)) (projects s))" by code_simp
  then show ?thesis
    using archived_project_closed [OF reachable_run] by (auto simp: list_ex_iff Let_def)
qed





text \<open>C11: the reaper always succeeds on a reachable snapshot; it drops exactly the leases that have
  expired, blocks exactly their Tasks with the reason \<open>lease expired\<close>, returns their number and changes
  nothing else.\<close>

theorem reap_expired_exact:
  assumes "reachable s"
  shows "reap_expired s now =
    Inr (length (filter (\<lambda>l. l_expires_at l \<le> now) (leases s)),
      s\<lparr>tasks := upd_where (\<lambda>t. list_ex (\<lambda>l. l_task_id l = t_id t \<and> l_expires_at l \<le> now) (leases s))
           (expire_task now) (tasks s),
        leases := filter (\<lambda>l. now < l_expires_at l) (leases s)\<rparr>)"
proof -
  let ?gone = "filter (\<lambda>l. l_expires_at l \<le> now) (leases s)"
  note d = ids_okD(5) [OF reachableD(4) [OF assms]]
  then have "distinct (map l_task_id ?gone)" by (rule distinct_map_filter)
  then have len: "length (expired s now) = length ?gone" by (simp add: expired_def distinct_remdups_id)
  have "l_task_id l \<notin> set (expired s now) \<longleftrightarrow> now < l_expires_at l" if "l \<in> set (leases s)" for l
    using distinct_key_unique [OF d that] that by (auto simp: expired_set not_le)
  then have "filter (\<lambda>l. l_task_id l \<notin> set (expired s now)) (leases s) = filter (\<lambda>l. now < l_expires_at l) (leases s)"
    by (simp cong: filter_cong)
  moreover have "upd_where (\<lambda>t. t_id t \<in> set (expired s now)) (expire_task now) (tasks s) =
      upd_where (\<lambda>t. list_ex (\<lambda>l. l_task_id l = t_id t \<and> l_expires_at l \<le> now) (leases s)) (expire_task now) (tasks s)"
    by (auto simp: upd_where_def expired_set list_ex_iff image_iff)
  ultimately show ?thesis
    unfolding reap_result [OF reachableD(1) [OF assms]] expire_all_def len by (simp only:)
qed

theorem reap_expired_exact_witness:
  "\<exists>s'. reap_expired (demo 6) 2000 = Inr (1, s') \<and> leases s' = []"
proof -
  have "(let ls = leases (demo 6) in length (filter (\<lambda>l. l_expires_at l \<le> 2000) ls) = 1
      \<and> length (filter (\<lambda>l. 2000 < l_expires_at l) ls) = 0)" by code_simp
  with reap_expired_exact [OF reachable_demo, of 6 2000] show ?thesis by (simp add: Let_def)
qed

end
