(* ===== verification/Access.thy ===== *)
theory Access
  imports Guarantees
begin

text \<open>
  Who may do what: the lease that protects a Task, the human who accepts an Issue, stale revisions, and
  the conditions under which a claim succeeds.
\<close>



section \<open>Acceptance of an Issue\<close>

lemma mem_upd_nth: "x \<in> set (upd_nth i f xs) \<Longrightarrow> x \<in> set xs \<or> (i < length xs \<and> x = f (xs ! i))"
  using set_upd_nth_subset [of i f xs] by (cases "i < length xs") (auto simp: upd_nth_def dest: set_update_subset_insert [THEN subsetD])

lemma completed_form:
  assumes "Inr (set_issue s0 i f) = (Inr s1 :: snapshot result)" "issues s0 = issues s" "i_id (f x) = i_id x"
    and "i_status (f x) = IssueCompleted \<Longrightarrow> Q"
  shows "\<exists>f. issues s1 = upd_nth i f (issues s) \<and> i_id (f x) = i_id x \<and> (i_status (f x) = IssueCompleted \<longrightarrow> Q)"
  using assms by (auto simp: set_issue_def)

lemma transition_completes:
  assumes "issue_transition e s r opts now command index original p renamed m = Inr s1" "original = issues s ! index"
  shows "\<exists>f. issues s1 = upd_nth index f (issues s) \<and> i_id (f original) = i_id original
    \<and> (i_status (f original) = IssueCompleted \<longrightarrow> i_status original = IssueCompleted
        \<or> is_ok (human opts) \<and> i_status original = IssuePendingReview \<and> terminal_jobs s (i_id original))"
  using assms(1) unfolding issue_transition_def Let_def
proof (elim if_resultE attemptE ensureE, goal_cases)
  case 1
  from 1(2) show ?case
  proof (rule issue_updateE)
    fix i0 path name title h r m kind
    assume i0: "i0 = original \<or> i_status original = IssuePendingReview
       \<and> i0 = original\<lparr>i_status := IssueActive, i_pending_review_at := None, i_review_reason := None\<rparr>"
      and s1: "s1 = set_issue s index (\<lambda>_. i0\<lparr>i_document_path := path, i_name := name, i_title := title,
       i_content_hash := h, i_review_content_hash := r, i_milestone_id := m, i_issue_type := kind\<rparr>)"
    show ?thesis by (rule completed_form [OF s1 [symmetric, THEN arg_cong [where f = Inr]]]) (use i0 in auto)
  qed
next
  case 2
  from 2(5) show ?case by (rule completed_form) simp_all
next
  case (3 u)
  from 3(7) show ?case by (rule completed_form) (use 3(4-6) in \<open>simp_all add: is_ok_iff\<close>)
next
  case (4 u reason)
  from 4(8) show ?case by (rule completed_form) simp_all
next
  case (5 u)
  from 5(8) show ?case by (rule completed_form) (simp_all add: cancel_jobs_def Let_def)
next
  case (6 u)
  from 6(9) show ?case by (rule completed_form) simp_all
next
  case (7 filename)
  from 7(11) show ?case by (rule completed_form) simp_all
qed simp

text \<open>C13: an Issue becomes \<open>COMPLETED\<close> only by the acceptance of a human, from review, and when every Job
  associated with it is closed.\<close>

theorem issue_completed_by_human:
  assumes "issue_apply e s r opts now = Inr (v, s')"
    and "x \<in> set (issues s')" "i_status x = IssueCompleted"
    and "\<not> (\<exists>y \<in> set (issues s). i_id y = i_id x \<and> i_status y = IssueCompleted)"
  shows "starts_with (actor_ref opts) ''user:''
    \<and> (\<exists>y \<in> set (issues s). i_id y = i_id x \<and> i_status y = IssuePendingReview)
    \<and> (\<forall>j \<in> set (jobs s). j_issue_id j = Some (i_id x) \<longrightarrow> job_terminal (j_status j))"
  using assms(1)
proof (cases rule: issue_applyE)
  case create
  then show ?thesis using assms(2-4) by (elim issue_createE) auto
next
  case (start q index p)
  then show ?thesis using assms(2-4) by (auto simp: activate_def set_issue_def split: if_splits dest!: mem_upd_nth)
next
  case (change q index p command renamed milestone s1)
  let ?o = "issues s ! index"
  have o: "?o \<in> set (issues s)" using issue_ix.index_bound [OF change(2)] by simp
  from transition_completes [OF change(6) refl] obtain f where f: "issues s1 = upd_nth index f (issues s)"
    "i_id (f ?o) = i_id ?o" "i_status (f ?o) = IssueCompleted \<longrightarrow> i_status ?o = IssueCompleted
        \<or> is_ok (human opts) \<and> i_status ?o = IssuePendingReview \<and> terminal_jobs s (i_id ?o)" by blast
  have "issues s' = upd_nth index (\<lambda>i. f i\<lparr>i_revision := i_revision (f i) + 1, i_updated_at := now\<rparr>) (issues s)"
    by (simp add: change(7) set_issue_def f(1))
  with assms(2) consider "x \<in> set (issues s)"
    | "x = f ?o\<lparr>i_revision := i_revision (f ?o) + 1, i_updated_at := now\<rparr>" by (auto dest!: mem_upd_nth)
  then show ?thesis
  proof cases
    case 1
    then show ?thesis using assms(3,4) by blast
  next
    case 2
    then have "i_id x = i_id ?o" "i_status (f ?o) = IssueCompleted" using f(2) assms(3) by simp_all
    with f(3) o assms(4) show ?thesis
      by (auto simp: is_ok_iff human_def ensure_eq_Inr terminal_jobs_def list_all_iff)
  qed
qed

theorem issue_completed_by_human_witness:
  "\<exists>v s' y. issue_apply (demo_env 5) (run review_steps)
      (JObject [(''command'', JString ''issue.approve''), (''issue'', JString ''issue_10'')]) default_options 5 = Inr (v, s')
    \<and> y \<in> set (issues (run review_steps)) \<and> i_status y = IssuePendingReview"
proof -
  let ?r = "JObject [(''command'', JString ''issue.approve''), (''issue'', JString ''issue_10'')]"
  have "(let s = run review_steps in case issue_apply (demo_env 5) s ?r default_options 5 of Inl _ \<Rightarrow> False
      | Inr (v, s') \<Rightarrow> list_ex (\<lambda>x. i_status x = IssueCompleted
          \<and> \<not> list_ex (\<lambda>y. i_id y = i_id x \<and> i_status y = IssueCompleted) (issues s)) (issues s'))" by code_simp
  then obtain v s' x where a: "issue_apply (demo_env 5) (run review_steps) ?r default_options 5 = Inr (v, s')"
    and x: "x \<in> set (issues s')" "i_status x = IssueCompleted"
      "\<not> (\<exists>y \<in> set (issues (run review_steps)). i_id y = i_id x \<and> i_status y = IssueCompleted)"
    by (auto simp: list_ex_iff Let_def split: sum.splits)
  from issue_completed_by_human [OF a x] a show ?thesis by blast
qed

section \<open>Revisions\<close>

lemma branch_task:
  assumes "task_branch e s i j r now command b h = Inr s1"
  shows "map t_id (tasks s1) = map t_id (tasks s) \<and> map t_revision (tasks s1) = map t_revision (tasks s)"
  using assms
proof (cases rule: task_branchE)
  case claim
  then show ?thesis by (elim claimE) (simp add: map_upd_nth)
next
  case start
  then show ?thesis by (elim start_taskE) (auto simp: map_upd_nth)
next
  case heartbeat
  then show ?thesis by (auto simp: heartbeat_task_def split: option.splits)
next
  case edit
  then show ?thesis by (elim edit_taskE) (auto simp: map_upd_nth)
next
  case depend
  then show ?thesis by (elim depend_taskE) (auto simp: map_upd_nth)
next
  case reopen
  then show ?thesis by (elim reopen_taskE) (simp add: map_upd_nth)
next
  case leave
  then show ?thesis by (elim leave_taskE) (simp add: map_upd_nth)
qed

lemma update_task_revision:
  assumes "update_task e s r opts now = Inr (v, s')" "required r ''task'' = Inr q" "task_index s q = Inr i"
  shows "map t_id (tasks s') = map t_id (tasks s) \<and> t_revision (tasks s' ! i) = t_revision (tasks s ! i) + 1"
  using assms(1)
proof (rule update_taskE, goal_cases)
  case (1 q' i' j p command h b)
  have i: "i' = i" and l: "i < length (tasks s)" using 1(1,2) assms(2,3) task_ix.index_bound by auto
  from 1(14) show ?case unfolding i
  proof (elim disjE conjE exE)
    assume "register_plan e s i r now = Inr (v, s')"
    then show ?thesis using l by (auto simp: register_plan_def Let_def result_simps map_upd_nth)
  next
    fix s1 completion
    assume b: "task_branch e s i j r now command b h = Inr s1"
      and f: "finish_task s1 i j (tasks s ! i) completion (job_ready s (t_job_id (tasks s ! i))) now = Inr (v, s')"
    have len: "length (tasks s1) = length (tasks s)" using branch_task [OF b] by (metis length_map)
    then have rev: "t_revision (tasks s1 ! i) = t_revision (tasks s ! i)"
      using branch_task [OF b] l by (metis nth_map)
    from f show ?thesis
      by (rule finish_taskE) (use branch_task [OF b] l len rev in \<open>simp add: aggregate_job_def Let_def map_upd_nth\<close>)
  qed
qed

text \<open>C14: two writers who read the same revision of a Task cannot both succeed.\<close>

theorem no_lost_update:
  assumes "required r ''task'' = Inr q" "required r' ''task'' = Inr q"
    and "expected_revision opts = Some n" "expected_revision opts' = Some n"
    and "update_task e s r opts now = Inr (v, s1)"
  shows "\<exists>err. update_task e' s1 r' opts' now' = Inl err"
proof (cases "update_task e' s1 r' opts' now'")
  case (Inr result)
  obtain v' s2 where second: "update_task e' s1 r' opts' now' = Inr (v', s2)" using Inr by (cases result) simp
  obtain i where i: "task_index s q = Inr i" "expected_revision opts = Some (t_revision (tasks s ! i))"
    using assms(5) by (rule update_taskE) (use assms(1,3) in auto)
  obtain k where k: "task_index s1 q = Inr k" "expected_revision opts' = Some (t_revision (tasks s1 ! k))"
    using second by (rule update_taskE) (use assms(2,4) in auto)
  note one = update_task_revision [OF assms(5,1) i(1)]
  have "map (\<lambda>v. (t_id v, t_id v)) ts = map (\<lambda>x. (x, x)) (map t_id ts)" for ts by simp
  then have "map (\<lambda>v. (t_id v, t_id v)) (tasks s1) = map (\<lambda>v. (t_id v, t_id v)) (tasks s)"
    using one by metis
  then have "k = i" using i(1) k(1) by (simp add: task_index_def)
  with one i(2) k(2) assms(3,4) show ?thesis by simp
qed simp

theorem no_lost_update_witness:
  "\<exists>v s1 err. update_task (demo_env 9) (demo 4)
      (JObject [(''command'', JString ''task.update''), (''task'', JString ''task_30''), (''title'', JString ''A'')])
      (default_options\<lparr>expected_revision := Some 1\<rparr>) 9 = Inr (v, s1)
    \<and> update_task (demo_env 9) s1
      (JObject [(''command'', JString ''task.update''), (''task'', JString ''task_30''), (''title'', JString ''B'')])
      (default_options\<lparr>expected_revision := Some 1\<rparr>) 10 = Inl err"
proof -
  let ?r = "\<lambda>t. JObject [(''command'', JString ''task.update''), (''task'', JString ''task_30''), (''title'', JString t)]"
  let ?o = "default_options\<lparr>expected_revision := Some 1\<rparr>"
  have r: "required (?r t) ''task'' = Inr ''task_30''" for t
    by (simp add: required_def get_field_def is_blank_def chars_ascii byte_def is_whitespace_def)
  have "is_ok (update_task (demo_env 9) (demo 4) (?r ''A'') ?o 9)" by code_simp
  then obtain v s1 where first: "update_task (demo_env 9) (demo 4) (?r ''A'') ?o 9 = Inr (v, s1)"
    by (auto simp: is_ok_iff)
  show ?thesis
    using first no_lost_update [OF r r _ _ first, of 1 ?o] by simp
qed

end
