(* ===== verification/Laws.thy ===== *)
theory Laws
  imports Access
begin

text \<open>
  Laws of the pure parts of the engine: resolution of identifiers, sequence numbers and names, the UTF-8
  view of strings, the dependency search, the host wrappers of a conversation, and deletion.
\<close>

section \<open>Identifiers\<close>

lemma filter_upt_single: "i < n \<Longrightarrow> filter (\<lambda>k. k = i) [0..<n] = [i]"
  by (induction n) (auto simp: less_Suc_eq)

text \<open>What \<open>resolve\<close> returns: the first row whose identifier is the query if there is one, and
  otherwise the only row that the query abbreviates or names; an empty, unknown or ambiguous query is an
  error.\<close>

theorem resolve_spec:
  "resolve items q = Inr i \<longleftrightarrow> q \<noteq> [] \<and> i < length items \<and>
     (if q \<in> fst ` set items then fst (items ! i) = q \<and> (\<forall>k < i. fst (items ! k) \<noteq> q)
      else (\<forall>k < length items. (starts_with (fst (items ! k)) q \<or> snd (items ! k) = q) = (k = i)))"
proof (cases "q \<in> fst ` set items")
  case True
  then have "position (\<lambda>(ident, _). ident = q) items \<noteq> None" unfolding position_None by force
  then obtain k where k: "position (\<lambda>(ident, _). ident = q) items = Some k" by blast
  then have "resolve items q = Inr i \<longleftrightarrow> q \<noteq> [] \<and> i = k" by (auto simp: resolve_def)
  moreover have "k < length items \<and> fst (items ! k) = q \<and> (\<forall>m < k. fst (items ! m) \<noteq> q)"
    using k by (simp add: position_Some case_prod_beta)
  ultimately show ?thesis using True by (auto intro: nat_neq_iff [THEN iffD1, THEN disjE])
next
  case False
  let ?p = "\<lambda>i. starts_with (fst (items ! i)) q \<or> snd (items ! i) = q"
  have "position (\<lambda>(ident, _). ident = q) items = None"
    using False by (force simp: position_None)
  then have "resolve items q = Inr i \<longleftrightarrow> q \<noteq> [] \<and> filter ?p [0..<length items] = [i]"
    by (auto simp: resolve_def split: list.splits)
  also have "filter ?p [0..<length items] = [i] \<longleftrightarrow> i < length items \<and> (\<forall>k < length items. ?p k = (k = i))"
  proof
    assume f: "filter ?p [0..<length items] = [i]"
    then have "set (filter ?p [0..<length items]) = {i}" by simp
    then show "i < length items \<and> (\<forall>k < length items. ?p k = (k = i))" by auto
  next
    assume a: "i < length items \<and> (\<forall>k < length items. ?p k = (k = i))"
    then have "filter ?p [0..<length items] = filter (\<lambda>k. k = i) [0..<length items]"
      by (intro filter_cong) auto
    also have "\<dots> = [i]" using a by (simp add: filter_upt_single)
    finally show "filter ?p [0..<length items] = [i]" .
  qed
  finally show ?thesis using False by auto
qed

theorem resolve_spec_witness:
  "resolve [(''task_1'', ''a''), (''task_22'', ''b'')] ''task_2'' = Inr 1"
  by (simp add: resolve_spec starts_with_def less_Suc_eq)

section \<open>Numbers and names\<close>

text \<open>A new document gets a number above every number of its day, within 64 bits; when the day's
  numbers are exhausted the command fails.\<close>

theorem next_sequence_fresh:
  "(case next_sequence now existing of
      Inr n \<Rightarrow> 0 < n \<and> n \<le> u64_max \<and> (\<forall>(c, k) \<in> set existing. day_of c = day_of now \<longrightarrow> k < n)
    | Inl e \<Rightarrow> \<exists>(c, k) \<in> set existing. day_of c = day_of now \<and> u64_max \<le> k)"
proof (cases "next_sequence now existing")
  case (Inr n)
  with next_sequence_Inr [OF Inr] show ?thesis by auto
next
  case (Inl e)
  let ?ks = "map snd (filter (\<lambda>(c, _). day_of c = day_of now) existing)"
  have "u64_max \<le> foldr max ?ks 0"
    using Inl by (auto simp: next_sequence_def checked_succ_def of_option_def split: if_splits)
  moreover have "foldr max ks 0 \<in> insert 0 (set ks)" for ks :: "nat list"
    by (induction ks) (auto simp: max_def)
  moreover have "0 < u64_max" by (simp add: u64_max_def)
  ultimately have "\<exists>k \<in> set ?ks. u64_max \<le> k" by (metis insertE leD)
  with Inl show ?thesis by fastforce
qed

theorem next_sequence_fresh_witness:
  "next_sequence 100 [(50, 7), (90000, 9)] = Inr 8 \<and> (7 :: nat) < 8"
proof -
  have n: "next_sequence 100 [(50, 7), (90000, 9)] = Inr 8" by code_simp
  with next_sequence_fresh [of "[(50, 7), (90000, 9)]" 100] show ?thesis by (simp add: day_of_def)
qed

text \<open>C17: the name chosen for a new entity differs, also in lower case, from every name in use; the
  search ends within one more round than there are names.\<close>

theorem unique_name_unused:
  assumes "suffix_kept e (short_name title)"
  shows "to_lowercase e (unique_name e title existing) \<notin> to_lowercase e ` set existing"
  by (rule unique_name_lower_unused [OF assms])

theorem unique_name_unused_witness:
  "unique_name (demo_env 0) ''Work'' [''Work'', ''Work-2''] \<notin> {''Work'', ''Work-2''}"
proof -
  have low: "to_lowercase (demo_env 0) = (\<lambda>s. s)" by (simp add: demo_env_def)
  then have "suffix_kept (demo_env 0) (short_name ''Work'')" by (simp add: suffix_kept_def)
  from unique_name_unused [OF this, of "[''Work'', ''Work-2'']"] show ?thesis by (simp add: low)
qed

text \<open>A short name is not empty, has at most 50 characters and no character that a file system
  reserves.\<close>

theorem short_name_portable:
  "short_name_chars cs \<noteq> [] \<and> length (short_name_chars cs) \<le> 50
   \<and> (\<forall>c \<in> set (short_name_chars cs). portable_char c)"
  by (rule short_name_chars_shape)

theorem short_name_portable_witness:
  "portable_char (hd (short_name_chars (chars ''/a:b'')))"
  using short_name_portable [of "chars ''/a:b''"] hd_in_set by blast

section \<open>Strings\<close>

text \<open>Encoding code points in UTF-8 and reading them back is the identity.\<close>

theorem utf8_round_trip: "chars (of_chars (map (\<lambda>n. n mod 1114112) cs)) = map (\<lambda>n. n mod 1114112) cs"
  by (rule chars_of_chars) (simp add: list_all_iff)

section \<open>The dependency search\<close>

text \<open>The depth-first search of \<open>depends_on\<close> decides reachability in the dependency graph, on graphs
  with cycles too.\<close>

theorem depends_on_reachability:
  assumes "distinct (map t_id (tasks s))"
  shows "depends_on s source target \<longleftrightarrow> (source, target) \<in> (dep_edges (tasks s))\<^sup>+"
  by (rule depends_on_iff_trancl [OF assms])

theorem depends_on_reachability_witness:
  "(''task_40'', ''task_30'') \<in> (dep_edges (tasks (demo 7)))\<^sup>+ \<and> (''task_30'', ''task_40'') \<notin> (dep_edges (tasks (demo 7)))\<^sup>+"
proof -
  have "(let s = demo 7 in depends_on s ''task_40'' ''task_30'' \<and> \<not> depends_on s ''task_30'' ''task_40'')" by code_simp
  with depends_on_reachability [OF ids_okD(3) [OF reachableD(4) [OF reachable_demo]]] show ?thesis
    by (simp add: Let_def)
qed

section \<open>Host wrappers\<close>

lemma suffix_trans_append: "(\<exists>p. s = p @ t) \<Longrightarrow> (\<exists>p. t = p @ u) \<Longrightarrow> \<exists>p. s = p @ u"
  by (metis append.assoc)

lemma split_once_suffix: "split_once p s = Some (a, b) \<Longrightarrow> \<exists>q. s = q @ b"
  by (metis append.assoc split_once_Some)

lemma wrapper_block_suffix: "wrapper_block raw = Some block \<Longrightarrow> \<exists>p. raw = p @ block"
proof (cases "split_once [CHR 0x0A] raw")
  case None
  assume "wrapper_block raw = Some block"
  with None show ?thesis by (simp add: wrapper_block_def)
next
  case (Some x)
  assume w: "wrapper_block raw = Some block"
  obtain h rest where x: "x = (h, rest)" by (cases x)
  with w Some have "block = raw \<or> block = trim_start rest"
    by (auto simp: wrapper_block_def Let_def split: if_splits)
  then show ?thesis
    using suffix_trans_append [OF split_once_suffix [OF Some [unfolded x]] trim_start_suffix] by auto
qed

lemma strip_wrapper_suffix:
  assumes "strip_wrapper raw = Some t"
  shows "\<exists>p. raw = p @ t"
proof -
  obtain block where block: "wrapper_block (trim_start raw) = Some block"
    using assms by (auto simp: strip_wrapper_def Let_def split: option.splits)
  obtain tag where "find (\<lambda>tag. starts_with block (open_tag tag)) wrapper_tags = Some tag"
    using assms block by (auto simp: strip_wrapper_def Let_def split: option.splits)
  with assms block obtain a rest where r: "split_once (close_tag tag) block = Some (a, rest)" "t = trim_start rest"
    by (auto simp: strip_wrapper_def Let_def split: if_splits)
  have "\<exists>p. raw = p @ block"
    by (rule suffix_trans_append [OF trim_start_suffix wrapper_block_suffix [OF block]])
  then have "\<exists>p. raw = p @ rest" by (rule suffix_trans_append) (rule split_once_suffix [OF r(1)])
  then show ?thesis unfolding r(2) by (rule suffix_trans_append) (rule trim_start_suffix)
qed

text \<open>\<open>user_text\<close> returns a suffix of the message with no complete wrapper left at its front, and a
  second pass changes nothing.\<close>

theorem user_text_stripped:
  "strip_wrapper (user_text raw) = None \<and> (\<exists>p. raw = p @ user_text raw) \<and> user_text (user_text raw) = user_text raw"
proof -
  have "strip_wrapper (user_text raw) = None \<and> (\<exists>p. raw = p @ user_text raw)"
  proof (induction raw rule: user_text.induct)
    case (1 raw)
    show ?case
    proof (cases "strip_wrapper raw")
      case (Some t)
      with 1 suffix_trans_append [OF strip_wrapper_suffix [OF Some]] show ?thesis
        by (simp add: user_text.simps [of raw])
    qed (simp add: user_text.simps [of raw])
  qed
  then show ?thesis by (simp add: user_text.simps [of "user_text raw"])
qed

section \<open>Deletion\<close>

lemma lookup_retain:
  "lookup_or 0 (retain_number k n seqs) k' = (if k' = k then max (lookup_or 0 seqs k) n else lookup_or 0 seqs k')"
  by (simp add: retain_number_def lookup_or_def update_conv')

lemma retain_fold_mono:
  "lookup_or 0 seqs k \<le> lookup_or 0 (fold (\<lambda>x. retain_number (key x) (num x)) xs seqs) k"
proof (induction xs arbitrary: seqs)
  case (Cons x xs)
  have "lookup_or 0 seqs k \<le> lookup_or 0 (retain_number (key x) (num x) seqs) k" by (simp add: lookup_retain)
  also note Cons.IH
  finally show ?case by simp
qed simp

lemma retain_fold_member:
  "x \<in> set xs \<Longrightarrow> num x \<le> lookup_or 0 (fold (\<lambda>x. retain_number (key x) (num x)) xs seqs) (key x)"
proof (induction xs arbitrary: seqs)
  case (Cons y xs)
  show ?case
  proof (cases "x \<in> set xs")
    case False
    with Cons.prems have "num x \<le> lookup_or 0 (retain_number (key x) (num x) seqs) (key x)" by (simp add: lookup_retain)
    also note retain_fold_mono
    finally show ?thesis using False Cons.prems by simp
  qed (simp add: Cons.IH)
qed simp

lemma sequence_key_day: "day_of a = day_of b \<Longrightarrow> sequence_key p kind a = sequence_key p kind b"
  by (simp add: sequence_key_def)

text \<open>Deleting a Job removes it with its Tasks and Plans and nothing else, is refused while one of
  the Tasks is leased or needed by another Job, and never frees a document number: a Job or Task created
  on the same day gets a greater number than the deleted ones.\<close>

theorem job_deletion:
  assumes "deletion_apply s r opts = Inr (v, s')" "required r ''command'' = Inr ''job.delete''"
    and "required r ''job'' = Inr q" "job_index s q = Inr i"
  shows "let j = jobs s ! i; work = t_id ` {t \<in> set (tasks s). t_job_id t = j_id j} in
    jobs s' = filter (\<lambda>x. j_id x \<noteq> j_id j) (jobs s)
    \<and> tasks s' = filter (\<lambda>t. t_id t \<notin> work) (tasks s)
    \<and> plans s' = filter (\<lambda>p. pl_task_id p \<notin> work) (plans s)
    \<and> issues s' = issues s \<and> milestones s' = milestones s \<and> projects s' = projects s \<and> leases s' = leases s
    \<and> (\<forall>l \<in> set (leases s). l_task_id l \<notin> work)
    \<and> (\<forall>t \<in> set (tasks s'). set (t_dependencies t) \<inter> work = {})
    \<and> (\<forall>now n. day_of now = day_of (j_created_at j) \<and> next_sequence now (job_numbers s' (j_project_id j) now) = Inr n
         \<longrightarrow> j_sequence j < n)"
proof -
  let ?j = "jobs s ! i" and ?key = "\<lambda>j. sequence_key (j_project_id j) ''job'' (j_created_at j)"
  let ?tkey = "\<lambda>t. sequence_key (t_project_id t) ''task'' (t_created_at t)"
  let ?work = "t_id ` {t \<in> set (tasks s). t_job_id t = j_id ?j}"
  let ?seqs = "fold (\<lambda>t. retain_number (?tkey t) (t_sequence t)) (filter (\<lambda>t. t_id t \<in> ?work) (tasks s))
        (fold (\<lambda>j. retain_number (?key j) (j_sequence j)) (filter (\<lambda>j. j_id j = j_id ?j) (jobs s)) (document_sequences s))"
  have head: "(if ''job.delete'' = ''project.delete'' then a else b) = b" for a b :: "'x" by simp
  from assms(1) have free: "\<not> list_ex (\<lambda>l. l_task_id l \<in> ?work) (leases s)"
    and used: "\<not> list_ex (\<lambda>t. t_id t \<notin> ?work \<and> list_ex (\<lambda>d. d \<in> ?work) (t_dependencies t)) (tasks s)"
    and s': "s' = s\<lparr>document_sequences := ?seqs, plans := filter (\<lambda>p. pl_task_id p \<notin> ?work) (plans s),
      tasks := filter (\<lambda>t. t_id t \<notin> ?work) (tasks s), jobs := filter (\<lambda>x. j_id x \<noteq> j_id ?j) (jobs s)\<rparr>"
    unfolding deletion_apply_def assms(2-4) attempt_Inr Let_def head split
    by (elim attemptE ensureE; simp only: set_map set_filter set_simps sum.inject prod.inject singleton_iff)+
  have eqs: "jobs s' = filter (\<lambda>x. j_id x \<noteq> j_id ?j) (jobs s)" "tasks s' = filter (\<lambda>t. t_id t \<notin> ?work) (tasks s)"
    "plans s' = filter (\<lambda>p. pl_task_id p \<notin> ?work) (plans s)"
    "issues s' = issues s" "milestones s' = milestones s" "projects s' = projects s" "leases s' = leases s"
    "document_sequences s' = ?seqs"
    by (simp_all add: s')
  have refs: "\<forall>l \<in> set (leases s). l_task_id l \<notin> ?work"
    "\<forall>t \<in> set (tasks s). t_id t \<notin> ?work \<longrightarrow> set (t_dependencies t) \<inter> ?work = {}"
    using free used by (simp only: list_ex_iff; blast)+
  have "?j \<in> set (filter (\<lambda>j. j_id j = j_id ?j) (jobs s))"
    using job_ix.index_bound [OF assms(4)] by simp
  then have "j_sequence ?j \<le> lookup_or 0 (fold (\<lambda>j. retain_number (?key j) (j_sequence j))
      (filter (\<lambda>j. j_id j = j_id ?j) (jobs s)) (document_sequences s)) (?key ?j)"
    by (rule retain_fold_member)
  also note retain_fold_mono
  finally have kept: "j_sequence ?j \<le> lookup_or 0 (document_sequences s') (?key ?j)" by (simp add: eqs(8))
  have "j_sequence ?j < n" if "day_of now = day_of (j_created_at ?j)"
    "next_sequence now (job_numbers s' (j_project_id ?j) now) = Inr n" for now n
  proof -
    have "lookup_or 0 (document_sequences s') (?key ?j) < n"
      using next_sequence_Inr [OF that(2)] sequence_key_day [OF that(1)] by (simp add: job_numbers_def)
    with kept show ?thesis by simp
  qed
  with eqs(1-7) refs show ?thesis by (simp add: Let_def) blast
qed

theorem job_deletion_witness:
  "\<exists>v s'. deletion_apply (demo 5) (JObject [(''command'', JString ''job.delete''), (''job'', JString ''job_20'')]) default_options
     = Inr (v, s') \<and> jobs s' = filter (\<lambda>x. j_id x \<noteq> ''job_20'') (jobs (demo 5))"
proof -
  let ?r = "JObject [(''command'', JString ''job.delete''), (''job'', JString ''job_20'')]"
  have r: "required ?r ''command'' = Inr ''job.delete''" "required ?r ''job'' = Inr ''job_20''" by code_simp+
  have "(let s = demo 5 in is_ok (deletion_apply s ?r default_options)
      \<and> (case job_index s ''job_20'' of Inl _ \<Rightarrow> False | Inr i \<Rightarrow> j_id (jobs s ! i) = ''job_20''))" by code_simp
  then obtain v s' i where d: "deletion_apply (demo 5) ?r default_options = Inr (v, s')"
      "job_index (demo 5) ''job_20'' = Inr i" "j_id (jobs (demo 5) ! i) = ''job_20''"
    by (auto simp: is_ok_iff Let_def split: sum.splits)
  from job_deletion [OF d(1) r d(2)] d show ?thesis by (simp add: Let_def)
qed

end
