(* ===== verification/Events.thy ===== *)
theory Events
  imports Mutations
begin

text \<open>
  The audit trail: the records of \<open>task_events\<close> (\<open>TaskEvent\<close> of \<open>model.rs\<close>), the bounded summaries that
  they carry (\<open>event_payload.rs\<close>) and the lookups of a state difference (\<open>state_index.rs\<close>).
\<close>

section \<open>Summaries\<close>

definition set_field :: "string \<Rightarrow> json \<Rightarrow> (string \<times> json) list \<Rightarrow> (string \<times> json) list" where
  "set_field k v obj = AList.update k v obj"

definition clip :: "string \<Rightarrow> string" where
  "clip s = take (boundary_below s (min (length s) 4096)) s"

definition payload_kind :: "(string \<times> json) list \<Rightarrow> string" where
  "payload_kind obj =
     (case map_of obj ''id'' of
        Some (JString s) \<Rightarrow>
          (let prefix = takeWhile (\<lambda>c. c \<noteq> CHR ''_'') s
           in if prefix = ''prj'' then ''project''
              else if prefix = ''job'' then ''job''
              else if prefix = ''task'' then ''task''
              else if prefix = ''issue'' then ''issue''
              else if prefix = ''milestone'' then ''milestone''
              else ''unknown'')
      | _ \<Rightarrow> ''unknown'')"

definition payload_keys :: "string list" where
  "payload_keys =
     [''id'', ''title'', ''name'', ''status'', ''phase'', ''reason'', ''review_reason'', ''deleted'', ''archived_at'',
      ''completed_at'', ''cancelled_at'', ''pending_review_at'', ''issue_id'', ''milestone_id'']"

definition copy_field ::
  "(string \<times> json) list \<Rightarrow> string \<Rightarrow> (string \<times> json) list \<times> string list \<Rightarrow> (string \<times> json) list \<times> string list" where
  "copy_field obj key acc =
     (let (result, truncated) = acc in
      case map_of obj key of
        None \<Rightarrow> acc
      | Some (JString text) \<Rightarrow>
          (set_field key (JString (clip text)) result,
           if length (clip text) < length text then truncated @ [key] else truncated)
      | Some (JArray _) \<Rightarrow> (set_field ''unsupported_payload'' (JBool True) result, truncated)
      | Some (JObject _) \<Rightarrow> (set_field ''unsupported_payload'' (JBool True) result, truncated)
      | Some value \<Rightarrow> (set_field key value result, truncated))"

definition keep_marker :: "(string \<times> json) list \<Rightarrow> string \<Rightarrow> (string \<times> json) list \<Rightarrow> (string \<times> json) list" where
  "keep_marker obj key result =
     (if map_of result key \<noteq> None then result
      else case map_of obj key of
        None \<Rightarrow> result
      | Some value \<Rightarrow>
          if key = ''unsupported_payload'' then set_field key (JBool (value = JBool True)) result
          else (case value of
                  JArray vs \<Rightarrow>
                    set_field key (JArray (map JString
                      (take 12 (filter (\<lambda>s. length s \<le> 32) (List.map_filter as_str vs))))) result
                | _ \<Rightarrow> result))"

definition compact_payload :: "json \<Rightarrow> json" where
  "compact_payload payload =
     (case payload of
        JObject obj \<Rightarrow>
          (let start = set_field ''entity_type'' (JString (payload_kind obj)) [(''schema_version'', JInt 1)];
               (copied, truncated) = fold (copy_field obj) payload_keys (start, []);
               marked = (if truncated \<noteq> [] then set_field ''truncated_fields'' (JArray (map JString truncated)) copied
                         else copied)
           in JObject (keep_marker obj ''truncated_fields'' (keep_marker obj ''unsupported_payload'' marked)))
      | _ \<Rightarrow> JObject [(''schema_version'', JInt 1), (''unsupported_payload'', JBool True)])"

definition opt_str :: "string option \<Rightarrow> json" where
  "opt_str x = (case x of None \<Rightarrow> JNull | Some s \<Rightarrow> JString s)"

definition opt_int :: "int option \<Rightarrow> json" where
  "opt_int x = (case x of None \<Rightarrow> JNull | Some n \<Rightarrow> JInt n)"

definition project_payload :: "project \<Rightarrow> json" where
  "project_payload p =
     compact_payload (JObject [(''id'', JString (p_id p)), (''name'', JString (p_name p)), (''archived_at'', opt_int (p_archived_at p))])"

definition job_payload :: "job \<Rightarrow> json" where
  "job_payload j =
     compact_payload (JObject
       [(''id'', JString (j_id j)), (''title'', JString (j_title j)), (''name'', JString (j_name j)),
        (''status'', JString (job_status_text (j_status j))), (''review_reason'', opt_str (j_review_reason j)),
        (''archived_at'', opt_int (j_archived_at j)), (''completed_at'', opt_int (j_completed_at j)),
        (''cancelled_at'', opt_int (j_cancelled_at j)), (''pending_review_at'', opt_int (j_pending_review_at j)),
        (''issue_id'', opt_str (j_issue_id j))])"

definition task_payload :: "task \<Rightarrow> json" where
  "task_payload t =
     compact_payload (JObject
       [(''id'', JString (t_id t)), (''title'', JString (t_title t)), (''name'', JString (t_name t)),
        (''status'', JString (task_status_text (t_status t))),
        (''phase'', opt_str (map_option task_phase_text (t_phase t))), (''reason'', opt_str (t_reason t)),
        (''completed_at'', opt_int (t_completed_at t))])"

section \<open>Events\<close>

record task_event =
  ev_event_id :: string
  ev_project_id :: "string option"
  ev_job_id :: "string option"
  ev_task_id :: "string option"
  ev_actor_ref :: string
  ev_session_ref :: "string option"
  ev_delegated_by :: "string option"
  ev_event_type :: string
  ev_revision :: int
  ev_occurred_at :: int
  ev_payload :: json

definition event :: "string \<Rightarrow> string \<Rightarrow> write_options \<Rightarrow> int \<Rightarrow> task_event" where
  "event ident command opts now =
     \<lparr>ev_event_id = ident, ev_project_id = None, ev_job_id = None, ev_task_id = None,
      ev_actor_ref = actor_ref opts, ev_session_ref = session_ref opts, ev_delegated_by = delegated_by opts,
      ev_event_type = command, ev_revision = 0, ev_occurred_at = now, ev_payload = JNull\<rparr>"

section \<open>Lookups of a state difference\<close>

text \<open>\<open>by_id\<close> keeps the first row of an identifier.\<close>

definition by_id :: "('a \<Rightarrow> string) \<Rightarrow> 'a list \<Rightarrow> string \<rightharpoonup> 'a" where
  "by_id key items = fold (\<lambda>item m. if m (key item) = None then m(key item \<mapsto> item) else m) items Map.empty"

definition recent_session_tasks :: "snapshot \<Rightarrow> string \<rightharpoonup> task" where
  "recent_session_tasks s =
     fold (\<lambda>t m. if t_last_session t = None then m
          else (case m (t_job_id t) of
                  None \<Rightarrow> m(t_job_id t \<mapsto> t)
                | Some current \<Rightarrow> if t_updated_at current \<le> t_updated_at t then m(t_job_id t \<mapsto> t) else m))
       (tasks s) Map.empty"

section \<open>Facts\<close>

lemma clip_length: "length (clip s) \<le> 4096"
  using boundary_below_le [of s "min (length s) 4096"] by (simp add: clip_def)

lemma clip_short: "length s \<le> 4096 \<Longrightarrow> clip s = s"
  by (simp add: clip_def min_absorb1 boundary_below_id is_char_boundary_def)

lemma clip_clip [simp]: "clip (clip s) = clip s"
  by (rule clip_short [OF clip_length])

lemma clip_longer: "length (clip s) < length s \<Longrightarrow> clip s \<noteq> s"
  by auto

lemma map_of_set_field [simp]: "map_of (set_field k v fs) k' = (if k' = k then Some v else map_of fs k')"
  by (simp add: set_field_def update_conv')

text \<open>What a field of the payload contributes.\<close>

definition kept :: "json \<Rightarrow> json option" where
  "kept v = (case v of JString t \<Rightarrow> Some (JString (clip t)) | JArray _ \<Rightarrow> None | JObject _ \<Rightarrow> None | _ \<Rightarrow> Some v)"

definition nested :: "json \<Rightarrow> bool" where
  "nested v = (case v of JArray _ \<Rightarrow> True | JObject _ \<Rightarrow> True | _ \<Rightarrow> False)"

definition clipped :: "(string \<times> json) list \<Rightarrow> string \<Rightarrow> bool" where
  "clipped fs k = (case map_of fs k of Some (JString t) \<Rightarrow> length (clip t) < length t | _ \<Rightarrow> False)"

lemma kept_kept: "kept v = Some w \<Longrightarrow> kept w = Some w \<and> \<not> nested w \<and> (\<forall>t. w = JString t \<longrightarrow> length t \<le> 4096)"
  by (auto simp: kept_def nested_def clip_length split: json.splits)

lemma copy_field_cases:
  "copy_field fs key (result, truncated) =
     ((case map_of fs key of
         None \<Rightarrow> result
       | Some v \<Rightarrow> if nested v then set_field ''unsupported_payload'' (JBool True) result
                   else set_field key (the (kept v)) result),
      truncated @ filter (clipped fs) [key])"
  by (auto simp: copy_field_def nested_def kept_def clipped_def split: option.splits json.splits)

lemma copy_truncated:
  "snd (fold (copy_field fs) keys (result, truncated)) = truncated @ filter (clipped fs) keys"
  by (induction keys arbitrary: result truncated) (simp_all add: copy_field_cases)

lemma copy_fields:
  assumes "distinct keys" "''unsupported_payload'' \<notin> set keys"
  shows "map_of (fst (fold (copy_field fs) keys (result, truncated))) k =
      (if k \<in> set keys \<and> Option.bind (map_of fs k) kept \<noteq> None then Option.bind (map_of fs k) kept
       else if k = ''unsupported_payload'' \<and> (\<exists>k' \<in> set keys. \<exists>v. map_of fs k' = Some v \<and> nested v) then Some (JBool True)
       else map_of result k)"
  using assms
proof (induction keys arbitrary: result truncated)
  case (Cons key keys)
  have one: "Option.bind (map_of fs key) kept = (case map_of fs key of None \<Rightarrow> None | Some v \<Rightarrow> if nested v then None else Some (the (kept v)))"
    by (auto simp: kept_def nested_def split: option.splits json.splits)
  obtain r t where rt: "copy_field fs key (result, truncated) = (r, t)" by force
  have r: "map_of r k = (if k = ''unsupported_payload'' \<and> (\<exists>v. map_of fs key = Some v \<and> nested v) then Some (JBool True)
      else if k = key \<and> Option.bind (map_of fs key) kept \<noteq> None then Option.bind (map_of fs key) kept else map_of result k)"
    using rt Cons.prems unfolding copy_field_cases one by (auto split: option.splits if_splits)
  have "map_of (fst (fold (copy_field fs) (key # keys) (result, truncated))) k =
      (if k \<in> set keys \<and> Option.bind (map_of fs k) kept \<noteq> None then Option.bind (map_of fs k) kept
       else if k = ''unsupported_payload'' \<and> (\<exists>k' \<in> set keys. \<exists>v. map_of fs k' = Some v \<and> nested v) then Some (JBool True)
       else map_of r k)"
    using Cons.IH [of r t] Cons.prems by (simp add: rt)
  moreover define u where "u = ''unsupported_payload''"
  ultimately show ?case using Cons.prems unfolding r u_def [symmetric] by (cases "k = key"; cases "k = u") auto
qed simp

lemma payload_keys_distinct: "distinct payload_keys" "''unsupported_payload'' \<notin> set payload_keys"
  "''truncated_fields'' \<notin> set payload_keys" "''entity_type'' \<notin> set payload_keys" "''schema_version'' \<notin> set payload_keys"
  "''id'' \<in> set payload_keys"
  by (simp_all add: payload_keys_def)

text \<open>The fields of a summary.\<close>

definition marker_list :: "json option \<Rightarrow> json option" where
  "marker_list v = (case v of
     Some (JArray vs) \<Rightarrow> Some (JArray (map JString (take 12 (filter (\<lambda>s. length s \<le> 32) (List.map_filter as_str vs)))))
   | _ \<Rightarrow> None)"

definition summary_field :: "(string \<times> json) list \<Rightarrow> string \<Rightarrow> json option" where
  "summary_field fs k =
     (if k = ''schema_version'' then Some (JInt 1)
      else if k = ''entity_type'' then Some (JString (payload_kind fs))
      else if k = ''unsupported_payload'' then
        (if \<exists>k' \<in> set payload_keys. \<exists>v. map_of fs k' = Some v \<and> nested v then Some (JBool True)
         else map_option (\<lambda>v. JBool (v = JBool True)) (map_of fs k))
      else if k = ''truncated_fields'' then
        (if filter (clipped fs) payload_keys \<noteq> [] then Some (JArray (map JString (filter (clipped fs) payload_keys)))
         else marker_list (map_of fs k))
      else if k \<in> set payload_keys then Option.bind (map_of fs k) kept else None)"

lemma keep_marker_field:
  "map_of (keep_marker fs key result) k =
     (if k = key \<and> map_of result key = None
      then (if key = ''unsupported_payload'' then map_option (\<lambda>v. JBool (v = JBool True)) (map_of fs key)
            else marker_list (map_of fs key))
      else map_of result k)"
  by (auto simp: keep_marker_def marker_list_def split: option.splits json.splits)

lemma compact_payload_field: "get_field (compact_payload (JObject fs)) k = summary_field fs k"
proof -
  let ?start = "set_field ''entity_type'' (JString (payload_kind fs)) [(''schema_version'', JInt 1)]"
  let ?copied = "fst (fold (copy_field fs) payload_keys (?start, []))"
  let ?t = "filter (clipped fs) payload_keys"
  let ?marked = "if ?t \<noteq> [] then set_field ''truncated_fields'' (JArray (map JString ?t)) ?copied else ?copied"
  have split: "fold (copy_field fs) payload_keys (?start, []) = (?copied, ?t)"
    using copy_truncated [of fs payload_keys ?start "[]"] by (simp add: prod_eq_iff)
  have eq: "compact_payload (JObject fs)
      = JObject (keep_marker fs ''truncated_fields'' (keep_marker fs ''unsupported_payload'' ?marked))"
    unfolding compact_payload_def json.case Let_def by (subst split) (simp only: case_prod_conv)
  have c: "map_of ?copied k = (if k \<in> set payload_keys \<and> Option.bind (map_of fs k) kept \<noteq> None then Option.bind (map_of fs k) kept
       else if k = ''unsupported_payload'' \<and> (\<exists>k' \<in> set payload_keys. \<exists>v. map_of fs k' = Some v \<and> nested v) then Some (JBool True)
       else map_of ?start k)" for k
    by (rule copy_fields [OF payload_keys_distinct(1,2)])
  define u e v t where names: "u = ''unsupported_payload''" "e = ''entity_type''" "v = ''schema_version''" "t = ''truncated_fields''"
  have ne: "u \<noteq> e" "u \<noteq> v" "u \<noteq> t" "e \<noteq> v" "e \<noteq> t" "v \<noteq> t" by (simp_all add: names)
  have keys: "u \<notin> set payload_keys" "e \<notin> set payload_keys" "v \<notin> set payload_keys" "t \<notin> set payload_keys"
    using payload_keys_distinct by (simp_all add: names)
  have marked: "map_of ?marked k = (if k = t \<and> ?t \<noteq> [] then Some (JArray (map JString ?t)) else map_of ?copied k)" for k
    by (simp add: names)
  have start: "map_of ?start k = (if k = e then Some (JString (payload_kind fs)) else if k = v then Some (JInt 1) else None)" for k
    by (simp add: names)
  consider "k = u" | "k = e" | "k = v" | "k = t" | "k \<notin> {u, e, v, t}" by blast
  then show ?thesis
    unfolding eq get_field_def json.case keep_marker_field summary_field_def marked c start
    unfolding names(1-4) [symmetric] using keys ne by cases auto
qed

section \<open>Laws of the summaries\<close>

lemma kept_bind: "Option.bind (Option.bind v kept) kept = Option.bind v kept"
  using kept_kept by (auto simp: bind_eq_None_conv split: bind_splits)

lemma not_clipped: "\<not> length (clip s) < length s \<Longrightarrow> clip s = s"
  by (simp add: clip_def not_less min_def split: if_splits)

lemma payload_kind_kept:
  assumes "map_of gs ''id'' = Option.bind (map_of fs ''id'') kept" "\<not> clipped fs ''id''"
  shows "payload_kind gs = payload_kind fs"
proof (cases "map_of fs ''id''")
  case (Some v)
  then show ?thesis
    using assms by (cases v) (simp_all add: payload_kind_def kept_def clipped_def not_clipped)
qed (use assms(1) in \<open>simp add: payload_kind_def\<close>)

lemma map_filter_JString: "List.map_filter as_str (map JString ts) = ts"
  by (simp add: map_filter_def comp_def as_str_def)

lemma marker_list_twice: "marker_list (marker_list v) = marker_list v"
proof -
  have "filter P (take n (filter P xs)) = take n (filter P xs)" for P n and xs :: "string list"
    by (auto simp: filter_id_conv dest: in_set_takeD)
  then show ?thesis by (auto simp: marker_list_def map_filter_JString split: option.splits json.splits)
qed

lemma marker_list_keys:
  assumes "set ts \<subseteq> set payload_keys" "length ts \<le> 12"
  shows "marker_list (Some (JArray (map JString ts))) = Some (JArray (map JString ts))"
proof -
  have "filter (\<lambda>s. length s \<le> 32) ts = ts"
    using assms(1) by (auto simp: filter_id_conv payload_keys_def)
  then show ?thesis using assms(2) by (simp add: marker_list_def map_filter_JString)
qed

lemma summary_idempotent:
  assumes "length (filter (clipped fs) payload_keys) \<le> 12" "\<not> clipped fs ''id''" "\<And>k. map_of gs k = summary_field fs k"
  shows "summary_field gs k = summary_field fs k"
proof -
  define u e v t where names: "u = ''unsupported_payload''" "e = ''entity_type''" "v = ''schema_version''" "t = ''truncated_fields''"
  have ne: "u \<noteq> e" "u \<noteq> v" "u \<noteq> t" "e \<noteq> v" "e \<noteq> t" "v \<noteq> t" by (simp_all add: names)
  have keys: "u \<notin> set payload_keys" "e \<notin> set payload_keys" "v \<notin> set payload_keys" "t \<notin> set payload_keys"
    using payload_keys_distinct by (simp_all add: names)
  have key: "map_of gs k = Option.bind (map_of fs k) kept" if "k \<in> set payload_keys" for k
    using that keys by (auto simp: assms(3) summary_field_def names)
  have no_nested: "\<not> (\<exists>k \<in> set payload_keys. \<exists>v. map_of gs k = Some v \<and> nested v)"
    using kept_kept by (auto simp: key bind_eq_Some_conv)
  have no_clip: "\<not> clipped gs k" if "k \<in> set payload_keys" for k
    using kept_kept clip_short
    by (fastforce simp: clipped_def key [OF that] split: option.splits json.splits bind_splits)
  then have none: "filter (clipped gs) payload_keys = []" by (simp add: filter_empty_conv)
  have kind: "payload_kind gs = payload_kind fs"
    by (rule payload_kind_kept [OF key [OF payload_keys_distinct(6)] assms(2)])
  have u: "map_of gs u = (if \<exists>k' \<in> set payload_keys. \<exists>v. map_of fs k' = Some v \<and> nested v then Some (JBool True)
      else map_option (\<lambda>v. JBool (v = JBool True)) (map_of fs u))"
    using ne unfolding assms(3) summary_field_def names(1-4) [symmetric] by simp
  have t: "map_of gs t = (if filter (clipped fs) payload_keys \<noteq> [] then Some (JArray (map JString (filter (clipped fs) payload_keys)))
      else marker_list (map_of fs t))"
    using ne unfolding assms(3) summary_field_def names(1-4) [symmetric] by simp
  consider "k = u" | "k = e" | "k = v" | "k = t" | "k \<notin> {u, e, v, t}" by blast
  then show ?thesis
  proof cases
    case 1
    then show ?thesis using ne no_nested u unfolding summary_field_def names(1-4) [symmetric]
      by (auto simp: option.map_comp comp_def)
  next
    case 4
    then show ?thesis
      using ne none t marker_list_twice marker_list_keys [of "filter (clipped fs) payload_keys"] assms(1)
      unfolding summary_field_def names(1-4) [symmetric] by auto
  next
    case 5
    then show ?thesis using key kept_bind unfolding summary_field_def names(1-4) [symmetric] by simp
  qed (use ne kind in \<open>simp_all add: summary_field_def names\<close>)
qed

end
