(* ===== verification/Database.thy ===== *)
theory Database
  imports Events
begin

text \<open>
  The SQLite database of the store and the code that writes a state difference into it
  (\<open>persist\<close>, \<open>load\<close> and their helpers of \<open>store.rs\<close>, \<open>issue_store.rs\<close>, the persistence half of
  \<open>deletion.rs\<close>). A table is the list of its rows with their primary keys, in the order of their row
  identifiers; a row holds the entity that the code serialises. Constraint violations of the schema roll
  the transaction back and are not modelled.
\<close>

type_synonym 'a table = "(string \<times> 'a) list"

record cleanup =
  cl_id :: string
  cl_files :: "string list"
  cl_candidates :: "(string \<times> string list) list"
  cl_directories :: "string list"

record db =
  db_projects :: "project table"
  db_lookup :: "(string \<times> string) table"
  db_jobs :: "job table"
  db_tasks :: "task table"
  db_plans :: "plan table"
  db_leases :: "lease table"
  db_issues :: "issue table"
  db_milestones :: "milestone table"
  db_legacy_issues :: "string list"
  db_dependencies :: "(string \<times> string) list"
  db_events :: "task_event list"
  db_sequences :: "(string \<times> nat) list"
  db_deletions :: "cleanup table"
  db_registry :: "string table"
  db_pending :: "string table"
  db_projection :: "string table"
  db_turns :: "((string \<times> string) \<times> string option) list"

section \<open>Statements\<close>

text \<open>\<open>INSERT ... ON CONFLICT(id) DO UPDATE\<close> keeps the row of an existing key in its place.\<close>

definition upsert :: "string \<Rightarrow> 'a \<Rightarrow> 'a table \<Rightarrow> 'a table" where
  "upsert ident data rows = AList.update ident data rows"

definition delete_row :: "string \<Rightarrow> 'a table \<Rightarrow> 'a table" where
  "delete_row ident rows = filter (\<lambda>(k, _). k \<noteq> ident) rows"

definition read_entities :: "'a table \<Rightarrow> 'a list" where
  "read_entities rows = map snd rows"

definition load :: "db \<Rightarrow> snapshot" where
  "load d =
     \<lparr>query_ctx = default_context, issues = read_entities (db_issues d), milestones = read_entities (db_milestones d),
      document_sequences = db_sequences d, projects = read_entities (db_projects d), jobs = read_entities (db_jobs d),
      tasks = read_entities (db_tasks d), plans = read_entities (db_plans d), leases = read_entities (db_leases d)\<rparr>"

definition append_event :: "task_event \<Rightarrow> db \<Rightarrow> db" where
  "append_event ev d = d\<lparr>db_events := db_events d @ [ev\<lparr>ev_payload := compact_payload (ev_payload ev)\<rparr>]\<rparr>"

definition event_for :: "env \<Rightarrow> db \<Rightarrow> string \<Rightarrow> write_options \<Rightarrow> int \<Rightarrow> task_event" where
  "event_for e d command opts now = event (new_id e ''evt'' (length (db_events d))) command opts now"

definition or_else :: "'a option \<Rightarrow> 'a option \<Rightarrow> 'a option" where
  "or_else a b = (case a of None \<Rightarrow> b | Some x \<Rightarrow> Some x)"

definition lower_ascii :: "string \<Rightarrow> string" where
  "lower_ascii s = map (\<lambda>c. if 65 \<le> byte c \<and> byte c \<le> 90 then char_of (byte c + 32) else c) s"

section \<open>Issues and milestones\<close>

fun milestone_status_text :: "milestone_status \<Rightarrow> string" where
  "milestone_status_text MilestonePlanned = ''PLANNED''"
| "milestone_status_text MilestoneActive = ''ACTIVE''"
| "milestone_status_text MilestoneCompleted = ''COMPLETED''"
| "milestone_status_text MilestoneCancelled = ''CANCELLED''"

definition persist_milestone ::
  "env \<Rightarrow> (string \<rightharpoonup> milestone) \<Rightarrow> string \<Rightarrow> write_options \<Rightarrow> int \<Rightarrow> milestone \<Rightarrow> db \<Rightarrow> db" where
  "persist_milestone e old command opts now m d =
     (if old (m_id m) = Some m then d
      else append_event ((event_for e d command opts now)
             \<lparr>ev_project_id := Some (m_project_id m), ev_revision := m_revision m,
              ev_payload := compact_payload (JObject [(''id'', JString (m_id m)), (''title'', JString (m_title m)),
                (''status'', JString (milestone_status_text (m_status m)))])\<rparr>)
           (d\<lparr>db_milestones := upsert (m_id m) m (db_milestones d)\<rparr>))"

definition persist_issue ::
  "env \<Rightarrow> (string \<rightharpoonup> issue) \<Rightarrow> string \<Rightarrow> write_options \<Rightarrow> int \<Rightarrow> db \<Rightarrow> issue \<Rightarrow> db result" where
  "persist_issue e old command opts now d i =
     (if old (i_id i) = Some i then Inr d
      else ensure (i_id i \<notin> set (db_legacy_issues d))
        (Conflict ''synchronize Issue documents to migrate legacy content before writing'')
        (let kind = (case old (i_id i) of
                       Some previous \<Rightarrow>
                         if i_status previous \<noteq> i_status i
                         then ''issue.'' @ lower_ascii (issue_status_text (i_status i)) else command
                     | None \<Rightarrow> command)
         in Inr (append_event ((event_for e d kind opts now)
              \<lparr>ev_project_id := Some (i_project_id i), ev_revision := i_revision i,
               ev_payload := compact_payload (JObject [(''id'', JString (i_id i)), (''title'', JString (i_title i)),
                 (''status'', JString (issue_status_text (i_status i))), (''milestone_id'', opt_str (i_milestone_id i))])\<rparr>)
            (d\<lparr>db_issues := upsert (i_id i) i (db_issues d)\<rparr>))))"

text \<open>A removed issue or milestone: its row, its event and the cleanup of its note.\<close>

definition removed_note ::
  "env \<Rightarrow> string \<Rightarrow> write_options \<Rightarrow> int \<Rightarrow> string \<Rightarrow> string \<Rightarrow> int \<Rightarrow> string \<Rightarrow> db \<Rightarrow> db" where
  "removed_note e command opts now ident project revision path d =
     (let d1 = append_event ((event_for e d command opts now)
            \<lparr>ev_project_id := Some project, ev_revision := revision + 1,
             ev_payload := compact_payload (JObject [(''id'', JString ident), (''deleted'', JBool True)])\<rparr>) d;
          c = \<lparr>cl_id = new_id e ''cleanup'' (length (db_deletions d1)), cl_files = [],
               cl_candidates = [(path, [ident])], cl_directories = []\<rparr>
      in d1\<lparr>db_deletions := db_deletions d1 @ [(cl_id c, c)]\<rparr>)"

definition remove_issue :: "env \<Rightarrow> string \<Rightarrow> write_options \<Rightarrow> int \<Rightarrow> issue \<Rightarrow> db \<Rightarrow> db" where
  "remove_issue e command opts now i d =
     removed_note e command opts now (i_id i) (i_project_id i) (i_revision i) (i_document_path i)
       (d\<lparr>db_issues := delete_row (i_id i) (db_issues d)\<rparr>)"

definition remove_milestone :: "env \<Rightarrow> string \<Rightarrow> write_options \<Rightarrow> int \<Rightarrow> milestone \<Rightarrow> db \<Rightarrow> db" where
  "remove_milestone e command opts now m d =
     removed_note e command opts now (m_id m) (m_project_id m) (m_revision m) (m_document_path m)
       (d\<lparr>db_milestones := delete_row (m_id m) (db_milestones d)\<rparr>)"

definition issue_store_persist ::
  "env \<Rightarrow> snapshot \<Rightarrow> snapshot \<Rightarrow> string \<Rightarrow> write_options \<Rightarrow> int \<Rightarrow> db \<Rightarrow> db result" where
  "issue_store_persist e old new command opts now d =
     (let d1 = fold (persist_milestone e (by_id m_id (milestones old)) command opts now) (milestones new) d in
      attempt (fold_result (persist_issue e (by_id i_id (issues old)) command opts now) d1 (issues new)) (\<lambda>d2.
      let d3 = fold (remove_issue e command opts now) (filter (\<lambda>i. by_id i_id (issues new) (i_id i) = None) (issues old)) d2;
          d4 = fold (remove_milestone e command opts now) (filter (\<lambda>m. by_id m_id (milestones new) (m_id m) = None) (milestones old)) d3
      in Inr d4))"

section \<open>Projects, Jobs, Tasks, Plans and leases\<close>

text \<open>
  \<open>project_lookup::canonical_root\<close> consults the home directory and the file system; it is the parameter
  \<open>canonical_root\<close>.
\<close>

definition persist_project ::
  "env \<Rightarrow> (string \<Rightarrow> string result) \<Rightarrow> (string \<rightharpoonup> project) \<Rightarrow> string \<Rightarrow> write_options \<Rightarrow> int \<Rightarrow> db \<Rightarrow> project \<Rightarrow> db result" where
  "persist_project e canonical_root old command opts now d p =
     (if old (p_id p) = Some p then Inr d
      else
        let d1 = d\<lparr>db_projects := upsert (p_id p) p (db_projects d)\<rparr> in
        attempt
          (if (case old (p_id p) of None \<Rightarrow> True | Some q \<Rightarrow> p_root q \<noteq> p_root p \<or> p_key q \<noteq> p_key p)
           then attempt (canonical_root (p_root p)) (\<lambda>root.
                  Inr (d1\<lparr>db_lookup := upsert (p_id p) (root, to_lowercase e (p_key p)) (db_lookup d1)\<rparr>))
           else Inr d1) (\<lambda>d2.
        Inr (append_event ((event_for e d2 command opts now)
               \<lparr>ev_project_id := Some (p_id p), ev_revision := p_revision p, ev_payload := project_payload p\<rparr>) d2)))"

definition job_event_type :: "job option \<Rightarrow> job \<Rightarrow> string \<Rightarrow> string" where
  "job_event_type previous j command =
     (if (case previous of None \<Rightarrow> False | Some q \<Rightarrow> j_status q \<noteq> j_status j)
      then (case j_status j of
              JobCompleted \<Rightarrow> ''job.completed''
            | JobPendingReview \<Rightarrow> ''job.pending_review''
            | JobCancelled \<Rightarrow> ''job.cancelled''
            | JobActive \<Rightarrow> if command = ''job.reject'' then ''job.rejected'' else command)
      else command)"

definition persist_job ::
  "env \<Rightarrow> (string \<rightharpoonup> job) \<Rightarrow> (string \<rightharpoonup> task) \<Rightarrow> string \<Rightarrow> write_options \<Rightarrow> int \<Rightarrow> job \<Rightarrow> db \<Rightarrow> db" where
  "persist_job e old recent command opts now j d =
     (if old (j_id j) = Some j then d
      else append_event ((event_for e d (job_event_type (old (j_id j)) j command) opts now)
             \<lparr>ev_project_id := Some (j_project_id j), ev_job_id := Some (j_id j), ev_revision := j_revision j,
              ev_session_ref := or_else (session_ref opts) (Option.bind (recent (j_id j)) t_last_session),
              ev_payload := job_payload j\<rparr>)
           (d\<lparr>db_jobs := upsert (j_id j) j (db_jobs d)\<rparr>))"

definition task_event_type :: "task option \<Rightarrow> task \<Rightarrow> string \<Rightarrow> string" where
  "task_event_type previous t command =
     (if (case previous of None \<Rightarrow> False | Some q \<Rightarrow> t_status q \<noteq> t_status t)
      then ''task.'' @ lower_ascii (task_status_text (t_status t)) else command)"

definition persist_task ::
  "env \<Rightarrow> (string \<rightharpoonup> task) \<Rightarrow> string \<Rightarrow> write_options \<Rightarrow> int \<Rightarrow> task \<Rightarrow> db \<Rightarrow> db" where
  "persist_task e old command opts now t d =
     (if old (t_id t) = Some t then d
      else append_event ((event_for e d (task_event_type (old (t_id t)) t command) opts now)
             \<lparr>ev_project_id := Some (t_project_id t), ev_job_id := Some (t_job_id t), ev_task_id := Some (t_id t),
              ev_revision := t_revision t, ev_session_ref := or_else (session_ref opts) (t_last_session t),
              ev_delegated_by := or_else (t_delegated_by t) (delegated_by opts), ev_payload := task_payload t\<rparr>)
           (d\<lparr>db_tasks := upsert (t_id t) t (db_tasks d)\<rparr>))"

definition persist_plans :: "snapshot \<Rightarrow> snapshot \<Rightarrow> db \<Rightarrow> db" where
  "persist_plans old new d =
     d\<lparr>db_plans := fold (\<lambda>p rows. if by_id pl_id (plans old) (pl_id p) = Some p then rows else upsert (pl_id p) p rows)
        (plans new) (db_plans d)\<rparr>"

definition persist_leases :: "snapshot \<Rightarrow> snapshot \<Rightarrow> db \<Rightarrow> db" where
  "persist_leases old new d =
     (let kept = fold (\<lambda>l rows. if by_id l_task_id (leases new) (l_task_id l) = None
                         then delete_row (l_task_id l) rows else rows) (leases old) (db_leases d)
      in d\<lparr>db_leases := fold (\<lambda>l rows. if by_id l_task_id (leases old) (l_task_id l) = Some l then rows
                                else upsert (l_task_id l) l rows) (leases new) kept\<rparr>)"

definition persist_dependencies :: "snapshot \<Rightarrow> snapshot \<Rightarrow> db \<Rightarrow> db" where
  "persist_dependencies old new d =
     d\<lparr>db_dependencies := fold (\<lambda>t edges.
        if (case by_id t_id (tasks old) (t_id t) of None \<Rightarrow> False | Some q \<Rightarrow> t_dependencies q = t_dependencies t) then edges
        else filter (\<lambda>(k, _). k \<noteq> t_id t) edges @ map (\<lambda>x. (t_id t, x)) (t_dependencies t))
      (tasks new) (db_dependencies d)\<rparr>"

section \<open>Deleted work\<close>

definition check_pending_paths :: "db \<Rightarrow> snapshot \<Rightarrow> snapshot \<Rightarrow> unit result" where
  "check_pending_paths d old new =
     (if length (projects new) \<le> length (projects old) then Inr ()
      else ensure (list_all (\<lambda>(_, pending).
              list_all (\<lambda>p. document_directory p \<notin> set (cl_directories pending))
                (filter (\<lambda>p. \<not> list_ex (\<lambda>q. p_id q = p_id p) (projects old)) (projects new))) (db_deletions d))
        (Conflict ''project directory cleanup is pending; run sync before registering this name'') (Inr ()))"

definition add_file :: "string table \<Rightarrow> string \<Rightarrow> cleanup \<Rightarrow> cleanup" where
  "add_file previous key c =
     (case map_of previous key of None \<Rightarrow> c | Some path \<Rightarrow> c\<lparr>cl_files := List.insert path (cl_files c)\<rparr>)"

definition add_candidate :: "string \<Rightarrow> string list \<Rightarrow> cleanup \<Rightarrow> cleanup" where
  "add_candidate path ids c =
     c\<lparr>cl_candidates := AList.update path (fold List.insert ids (lookup_or [] (cl_candidates c) path)) (cl_candidates c)\<rparr>"

definition registry_keys :: "snapshot \<Rightarrow> string list" where
  "registry_keys s =
     map (\<lambda>j. ''job:'' @ j_id j) (jobs s) @ map (\<lambda>t. ''task:'' @ t_id t) (tasks s)
     @ map (\<lambda>p. ''plan:'' @ pl_id p) (plans s)
     @ concat (map (\<lambda>p. map (\<lambda>kind. kind @ '':'' @ p_id p) [''meta'', ''board'', ''tasks'', ''sync'']) (projects s))"

definition drop_plan :: "string table \<Rightarrow> plan \<Rightarrow> db \<times> cleanup \<Rightarrow> db \<times> cleanup" where
  "drop_plan previous p acc =
     (let (d, c) = acc in
      (d\<lparr>db_plans := delete_row (pl_id p) (db_plans d)\<rparr>,
       add_file previous (''plan:'' @ pl_id p) (add_candidate (pl_path p) [pl_id p, pl_task_id p] c)))"

definition drop_task_note ::
  "env \<Rightarrow> (string \<rightharpoonup> project) \<Rightarrow> string table \<Rightarrow> db \<times> cleanup \<Rightarrow> task \<Rightarrow> (db \<times> cleanup) result" where
  "drop_task_note e old previous acc t =
     (let (d, c) = acc in
      attempt (of_option (Failed ''missing task project'') (old (t_project_id t))) (\<lambda>p.
      attempt (task_path_in e p t) (\<lambda>path.
      Inr (d\<lparr>db_dependencies := filter (\<lambda>(a, b). a \<noteq> t_id t \<and> b \<noteq> t_id t) (db_dependencies d)\<rparr>,
           add_file previous (''task:'' @ t_id t) (add_candidate path [t_id t] c)))))"

definition drop_task :: "env \<Rightarrow> write_options \<Rightarrow> int \<Rightarrow> task \<Rightarrow> db \<Rightarrow> db" where
  "drop_task e opts now t d =
     append_event ((event_for e d ''task.deleted'' opts now)
       \<lparr>ev_project_id := Some (t_project_id t), ev_job_id := Some (t_job_id t), ev_task_id := Some (t_id t),
        ev_revision := t_revision t + 1, ev_payload := JObject [(''id'', JString (t_id t)), (''deleted'', JBool True)]\<rparr>)
     (d\<lparr>db_tasks := delete_row (t_id t) (db_tasks d)\<rparr>)"

definition drop_job :: "env \<Rightarrow> string table \<Rightarrow> write_options \<Rightarrow> int \<Rightarrow> job \<Rightarrow> db \<times> cleanup \<Rightarrow> db \<times> cleanup" where
  "drop_job e previous opts now j acc =
     (let (d, c) = acc;
          d1 = d\<lparr>db_turns := filter (\<lambda>(_, job). job \<noteq> Some (j_id j)) (db_turns d),
                 db_jobs := delete_row (j_id j) (db_jobs d),
                 db_projection := delete_row (''goal:'' @ j_id j) (db_projection d)\<rparr>
      in (append_event ((event_for e d1 ''job.deleted'' opts now)
            \<lparr>ev_project_id := Some (j_project_id j), ev_job_id := Some (j_id j), ev_revision := j_revision j + 1,
             ev_payload := JObject [(''id'', JString (j_id j)), (''deleted'', JBool True)]\<rparr>) d1,
          add_file previous (''job:'' @ j_id j) (add_candidate (j_document_path j) [j_id j] c)))"

definition drop_project ::
  "env \<Rightarrow> string table \<Rightarrow> string \<Rightarrow> write_options \<Rightarrow> int \<Rightarrow> project \<Rightarrow> db \<times> cleanup \<Rightarrow> db \<times> cleanup" where
  "drop_project e previous command opts now p acc =
     (let (d, c) = acc;
          parents = List.map_filter (\<lambda>kind. Option.bind (map_of previous (kind @ '':'' @ p_id p))
              (\<lambda>path. map_option fst (rsplit_once (CHR ''/'') path))) [''meta'', ''board'', ''tasks'', ''sync''];
          d1 = d\<lparr>db_projects := delete_row (p_id p) (db_projects d)\<rparr>
      in (append_event ((event_for e d1 command opts now)
            \<lparr>ev_project_id := Some (p_id p), ev_revision := p_revision p + 1,
             ev_payload := JObject [(''id'', JString (p_id p)), (''deleted'', JBool True)]\<rparr>) d1,
          c\<lparr>cl_directories := fold List.insert parents (List.insert (document_directory p) (cl_directories c))\<rparr>))"

definition deletion_persist ::
  "env \<Rightarrow> snapshot \<Rightarrow> snapshot \<Rightarrow> string \<Rightarrow> write_options \<Rightarrow> int \<Rightarrow> db \<Rightarrow> db result" where
  "deletion_persist e old new command opts now d =
     (let gone_jobs = filter (\<lambda>j. by_id j_id (jobs new) (j_id j) = None) (jobs old);
          gone_projects = filter (\<lambda>p. by_id p_id (projects new) (p_id p) = None) (projects old);
          gone_tasks = filter (\<lambda>t. by_id t_id (tasks new) (t_id t) = None) (tasks old);
          gone_plans = filter (\<lambda>p. by_id pl_id (plans new) (pl_id p) = None) (plans old) in
      if gone_jobs = [] \<and> gone_projects = [] then Inr d
      else
        let previous = filter (\<lambda>(k, _). k \<in> set (registry_keys old)) (db_registry d);
            start = \<lparr>cl_id = new_id e ''cleanup'' (length (db_deletions d)), cl_files = [], cl_candidates = [], cl_directories = []\<rparr>;
            acc1 = fold (drop_plan previous) gone_plans (d, start) in
        attempt (fold_result (drop_task_note e (by_id p_id (projects old)) previous) acc1 gone_tasks) (\<lambda>(d2, c2).
        let d3 = fold (drop_task e opts now) gone_tasks d2;
            acc4 = fold (drop_job e previous opts now) gone_jobs (d3, c2);
            (d5, c5) = fold (drop_project e previous command opts now) gone_projects acc4
        in Inr (d5\<lparr>db_deletions := db_deletions d5 @ [(cl_id c5, c5)]\<rparr>)))"

section \<open>Pending documents\<close>

definition project_keys :: "db \<Rightarrow> snapshot \<Rightarrow> project \<Rightarrow> string list" where
  "project_keys d new p =
     [''board:'' @ p_id p, ''issue-base:'' @ p_id p, ''milestone-base:'' @ p_id p]
     @ map (\<lambda>i. ''issue:'' @ i_id i) (filter (\<lambda>i. i_project_id i = p_id p) (issues new))
     @ map (\<lambda>m. ''milestone:'' @ m_id m) (filter (\<lambda>m. m_project_id m = p_id p) (milestones new))
     @ map (\<lambda>j. ''job:'' @ j_id j) (filter (\<lambda>j. j_project_id j = p_id p) (jobs new))
     @ map (\<lambda>(k, _). ''task:'' @ k) (filter (\<lambda>(_, t). t_project_id t = p_id p) (db_tasks d))"

text \<open>The Tasks of a Job whose note moved: their notes link to it.\<close>

definition moved_job_tasks :: "db \<Rightarrow> job option \<Rightarrow> job \<Rightarrow> string list" where
  "moved_job_tasks d previous j =
     (case previous of
        None \<Rightarrow> []
      | Some q \<Rightarrow>
          if j_document_path q \<noteq> j_document_path j \<or> j_archived_at q \<noteq> j_archived_at j \<or> j_name q \<noteq> j_name j
          then map fst (filter (\<lambda>(_, t). t_job_id t = j_id j) (db_tasks d)) else [])"

definition issue_keys :: "db \<Rightarrow> issue option \<Rightarrow> issue \<Rightarrow> string list" where
  "issue_keys d previous i =
     [''issue:'' @ i_id i]
     @ (case previous of
          None \<Rightarrow> []
        | Some q \<Rightarrow>
            if i_name q \<noteq> i_name i \<or> i_document_path q \<noteq> i_document_path i
            then map (\<lambda>(k, _). ''job:'' @ k) (filter (\<lambda>(_, j). j_issue_id j = Some (i_id i)) (db_jobs d)) else [])
     @ [''board:'' @ i_project_id i, ''issue-base:'' @ i_project_id i]
     @ (case i_milestone_id i of None \<Rightarrow> [] | Some m \<Rightarrow> [''milestone:'' @ m])
     @ (case Option.bind previous i_milestone_id of None \<Rightarrow> [] | Some m \<Rightarrow> [''milestone:'' @ m])"

definition milestone_keys :: "snapshot \<Rightarrow> milestone option \<Rightarrow> milestone \<Rightarrow> string list" where
  "milestone_keys new previous m =
     [''milestone:'' @ m_id m]
     @ (case previous of
          None \<Rightarrow> []
        | Some q \<Rightarrow>
            if m_name q \<noteq> m_name m \<or> m_document_path q \<noteq> m_document_path m
            then map (\<lambda>i. ''issue:'' @ i_id i) (filter (\<lambda>i. i_milestone_id i = Some (m_id m)) (issues new)) else [])
     @ [''milestone-base:'' @ m_project_id m, ''board:'' @ m_project_id m]"

definition removed_project_keys :: "snapshot \<Rightarrow> project \<Rightarrow> string list" where
  "removed_project_keys old p =
     [''board:'' @ p_id p, ''issue-base:'' @ p_id p, ''milestone-base:'' @ p_id p]
     @ map (\<lambda>i. ''issue:'' @ i_id i) (filter (\<lambda>i. i_project_id i = p_id p) (issues old))
     @ map (\<lambda>m. ''milestone:'' @ m_id m) (filter (\<lambda>m. m_project_id m = p_id p) (milestones old))"

text \<open>In the source the old rows are collected into a map, where a later row replaces an earlier one.\<close>

definition last_by_id :: "('a \<Rightarrow> string) \<Rightarrow> 'a list \<Rightarrow> string \<rightharpoonup> 'a" where
  "last_by_id key items = fold (\<lambda>x m. m(key x \<mapsto> x)) items Map.empty"

definition changed_keys :: "db \<Rightarrow> snapshot \<Rightarrow> snapshot \<Rightarrow> string list" where
  "changed_keys d old new =
     (let ps = filter (\<lambda>p. last_by_id p_id (projects old) (p_id p) \<noteq> Some p) (projects new);
          js = filter (\<lambda>j. last_by_id j_id (jobs old) (j_id j) \<noteq> Some j) (jobs new);
          ts = filter (\<lambda>t. last_by_id t_id (tasks old) (t_id t) \<noteq> Some t) (tasks new);
          moved = concat (map (\<lambda>j. moved_job_tasks d (last_by_id j_id (jobs old) (j_id j)) j) js);
          dependents = moved @ map t_id ts;
          related = map (\<lambda>(a, _). a) (filter (\<lambda>(_, b). b \<in> set dependents) (db_dependencies d))
      in concat (map (project_keys d new) ps)
         @ concat (map (\<lambda>j. [''job:'' @ j_id j, ''board:'' @ j_project_id j]) js)
         @ map (\<lambda>t. ''task:'' @ t) moved
         @ concat (map (\<lambda>t. [''task:'' @ t_id t, ''job:'' @ t_job_id t, ''board:'' @ t_project_id t]) ts)
         @ map (\<lambda>(_, t). ''job:'' @ t_job_id t) (filter (\<lambda>(k, _). k \<in> set related) (db_tasks d))
         @ concat (map (\<lambda>i. issue_keys d (last_by_id i_id (issues old) (i_id i)) i)
             (filter (\<lambda>i. last_by_id i_id (issues old) (i_id i) \<noteq> Some i) (issues new)))
         @ concat (map (\<lambda>m. milestone_keys new (last_by_id m_id (milestones old) (m_id m)) m)
             (filter (\<lambda>m. last_by_id m_id (milestones old) (m_id m) \<noteq> Some m) (milestones new))))"

definition removed_keys :: "snapshot \<Rightarrow> snapshot \<Rightarrow> string list" where
  "removed_keys old new =
     map (\<lambda>m. ''milestone:'' @ m_id m) (filter (\<lambda>m. m_id m \<notin> m_id ` set (milestones new)) (milestones old))
     @ concat (map (\<lambda>j. [''job:'' @ j_id j, ''board:'' @ j_project_id j]) (filter (\<lambda>j. j_id j \<notin> j_id ` set (jobs new)) (jobs old)))
     @ concat (map (\<lambda>t. (''task:'' @ t_id t) # (case t_current_plan t of None \<Rightarrow> [] | Some p \<Rightarrow> [''plan:'' @ p]))
         (filter (\<lambda>t. t_id t \<notin> t_id ` set (tasks new)) (tasks old)))
     @ concat (map (removed_project_keys old) (filter (\<lambda>p. p_id p \<notin> p_id ` set (projects new)) (projects old)))"

definition enqueue_changes :: "env \<Rightarrow> snapshot \<Rightarrow> snapshot \<Rightarrow> db \<Rightarrow> db" where
  "enqueue_changes e old new d =
     (let keys = changed_keys d old new @ removed_keys old new;
          all = remdups (if keys = [] then [] else keys @ [''dashboard''])
      in d\<lparr>db_pending := fold (\<lambda>(k, n) rows. upsert k (new_id e ''publication'' n) rows) (zip all [0..<length all]) (db_pending d)\<rparr>)"

section \<open>The transaction\<close>

definition persist_end :: "env \<Rightarrow> snapshot \<Rightarrow> snapshot \<Rightarrow> db \<Rightarrow> db result" where
  "persist_end e old new d =
     (let d1 = enqueue_changes e old new d
      in Inr (if document_sequences old \<noteq> document_sequences new
              then d1\<lparr>db_sequences := document_sequences new\<rparr> else d1))"

definition persist_work :: "env \<Rightarrow> snapshot \<Rightarrow> snapshot \<Rightarrow> string \<Rightarrow> write_options \<Rightarrow> int \<Rightarrow> db \<Rightarrow> db result" where
  "persist_work e old new command opts now d =
     (let d1 = fold (persist_job e (by_id j_id (jobs old)) (recent_session_tasks new) command opts now) (jobs new) d;
          d2 = fold (persist_task e (by_id t_id (tasks old)) command opts now) (tasks new) d1;
          d3 = persist_dependencies old new (persist_leases old new (persist_plans old new d2))
      in attempt (deletion_persist e old new command opts now d3) (persist_end e old new))"

definition persist_projects ::
  "env \<Rightarrow> (string \<Rightarrow> string result) \<Rightarrow> snapshot \<Rightarrow> snapshot \<Rightarrow> string \<Rightarrow> write_options \<Rightarrow> int \<Rightarrow> db \<Rightarrow> db result" where
  "persist_projects e canonical_root old new command opts now d =
     fold_result (persist_project e canonical_root (by_id p_id (projects old)) command opts now) d (projects new)"

definition persist ::
  "env \<Rightarrow> (string \<Rightarrow> string result) \<Rightarrow> snapshot \<Rightarrow> snapshot \<Rightarrow> string \<Rightarrow> write_options \<Rightarrow> int \<Rightarrow> db \<Rightarrow> db result" where
  "persist e canonical_root old new command opts now d =
     attempt (attempt (issue_store_persist e old new command opts now d) (persist_projects e canonical_root old new command opts now))
       (persist_work e old new command opts now)"

end
