(* ===== verification/Persistence.thy ===== *)
theory Persistence
  imports Database
begin

text \<open>
  Correctness of the state difference that \<open>persist\<close> writes: every table ends up with the rows of the new
  snapshot, the rows that left the snapshot are gone, and every row outside the scope is untouched; the
  audit trail only grows.
\<close>

section \<open>Maps of rows\<close>

lemma by_id_fold:
  "fold (\<lambda>item m. if m (key item) = None then m(key item \<mapsto> item) else m) items m k =
     (case m k of Some v \<Rightarrow> Some v | None \<Rightarrow> map_of (map (\<lambda>x. (key x, x)) items) k)"
  by (induction items arbitrary: m) (auto split: option.splits)

lemma by_id_map_of: "by_id key items k = map_of (map (\<lambda>x. (key x, x)) items) k"
  by (simp add: by_id_def by_id_fold)

lemma by_id_code [code]: "by_id key items = map_of (map (\<lambda>x. (key x, x)) items)"
  by (rule ext) (rule by_id_map_of)

lemma by_id_None: "by_id key items k = None \<longleftrightarrow> k \<notin> key ` set items"
  by (auto simp: by_id_map_of map_of_eq_None_iff image_image)

lemma by_id_SomeD: "by_id key items k = Some x \<Longrightarrow> x \<in> set items \<and> key x = k"
  by (auto simp: by_id_map_of dest!: map_of_SomeD)

lemma by_id_mem: "distinct (map key items) \<Longrightarrow> x \<in> set items \<Longrightarrow> by_id key items (key x) = Some x"
  unfolding by_id_map_of by (rule map_of_is_SomeI) (auto simp: comp_def)

lemma map_of_upsert [simp]: "map_of (upsert i x rows) k = (if k = i then Some x else map_of rows k)"
  by (simp add: upsert_def update_conv')

lemma map_of_delete_row [simp]: "map_of (delete_row i rows) k = (if k = i then None else map_of rows k)"
  by (induction rows) (auto simp: delete_row_def)

text \<open>The rows of a table after the difference of two snapshots was written.\<close>

definition written :: "('a \<Rightarrow> string) \<Rightarrow> 'a list \<Rightarrow> 'a list \<Rightarrow> 'a table \<Rightarrow> string \<rightharpoonup> 'a" where
  "written key old new rows k =
     (case by_id key new k of Some x \<Rightarrow> Some x | None \<Rightarrow> if k \<in> key ` set old then None else map_of rows k)"

definition put_rows :: "('a \<Rightarrow> string) \<Rightarrow> 'a list \<Rightarrow> 'a list \<Rightarrow> 'a table \<Rightarrow> 'a table" where
  "put_rows key old new rows =
     fold (\<lambda>x rows. if by_id key old (key x) = Some x then rows else upsert (key x) x rows) new rows"

definition drop_rows :: "('a \<Rightarrow> string) \<Rightarrow> 'a list \<Rightarrow> 'a list \<Rightarrow> 'a table \<Rightarrow> 'a table" where
  "drop_rows key old new rows =
     fold (\<lambda>x. delete_row (key x)) (filter (\<lambda>x. by_id key new (key x) = None) old) rows"

definition holds :: "('a \<Rightarrow> string) \<Rightarrow> 'a list \<Rightarrow> 'a table \<Rightarrow> bool" where
  "holds key items rows \<longleftrightarrow> (\<forall>x \<in> set items. map_of rows (key x) = Some x)"

lemma map_of_drop_fold: "map_of (fold (\<lambda>x. delete_row (key x)) xs rows) k = (if k \<in> key ` set xs then None else map_of rows k)"
  by (induction xs arbitrary: rows) auto

lemma map_of_drop_rows:
  "map_of (drop_rows key old new rows) k = (if k \<in> key ` set old \<and> by_id key new k = None then None else map_of rows k)"
  by (auto simp: drop_rows_def map_of_drop_fold)

lemma map_of_put_rows:
  assumes "distinct (map key new)" "\<And>x. x \<in> set new \<Longrightarrow> by_id key old (key x) = Some x \<Longrightarrow> map_of rows (key x) = Some x"
  shows "map_of (put_rows key old new rows) k = (case by_id key new k of Some x \<Rightarrow> Some x | None \<Rightarrow> map_of rows k)"
  using assms
proof (induction new arbitrary: rows)
  case Nil
  then show ?case by (simp add: put_rows_def by_id_def)
next
  case (Cons y ys)
  let ?rows = "if by_id key old (key y) = Some y then rows else upsert (key y) y rows"
  have y: "map_of ?rows (key y) = Some y" using Cons.prems(2) [of y] by simp
  have other: "map_of ?rows i = map_of rows i" if "i \<noteq> key y" for i using that by simp
  have "map_of (put_rows key old ys ?rows) k = (case by_id key ys k of Some x \<Rightarrow> Some x | None \<Rightarrow> map_of ?rows k)"
  proof (rule Cons.IH)
    fix x assume x: "x \<in> set ys" "by_id key old (key x) = Some x"
    have "key x \<in> set (map key ys)" using x(1) by simp
    then have "key x \<noteq> key y" using Cons.prems(1) by (metis distinct.simps(2) list.simps(9))
    then show "map_of ?rows (key x) = Some x" using other Cons.prems(2) x by simp
  qed (use Cons.prems(1) in simp)
  moreover have "put_rows key old (y # ys) rows = put_rows key old ys ?rows" by (simp add: put_rows_def)
  moreover have "by_id key ys (key y) = None" using Cons.prems(1) by (auto simp: by_id_None)
  ultimately show ?case
    using y other by (cases "k = key y") (auto simp: by_id_map_of split: option.splits)
qed

lemma map_of_written:
  assumes "distinct (map key new)" "distinct (map key old)" "holds key old rows"
  shows "map_of (drop_rows key old new (put_rows key old new rows)) k = written key old new rows k"
    and "map_of (put_rows key old new (drop_rows key old new rows)) k = written key old new rows k"
proof -
  have agree: "map_of rows (key x) = Some x" if "x \<in> set new" "by_id key old (key x) = Some x" for x
    using assms(3) by_id_SomeD [OF that(2)] by (auto simp: holds_def)
  show "map_of (drop_rows key old new (put_rows key old new rows)) k = written key old new rows k"
    using agree by (auto simp: map_of_drop_rows map_of_put_rows [OF assms(1)] written_def split: option.splits)
  have "map_of (drop_rows key old new rows) (key x) = Some x" if "x \<in> set new" "by_id key old (key x) = Some x" for x
    using agree [OF that] that by_id_None [of key new "key x"] by (auto simp: map_of_drop_rows)
  then show "map_of (put_rows key old new (drop_rows key old new rows)) k = written key old new rows k"
    by (auto simp: map_of_drop_rows map_of_put_rows [OF assms(1)] written_def split: option.splits)
qed

lemma put_rows_kept:
  assumes "distinct (map key new)" "distinct (map key old)" "holds key old rows" "key ` set old \<subseteq> key ` set new"
  shows "map_of (put_rows key old new rows) k = written key old new rows k"
proof -
  have "drop_rows key old new (put_rows key old new rows) = put_rows key old new rows"
    using assms(4) by (auto simp: drop_rows_def by_id_None filter_empty_conv subset_iff)
  with map_of_written(1) [OF assms(1-3), of k] show ?thesis by simp
qed

section \<open>Components of a fold\<close>

lemma fold_component:
  assumes "\<And>x d. proj (f x d) = g x (proj d)"
  shows "proj (fold f xs d) = fold g xs (proj d)"
  using assms by (induction xs arbitrary: d) simp_all

lemma fold_same: "(\<And>x d. proj (f x d) = proj d) \<Longrightarrow> proj (fold f xs d) = proj d"
  by (induction xs arbitrary: d) simp_all

lemma fold_result_component:
  assumes "fold_result f d xs = Inr d'" "\<And>d x d'. f d x = Inr d' \<Longrightarrow> proj d' = g x (proj d)"
  shows "proj d' = fold g xs (proj d)"
  using assms(1)
proof (induction xs arbitrary: d)
  case (Cons x xs)
  then show ?case using assms(2) by (auto simp: result_simps)
qed simp

lemma fold_result_same:
  assumes "fold_result f d xs = Inr d'" "\<And>d x d'. f d x = Inr d' \<Longrightarrow> proj d' = proj d"
  shows "proj d' = proj d"
proof -
  have "proj d' = fold (\<lambda>x r. r) xs (proj d)" by (rule fold_result_component) (fact assms)+
  also have "\<dots> = proj d" by (induction xs) simp_all
  finally show ?thesis .
qed

section \<open>Tables after each stage\<close>

lemma append_event_tables [simp]:
  "db_projects (append_event ev d) = db_projects d" "db_jobs (append_event ev d) = db_jobs d"
  "db_tasks (append_event ev d) = db_tasks d" "db_plans (append_event ev d) = db_plans d"
  "db_leases (append_event ev d) = db_leases d" "db_issues (append_event ev d) = db_issues d"
  "db_milestones (append_event ev d) = db_milestones d" "db_dependencies (append_event ev d) = db_dependencies d"
  "db_sequences (append_event ev d) = db_sequences d" "db_deletions (append_event ev d) = db_deletions d"
  "db_pending (append_event ev d) = db_pending d"
  by (simp_all add: append_event_def)

text \<open>The tables of work items and the two tables of issues, read together.\<close>

definition lease_rows :: "db \<Rightarrow> lease table \<times> (string \<times> nat) list" where
  "lease_rows d = (db_leases d, db_sequences d)"

definition work_rows ::
  "db \<Rightarrow> project table \<times> job table \<times> task table \<times> plan table \<times> lease table \<times> (string \<times> nat) list" where
  "work_rows d = (db_projects d, db_jobs d, db_tasks d, db_plans d, lease_rows d)"

definition issue_rows :: "db \<Rightarrow> issue table \<times> milestone table" where
  "issue_rows d = (db_issues d, db_milestones d)"

lemma persist_milestone_rows:
  "db_milestones (persist_milestone e old command opts now m d) =
     (if old (m_id m) = Some m then db_milestones d else upsert (m_id m) m (db_milestones d))"
  "db_issues (persist_milestone e old command opts now m d) = db_issues d"
  "work_rows (persist_milestone e old command opts now m d) = work_rows d"
  by (simp_all add: persist_milestone_def work_rows_def lease_rows_def)

lemma removed_note_rows:
  "issue_rows (removed_note e command opts now i p r path d) = issue_rows d"
  "work_rows (removed_note e command opts now i p r path d) = work_rows d"
  by (simp_all add: removed_note_def Let_def work_rows_def lease_rows_def issue_rows_def)

lemma persist_issue_rows:
  assumes "persist_issue e old command opts now d i = Inr d'"
  shows "db_issues d' = (if old (i_id i) = Some i then db_issues d else upsert (i_id i) i (db_issues d))"
    and "db_milestones d' = db_milestones d" and "work_rows d' = work_rows d"
  using assms by (auto simp: persist_issue_def work_rows_def lease_rows_def Let_def ensure_def split: if_splits)

lemma issue_store_rows:
  assumes "issue_store_persist e old new command opts now d = Inr d'"
  shows "db_milestones d' = drop_rows m_id (milestones old) (milestones new)
           (put_rows m_id (milestones old) (milestones new) (db_milestones d))"
    and "db_issues d' = drop_rows i_id (issues old) (issues new) (put_rows i_id (issues old) (issues new) (db_issues d))"
    and "work_rows d' = work_rows d"
proof -
  define d1 where "d1 = fold (persist_milestone e (by_id m_id (milestones old)) command opts now) (milestones new) d"
  define gone where "gone = filter (\<lambda>i. by_id i_id (issues new) (i_id i) = None) (issues old)"
  define ms where "ms = filter (\<lambda>m. by_id m_id (milestones new) (m_id m) = None) (milestones old)"
  define f where "f = remove_issue e command opts now"
  define g where "g = remove_milestone e command opts now"
  obtain d2 where d2: "fold_result (persist_issue e (by_id i_id (issues old)) command opts now) d1 (issues new) = Inr d2"
      and d': "d' = fold g ms (fold f gone d2)"
    using assms by (auto simp: issue_store_persist_def Let_def d1_def gone_def ms_def f_def g_def elim: attemptE)
  have f: "db_issues (f i d) = delete_row (i_id i) (db_issues d)" "db_milestones (f i d) = db_milestones d"
      "work_rows (f i d) = work_rows d" for i d
    using removed_note_rows by (simp_all add: f_def remove_issue_def issue_rows_def, simp add: work_rows_def lease_rows_def)
  have g: "db_milestones (g m d) = delete_row (m_id m) (db_milestones d)" "db_issues (g m d) = db_issues d"
      "work_rows (g m d) = work_rows d" for m d
    using removed_note_rows by (simp_all add: g_def remove_milestone_def issue_rows_def, simp add: work_rows_def lease_rows_def)
  have one: "db_milestones d1 = put_rows m_id (milestones old) (milestones new) (db_milestones d)"
      "db_issues d1 = db_issues d" "work_rows d1 = work_rows d"
    unfolding d1_def put_rows_def
    by (rule fold_component fold_same, rule persist_milestone_rows)+
  have two: "db_milestones d2 = db_milestones d1" "work_rows d2 = work_rows d1"
      "db_issues d2 = put_rows i_id (issues old) (issues new) (db_issues d1)"
    unfolding put_rows_def
    by (rule fold_result_same [OF d2] fold_result_component [OF d2], erule persist_issue_rows)+
  show "db_milestones d' = drop_rows m_id (milestones old) (milestones new)
           (put_rows m_id (milestones old) (milestones new) (db_milestones d))"
    using fold_component [where proj = db_milestones and f = g, OF g(1)] fold_same [where proj = db_milestones and f = f, OF f(2)]
    by (simp add: d' two one drop_rows_def ms_def)
  show "db_issues d' = drop_rows i_id (issues old) (issues new) (put_rows i_id (issues old) (issues new) (db_issues d))"
    using fold_component [where proj = db_issues and f = f, OF f(1)] fold_same [where proj = db_issues and f = g, OF g(2)]
    by (simp add: d' two one drop_rows_def gone_def)
  show "work_rows d' = work_rows d"
    using fold_same [where proj = work_rows and f = f, OF f(3)] fold_same [where proj = work_rows and f = g, OF g(3)]
    by (simp add: d' two one)
qed

lemma persist_project_rows:
  assumes "persist_project e root old command opts now d p = Inr d'"
  shows "db_projects d' = (if old (p_id p) = Some p then db_projects d else upsert (p_id p) p (db_projects d))"
    and "issue_rows d' = issue_rows d" and "snd (work_rows d') = snd (work_rows d)"
  using assms
  by (auto simp: persist_project_def work_rows_def lease_rows_def issue_rows_def Let_def result_simps split: if_splits option.splits)

lemma persist_job_rows:
  "db_jobs (persist_job e old recent command opts now j d) =
     (if old (j_id j) = Some j then db_jobs d else upsert (j_id j) j (db_jobs d))"
  "issue_rows (persist_job e old recent command opts now j d) = issue_rows d"
  "db_projects (persist_job e old recent command opts now j d) = db_projects d"
  "snd (snd (work_rows (persist_job e old recent command opts now j d))) = snd (snd (work_rows d))"
  by (simp_all add: persist_job_def work_rows_def lease_rows_def issue_rows_def)

lemma persist_task_rows:
  "db_tasks (persist_task e old command opts now t d) =
     (if old (t_id t) = Some t then db_tasks d else upsert (t_id t) t (db_tasks d))"
  "issue_rows (persist_task e old command opts now t d) = issue_rows d"
  "db_projects (persist_task e old command opts now t d) = db_projects d"
  "db_jobs (persist_task e old command opts now t d) = db_jobs d"
  "snd (snd (snd (work_rows (persist_task e old command opts now t d)))) = snd (snd (snd (work_rows d)))"
  by (simp_all add: persist_task_def work_rows_def lease_rows_def issue_rows_def)

lemma persist_projects_rows:
  assumes "fold_result (persist_project e root (by_id p_id (projects old)) command opts now) d (projects new) = Inr d'"
  shows "db_projects d' = put_rows p_id (projects old) (projects new) (db_projects d)"
    and "issue_rows d' = issue_rows d" and "snd (work_rows d') = snd (work_rows d)"
  unfolding put_rows_def
  by (rule fold_result_component [OF assms] fold_result_same [OF assms], erule persist_project_rows)+

lemma persist_jobs_rows:
  assumes "d' = fold (persist_job e (by_id j_id (jobs old)) recent command opts now) (jobs new) d"
  shows "db_jobs d' = put_rows j_id (jobs old) (jobs new) (db_jobs d)"
    and "issue_rows d' = issue_rows d" and "db_projects d' = db_projects d"
    and "snd (snd (work_rows d')) = snd (snd (work_rows d))"
  unfolding assms put_rows_def
  by (rule fold_component fold_same, rule persist_job_rows)+

lemma persist_tasks_rows:
  assumes "d' = fold (persist_task e (by_id t_id (tasks old)) command opts now) (tasks new) d"
  shows "db_tasks d' = put_rows t_id (tasks old) (tasks new) (db_tasks d)"
    and "issue_rows d' = issue_rows d" and "db_projects d' = db_projects d" and "db_jobs d' = db_jobs d"
    and "snd (snd (snd (work_rows d'))) = snd (snd (snd (work_rows d)))"
  unfolding assms put_rows_def
  by (rule fold_component fold_same, rule persist_task_rows)+

lemma persist_leases_rows:
  "db_leases (persist_leases old new d) =
     put_rows l_task_id (leases old) (leases new) (drop_rows l_task_id (leases old) (leases new) (db_leases d))"
proof -
  have "fold (\<lambda>l rows. if by_id l_task_id (leases new) (l_task_id l) = None then delete_row (l_task_id l) rows else rows) ls rows
      = fold (\<lambda>l. delete_row (l_task_id l)) (filter (\<lambda>l. by_id l_task_id (leases new) (l_task_id l) = None) ls) rows" for ls :: "lease list" and rows :: "lease table"
    by (induction ls arbitrary: rows) simp_all
  then show ?thesis by (simp add: persist_leases_def Let_def put_rows_def drop_rows_def)
qed

section \<open>Deleted rows\<close>

lemma add_rows [simp]:
  "db_plans (fst (drop_plan previous p acc)) = delete_row (pl_id p) (db_plans (fst acc))"
  "db_tasks (drop_task e opts now t d) = delete_row (t_id t) (db_tasks d)"
  "db_jobs (fst (drop_job e previous opts now j acc)) = delete_row (j_id j) (db_jobs (fst acc))"
  "db_projects (fst (drop_project e previous command opts now q acc)) = delete_row (p_id q) (db_projects (fst acc))"
  by (simp_all add: drop_plan_def drop_task_def drop_job_def drop_project_def Let_def split: prod.splits)

lemma drop_frames:
  "db_tasks (fst (drop_plan previous p acc)) = db_tasks (fst acc)"
  "db_jobs (fst (drop_plan previous p acc)) = db_jobs (fst acc)"
  "db_projects (fst (drop_plan previous p acc)) = db_projects (fst acc)"
  "lease_rows (fst (drop_plan previous p acc)) = lease_rows (fst acc)"
  "issue_rows (fst (drop_plan previous p acc)) = issue_rows (fst acc)"
  "db_plans (drop_task e opts now t d) = db_plans d"
  "db_jobs (drop_task e opts now t d) = db_jobs d"
  "db_projects (drop_task e opts now t d) = db_projects d"
  "lease_rows (drop_task e opts now t d) = lease_rows d"
  "issue_rows (drop_task e opts now t d) = issue_rows d"
  "db_plans (fst (drop_job e previous opts now j acc)) = db_plans (fst acc)"
  "db_tasks (fst (drop_job e previous opts now j acc)) = db_tasks (fst acc)"
  "db_projects (fst (drop_job e previous opts now j acc)) = db_projects (fst acc)"
  "lease_rows (fst (drop_job e previous opts now j acc)) = lease_rows (fst acc)"
  "issue_rows (fst (drop_job e previous opts now j acc)) = issue_rows (fst acc)"
  "snd (work_rows (fst (drop_project e previous command opts now q acc))) = snd (work_rows (fst acc))"
  "issue_rows (fst (drop_project e previous command opts now q acc)) = issue_rows (fst acc)"
  by (simp_all add: drop_plan_def drop_task_def drop_job_def drop_project_def issue_rows_def work_rows_def lease_rows_def Let_def
      split: prod.splits)

lemma drop_task_note_rows:
  assumes "drop_task_note e old previous acc t = Inr acc'"
  shows "work_rows (fst acc') = work_rows (fst acc)" and "issue_rows (fst acc') = issue_rows (fst acc)"
  using assms by (auto simp: drop_task_note_def result_simps work_rows_def lease_rows_def issue_rows_def Let_def split: prod.splits)

definition gone :: "('a \<Rightarrow> string) \<Rightarrow> 'a list \<Rightarrow> 'a list \<Rightarrow> 'a list" where
  "gone key old new = filter (\<lambda>x. by_id key new (key x) = None) old"

lemma drop_rows_gone: "drop_rows key old new rows = fold (\<lambda>x. delete_row (key x)) (gone key old new) rows"
  by (simp add: drop_rows_def gone_def)

lemma deletion_stages:
  assumes "deletion_persist e old new command opts now d = Inr d'"
    and "gone j_id (jobs old) (jobs new) \<noteq> [] \<or> gone p_id (projects old) (projects new) \<noteq> []"
  obtains previous c acc2 acc4 d5 where
    "fold_result (drop_task_note e (by_id p_id (projects old)) previous)
       (fold (drop_plan previous) (gone pl_id (plans old) (plans new)) (d, c)) (gone t_id (tasks old) (tasks new)) = Inr acc2"
    "acc4 = fold (drop_job e previous opts now) (gone j_id (jobs old) (jobs new))
       (fold (drop_task e opts now) (gone t_id (tasks old) (tasks new)) (fst acc2), snd acc2)"
    "d5 = fst (fold (drop_project e previous command opts now) (gone p_id (projects old) (projects new)) acc4)"
    "work_rows d' = work_rows d5" "issue_rows d' = issue_rows d5" "db_events d' = db_events d5"
proof -
  define c where "c = \<lparr>cl_id = new_id e ''cleanup'' (length (db_deletions d)), cl_files = [], cl_candidates = [], cl_directories = []\<rparr>"
  define previous where "previous = filter (\<lambda>(k, _). k \<in> set (registry_keys old)) (db_registry d)"
  have "attempt (fold_result (drop_task_note e (by_id p_id (projects old)) previous)
       (fold (drop_plan previous) (gone pl_id (plans old) (plans new)) (d, c)) (gone t_id (tasks old) (tasks new)))
     (\<lambda>(d2, c2).
        let (d5, c5) = fold (drop_project e previous command opts now) (gone p_id (projects old) (projects new))
          (fold (drop_job e previous opts now) (gone j_id (jobs old) (jobs new))
            (fold (drop_task e opts now) (gone t_id (tasks old) (tasks new)) d2, c2))
        in Inr (d5\<lparr>db_deletions := db_deletions d5 @ [(cl_id c5, c5)]\<rparr>)) = Inr d'"
    using assms unfolding deletion_persist_def gone_def [symmetric] Let_def c_def previous_def by (auto split: if_splits)
  then obtain acc2 where acc2: "fold_result (drop_task_note e (by_id p_id (projects old)) previous)
       (fold (drop_plan previous) (gone pl_id (plans old) (plans new)) (d, c)) (gone t_id (tasks old) (tasks new)) = Inr acc2"
    and rest: "(case fold (drop_project e previous command opts now) (gone p_id (projects old) (projects new))
          (fold (drop_job e previous opts now) (gone j_id (jobs old) (jobs new))
            (fold (drop_task e opts now) (gone t_id (tasks old) (tasks new)) (fst acc2), snd acc2)) of
        (d5, c5) \<Rightarrow> d5\<lparr>db_deletions := db_deletions d5 @ [(cl_id c5, c5)]\<rparr>) = d'"
    by (elim attemptE) (auto split: prod.splits)
  show ?thesis
    by (rule that [OF acc2 refl refl]) (use rest in \<open>auto simp: work_rows_def lease_rows_def issue_rows_def split: prod.splits\<close>)
qed

lemma fold_fst_component:
  assumes "\<And>x acc. proj (fst (f x acc)) = g x (proj (fst acc))"
  shows "proj (fst (fold f xs acc)) = fold g xs (proj (fst acc))"
  by (rule fold_component [where proj = "\<lambda>acc. proj (fst acc)"]) (rule assms)

lemma fold_fst_same:
  assumes "\<And>x acc. proj (fst (f x acc)) = proj (fst acc)"
  shows "proj (fst (fold f xs acc)) = proj (fst acc)"
  by (rule fold_same [where proj = "\<lambda>acc. proj (fst acc)"]) (rule assms)

lemma work_rows_iff:
  "work_rows d = work_rows d' \<longleftrightarrow> db_projects d = db_projects d' \<and> snd (work_rows d) = snd (work_rows d')"
  "snd (work_rows d) = snd (work_rows d') \<longleftrightarrow> db_jobs d = db_jobs d' \<and> db_tasks d = db_tasks d'
     \<and> db_plans d = db_plans d' \<and> lease_rows d = lease_rows d'"
  by (auto simp: work_rows_def)

lemma deletion_rows:
  assumes run: "deletion_persist e old new command opts now d = Inr d'"
    and closed: "gone j_id (jobs old) (jobs new) = [] \<Longrightarrow> gone p_id (projects old) (projects new) = [] \<Longrightarrow>
      gone t_id (tasks old) (tasks new) = [] \<and> gone pl_id (plans old) (plans new) = []"
  shows "db_projects d' = drop_rows p_id (projects old) (projects new) (db_projects d)"
    and "db_jobs d' = drop_rows j_id (jobs old) (jobs new) (db_jobs d)"
    and "db_tasks d' = drop_rows t_id (tasks old) (tasks new) (db_tasks d)"
    and "db_plans d' = drop_rows pl_id (plans old) (plans new) (db_plans d)"
    and "lease_rows d' = lease_rows d" and "issue_rows d' = issue_rows d"
proof (atomize(full), goal_cases)
  case 1
  show ?case
  proof (cases "gone j_id (jobs old) (jobs new) = [] \<and> gone p_id (projects old) (projects new) = []")
    case True
    then show ?thesis
      using run closed by (simp add: deletion_persist_def gone_def [symmetric] drop_rows_gone Let_def)
  next
    case False
    then have "gone j_id (jobs old) (jobs new) \<noteq> [] \<or> gone p_id (projects old) (projects new) \<noteq> []" by simp
  then obtain previous c acc2 acc4 d5 where acc2: "fold_result (drop_task_note e (by_id p_id (projects old)) previous)
         (fold (drop_plan previous) (gone pl_id (plans old) (plans new)) (d, c)) (gone t_id (tasks old) (tasks new)) = Inr acc2"
      and acc4: "acc4 = fold (drop_job e previous opts now) (gone j_id (jobs old) (jobs new))
         (fold (drop_task e opts now) (gone t_id (tasks old) (tasks new)) (fst acc2), snd acc2)"
      and d5: "d5 = fst (fold (drop_project e previous command opts now) (gone p_id (projects old) (projects new)) acc4)"
      and d': "work_rows d' = work_rows d5" "issue_rows d' = issue_rows d5"
      by (rule deletion_stages [OF run]) (rule that, assumption+)
    let ?d1 = "fst (fold (drop_plan previous) (gone pl_id (plans old) (plans new)) (d, c))"
    let ?d3 = "fold (drop_task e opts now) (gone t_id (tasks old) (tasks new)) (fst acc2)"
    have one: "db_plans ?d1 = drop_rows pl_id (plans old) (plans new) (db_plans d)" "db_tasks ?d1 = db_tasks d"
        "db_jobs ?d1 = db_jobs d" "db_projects ?d1 = db_projects d" "lease_rows ?d1 = lease_rows d" "issue_rows ?d1 = issue_rows d"
      by (simp_all add: fold_fst_component [where proj = db_plans and g = "\<lambda>p. delete_row (pl_id p)"] drop_rows_gone
          fold_fst_same [where proj = db_tasks] fold_fst_same [where proj = db_jobs] fold_fst_same [where proj = lease_rows]
          fold_fst_same [where proj = db_projects] fold_fst_same [where proj = issue_rows] drop_frames)
    have two: "work_rows (fst acc2) = work_rows ?d1" "issue_rows (fst acc2) = issue_rows ?d1"
      using fold_result_same [where proj = "\<lambda>acc. work_rows (fst acc)", OF acc2 drop_task_note_rows(1)]
        fold_result_same [where proj = "\<lambda>acc. issue_rows (fst acc)", OF acc2 drop_task_note_rows(2)] by auto
    have three: "db_tasks ?d3 = drop_rows t_id (tasks old) (tasks new) (db_tasks (fst acc2))" "db_plans ?d3 = db_plans (fst acc2)"
        "db_jobs ?d3 = db_jobs (fst acc2)" "db_projects ?d3 = db_projects (fst acc2)" "lease_rows ?d3 = lease_rows (fst acc2)"
        "issue_rows ?d3 = issue_rows (fst acc2)"
      unfolding drop_rows_gone by (rule fold_component fold_same, rule add_rows drop_frames)+
    have four: "db_jobs (fst acc4) = drop_rows j_id (jobs old) (jobs new) (db_jobs ?d3)" "db_plans (fst acc4) = db_plans ?d3"
        "db_tasks (fst acc4) = db_tasks ?d3" "db_projects (fst acc4) = db_projects ?d3" "lease_rows (fst acc4) = lease_rows ?d3"
        "issue_rows (fst acc4) = issue_rows ?d3"
      unfolding acc4
      by (simp_all add: fold_fst_component [where proj = db_jobs and g = "\<lambda>j. delete_row (j_id j)"] drop_rows_gone
          fold_fst_same [where proj = db_tasks] fold_fst_same [where proj = db_plans] fold_fst_same [where proj = lease_rows]
          fold_fst_same [where proj = db_projects] fold_fst_same [where proj = issue_rows] drop_frames)
    have five: "db_projects d5 = drop_rows p_id (projects old) (projects new) (db_projects (fst acc4))"
        "snd (work_rows d5) = snd (work_rows (fst acc4))" "issue_rows d5 = issue_rows (fst acc4)"
      unfolding d5
      by (simp_all add: fold_fst_component [where proj = db_projects and g = "\<lambda>p. delete_row (p_id p)"] drop_rows_gone
          fold_fst_same [where proj = "\<lambda>d. snd (work_rows d)"] fold_fst_same [where proj = issue_rows] drop_frames)
    show ?thesis using one two three four five d' by (simp add: work_rows_iff)
  qed
qed

section \<open>The whole transaction\<close>

text \<open>The database holds the rows of a snapshot, and a snapshot has one row for each key.\<close>

definition stores :: "db \<Rightarrow> snapshot \<Rightarrow> bool" where
  "stores d s \<longleftrightarrow>
     holds p_id (projects s) (db_projects d) \<and> holds j_id (jobs s) (db_jobs d) \<and> holds t_id (tasks s) (db_tasks d)
     \<and> holds pl_id (plans s) (db_plans d) \<and> holds l_task_id (leases s) (db_leases d)
     \<and> holds i_id (issues s) (db_issues d) \<and> holds m_id (milestones s) (db_milestones d)"

definition keyed :: "snapshot \<Rightarrow> bool" where
  "keyed s \<longleftrightarrow>
     distinct (map p_id (projects s)) \<and> distinct (map j_id (jobs s)) \<and> distinct (map t_id (tasks s))
     \<and> distinct (map pl_id (plans s)) \<and> distinct (map l_task_id (leases s))
     \<and> distinct (map i_id (issues s)) \<and> distinct (map m_id (milestones s))"

text \<open>Tasks and Plans leave a snapshot only with a Job or a Project: the code looks for them only then.\<close>

definition removed_together :: "snapshot \<Rightarrow> snapshot \<Rightarrow> bool" where
  "removed_together old new \<longleftrightarrow>
     (gone j_id (jobs old) (jobs new) = [] \<and> gone p_id (projects old) (projects new) = [] \<longrightarrow>
      gone t_id (tasks old) (tasks new) = [] \<and> gone pl_id (plans old) (plans new) = [])"

lemma persist_stages:
  assumes "persist e root old new command opts now d = Inr d'"
  obtains d1 d2 d3 d4 d5 d6 where
    "issue_store_persist e old new command opts now d = Inr d1"
    "fold_result (persist_project e root (by_id p_id (projects old)) command opts now) d1 (projects new) = Inr d2"
    "d3 = fold (persist_job e (by_id j_id (jobs old)) (recent_session_tasks new) command opts now) (jobs new) d2"
    "d4 = fold (persist_task e (by_id t_id (tasks old)) command opts now) (tasks new) d3"
    "d5 = persist_dependencies old new (persist_leases old new (persist_plans old new d4))"
    "deletion_persist e old new command opts now d5 = Inr d6"
    "d' = (let d7 = enqueue_changes e old new d6 in
       if document_sequences old \<noteq> document_sequences new then d7\<lparr>db_sequences := document_sequences new\<rparr> else d7)"
  using assms unfolding persist_def persist_projects_def persist_work_def persist_end_def Let_def by (elim attemptE) simp

lemma persist_rows:
  assumes "persist e root old new command opts now d = Inr d'" "removed_together old new"
  shows "db_projects d' = drop_rows p_id (projects old) (projects new) (put_rows p_id (projects old) (projects new) (db_projects d))"
    and "db_jobs d' = drop_rows j_id (jobs old) (jobs new) (put_rows j_id (jobs old) (jobs new) (db_jobs d))"
    and "db_tasks d' = drop_rows t_id (tasks old) (tasks new) (put_rows t_id (tasks old) (tasks new) (db_tasks d))"
    and "db_plans d' = drop_rows pl_id (plans old) (plans new) (put_rows pl_id (plans old) (plans new) (db_plans d))"
    and "db_leases d' = put_rows l_task_id (leases old) (leases new) (drop_rows l_task_id (leases old) (leases new) (db_leases d))"
    and "db_issues d' = drop_rows i_id (issues old) (issues new) (put_rows i_id (issues old) (issues new) (db_issues d))"
    and "db_milestones d' = drop_rows m_id (milestones old) (milestones new)
           (put_rows m_id (milestones old) (milestones new) (db_milestones d))"
    and "document_sequences old = db_sequences d \<Longrightarrow> db_sequences d' = document_sequences new"
proof -
  obtain d1 d2 d3 d4 d5 d6 where d1: "issue_store_persist e old new command opts now d = Inr d1"
    and d2: "fold_result (persist_project e root (by_id p_id (projects old)) command opts now) d1 (projects new) = Inr d2"
    and d3: "d3 = fold (persist_job e (by_id j_id (jobs old)) (recent_session_tasks new) command opts now) (jobs new) d2"
    and d4: "d4 = fold (persist_task e (by_id t_id (tasks old)) command opts now) (tasks new) d3"
    and d5: "d5 = persist_dependencies old new (persist_leases old new (persist_plans old new d4))"
    and d6: "deletion_persist e old new command opts now d5 = Inr d6"
    and d': "d' = (let d7 = enqueue_changes e old new d6 in
       if document_sequences old \<noteq> document_sequences new then d7\<lparr>db_sequences := document_sequences new\<rparr> else d7)"
    using persist_stages [OF assms(1)] by blast
  have five: "db_projects d5 = db_projects d4" "db_jobs d5 = db_jobs d4" "db_tasks d5 = db_tasks d4"
      "db_plans d5 = put_rows pl_id (plans old) (plans new) (db_plans d4)" "issue_rows d5 = issue_rows d4"
      "db_leases d5 = put_rows l_task_id (leases old) (leases new) (drop_rows l_task_id (leases old) (leases new) (db_leases d4))"
      "db_sequences d5 = db_sequences d4"
    by (simp_all add: d5 persist_dependencies_def persist_leases_rows)
      (simp_all add: persist_leases_def persist_plans_def put_rows_def issue_rows_def Let_def)
  have seven: "work_rows (enqueue_changes e old new d6) = work_rows d6" "issue_rows (enqueue_changes e old new d6) = issue_rows d6"
    by (simp_all add: enqueue_changes_def work_rows_def lease_rows_def issue_rows_def Let_def)
  note stages = issue_store_rows [OF d1] persist_projects_rows [OF d2] persist_jobs_rows [OF d3] persist_tasks_rows [OF d4]
    five deletion_rows [OF d6] seven
  show "db_projects d' = drop_rows p_id (projects old) (projects new) (put_rows p_id (projects old) (projects new) (db_projects d))"
    "db_jobs d' = drop_rows j_id (jobs old) (jobs new) (put_rows j_id (jobs old) (jobs new) (db_jobs d))"
    "db_tasks d' = drop_rows t_id (tasks old) (tasks new) (put_rows t_id (tasks old) (tasks new) (db_tasks d))"
    "db_plans d' = drop_rows pl_id (plans old) (plans new) (put_rows pl_id (plans old) (plans new) (db_plans d))"
    "db_leases d' = put_rows l_task_id (leases old) (leases new) (drop_rows l_task_id (leases old) (leases new) (db_leases d))"
    "db_issues d' = drop_rows i_id (issues old) (issues new) (put_rows i_id (issues old) (issues new) (db_issues d))"
    "db_milestones d' = drop_rows m_id (milestones old) (milestones new)
           (put_rows m_id (milestones old) (milestones new) (db_milestones d))"
    "document_sequences old = db_sequences d \<Longrightarrow> db_sequences d' = document_sequences new"
    using stages assms(2)
    by (auto simp: d' removed_together_def work_rows_def lease_rows_def issue_rows_def Let_def)
qed

lemma persist_tables:
  assumes "persist e root old new command opts now d = Inr d'" "removed_together old new"
    and "stores d old" "keyed old" "keyed new"
  shows "map_of (db_projects d') k = written p_id (projects old) (projects new) (db_projects d) k"
    and "map_of (db_jobs d') k = written j_id (jobs old) (jobs new) (db_jobs d) k"
    and "map_of (db_tasks d') k = written t_id (tasks old) (tasks new) (db_tasks d) k"
    and "map_of (db_plans d') k = written pl_id (plans old) (plans new) (db_plans d) k"
    and "map_of (db_leases d') k = written l_task_id (leases old) (leases new) (db_leases d) k"
    and "map_of (db_issues d') k = written i_id (issues old) (issues new) (db_issues d) k"
    and "map_of (db_milestones d') k = written m_id (milestones old) (milestones new) (db_milestones d) k"
  using assms(3-) unfolding stores_def keyed_def
  by (simp_all add: persist_rows [OF assms(1,2)] map_of_written)

section \<open>Distinct keys and the snapshot read back\<close>

lemma distinct_upsert: "distinct (map fst rows) \<Longrightarrow> distinct (map fst (upsert i x rows))"
  by (simp add: upsert_def distinct_update)

lemma distinct_delete_row: "distinct (map fst rows) \<Longrightarrow> distinct (map fst (delete_row i rows))"
  by (simp add: delete_row_def distinct_map_filter)

lemma distinct_put_rows: "distinct (map fst rows) \<Longrightarrow> distinct (map fst (put_rows key old new rows))"
  unfolding put_rows_def by (induction new arbitrary: rows) (simp_all add: distinct_upsert)

lemma distinct_drop_rows: "distinct (map fst rows) \<Longrightarrow> distinct (map fst (drop_rows key old new rows))"
proof -
  have "distinct (map fst (fold (\<lambda>x. delete_row (key x)) xs rows))" if "distinct (map fst rows)" for xs rows
    using that by (induction xs arbitrary: rows) (simp_all add: distinct_delete_row)
  then show "distinct (map fst rows) \<Longrightarrow> ?thesis" by (simp add: drop_rows_gone)
qed

text \<open>The table holds exactly the rows of a list of entities.\<close>

definition exact :: "('a \<Rightarrow> string) \<Rightarrow> 'a list \<Rightarrow> 'a table \<Rightarrow> bool" where
  "exact key items rows \<longleftrightarrow> distinct (map fst rows) \<and> map_of rows = by_id key items"

lemma exact_holds: "distinct (map key items) \<Longrightarrow> exact key items rows \<Longrightarrow> holds key items rows"
  by (simp add: exact_def holds_def by_id_mem)

lemma exact_read_entities:
  assumes "distinct (map key items)" "exact key items rows"
  shows "set (read_entities rows) = set items"
proof -
  have "snd ` set rows = ran (map_of rows)" using assms(2) ran_distinct [of rows] unfolding exact_def by blast
  also have "\<dots> = set items"
    using assms by (auto simp: exact_def ran_def dest: by_id_SomeD by_id_mem)
  finally show ?thesis by (simp add: read_entities_def)
qed

lemma exact_written:
  assumes "distinct (map fst rows')" "exact key old rows" "\<And>k. map_of rows' k = written key old new rows k"
  shows "exact key new rows'"
proof -
  have "map_of rows' k = by_id key new k" for k
    using assms(2) assms(3) [of k] by_id_None [of key old k] by (cases "by_id key new k") (auto simp: exact_def written_def)
  with assms(1) show ?thesis by (simp add: exact_def fun_eq_iff)
qed

definition mirrors :: "db \<Rightarrow> snapshot \<Rightarrow> bool" where
  "mirrors d s \<longleftrightarrow>
     exact p_id (projects s) (db_projects d) \<and> exact j_id (jobs s) (db_jobs d) \<and> exact t_id (tasks s) (db_tasks d)
     \<and> exact pl_id (plans s) (db_plans d) \<and> exact l_task_id (leases s) (db_leases d)
     \<and> exact i_id (issues s) (db_issues d) \<and> exact m_id (milestones s) (db_milestones d)
     \<and> db_sequences d = document_sequences s"

lemma mirrors_stores: "keyed s \<Longrightarrow> mirrors d s \<Longrightarrow> stores d s"
  by (simp add: mirrors_def stores_def keyed_def exact_holds)

lemma persist_mirrors:
  assumes "persist e root old new command opts now d = Inr d'" "removed_together old new"
    and "mirrors d old" "keyed old" "keyed new"
  shows "mirrors d' new"
proof -
  note tables = persist_tables [OF assms(1,2) mirrors_stores [OF assms(4,3)] assms(4,5)]
  note rows = persist_rows [OF assms(1,2)]
  have keys: "distinct (map fst (db_projects d'))" "distinct (map fst (db_jobs d'))" "distinct (map fst (db_tasks d'))"
      "distinct (map fst (db_plans d'))" "distinct (map fst (db_leases d'))" "distinct (map fst (db_issues d'))"
      "distinct (map fst (db_milestones d'))"
    unfolding rows(1-7) using assms(3)
    by (simp_all add: mirrors_def exact_def distinct_put_rows distinct_drop_rows)
  show ?thesis
    using assms(3) rows(8) unfolding mirrors_def by (auto intro: exact_written keys tables)
qed

lemma mirrors_load:
  assumes "mirrors d s" "keyed s"
  shows "set (projects (load d)) = set (projects s)" "set (jobs (load d)) = set (jobs s)" "set (tasks (load d)) = set (tasks s)"
    "set (plans (load d)) = set (plans s)" "set (leases (load d)) = set (leases s)" "set (issues (load d)) = set (issues s)"
    "set (milestones (load d)) = set (milestones s)" "document_sequences (load d) = document_sequences s"
  using assms unfolding mirrors_def keyed_def load_def
  by (simp_all add: exact_read_entities [of p_id] exact_read_entities [of j_id] exact_read_entities [of t_id]
      exact_read_entities [of pl_id] exact_read_entities [of l_task_id] exact_read_entities [of i_id] exact_read_entities [of m_id])

section \<open>The audit trail\<close>

text \<open>A stage only appends to the audit trail.\<close>

definition extends :: "db \<Rightarrow> db \<Rightarrow> task_event list \<Rightarrow> bool" where
  "extends d d' evs \<longleftrightarrow> db_events d' = db_events d @ evs"

lemma extends_refl [intro]: "db_events d' = db_events d \<Longrightarrow> extends d d' []"
  by (simp add: extends_def)

lemma extends_trans: "extends d1 d2 evs \<Longrightarrow> extends d2 d3 evs' \<Longrightarrow> extends d1 d3 (evs @ evs')"
  by (simp add: extends_def)

lemma extends_fold:
  assumes "\<And>x acc. \<exists>evs. extends (pr acc) (pr (f x acc)) evs \<and> (needed x \<longrightarrow> (\<exists>ev \<in> set evs. about x ev))"
  shows "\<exists>evs. extends (pr acc) (pr (fold f xs acc)) evs \<and> (\<forall>x \<in> set xs. needed x \<longrightarrow> (\<exists>ev \<in> set evs. about x ev))"
proof (induction xs arbitrary: acc)
  case Nil
  then show ?case by auto
next
  case (Cons y ys)
  obtain evs where head: "extends (pr acc) (pr (f y acc)) evs" "needed y \<longrightarrow> (\<exists>ev \<in> set evs. about y ev)"
    using assms [of acc y] by auto
  obtain evs' where tail: "extends (pr (f y acc)) (pr (fold f ys (f y acc))) evs'"
      "\<forall>x \<in> set ys. needed x \<longrightarrow> (\<exists>ev \<in> set evs'. about x ev)"
    using Cons.IH [of "f y acc"] by blast
  have "extends (pr acc) (pr (fold f (y # ys) acc)) (evs @ evs')" using extends_trans [OF head(1) tail(1)] by simp
  then show ?case using head(2) tail(2) by (intro exI [of _ "evs @ evs'"]) (simp, blast)
qed

lemma extends_append:
  "extends d (append_event ev d') (evs @ [ev\<lparr>ev_payload := compact_payload (ev_payload ev)\<rparr>])"
  if "db_events d' = db_events d @ evs"
  using that by (simp add: extends_def append_event_def)

lemma extends_one:
  assumes "db_events d1 = db_events d" "needed \<Longrightarrow> about (ev\<lparr>ev_payload := compact_payload (ev_payload ev)\<rparr>)"
  shows "\<exists>evs. extends d (append_event ev d1) evs \<and> (needed \<longrightarrow> (\<exists>ev \<in> set evs. about ev))"
  using extends_append [of d1 d "[]" ev] assms by (intro exI [of _ "[ev\<lparr>ev_payload := compact_payload (ev_payload ev)\<rparr>]"]) simp

text \<open>The event of a change: it names the entity and carries its new revision.\<close>

definition job_event :: "job \<Rightarrow> int \<Rightarrow> task_event \<Rightarrow> bool" where
  "job_event j revision ev \<longleftrightarrow> ev_job_id ev = Some (j_id j) \<and> ev_task_id ev = None \<and> ev_revision ev = revision"

definition task_event_of :: "task \<Rightarrow> int \<Rightarrow> task_event \<Rightarrow> bool" where
  "task_event_of t revision ev \<longleftrightarrow> ev_task_id ev = Some (t_id t) \<and> ev_job_id ev = Some (t_job_id t) \<and> ev_revision ev = revision"

lemma persist_job_event:
  "\<exists>evs. extends d (persist_job e old recent command opts now j d) evs
     \<and> (old (j_id j) \<noteq> Some j \<longrightarrow> (\<exists>ev \<in> set evs. job_event j (j_revision j) ev))"
proof (cases "old (j_id j) = Some j")
  case False
  show ?thesis unfolding persist_job_def if_not_P [OF False]
    by (rule extends_one) (simp_all add: job_event_def event_for_def event_def)
qed (auto simp: persist_job_def)

lemma persist_task_event:
  "\<exists>evs. extends d (persist_task e old command opts now t d) evs
     \<and> (old (t_id t) \<noteq> Some t \<longrightarrow> (\<exists>ev \<in> set evs. task_event_of t (t_revision t) ev))"
proof (cases "old (t_id t) = Some t")
  case False
  show ?thesis unfolding persist_task_def if_not_P [OF False]
    by (rule extends_one) (simp_all add: task_event_of_def event_for_def event_def)
qed (auto simp: persist_task_def)

text \<open>Stages whose events do not matter here.\<close>

definition grows :: "db \<Rightarrow> db \<Rightarrow> bool" where
  "grows d d' \<longleftrightarrow> (\<exists>evs. extends d d' evs)"

lemma grows_same: "db_events d' = db_events d \<Longrightarrow> grows d d'"
  by (auto simp: grows_def extends_def)

lemma grows_trans: "grows d1 d2 \<Longrightarrow> grows d2 d3 \<Longrightarrow> grows d1 d3"
  by (auto simp: grows_def intro: extends_trans)

lemma grows_append: "db_events d1 = db_events d \<Longrightarrow> grows d (append_event ev d1)"
  using extends_append [of d1 d "[]"] by (auto simp: grows_def)

lemma grows_fold: "(\<And>x d. grows d (f x d)) \<Longrightarrow> grows d (fold f xs d)"
  by (induction xs arbitrary: d) (simp add: grows_same, simp, blast intro: grows_trans)

lemma grows_fold_fst: "(\<And>x acc. grows (fst acc) (fst (f x acc))) \<Longrightarrow> grows (fst acc) (fst (fold f xs acc))"
  by (induction xs arbitrary: acc) (simp add: grows_same, simp, blast intro: grows_trans)

lemma grows_fold_result:
  "fold_result f d xs = Inr d' \<Longrightarrow> (\<And>x d d'. f d x = Inr d' \<Longrightarrow> grows d d') \<Longrightarrow> grows d d'"
  by (induction xs arbitrary: d) (simp add: grows_same, simp add: result_simps, blast intro: grows_trans)

lemmas grows_intros = grows_append grows_same grows_fold grows_fold_fst

lemma removed_note_grows: "db_events d1 = db_events d \<Longrightarrow> grows d (removed_note e command opts now i p r path d1)"
  by (auto simp: removed_note_def Let_def grows_def extends_def append_event_def)

lemma persist_milestone_grows: "grows d (persist_milestone e old command opts now m d)"
  by (simp add: persist_milestone_def grows_intros)

lemma persist_issue_grows: "persist_issue e old command opts now d i = Inr d' \<Longrightarrow> grows d d'"
  by (auto simp: persist_issue_def Let_def ensure_def grows_intros split: if_splits)

lemma issue_store_grows:
  assumes "issue_store_persist e old new command opts now d = Inr d'"
  shows "grows d d'"
proof -
  have one: "grows d (fold (persist_milestone e om command opts now) ms d)" for om ms d
    by (rule grows_fold) (rule persist_milestone_grows)
  have two: "grows d d2" if "fold_result (persist_issue e oi command opts now) d xs = Inr d2" for oi xs d d2
    using that by (rule grows_fold_result) (rule persist_issue_grows)
  have three: "grows d (fold (remove_issue e command opts now) xs d)" for xs d
    by (rule grows_fold) (simp add: remove_issue_def removed_note_grows)
  have four: "grows d (fold (remove_milestone e command opts now) xs d)" for xs d
    by (rule grows_fold) (simp add: remove_milestone_def removed_note_grows)
  from assms obtain d2 where "fold_result (persist_issue e (by_id i_id (issues old)) command opts now)
        (fold (persist_milestone e (by_id m_id (milestones old)) command opts now) (milestones new) d) (issues new) = Inr d2"
      and "grows d2 d'"
    unfolding issue_store_persist_def Let_def by (elim attemptE) (auto intro: grows_trans three four)
  with one two show ?thesis by (blast intro: grows_trans)
qed

lemma persist_project_grows: "persist_project e root old command opts now d p = Inr d' \<Longrightarrow> grows d d'"
  by (auto simp: persist_project_def Let_def result_simps grows_intros split: if_splits)

lemma drop_grows:
  "grows (fst acc) (fst (drop_plan previous p acc))"
  "grows (fst acc) (fst (drop_project e previous command opts now q acc))"
  "drop_task_note e old previous acc t = Inr acc' \<Longrightarrow> grows (fst acc) (fst acc')"
  by (auto simp: drop_plan_def drop_project_def drop_task_note_def Let_def result_simps grows_intros split: prod.splits)

lemma drop_task_event:
  "\<exists>evs. extends d (drop_task e opts now t d) evs \<and> (True \<longrightarrow> (\<exists>ev \<in> set evs. task_event_of t (t_revision t + 1) ev))"
  unfolding drop_task_def by (rule extends_one) (simp_all add: task_event_of_def event_for_def event_def)

lemma drop_job_event:
  "\<exists>evs. extends (fst acc) (fst (drop_job e previous opts now j acc)) evs
     \<and> (True \<longrightarrow> (\<exists>ev \<in> set evs. job_event j (j_revision j + 1) ev))"
  unfolding drop_job_def Let_def prod.case_eq_if fst_conv
  by (rule extends_one) (simp_all add: job_event_def event_for_def event_def)

lemma deletion_events:
  assumes "deletion_persist e old new command opts now d = Inr d'" "removed_together old new"
  shows "\<exists>evs. extends d d' evs
     \<and> (\<forall>t \<in> set (gone t_id (tasks old) (tasks new)). \<exists>ev \<in> set evs. task_event_of t (t_revision t + 1) ev)
     \<and> (\<forall>j \<in> set (gone j_id (jobs old) (jobs new)). \<exists>ev \<in> set evs. job_event j (j_revision j + 1) ev)"
proof (cases "gone j_id (jobs old) (jobs new) = [] \<and> gone p_id (projects old) (projects new) = []")
  case True
  then show ?thesis
    using assms by (auto simp: removed_together_def deletion_persist_def gone_def [symmetric] Let_def intro!: exI [of _ "[]"])
next
  case False
  then have "gone j_id (jobs old) (jobs new) \<noteq> [] \<or> gone p_id (projects old) (projects new) \<noteq> []" by simp
  then obtain previous c acc2 acc4 d5 where acc2: "fold_result (drop_task_note e (by_id p_id (projects old)) previous)
       (fold (drop_plan previous) (gone pl_id (plans old) (plans new)) (d, c)) (gone t_id (tasks old) (tasks new)) = Inr acc2"
    and acc4: "acc4 = fold (drop_job e previous opts now) (gone j_id (jobs old) (jobs new))
       (fold (drop_task e opts now) (gone t_id (tasks old) (tasks new)) (fst acc2), snd acc2)"
    and d5: "d5 = fst (fold (drop_project e previous command opts now) (gone p_id (projects old) (projects new)) acc4)"
    and d': "db_events d' = db_events d5"
    by (rule deletion_stages [OF assms(1)]) (rule that, assumption+)
  let ?d3 = "fold (drop_task e opts now) (gone t_id (tasks old) (tasks new)) (fst acc2)"
  have "grows d (fst (fold (drop_plan previous) (gone pl_id (plans old) (plans new)) (d, c)))"
    using grows_fold_fst [OF drop_grows(1), of "(d, c)"] by simp
  moreover have "grows (fst (fold (drop_plan previous) (gone pl_id (plans old) (plans new)) (d, c))) (fst acc2)"
    using fold_result_invariant [where P = "\<lambda>acc. grows (fst (fold (drop_plan previous) (gone pl_id (plans old) (plans new)) (d, c))) (fst acc)",
        OF acc2] grows_same drop_grows(3) grows_trans by blast
  ultimately obtain ev0 where e0: "extends d (fst acc2) ev0" by (meson grows_def grows_trans)
  obtain ev1 where e1: "extends (fst acc2) ?d3 ev1"
      "\<forall>t \<in> set (gone t_id (tasks old) (tasks new)). \<exists>ev \<in> set ev1. task_event_of t (t_revision t + 1) ev"
    using extends_fold [where pr = "\<lambda>d. d" and needed = "\<lambda>_. True" and f = "drop_task e opts now"
        and about = "\<lambda>t. task_event_of t (t_revision t + 1)", OF drop_task_event] by blast
  obtain ev2 where e2: "extends ?d3 (fst acc4) ev2"
      "\<forall>j \<in> set (gone j_id (jobs old) (jobs new)). \<exists>ev \<in> set ev2. job_event j (j_revision j + 1) ev"
    using extends_fold [where pr = fst and needed = "\<lambda>_. True" and f = "drop_job e previous opts now"
        and about = "\<lambda>j. job_event j (j_revision j + 1)" and acc = "(?d3, snd acc2)", OF drop_job_event]
    unfolding acc4 fst_conv by blast
  obtain ev3 where e3: "extends (fst acc4) d' ev3"
    using grows_fold_fst [where f = "drop_project e previous command opts now" and acc = acc4
        and xs = "gone p_id (projects old) (projects new)", OF drop_grows(2)] d' by (auto simp: d5 grows_def extends_def)
  have "extends d d' (ev0 @ ev1 @ ev2 @ ev3)"
    using extends_trans [OF extends_trans [OF extends_trans [OF e0 e1(1)] e2(1)] e3] by simp
  then show ?thesis using e1(2) e2(2) by (intro exI [of _ "ev0 @ ev1 @ ev2 @ ev3"]) (simp, blast)
qed

lemma persist_events:
  assumes "persist e root old new command opts now d = Inr d'" "removed_together old new"
  shows "\<exists>evs. db_events d' = db_events d @ evs
     \<and> (\<forall>j \<in> set (jobs new). by_id j_id (jobs old) (j_id j) \<noteq> Some j \<longrightarrow> (\<exists>ev \<in> set evs. job_event j (j_revision j) ev))
     \<and> (\<forall>t \<in> set (tasks new). by_id t_id (tasks old) (t_id t) \<noteq> Some t \<longrightarrow> (\<exists>ev \<in> set evs. task_event_of t (t_revision t) ev))
     \<and> (\<forall>j \<in> set (gone j_id (jobs old) (jobs new)). \<exists>ev \<in> set evs. job_event j (j_revision j + 1) ev)
     \<and> (\<forall>t \<in> set (gone t_id (tasks old) (tasks new)). \<exists>ev \<in> set evs. task_event_of t (t_revision t + 1) ev)"
proof -
  obtain d1 d2 d3 d4 d5 d6 where d1: "issue_store_persist e old new command opts now d = Inr d1"
    and d2: "fold_result (persist_project e root (by_id p_id (projects old)) command opts now) d1 (projects new) = Inr d2"
    and d3: "d3 = fold (persist_job e (by_id j_id (jobs old)) (recent_session_tasks new) command opts now) (jobs new) d2"
    and d4: "d4 = fold (persist_task e (by_id t_id (tasks old)) command opts now) (tasks new) d3"
    and d5: "d5 = persist_dependencies old new (persist_leases old new (persist_plans old new d4))"
    and d6: "deletion_persist e old new command opts now d5 = Inr d6"
    and d': "d' = (let d7 = enqueue_changes e old new d6 in
       if document_sequences old \<noteq> document_sequences new then d7\<lparr>db_sequences := document_sequences new\<rparr> else d7)"
    using persist_stages [OF assms(1)] by blast
  have "grows d d2"
    using issue_store_grows [OF d1] grows_fold_result [OF d2 persist_project_grows] by (rule grows_trans)
  then obtain ev1 where e1: "extends d d2 ev1" by (auto simp: grows_def)
  obtain ev2 where e2: "extends d2 d3 ev2"
      "\<forall>j \<in> set (jobs new). by_id j_id (jobs old) (j_id j) \<noteq> Some j \<longrightarrow> (\<exists>ev \<in> set ev2. job_event j (j_revision j) ev)"
    using extends_fold [where pr = "\<lambda>d. d" and about = "\<lambda>j. job_event j (j_revision j)" and needed = "\<lambda>j. by_id j_id (jobs old) (j_id j) \<noteq> Some j"
        and f = "persist_job e (by_id j_id (jobs old)) (recent_session_tasks new) command opts now", OF persist_job_event]
    unfolding d3 by blast
  obtain ev3 where e3: "extends d3 d4 ev3"
      "\<forall>t \<in> set (tasks new). by_id t_id (tasks old) (t_id t) \<noteq> Some t \<longrightarrow> (\<exists>ev \<in> set ev3. task_event_of t (t_revision t) ev)"
    using extends_fold [where pr = "\<lambda>d. d" and about = "\<lambda>t. task_event_of t (t_revision t)" and needed = "\<lambda>t. by_id t_id (tasks old) (t_id t) \<noteq> Some t"
        and f = "persist_task e (by_id t_id (tasks old)) command opts now", OF persist_task_event]
    unfolding d4 by blast
  have "db_events d5 = db_events d4"
    by (simp add: d5 persist_dependencies_def persist_leases_def persist_plans_def Let_def)
  moreover have "db_events d' = db_events d6" by (simp add: d' enqueue_changes_def Let_def)
  moreover obtain ev4 where e4: "extends d5 d6 ev4"
      "\<forall>t \<in> set (gone t_id (tasks old) (tasks new)). \<exists>ev \<in> set ev4. task_event_of t (t_revision t + 1) ev"
      "\<forall>j \<in> set (gone j_id (jobs old) (jobs new)). \<exists>ev \<in> set ev4. job_event j (j_revision j + 1) ev"
    using deletion_events [OF d6 assms(2)] by blast
  ultimately have "db_events d' = db_events d @ ev1 @ ev2 @ ev3 @ ev4"
    using e1 e2(1) e3(1) by (simp add: extends_def)
  then show ?thesis
    using e2(2) e3(2) e4(2,3) by (intro exI [of _ "ev1 @ ev2 @ ev3 @ ev4"]) (simp, blast)
qed

end
