(* ===== verification/Storage.thy ===== *)
theory Storage
  imports Laws Persistence
begin

text \<open>
  The properties of the transaction that writes a state difference into the database: what the tables
  hold afterwards, what is read back, the audit trail and the documents that are queued for publication.
\<close>

text \<open>A database with the rows of a snapshot and nothing else.\<close>

definition rows_of :: "('a \<Rightarrow> string) \<Rightarrow> 'a list \<Rightarrow> 'a table" where
  "rows_of key items = map (\<lambda>x. (key x, x)) items"

definition demo_db :: "snapshot \<Rightarrow> db" where
  "demo_db s =
     \<lparr>db_projects = rows_of p_id (projects s), db_lookup = [], db_jobs = rows_of j_id (jobs s), db_tasks = rows_of t_id (tasks s),
      db_plans = rows_of pl_id (plans s), db_leases = rows_of l_task_id (leases s), db_issues = rows_of i_id (issues s),
      db_milestones = rows_of m_id (milestones s), db_legacy_issues = [], db_dependencies = [], db_events = [],
      db_sequences = document_sequences s, db_deletions = [], db_registry = [], db_pending = [], db_projection = [], db_turns = []\<rparr>"

definition demo_delete :: "snapshot \<Rightarrow> snapshot" where
  "demo_delete s = (case deletion_apply s (JObject [(''command'', JString ''job.delete''), (''job'', JString ''job_20'')]) default_options of
     Inr (_, s') \<Rightarrow> s' | Inl _ \<Rightarrow> s)"

definition demo_persist :: "snapshot \<Rightarrow> snapshot \<Rightarrow> db \<Rightarrow> db result" where
  "demo_persist old new d = persist (demo_env 9) Inr old new ''job.delete'' default_options 9 d"



text \<open>The state difference of the witnesses: a Job with two Tasks is deleted.\<close>

definition deletes_task :: "string \<Rightarrow> snapshot \<Rightarrow> snapshot \<Rightarrow> bool" where
  "deletes_task k s s' \<longleftrightarrow> keyed s \<and> keyed s' \<and> removed_together s s'
     \<and> k \<in> t_id ` set (tasks s) \<and> k \<notin> t_id ` set (tasks s')"

definition persists :: "snapshot \<Rightarrow> snapshot \<Rightarrow> bool" where
  "persists s s' \<longleftrightarrow> is_ok (demo_persist s s' (demo_db s))"

lemma demo_difference:
  obtains d' where "demo_persist (demo 5) (demo_delete (demo 5)) (demo_db (demo 5)) = Inr d'"
    and "keyed (demo 5)" "keyed (demo_delete (demo 5))" "removed_together (demo 5) (demo_delete (demo 5))"
    and "''task_30'' \<in> t_id ` set (tasks (demo 5))" "by_id t_id (tasks (demo_delete (demo 5))) ''task_30'' = None"
proof -
  have "deletes_task ''task_30'' (demo 5) (demo_delete (demo 5))" by code_simp
  moreover have "persists (demo 5) (demo_delete (demo 5))" by code_simp
  ultimately show ?thesis using that by (auto simp: is_ok_iff deletes_task_def persists_def by_id_None)
qed





text \<open>C25: the audit trail is append-only and complete: the events of the database stay where they are,
  every Job and every Task that a mutation creates or changes gets an event with its new revision, and
  every one it removes gets an event with the next revision.\<close>

theorem audit_trail:
  assumes "persist e root old new command opts now d = Inr d'" "removed_together old new"
  shows "\<exists>evs. db_events d' = db_events d @ evs
    \<and> (\<forall>j \<in> set (jobs new). by_id j_id (jobs old) (j_id j) \<noteq> Some j \<longrightarrow>
         (\<exists>ev \<in> set evs. ev_job_id ev = Some (j_id j) \<and> ev_task_id ev = None \<and> ev_revision ev = j_revision j))
    \<and> (\<forall>t \<in> set (tasks new). by_id t_id (tasks old) (t_id t) \<noteq> Some t \<longrightarrow>
         (\<exists>ev \<in> set evs. ev_task_id ev = Some (t_id t) \<and> ev_job_id ev = Some (t_job_id t) \<and> ev_revision ev = t_revision t))
    \<and> (\<forall>j \<in> set (jobs old). by_id j_id (jobs new) (j_id j) = None \<longrightarrow>
         (\<exists>ev \<in> set evs. ev_job_id ev = Some (j_id j) \<and> ev_task_id ev = None \<and> ev_revision ev = j_revision j + 1))
    \<and> (\<forall>t \<in> set (tasks old). by_id t_id (tasks new) (t_id t) = None \<longrightarrow>
         (\<exists>ev \<in> set evs. ev_task_id ev = Some (t_id t) \<and> ev_job_id ev = Some (t_job_id t) \<and> ev_revision ev = t_revision t + 1))"
  using persist_events [OF assms] 
  unfolding job_event_def task_event_of_def gone_def set_filter mem_Collect_eq Ball_def imp_conjL .

theorem audit_trail_witness:
  "\<exists>d'. demo_persist (demo 5) (demo_delete (demo 5)) (demo_db (demo 5)) = Inr d'
     \<and> (\<exists>ev \<in> set (db_events d'). ev_task_id ev = Some ''task_30'')"
proof -
  obtain d' where d': "demo_persist (demo 5) (demo_delete (demo 5)) (demo_db (demo 5)) = Inr d'"
    and k: "removed_together (demo 5) (demo_delete (demo 5))"
    and t: "''task_30'' \<in> t_id ` set (tasks (demo 5))" "by_id t_id (tasks (demo_delete (demo 5))) ''task_30'' = None"
    by (rule demo_difference)
  from audit_trail [OF d' [unfolded demo_persist_def] k] t d' show ?thesis by fastforce
qed






text \<open>A summary in the audit trail is bounded whatever the payload was: only the fields of a fixed
  list, no nested value except the list of clipped fields, and every copied text is cut to at most 4096
  bytes of the original at a character boundary.\<close>

theorem payload_bounded:
  assumes "get_field (compact_payload (JObject fs)) k = Some v"
  shows "k \<in> set (payload_keys @ [''schema_version'', ''entity_type'', ''unsupported_payload'', ''truncated_fields''])
    \<and> (k \<in> set payload_keys \<longrightarrow> (\<forall>xs. v \<noteq> JArray xs) \<and> (\<forall>xs. v \<noteq> JObject xs))
    \<and> (k \<in> set payload_keys \<longrightarrow> (\<forall>t. v = JString t \<longrightarrow>
         (\<exists>n body. n \<le> 4096 \<and> map_of fs k = Some (JString body) \<and> is_char_boundary body n \<and> t = take n body)))"
proof -
  have v: "summary_field fs k = Some v" using assms by (simp add: compact_payload_field)
  then have key: "Option.bind (map_of fs k) kept = Some v" if "k \<in> set payload_keys"
    using that payload_keys_distinct by (auto simp: summary_field_def split: if_splits)
  have "k \<in> set (payload_keys @ [''schema_version'', ''entity_type'', ''unsupported_payload'', ''truncated_fields''])"
    using v by (auto simp: summary_field_def split: if_splits)
  moreover have "(\<forall>xs. v \<noteq> JArray xs) \<and> (\<forall>xs. v \<noteq> JObject xs)" if listed: "k \<in> set payload_keys"
  proof -
    obtain w where "kept w = Some v" using key [OF listed] by (auto simp: bind_eq_Some_conv)
    then show ?thesis by (cases w) (auto simp: kept_def)
  qed
  moreover have "\<exists>n body. n \<le> 4096 \<and> map_of fs k = Some (JString body) \<and> is_char_boundary body n \<and> t = take n body"
    if listed: "k \<in> set payload_keys" "v = JString t" for t
  proof -
    obtain w where "map_of fs k = Some w" "kept w = Some (JString t)"
      using key [OF listed(1)] listed(2) by (auto simp: bind_eq_Some_conv)
    then obtain body where "map_of fs k = Some (JString body)" "t = clip body" by (cases w) (auto simp: kept_def)
    then show ?thesis
      using boundary_below_le [of body "min (length body) 4096"] boundary_below_boundary
      by (intro exI [of _ "boundary_below body (min (length body) 4096)"] exI [of _ body]) (simp add: clip_def)
  qed
  ultimately show ?thesis by blast
qed

theorem payload_bounded_witness:
  "get_field (compact_payload (JObject [(''title'', JString ''abc'')])) ''title'' = Some (JString ''abc'')
     \<and> (\<exists>n body. n \<le> 4096 \<and> is_char_boundary body n \<and> ''abc'' = take n body)"
proof -
  have f: "get_field (compact_payload (JObject [(''title'', JString ''abc'')])) ''title'' = Some (JString ''abc'')" by code_simp
  have "''title'' \<in> set payload_keys" by (simp add: payload_keys_def)
  with payload_bounded [OF f] f show ?thesis by blast
qed

text \<open>Compacting a summary again changes nothing, as long as the identifier was not clipped and at most
  twelve fields were; rows that an older version wrote may be compacted again.\<close>

theorem compact_payload_idempotent:
  assumes "length (filter (clipped fs) payload_keys) \<le> 12" "\<not> clipped fs ''id''"
  shows "get_field (compact_payload (compact_payload (JObject fs))) k = get_field (compact_payload (JObject fs)) k"
proof -
  obtain gs where gs: "compact_payload (JObject fs) = JObject gs"
    by (auto simp: compact_payload_def Let_def case_prod_beta)
  have "map_of gs k = summary_field fs k" for k
    using compact_payload_field [of fs k] by (simp add: gs get_field_def)
  with summary_idempotent [OF assms] have "summary_field gs k = summary_field fs k" by blast
  then show ?thesis by (simp add: gs compact_payload_field) (simp add: compact_payload_field flip: gs)
qed

theorem compact_payload_idempotent_witness:
  "get_field (compact_payload (compact_payload (JObject [(''id'', JString ''job_1''), (''phase'', JArray [JNull])]))) ''unsupported_payload''
     = Some (JBool True)"
proof -
  have c: "length (filter (clipped [(''id'', JString ''job_1''), (''phase'', JArray [JNull])]) payload_keys) \<le> 12"
    "\<not> clipped [(''id'', JString ''job_1''), (''phase'', JArray [JNull])] ''id''" by code_simp+
  have "get_field (compact_payload (JObject [(''id'', JString ''job_1''), (''phase'', JArray [JNull])])) ''unsupported_payload''
      = Some (JBool True)" by code_simp
  then show ?thesis by (simp add: compact_payload_idempotent [OF c])
qed

end
