(* ===== verification/Publication.thy ===== *)
theory Publication
  imports Database "HOL-Library.List_Lexorder" "HOL-Library.Char_ord"
begin

text \<open>
  The publication queue after a transaction (\<open>publication.rs\<close>): reading it in batches, acknowledging a
  published document, and the loop of \<open>sync_pending\<close> (\<open>projection.rs\<close>) that tries every queued document
  once. Rendering a document writes files; it is the parameter \<open>render\<close>, which either fails or tells
  what was published.
\<close>

section \<open>The queue\<close>

record published_plan =
  pp_id :: string
  pp_version :: int
  pp_hash :: string

record publication_metadata =
  pm_plans :: "published_plan list"
  pm_goals :: "(string \<times> string) list"
  pm_deliveries :: "(string \<times> string) list"

definition has_pending_documents :: "db \<Rightarrow> bool" where
  "has_pending_documents d \<longleftrightarrow> db_pending d \<noteq> [] \<or> db_deletions d \<noteq> []"

definition pending_documents :: "db \<Rightarrow> (string \<times> string) list" where
  "pending_documents d = sort_key fst (db_pending d)"

definition pending_batch :: "db \<Rightarrow> string \<Rightarrow> (string \<times> string) list" where
  "pending_batch d after = take 128 (sort_key fst (filter (\<lambda>(k, _). after < k) (db_pending d)))"

definition document_generation :: "db \<Rightarrow> string \<Rightarrow> string option" where
  "document_generation d key = map_of (db_pending d) key"

definition rebuild_pending :: "db \<Rightarrow> bool" where
  "rebuild_pending d \<longleftrightarrow> map_of (db_pending d) ''rebuild'' \<noteq> None"

definition document_paths :: "db \<Rightarrow> string list option \<Rightarrow> (string \<times> string) list" where
  "document_paths d keys =
     (case keys of None \<Rightarrow> db_registry d | Some ks \<Rightarrow> filter (\<lambda>(k, _). k \<in> set ks) (db_registry d))"

text \<open>
  One transaction: receipts of Plans, the projection state of goals and deliveries, the registry of
  paths, and the removal of exactly the generations that were published. \<open>json_quote\<close> is the SQL
  function; a value of \<open>projection_state\<close> is a text.
\<close>

definition receive_plan :: "published_plan list \<Rightarrow> plan \<Rightarrow> plan" where
  "receive_plan receipts p =
     (case find (\<lambda>r. pp_id r = pl_id p \<and> pp_version r = pl_version p) receipts of
        None \<Rightarrow> p
      | Some r \<Rightarrow> p\<lparr>pl_hash := pp_hash r, pl_pending_body := None\<rparr>)"

definition int_text :: "int \<Rightarrow> string" where
  "int_text n = (if n < 0 then CHR ''-'' # decimal (nat (- n)) else decimal (nat n))"

definition acknowledge_documents ::
  "(string \<Rightarrow> string) \<Rightarrow> (string \<times> string) list \<Rightarrow> (string \<times> string) list \<Rightarrow> string list \<Rightarrow> int
   \<Rightarrow> publication_metadata \<Rightarrow> db \<Rightarrow> db" where
  "acknowledge_documents json_quote pending paths remove seq metadata d =
     (let d1 = d\<lparr>db_plans := map (\<lambda>(k, p). (k, receive_plan (pm_plans metadata) p)) (db_plans d)\<rparr>;
          d2 = d1\<lparr>db_projection := fold (\<lambda>(k, v). upsert (''goal:'' @ k) (json_quote v)) (pm_goals metadata) (db_projection d1)\<rparr>;
          d3 = d2\<lparr>db_projection := fold (\<lambda>(k, v). upsert (''delivery:'' @ k) (json_quote v)) (pm_deliveries metadata) (db_projection d2)\<rparr>;
          d4 = d3\<lparr>db_registry := filter (\<lambda>(k, _). k \<notin> set remove) (db_registry d3)\<rparr>;
          d5 = d4\<lparr>db_registry := fold (\<lambda>(k, path). upsert k path) paths (db_registry d4)\<rparr>;
          d6 = d5\<lparr>db_pending := filter (\<lambda>row. row \<notin> set pending) (db_pending d5)\<rparr>
      in if db_pending d6 = [] then d6\<lparr>db_projection := upsert ''sequence'' (int_text seq) (db_projection d6)\<rparr> else d6)"

section \<open>The loop of the publisher\<close>

record publication =
  pb_paths :: "(string \<times> string) list"
  pb_removed :: "string list"
  pb_sequence :: int
  pb_metadata :: publication_metadata

type_synonym renderer = "db \<Rightarrow> string \<Rightarrow> publication result"

definition render_pending_document :: "(string \<Rightarrow> string) \<Rightarrow> renderer \<Rightarrow> string \<times> string \<Rightarrow> db \<Rightarrow> db result" where
  "render_pending_document json_quote render row d =
     (case row of (key, generation) \<Rightarrow>
       attempt (render d key) (\<lambda>p.
       Inr (acknowledge_documents json_quote [(key, generation)] (pb_paths p) (pb_removed p) (pb_sequence p) (pb_metadata p) d)))"

definition try_document ::
  "(string \<Rightarrow> string) \<Rightarrow> renderer \<Rightarrow> string \<times> string \<Rightarrow> db \<times> error option \<Rightarrow> db \<times> error option" where
  "try_document json_quote render row acc =
     (let (d, err) = acc in
      case render_pending_document json_quote render row d of
        Inr d' \<Rightarrow> (d', err)
      | Inl failure \<Rightarrow> (d, or_else err (Some failure)))"

lemma pending_acknowledge [simp]:
  "db_pending (acknowledge_documents q pending paths remove seq metadata d) = filter (\<lambda>row. row \<notin> set pending) (db_pending d)"
  by (simp add: acknowledge_documents_def Let_def)

text \<open>What a try does to the queue: the row goes away or everything stays.\<close>

lemma try_document_pending:
  "db_pending (fst (try_document q render row acc)) =
     (if isl (render (fst acc) (fst row)) then db_pending (fst acc) else filter (\<lambda>r. r \<noteq> row) (db_pending (fst acc)))"
  by (cases row; cases acc; cases "render (fst acc) (fst row)")
    (simp_all add: try_document_def render_pending_document_def Let_def)

lemma tried_pending_subset:
  "set (db_pending (fst (fold (try_document q render) batch acc))) \<subseteq> set (db_pending (fst acc))"
proof (induction batch arbitrary: acc)
  case (Cons row batch)
  have "set (db_pending (fst (try_document q render row acc))) \<subseteq> set (db_pending (fst acc))"
    by (auto simp: try_document_pending)
  then show ?case using Cons.IH [of "try_document q render row acc"] by simp
qed simp

lemma batch_rows: "row \<in> set (pending_batch d cursor) \<Longrightarrow> row \<in> set (db_pending d) \<and> cursor < fst row"
  by (auto simp: pending_batch_def dest!: in_set_takeD)

lemma batch_last:
  assumes "pending_batch d cursor \<noteq> []"
  shows "last (pending_batch d cursor) \<in> set (db_pending d)" "cursor < fst (last (pending_batch d cursor))"
  using batch_rows last_in_set [OF assms] by auto

text \<open>Progress: the rows beyond the cursor become fewer.\<close>

definition remaining :: "string \<Rightarrow> db \<Rightarrow> (string \<times> string) set" where
  "remaining cursor d = {row \<in> set (db_pending d). cursor < fst row}"

lemma remaining_decreases:
  assumes "pending_batch d cursor \<noteq> []" "set (db_pending d') \<subseteq> set (db_pending d)"
  shows "card (remaining (fst (last (pending_batch d cursor))) d') < card (remaining cursor d)"
proof (rule psubset_card_mono)
  show "remaining (fst (last (pending_batch d cursor))) d' \<subset> remaining cursor d"
    using assms(2) batch_last [OF assms(1)] unfolding remaining_def by (auto simp: psubset_eq)
qed (simp add: remaining_def)

function sync_loop :: "(string \<Rightarrow> string) \<Rightarrow> renderer \<Rightarrow> string \<Rightarrow> db \<times> error option \<Rightarrow> db \<times> error option" where
  "sync_loop json_quote render cursor acc =
     (let batch = pending_batch (fst acc) cursor in
      if batch = [] then acc
      else sync_loop json_quote render (fst (last batch)) (fold (try_document json_quote render) batch acc))"
  by pat_completeness auto
termination
  by (relation "measure (\<lambda>(q, render, cursor, acc). card (remaining cursor (fst acc)))")
    (use remaining_decreases tried_pending_subset in \<open>auto simp: Let_def\<close>)

declare sync_loop.simps [simp del]

text \<open>\<open>rebuild\<close> is the full publication that a pending rebuild asks for; \<open>clean\<close> removes the files of deleted work.\<close>

definition sync_pending ::
  "(string \<Rightarrow> string) \<Rightarrow> renderer \<Rightarrow> (db \<Rightarrow> db \<times> error option) \<Rightarrow> (db \<Rightarrow> db \<times> error option) \<Rightarrow> db \<Rightarrow> db \<times> error option" where
  "sync_pending json_quote render clean rebuild d =
     (case clean d of
        (d1, Some failure) \<Rightarrow> (d1, Some failure)
      | (d1, None) \<Rightarrow> if rebuild_pending d1 then rebuild d1 else sync_loop json_quote render [] (d1, None))"

section \<open>What one round does\<close>

text \<open>A renderer that fails on some keys, whatever the state of the database.\<close>

definition fails_on :: "renderer \<Rightarrow> (string \<Rightarrow> bool) \<Rightarrow> bool" where
  "fails_on render bad \<longleftrightarrow> (\<forall>d key. isl (render d key) \<longleftrightarrow> bad key)"

lemma try_document_error:
  assumes "fails_on render bad"
  shows "snd (try_document q render row (d, err)) = None \<longleftrightarrow> err = None \<and> \<not> bad (fst row)"
proof -
  have "bad (fst row) \<longleftrightarrow> isl (render d (fst row))" using assms by (simp add: fails_on_def)
  then show ?thesis
    by (cases row; cases "render d (fst row)"; cases err)
      (simp_all add: try_document_def render_pending_document_def or_else_def)
qed

lemma tried_pending:
  assumes "fails_on render bad"
  shows "db_pending (fst (fold (try_document q render) batch acc)) =
      filter (\<lambda>row. row \<in> set batch \<longrightarrow> bad (fst row)) (db_pending (fst acc))"
proof (induction batch arbitrary: acc)
  case (Cons row batch)
  have "db_pending (fst (try_document q render row acc)) = filter (\<lambda>r. r = row \<longrightarrow> bad (fst r)) (db_pending (fst acc))"
    using assms by (auto simp: try_document_pending fails_on_def intro!: filter_cong)
  then show ?case using Cons.IH [of "try_document q render row acc"] by (auto simp: intro!: filter_cong)
qed simp

lemma tried_error:
  assumes "fails_on render bad"
  shows "snd (fold (try_document q render) batch acc) = None \<longleftrightarrow> snd acc = None \<and> (\<forall>row \<in> set batch. \<not> bad (fst row))"
proof (induction batch arbitrary: acc)
  case (Cons row batch)
  then show ?case using try_document_error [OF assms, of q row "fst acc" "snd acc"] by auto
qed simp

lemma batch_sorted: "row \<in> set (pending_batch d cursor) \<Longrightarrow> fst row \<le> fst (last (pending_batch d cursor))"
proof -
  let ?batch = "pending_batch d cursor"
  assume row: "row \<in> set ?batch"
  have "sorted (map fst ?batch)" using sorted_sort_key [of fst] by (simp add: pending_batch_def sorted_wrt_take flip: take_map)
  moreover have "?batch = butlast ?batch @ [last ?batch]" using row by (cases ?batch rule: rev_cases) auto
  ultimately have "sorted (map fst (butlast ?batch) @ [fst (last ?batch)])" by (metis list.simps(8,9) map_append)
  moreover have "row \<in> set (butlast ?batch) \<or> row = last ?batch"
    using row by (cases ?batch rule: rev_cases) auto
  ultimately show ?thesis by (auto simp: sorted_append)
qed

lemma batch_complete:
  assumes "distinct (map fst (db_pending d))" "row \<in> set (db_pending d)" "cursor < fst row"
    and "pending_batch d cursor \<noteq> []" "fst row \<le> fst (last (pending_batch d cursor))"
  shows "row \<in> set (pending_batch d cursor)"
proof (rule ccontr)
  let ?xs = "sort_key fst (filter (\<lambda>(k, _). cursor < k) (db_pending d))"
  assume "row \<notin> set (pending_batch d cursor)"
  moreover have "row \<in> set ?xs" using assms(2,3) by auto
  then have "row \<in> set (take 128 ?xs @ drop 128 ?xs)" by (simp only: append_take_drop_id)
  ultimately have late: "row \<in> set (drop 128 ?xs)" by (simp only: set_append pending_batch_def Un_iff) blast
  have last: "last (take 128 ?xs) \<in> set (take 128 ?xs)" using assms(4) unfolding pending_batch_def by (rule last_in_set)
  have "sorted (map fst (take 128 ?xs) @ map fst (drop 128 ?xs))"
    using sorted_sort_key [of fst] by (simp only: append_take_drop_id flip: map_append)
  then have "fst (last (take 128 ?xs)) \<le> fst row" using last late by (simp only: sorted_append set_map) blast
  then have same: "fst row = fst (last (take 128 ?xs))" using assms(5) by (simp add: pending_batch_def)
  have "distinct (map fst (filter (\<lambda>(k, _). cursor < k) (db_pending d)))" using assms(1) by (rule distinct_map_filter)
  then have "distinct (map fst ?xs)" by (simp only: distinct_map distinct_sort set_sort)
  then have "distinct (map fst (take 128 ?xs) @ map fst (drop 128 ?xs))"
    by (simp only: append_take_drop_id flip: map_append)
  then show False using last late same by (simp only: distinct_append set_map) blast
qed

lemma sync_loop_pending:
  assumes "fails_on render bad" "distinct (map fst (db_pending (fst acc)))"
  shows "set (db_pending (fst (sync_loop q render cursor acc))) = {row \<in> set (db_pending (fst acc)). cursor < fst row \<longrightarrow> bad (fst row)}
    \<and> (snd (sync_loop q render cursor acc) = None \<longleftrightarrow>
         snd acc = None \<and> (\<forall>row \<in> set (db_pending (fst acc)). cursor < fst row \<longrightarrow> \<not> bad (fst row)))"
  using assms
proof (induction q render cursor acc rule: sync_loop.induct)
  case (1 q render cursor acc)
  let ?batch = "pending_batch (fst acc) cursor" and ?acc = "fold (try_document q render) (pending_batch (fst acc) cursor) acc"
  show ?case
  proof (cases "?batch = []")
    case True
    then have "set (sort_key fst (filter (\<lambda>(k, _). cursor < k) (db_pending (fst acc)))) = {}"
      by (simp only: pending_batch_def take_eq_Nil set_empty) simp
    then have "\<not> cursor < fst row" if "row \<in> set (db_pending (fst acc))" for row
      using that by (cases row) auto
    with True show ?thesis by (subst (1 2) sync_loop.simps) auto
  next
    case False
    let ?next = "fst (last ?batch)"
    have step: "sync_loop q render cursor acc = sync_loop q render ?next ?acc"
      using False by (subst sync_loop.simps) (simp add: Let_def)
    have pending: "db_pending (fst ?acc) = filter (\<lambda>row. row \<in> set ?batch \<longrightarrow> bad (fst row)) (db_pending (fst acc))"
      by (rule tried_pending [OF 1(2)])
    have "distinct (map fst (db_pending (fst ?acc)))" unfolding pending using 1(3) by (rule distinct_map_filter)
    note IH = 1(1) [OF refl False 1(2) this]
    have batch: "row \<in> set ?batch \<longleftrightarrow> cursor < fst row \<and> fst row \<le> ?next" if "row \<in> set (db_pending (fst acc))" for row
      using batch_complete [OF 1(3) that _ False] batch_rows [of row] batch_sorted [of row] by blast
    have "cursor < ?next" using batch_last(2) [OF False] .
    have "{row \<in> set (db_pending (fst ?acc)). ?next < fst row \<longrightarrow> bad (fst row)}
        = {row \<in> set (db_pending (fst acc)). cursor < fst row \<longrightarrow> bad (fst row)}"
      using batch \<open>cursor < ?next\<close> unfolding pending by (auto simp: not_le dest: less_trans)
    moreover have "(\<forall>row \<in> set ?batch. \<not> bad (fst row)) \<and> (\<forall>row \<in> set (db_pending (fst ?acc)). ?next < fst row \<longrightarrow> \<not> bad (fst row))
        \<longleftrightarrow> (\<forall>row \<in> set (db_pending (fst acc)). cursor < fst row \<longrightarrow> \<not> bad (fst row))"
      (is "?now \<and> ?later \<longleftrightarrow> ?all")
    proof
      assume both: "?now \<and> ?later"
      show ?all
      proof (intro ballI impI)
        fix row assume row: "row \<in> set (db_pending (fst acc))" "cursor < fst row"
        show "\<not> bad (fst row)"
        proof (cases "row \<in> set ?batch")
          case False
          then have "?next < fst row" using batch [OF row(1)] row(2) by (simp add: not_le)
          moreover have "row \<in> set (db_pending (fst ?acc))" using False row(1) by (simp add: pending)
          ultimately show ?thesis using both by blast
        qed (use both in blast)
      qed
    next
      assume ?all
      then show "?now \<and> ?later"
        using batch_rows less_trans [OF \<open>cursor < ?next\<close>] unfolding pending by auto
    qed
    ultimately show ?thesis using IH tried_error [OF 1(2), of q ?batch acc] unfolding step by simp
  qed
qed

end
