(* ===== verification/Dispatch.thy ===== *)
theory Dispatch
  imports Prelude
begin

text \<open>
  The admission queue of the gateway (\<open>agentix-core/src/dispatch.rs\<close>): bounded, ordered per resource, with
  readers that share a resource and transitions that exclude everything else. Instants are natural numbers
  of nanoseconds of one monotonic clock; counters and durations saturate as in the code.
\<close>

datatype 'k dispatch_scope =
    Keys "'k list"
  | Access "'k list" "'k list"
  | Global

definition scope_access :: "'k dispatch_scope \<Rightarrow> ('k list \<times> 'k list) option" where
  "scope_access s = (case s of Global \<Rightarrow> None | Keys ks \<Rightarrow> Some ([], ks) | Access shared exclusive \<Rightarrow> Some (shared, exclusive))"

definition u64_max :: nat where
  "u64_max = 2 ^ 64 - 1"

definition sat_u64 :: "nat \<Rightarrow> nat" where
  "sat_u64 n = min n u64_max"

definition duration_max :: nat where
  "duration_max = u64_max * 1000000000 + 999999999"

definition add_duration :: "nat \<Rightarrow> nat \<Rightarrow> nat" where
  "add_duration a b = min (a + b) duration_max"

record dispatch_statistics =
  ds_pending :: nat
  ds_active :: nat
  ds_admitted :: nat
  ds_rejected :: nat
  ds_started :: nat
  ds_completed :: nat
  ds_wait_total :: nat
  ds_wait_max :: nat
  ds_execution_total :: nat
  ds_execution_max :: nat
  ds_oldest_pending :: nat

record ('k, 't) dispatch_queue =
  dq_capacity :: nat
  dq_concurrency :: nat
  dq_next_id :: nat
  dq_pending :: "('t \<times> nat) list"
  dq_active :: "(nat \<times> 'k dispatch_scope) list"
  dq_started_at :: "(nat \<times> nat) list"
  dq_statistics :: dispatch_statistics

record 't dispatched =
  dp_id :: nat
  dp_work :: 't
  dp_queued_for :: nat

definition empty_statistics :: dispatch_statistics where
  "empty_statistics = \<lparr>ds_pending = 0, ds_active = 0, ds_admitted = 0, ds_rejected = 0, ds_started = 0, ds_completed = 0,
     ds_wait_total = 0, ds_wait_max = 0, ds_execution_total = 0, ds_execution_max = 0, ds_oldest_pending = 0\<rparr>"

definition new_queue :: "nat \<Rightarrow> nat \<Rightarrow> ('k, 't) dispatch_queue result" where
  "new_queue capacity concurrency =
     ensure (0 < capacity \<and> 0 < concurrency) (Failed ''dispatch limits must be positive'')
       (Inr \<lparr>dq_capacity = capacity, dq_concurrency = concurrency, dq_next_id = 0, dq_pending = [], dq_active = [],
             dq_started_at = [], dq_statistics = empty_statistics\<rparr>)"

definition is_full :: "('k, 't) dispatch_queue \<Rightarrow> bool" where
  "is_full q \<longleftrightarrow> dq_capacity q \<le> length (dq_pending q) + length (dq_active q)"

definition queue_is_empty :: "('k, 't) dispatch_queue \<Rightarrow> bool" where
  "queue_is_empty q \<longleftrightarrow> dq_pending q = [] \<and> dq_active q = []"

definition needs_routing :: "('k, 't) dispatch_queue \<Rightarrow> bool" where
  "needs_routing q \<longleftrightarrow> dq_pending q \<noteq> [] \<and> length (dq_active q) < dq_concurrency q"

definition queue_statistics :: "nat \<Rightarrow> ('k, 't) dispatch_queue \<Rightarrow> dispatch_statistics" where
  "queue_statistics now q =
     (dq_statistics q)\<lparr>ds_pending := length (dq_pending q), ds_active := length (dq_active q),
        ds_oldest_pending := (case dq_pending q of [] \<Rightarrow> 0 | (_, at) # _ \<Rightarrow> now - at)\<rparr>"

text \<open>The Boolean tells whether the work was admitted; a rejected work goes back to the caller.\<close>

definition try_push :: "nat \<Rightarrow> 't \<Rightarrow> ('k, 't) dispatch_queue \<Rightarrow> bool \<times> ('k, 't) dispatch_queue" where
  "try_push now work q =
     (if is_full q
      then (False, q\<lparr>dq_statistics := (dq_statistics q)\<lparr>ds_rejected := sat_u64 (ds_rejected (dq_statistics q) + 1)\<rparr>\<rparr>)
      else (True, q\<lparr>dq_pending := dq_pending q @ [(work, now)],
                    dq_statistics := (dq_statistics q)\<lparr>ds_admitted := sat_u64 (ds_admitted (dq_statistics q) + 1)\<rparr>\<rparr>))"

text \<open>The loop over the pending work: the index and the scope of the earliest runnable operation.\<close>

fun scan_pending ::
  "('t \<Rightarrow> 'k dispatch_scope) \<Rightarrow> bool \<Rightarrow> nat \<Rightarrow> 'k list \<Rightarrow> 'k list \<Rightarrow> ('t \<times> nat) list \<Rightarrow> (nat \<times> 'k dispatch_scope) option" where
  "scan_pending scope idle index readers writers [] = None"
| "scan_pending scope idle index readers writers (p # ps) =
     (case scope_access (scope (fst p)) of
        Some (shared, exclusive) \<Rightarrow>
          if list_ex (\<lambda>k. k \<in> set writers) shared \<or> list_ex (\<lambda>k. k \<in> set readers \<or> k \<in> set writers) exclusive
          then scan_pending scope idle (Suc index) (shared @ readers) (exclusive @ writers) ps
          else Some (index, scope (fst p))
      | None \<Rightarrow> if \<not> idle \<or> index \<noteq> 0 then None else Some (index, scope (fst p)))"

definition active_readers :: "('k, 't) dispatch_queue \<Rightarrow> 'k list" where
  "active_readers q = concat (map (\<lambda>(_, s). case scope_access s of None \<Rightarrow> [] | Some (shared, _) \<Rightarrow> shared) (dq_active q))"

definition active_writers :: "('k, 't) dispatch_queue \<Rightarrow> 'k list" where
  "active_writers q = concat (map (\<lambda>(_, s). case scope_access s of None \<Rightarrow> [] | Some (_, exclusive) \<Rightarrow> exclusive) (dq_active q))"

definition start_work ::
  "nat \<Rightarrow> nat \<Rightarrow> 'k dispatch_scope \<Rightarrow> ('k, 't) dispatch_queue \<Rightarrow> 't dispatched \<times> ('k, 't) dispatch_queue" where
  "start_work now index resources q =
     (let ident = dq_next_id q; (work, queued_at) = dq_pending q ! index; queued_for = now - queued_at; st = dq_statistics q in
      (\<lparr>dp_id = ident, dp_work = work, dp_queued_for = queued_for\<rparr>,
       q\<lparr>dq_next_id := ident + 1, dq_active := dq_active q @ [(ident, resources)],
         dq_pending := take index (dq_pending q) @ drop (Suc index) (dq_pending q),
         dq_started_at := dq_started_at q @ [(ident, now)],
         dq_statistics := st\<lparr>ds_started := sat_u64 (ds_started st + 1),
           ds_wait_total := add_duration (ds_wait_total st) queued_for,
           ds_wait_max := max (ds_wait_max st) queued_for\<rparr>\<rparr>))"

definition next_ready ::
  "nat \<Rightarrow> ('t \<Rightarrow> 'k dispatch_scope) \<Rightarrow> ('k, 't) dispatch_queue \<Rightarrow> ('t dispatched option \<times> ('k, 't) dispatch_queue) result" where
  "next_ready now scope q =
     (if dq_concurrency q \<le> length (dq_active q) then Inr (None, q)
      else if list_ex (\<lambda>(_, s). scope_access s = None) (dq_active q) then Inr (None, q)
      else (case scan_pending scope (dq_active q = []) 0 (active_readers q) (active_writers q) (dq_pending q) of
              None \<Rightarrow> Inr (None, q)
            | Some (index, resources) \<Rightarrow>
                ensure (dq_next_id q < u64_max) (Failed ''dispatch ID exhausted'')
                  (let (d, q') = start_work now index resources q in Inr (Some d, q'))))"

definition finish_work :: "nat \<Rightarrow> nat \<Rightarrow> ('k, 't) dispatch_queue \<Rightarrow> (bool \<times> ('k, 't) dispatch_queue) result" where
  "finish_work now ident q =
     (if map_of (dq_active q) ident = None then Inr (False, q)
      else
        attempt (of_option (Failed ''active dispatch timestamp'') (map_of (dq_started_at q) ident)) (\<lambda>at.
        let elapsed = now - at; st = dq_statistics q in
        Inr (True, q\<lparr>dq_active := filter (\<lambda>(k, _). k \<noteq> ident) (dq_active q),
                     dq_started_at := filter (\<lambda>(k, _). k \<noteq> ident) (dq_started_at q),
                     dq_statistics := st\<lparr>ds_completed := sat_u64 (ds_completed st + 1),
                       ds_execution_total := add_duration (ds_execution_total st) elapsed,
                       ds_execution_max := max (ds_execution_max st) elapsed\<rparr>\<rparr>)))"

end
