(* ===== verification/Dispatch_Laws.thy ===== *)
theory Dispatch_Laws
  imports Dispatch "HOL-Library.Code_Target_Nat"
begin

text \<open>
  Correctness of the admission queue: operations that run together never conflict, conflicting operations
  start in the order of their admission, and work that nothing blocks is dispatched.
\<close>

section \<open>Conflicts\<close>

definition conflicts :: "'k dispatch_scope \<Rightarrow> 'k dispatch_scope \<Rightarrow> bool" where
  "conflicts a b =
     (case (scope_access a, scope_access b) of
        (Some (sh, ex), Some (sh', ex')) \<Rightarrow> set ex \<inter> (set sh' \<union> set ex') \<noteq> {} \<or> set sh \<inter> set ex' \<noteq> {}
      | _ \<Rightarrow> True)"

definition shared_keys :: "'k dispatch_scope \<Rightarrow> 'k set" where
  "shared_keys s = (case scope_access s of None \<Rightarrow> {} | Some (sh, _) \<Rightarrow> set sh)"

definition exclusive_keys :: "'k dispatch_scope \<Rightarrow> 'k set" where
  "exclusive_keys s = (case scope_access s of None \<Rightarrow> {} | Some (_, ex) \<Rightarrow> set ex)"

lemma conflicts_Global [simp]: "conflicts s Global" "conflicts Global s"
  by (simp_all add: conflicts_def scope_access_def split: option.splits)

lemma conflicts_sym: "conflicts a b \<longleftrightarrow> conflicts b a"
  by (auto simp: conflicts_def split: option.splits)

lemma conflicts_access:
  "scope_access a \<noteq> None \<Longrightarrow> scope_access b \<noteq> None \<Longrightarrow> conflicts a b \<longleftrightarrow>
     exclusive_keys a \<inter> (shared_keys b \<union> exclusive_keys b) \<noteq> {} \<or> shared_keys a \<inter> exclusive_keys b \<noteq> {}"
  by (auto simp: conflicts_def shared_keys_def exclusive_keys_def)

lemma scope_access_None: "scope_access s = None \<longleftrightarrow> s = Global"
  by (cases s) (simp_all add: scope_access_def)

section \<open>The scan\<close>

text \<open>The earliest operation that conflicts with no holder and no earlier operation.\<close>

fun first_runnable :: "('t \<Rightarrow> 'k dispatch_scope) \<Rightarrow> 'k dispatch_scope list \<Rightarrow> ('t \<times> nat) list \<Rightarrow> nat option" where
  "first_runnable scope holders [] = None"
| "first_runnable scope holders (p # ps) =
     (if \<forall>h \<in> set holders. \<not> conflicts h (scope (fst p)) then Some 0
      else map_option Suc (first_runnable scope (holders @ [scope (fst p)]) ps))"

lemma first_runnable_Global: "Global \<in> set holders \<Longrightarrow> first_runnable scope holders ps = None"
  by (induction scope holders ps rule: first_runnable.induct) (auto intro!: bexI [of _ Global])

lemma scan_first_runnable:
  assumes "Global \<notin> set holders" "set readers = (\<Union>h \<in> set holders. shared_keys h)"
    and "set writers = (\<Union>h \<in> set holders. exclusive_keys h)" "idle \<and> i = 0 \<longleftrightarrow> holders = []"
  shows "scan_pending scope idle i readers writers ps =
    map_option (\<lambda>n. (i + n, scope (fst (ps ! n)))) (first_runnable scope holders ps)"
  using assms
proof (induction ps arbitrary: i readers writers holders)
  case (Cons p ps)
  let ?s = "scope (fst p)"
  show ?case
  proof (cases "scope_access ?s")
    case None
    then have "?s = Global" by (simp add: scope_access_None)
    then show ?thesis using Cons.prems(4) first_runnable_Global [of "holders @ [Global]" scope ps]
      by (cases holders) (auto simp: scope_access_def)
  next
    case (Some keys)
    obtain sh ex where keys: "scope_access ?s = Some (sh, ex)" using Some by (cases keys) simp
    have ks: "shared_keys ?s = set sh" "exclusive_keys ?s = set ex" by (simp_all add: keys shared_keys_def exclusive_keys_def)
    have "list_ex (\<lambda>k. k \<in> set writers) sh \<or> list_ex (\<lambda>k. k \<in> set readers \<or> k \<in> set writers) ex
        \<longleftrightarrow> (\<exists>h \<in> set holders. conflicts h ?s)" (is "?hit \<longleftrightarrow> _")
    proof -
      have "conflicts h ?s \<longleftrightarrow> exclusive_keys h \<inter> (set sh \<union> set ex) \<noteq> {} \<or> shared_keys h \<inter> set ex \<noteq> {}"
        if "h \<in> set holders" for h
        using that Cons.prems(1) conflicts_access [of h ?s] by (auto simp: scope_access_None keys ks)
      then show ?thesis unfolding list_ex_iff Cons.prems(2,3) by auto
    qed
    note hit = this
    have rest: "scan_pending scope idle (Suc i) (sh @ readers) (ex @ writers) ps =
        map_option (\<lambda>n. (Suc i + n, scope (fst (ps ! n)))) (first_runnable scope (holders @ [?s]) ps)"
    proof (rule Cons.IH)
      show "Global \<notin> set (holders @ [?s])" using Cons.prems(1) keys by (auto simp: scope_access_def)
    qed (use Cons.prems ks in auto)
    show ?thesis
    proof (cases ?hit)
      case True
      then show ?thesis using hit rest by (simp add: keys option.map_comp comp_def)
    next
      case False
      then have free: "\<forall>h \<in> set holders. \<not> conflicts h ?s" using hit by blast
      show ?thesis using False free by (simp only: scan_pending.simps keys option.case prod.case if_False first_runnable.simps) simp
    qed
  qed
qed simp

lemma first_runnable_Some:
  assumes "first_runnable scope holders ps = Some n"
  shows "n < length ps \<and> (\<forall>h \<in> set holders. \<not> conflicts h (scope (fst (ps ! n))))
    \<and> (\<forall>m < n. \<not> conflicts (scope (fst (ps ! m))) (scope (fst (ps ! n))))
    \<and> (\<forall>m < n. (\<exists>h \<in> set holders. conflicts h (scope (fst (ps ! m))))
         \<or> (\<exists>k < m. conflicts (scope (fst (ps ! k))) (scope (fst (ps ! m)))))"
  using assms
proof (induction scope holders ps arbitrary: n rule: first_runnable.induct)
  case (2 scope holders p ps)
  show ?case
  proof (cases "\<forall>h \<in> set holders. \<not> conflicts h (scope (fst p))")
    case True
    with 2(2) show ?thesis by simp
  next
    case False
    with 2(2) obtain k where k: "first_runnable scope (holders @ [scope (fst p)]) ps = Some k" "n = Suc k"
      by auto
    note IH = 2(1) [OF False k(1)]
    show ?thesis
      unfolding k(2) using IH False by (auto simp: All_less_Suc2 Ex_less_Suc2)
  qed
qed simp

lemma first_runnable_None:
  assumes "first_runnable scope holders ps = None" "n < length ps"
  shows "(\<exists>h \<in> set holders. conflicts h (scope (fst (ps ! n))))
    \<or> (\<exists>m < n. conflicts (scope (fst (ps ! m))) (scope (fst (ps ! n))))"
  using assms
proof (induction scope holders ps arbitrary: n rule: first_runnable.induct)
  case (2 scope holders p ps)
  from 2(2) have blocked: "\<not> (\<forall>h \<in> set holders. \<not> conflicts h (scope (fst p)))"
    and rest: "first_runnable scope (holders @ [scope (fst p)]) ps = None" by (auto split: if_splits)
  show ?case
  proof (cases n)
    case 0
    then show ?thesis using blocked by auto
  next
    case (Suc m)
    then show ?thesis using 2(1) [OF blocked rest, of m] 2(3) by (auto simp: Ex_less_Suc2)
  qed
qed simp

section \<open>One dispatch\<close>

lemma active_keys:
  assumes "\<not> list_ex (\<lambda>(_, s). scope_access s = None) (dq_active q)"
  shows "Global \<notin> set (map snd (dq_active q))"
    and "set (active_readers q) = (\<Union>h \<in> set (map snd (dq_active q)). shared_keys h)"
    and "set (active_writers q) = (\<Union>h \<in> set (map snd (dq_active q)). exclusive_keys h)"
  using assms
  by (force simp: list_ex_iff scope_access_None active_readers_def shared_keys_def active_writers_def exclusive_keys_def
      split: option.splits)+

definition runnable_index :: "('t \<Rightarrow> 'k dispatch_scope) \<Rightarrow> ('k, 't) dispatch_queue \<Rightarrow> nat option" where
  "runnable_index scope q = first_runnable scope (map snd (dq_active q)) (dq_pending q)"

lemma next_ready_eq:
  "next_ready now scope q =
     (if dq_concurrency q \<le> length (dq_active q) then Inr (None, q)
      else case runnable_index scope q of
        None \<Rightarrow> Inr (None, q)
      | Some n \<Rightarrow> ensure (dq_next_id q < u64_max) (Failed ''dispatch ID exhausted'')
          (Inr (Some (fst (start_work now n (scope (fst (dq_pending q ! n))) q)), snd (start_work now n (scope (fst (dq_pending q ! n))) q))))"
proof (cases "list_ex (\<lambda>(_, s). scope_access s = None) (dq_active q)")
  case True
  then have "Global \<in> set (map snd (dq_active q))" by (force simp: list_ex_iff scope_access_None)
  then have "runnable_index scope q = None" unfolding runnable_index_def by (rule first_runnable_Global)
  with True show ?thesis by (simp add: next_ready_def)
next
  case False
  have "scan_pending scope (dq_active q = []) 0 (active_readers q) (active_writers q) (dq_pending q) =
      map_option (\<lambda>n. (0 + n, scope (fst (dq_pending q ! n)))) (runnable_index scope q)"
    unfolding runnable_index_def by (rule scan_first_runnable) (use active_keys [OF False] in auto)
  with False show ?thesis
    by (auto simp: next_ready_def case_prod_beta Let_def split: option.splits)
qed

lemma next_ready_Some:
  assumes "next_ready now scope q = Inr (Some d, q')"
  obtains n where "runnable_index scope q = Some n" "length (dq_active q) < dq_concurrency q" "dq_next_id q < u64_max"
    "start_work now n (scope (fst (dq_pending q ! n))) q = (d, q')"
  using assms by (auto simp: next_ready_eq result_simps prod_eq_iff split: if_splits option.splits)

lemma next_ready_None: "next_ready now scope q = Inr (None, q') \<Longrightarrow> q' = q"
  by (auto simp: next_ready_eq result_simps split: if_splits option.splits)

lemma start_work_fields:
  assumes "start_work now n r q = (d, q')"
  shows "dp_work d = fst (dq_pending q ! n)" "dp_id d = dq_next_id q"
    "dq_pending q' = take n (dq_pending q) @ drop (Suc n) (dq_pending q)"
    "dq_active q' = dq_active q @ [(dq_next_id q, r)]" "dq_next_id q' = dq_next_id q + 1"
    "dq_started_at q' = dq_started_at q @ [(dq_next_id q, now)]"
    "dq_capacity q' = dq_capacity q" "dq_concurrency q' = dq_concurrency q"
  using assms by (auto simp: start_work_def Let_def split: prod.splits)

section \<open>Invariants of the queue\<close>

text \<open>The interface of the queue's clients: they push, dispatch with some routing, and finish.\<close>

locale queue_invariant =
  fixes inv :: "('k, 't) dispatch_queue \<Rightarrow> bool"
  assumes new_inv: "new_queue capacity concurrency = Inr q \<Longrightarrow> inv q"
    and push_inv: "inv q \<Longrightarrow> inv (snd (try_push now work q))"
    and next_inv: "inv q \<Longrightarrow> next_ready now scope q = Inr (x, q') \<Longrightarrow> inv q'"
    and finish_inv: "inv q \<Longrightarrow> finish_work now ident q = Inr (b, q') \<Longrightarrow> inv q'"

inductive queue_reachable :: "('k, 't) dispatch_queue \<Rightarrow> bool" where
  new: "new_queue capacity concurrency = Inr q \<Longrightarrow> queue_reachable q"
| push: "queue_reachable q \<Longrightarrow> queue_reachable (snd (try_push now work q))"
| dispatch: "queue_reachable q \<Longrightarrow> next_ready now scope q = Inr (x, q') \<Longrightarrow> queue_reachable q'"
| finish: "queue_reachable q \<Longrightarrow> finish_work now ident q = Inr (b, q') \<Longrightarrow> queue_reachable q'"

context queue_invariant
begin

lemma always: "queue_reachable q \<Longrightarrow> inv q"
  by (induction rule: queue_reachable.induct) (blast intro: new_inv push_inv next_inv finish_inv)+

end

definition queue_ok :: "('k, 't) dispatch_queue \<Rightarrow> bool" where
  "queue_ok q \<longleftrightarrow>
     distinct (map fst (dq_active q)) \<and> (\<forall>a \<in> set (dq_active q). fst a < dq_next_id q)
     \<and> (\<forall>a \<in> set (dq_active q). \<forall>b \<in> set (dq_active q). fst a \<noteq> fst b \<longrightarrow> \<not> conflicts (snd a) (snd b))
     \<and> map fst (dq_started_at q) = map fst (dq_active q)
     \<and> length (dq_active q) \<le> dq_concurrency q
     \<and> length (dq_pending q) + length (dq_active q) \<le> dq_capacity q"

lemma queue_ok_start:
  assumes ok: "queue_ok q" and r: "next_ready now scope q = Inr (Some d, q')"
  shows "queue_ok q'"
proof -
  obtain n where n: "runnable_index scope q = Some n" "length (dq_active q) < dq_concurrency q"
      "start_work now n (scope (fst (dq_pending q ! n))) q = (d, q')"
    using r by (rule next_ready_Some)
  have "n < length (dq_pending q)" "\<forall>s \<in> set (map snd (dq_active q)). \<not> conflicts s (scope (fst (dq_pending q ! n)))"
    using first_runnable_Some [OF n(1) [unfolded runnable_index_def]] by auto
  then show ?thesis
    using ok n(2) start_work_fields [OF n(3)] conflicts_sym unfolding queue_ok_def by auto
qed

lemma queue_ok_finish:
  assumes ok: "queue_ok q" and f: "finish_work now ident q = Inr (b, q')"
  shows "queue_ok q'"
proof (cases b)
  case False
  then show ?thesis using ok f by (auto simp: finish_work_def result_simps Let_def split: if_splits)
next
  case True
  then have q': "dq_active q' = filter (\<lambda>(k, _). k \<noteq> ident) (dq_active q)" "dq_pending q' = dq_pending q"
      "dq_started_at q' = filter (\<lambda>(k, _). k \<noteq> ident) (dq_started_at q)" "dq_next_id q' = dq_next_id q"
      "dq_capacity q' = dq_capacity q" "dq_concurrency q' = dq_concurrency q"
    using f by (auto simp: finish_work_def result_simps Let_def split: if_splits)
  have keys: "map fst (filter (\<lambda>(k, _). k \<noteq> ident) xs) = filter (\<lambda>k. k \<noteq> ident) (map fst xs)" for xs :: "(nat \<times> 'x) list"
    by (induction xs) auto
  have "length (filter (\<lambda>(k, _). k \<noteq> ident) (dq_active q)) \<le> length (dq_active q)" by (rule length_filter_le)
  then show ?thesis using ok unfolding queue_ok_def q' keys
    by (elim conjE, intro conjI; (rule distinct_filter | linarith | (simp; fail) | (auto; fail)))
qed

interpretation admission: queue_invariant queue_ok
proof
  show "queue_ok q" if "new_queue capacity concurrency = Inr q" for capacity concurrency and q :: "('k, 't) dispatch_queue"
    using that by (auto simp: new_queue_def queue_ok_def result_simps)
  show "queue_ok (snd (try_push now work q))" if "queue_ok q" for now work and q :: "('k, 't) dispatch_queue"
    using that by (auto simp: try_push_def queue_ok_def is_full_def)
  show "queue_ok q'" if "queue_ok q" "next_ready now scope q = Inr (x, q')" for now scope x and q q' :: "('k, 't) dispatch_queue"
    using that queue_ok_start next_ready_None by (cases x) blast+
qed (rule queue_ok_finish)

section \<open>A concrete queue\<close>

text \<open>Two operations on the same resource and one on another.\<close>

definition demo_scope :: "string \<Rightarrow> string dispatch_scope" where
  "demo_scope w = (if w = ''recover'' then Global else Access [''codex''] [take 1 w])"

definition queue_of :: "string list \<Rightarrow> (string, string) dispatch_queue" where
  "queue_of works = fold (\<lambda>w q. snd (try_push 0 w q)) works
     \<lparr>dq_capacity = 8, dq_concurrency = 4, dq_next_id = 0, dq_pending = [], dq_active = [], dq_started_at = [],
      dq_statistics = empty_statistics\<rparr>"

definition demo_queue :: "nat \<Rightarrow> (string, string) dispatch_queue" where
  "demo_queue k = (case fold_result (\<lambda>q now. attempt (next_ready now demo_scope q) (\<lambda>(_, q'). Inr q'))
      (queue_of [''a1'', ''a2'', ''b1'', ''recover'']) [0..<k] of Inr q \<Rightarrow> q | Inl _ \<Rightarrow> queue_of [])"

lemma queue_reachable_of: "queue_reachable (queue_of works)"
proof -
  have "queue_reachable (fold (\<lambda>w q. snd (try_push 0 w q)) ws q)" if "queue_reachable q"
    for ws and q :: "(string, string) dispatch_queue"
    using that by (induction ws arbitrary: q) (auto intro: queue_reachable.push)
  moreover have "new_queue 8 4 = Inr \<lparr>dq_capacity = 8, dq_concurrency = 4, dq_next_id = 0, dq_pending = [], dq_active = [], dq_started_at = [],
      dq_statistics = empty_statistics\<rparr>" by (simp add: new_queue_def)
  ultimately show ?thesis unfolding queue_of_def by (blast intro: queue_reachable.new)
qed

lemma queue_reachable_demo: "queue_reachable (demo_queue k)"
proof -
  have "queue_reachable q" if "fold_result (\<lambda>q now. attempt (next_ready now demo_scope q) (\<lambda>(_, q'). Inr q'))
      (queue_of [''a1'', ''a2'', ''b1'', ''recover'']) [0..<k] = Inr q" for q
    using fold_result_invariant [OF that, of queue_reachable] queue_reachable_of
    by (auto simp: result_simps intro: queue_reachable.dispatch)
  then show ?thesis by (auto simp: demo_queue_def queue_reachable_of split: sum.splits)
qed

section \<open>Properties\<close>

text \<open>C31: whatever the routes are at each dispatch, operations that run at the same time never conflict: no
  two share a resource that one of them holds exclusively, and a global transition runs alone. The number of
  running and of admitted operations stays within the limits, and every running operation has its time
  stamp, so that finishing it cannot panic.\<close>

theorem dispatch_exclusive:
  assumes "queue_reachable q"
  shows "(\<forall>a \<in> set (dq_active q). \<forall>b \<in> set (dq_active q). fst a \<noteq> fst b \<longrightarrow> \<not> conflicts (snd a) (snd b))
    \<and> length (dq_active q) \<le> dq_concurrency q
    \<and> length (dq_pending q) + length (dq_active q) \<le> dq_capacity q
    \<and> (\<forall>now ident. is_ok (finish_work now ident q))"
proof -
  have ok: "queue_ok q" using assms by (rule admission.always)
  have "is_ok (finish_work now ident q)" for now ident
  proof (cases "map_of (dq_active q) ident")
    case (Some s)
    then have "ident \<in> fst ` set (dq_active q)" by (metis domI dom_map_of_conv_image_fst)
    then have "ident \<in> fst ` set (dq_started_at q)" using ok by (metis list.set_map queue_ok_def)
    then obtain at where "map_of (dq_started_at q) ident = Some at" by (metis domD dom_map_of_conv_image_fst)
    then show ?thesis by (simp add: finish_work_def Some of_option_def Let_def is_ok_def)
  qed (simp add: finish_work_def is_ok_def)
  with ok show ?thesis by (simp add: queue_ok_def)
qed

theorem dispatch_exclusive_witness:
  "length (dq_active (demo_queue 3)) = 2
    \<and> \<not> conflicts (snd (dq_active (demo_queue 3) ! 0)) (snd (dq_active (demo_queue 3) ! 1))"
proof -
  have two: "length (dq_active (demo_queue 3)) = 2 \<and> fst (dq_active (demo_queue 3) ! 0) \<noteq> fst (dq_active (demo_queue 3) ! 1)"
    by code_simp
  then have "dq_active (demo_queue 3) ! 0 \<in> set (dq_active (demo_queue 3))"
      "dq_active (demo_queue 3) ! 1 \<in> set (dq_active (demo_queue 3))" by simp_all
  with two show ?thesis using dispatch_exclusive [OF queue_reachable_demo, of 3] by blast
qed

text \<open>C32: conflicting operations start in the order of their admission. The operation that a dispatch starts
  conflicts with nothing that runs and with nothing that was admitted before it and still waits, and it is
  the first one with this property: everything before it is blocked.\<close>

theorem dispatch_in_order:
  assumes "next_ready now scope q = Inr (Some d, q')"
  shows "\<exists>n < length (dq_pending q). dp_work d = fst (dq_pending q ! n)
    \<and> dq_pending q' = take n (dq_pending q) @ drop (Suc n) (dq_pending q)
    \<and> dq_active q' = dq_active q @ [(dp_id d, scope (dp_work d))]
    \<and> (\<forall>a \<in> set (dq_active q). \<not> conflicts (snd a) (scope (dp_work d)))
    \<and> (\<forall>m < n. \<not> conflicts (scope (fst (dq_pending q ! m))) (scope (dp_work d)))
    \<and> (\<forall>m < n. (\<exists>a \<in> set (dq_active q). conflicts (snd a) (scope (fst (dq_pending q ! m))))
         \<or> (\<exists>k < m. conflicts (scope (fst (dq_pending q ! k))) (scope (fst (dq_pending q ! m)))))"
proof -
  obtain n where n: "runnable_index scope q = Some n"
      "start_work now n (scope (fst (dq_pending q ! n))) q = (d, q')"
    using assms by (rule next_ready_Some)
  from first_runnable_Some [OF n(1) [unfolded runnable_index_def]] start_work_fields [OF n(2)]
  show ?thesis by (intro exI [of _ n]) simp
qed

theorem dispatch_in_order_witness:
  "\<exists>d q'. next_ready 1 demo_scope (demo_queue 1) = Inr (Some d, q') \<and> dp_work d = ''b1''
     \<and> (\<forall>a \<in> set (dq_active (demo_queue 1)). \<not> conflicts (snd a) (demo_scope ''b1''))"
proof -
  have "(case next_ready 1 demo_scope (demo_queue 1) of Inr (Some d, _) \<Rightarrow> dp_work d = ''b1'' | _ \<Rightarrow> False)" by code_simp
  then obtain d q' where d: "next_ready 1 demo_scope (demo_queue 1) = Inr (Some d, q')" "dp_work d = ''b1''"
    by (auto split: sum.splits prod.splits option.splits)
  from dispatch_in_order [OF d(1)] d show ?thesis by metis
qed

text \<open>C33: no work is forgotten. A dispatch that starts nothing leaves the queue as it is, and then either all
  workers are busy or every waiting operation is blocked by a running or an earlier one; in particular the
  oldest operation starts at once whenever nothing that runs conflicts with it.\<close>

theorem dispatch_progress:
  assumes "next_ready now scope q = Inr (x, q')"
  shows "(x = None \<longrightarrow> q' = q \<and> (dq_concurrency q \<le> length (dq_active q)
        \<or> (\<forall>n < length (dq_pending q). (\<exists>a \<in> set (dq_active q). conflicts (snd a) (scope (fst (dq_pending q ! n))))
             \<or> (\<exists>m < n. conflicts (scope (fst (dq_pending q ! m))) (scope (fst (dq_pending q ! n)))))))
    \<and> (dq_pending q \<noteq> [] \<longrightarrow> length (dq_active q) < dq_concurrency q
        \<longrightarrow> (\<forall>a \<in> set (dq_active q). \<not> conflicts (snd a) (scope (fst (hd (dq_pending q)))))
        \<longrightarrow> (\<exists>d. x = Some d \<and> dp_work d = fst (hd (dq_pending q))))"
proof -
  have "dq_concurrency q \<le> length (dq_active q) \<or> runnable_index scope q = None" if "x = None"
    using assms that by (auto simp: next_ready_eq result_simps split: if_splits option.splits)
  then have idle: "dq_concurrency q \<le> length (dq_active q)
        \<or> (\<forall>n < length (dq_pending q). (\<exists>a \<in> set (dq_active q). conflicts (snd a) (scope (fst (dq_pending q ! n))))
             \<or> (\<exists>m < n. conflicts (scope (fst (dq_pending q ! m))) (scope (fst (dq_pending q ! n)))))" if "x = None"
    using that first_runnable_None [of scope "map snd (dq_active q)" "dq_pending q"] by (auto simp: runnable_index_def)
  have "\<exists>d. x = Some d \<and> dp_work d = fst (hd (dq_pending q))"
    if head: "dq_pending q \<noteq> []" "length (dq_active q) < dq_concurrency q"
      "\<forall>a \<in> set (dq_active q). \<not> conflicts (snd a) (scope (fst (hd (dq_pending q))))"
  proof -
    have "runnable_index scope q = Some 0"
      using head(1,3) by (cases "dq_pending q") (auto simp: runnable_index_def)
    with assms head(1,2) show ?thesis
      by (auto simp: next_ready_eq result_simps start_work_def Let_def hd_conv_nth split: prod.splits)
  qed
  moreover have "x = None \<Longrightarrow> q' = q" using assms next_ready_None by blast
  ultimately show ?thesis using idle by blast
qed

theorem dispatch_progress_witness:
  "next_ready 2 demo_scope (demo_queue 2) = Inr (None, demo_queue 2)
     \<and> (\<exists>a \<in> set (dq_active (demo_queue 2)). conflicts (snd a) (demo_scope ''a2''))"
proof -
  have "(let q = demo_queue 2 in map fst (dq_pending q) = [''a2'', ''recover''] \<and> length (dq_active q) < dq_concurrency q
      \<and> (case next_ready 2 demo_scope q of Inr (None, _) \<Rightarrow> True | _ \<Rightarrow> False))" by code_simp
  then obtain q' where q: "next_ready 2 demo_scope (demo_queue 2) = Inr (None, q')"
      "map fst (dq_pending (demo_queue 2)) = [''a2'', ''recover'']"
      "length (dq_active (demo_queue 2)) < dq_concurrency (demo_queue 2)"
    by (auto simp: Let_def split: sum.splits prod.splits option.splits)
  then have head: "dq_pending (demo_queue 2) \<noteq> []" "fst (hd (dq_pending (demo_queue 2))) = ''a2''" by (auto simp: hd_conv_nth)
  from dispatch_progress [OF q(1)] head q(1,3) show ?thesis by auto
qed

end
