(* ===== verification/Pacing.thy ===== *)
theory Pacing
  imports Main "HOL-Library.AList" "HOL-Library.Code_Target_Nat" "HOL-Library.Code_Target_Int"
begin

text \<open>
  The rate limiter of the Telegram channel (\<open>agentix-telegram/src/rate_limit.rs\<close>): global pacing, pacing per
  chat, and the cooldown after a 429 answer. Instants and durations are natural numbers of nanoseconds. One
  iteration of the loop of \<open>reserve\<close> is one step, because the lock is released while the task sleeps.
\<close>

definition milliseconds :: "nat \<Rightarrow> nat" where
  "milliseconds n = n * 1000000"

record pace_state =
  next_request :: "nat option"
  blocked_until :: "nat option"
  next_chat :: "(int \<times> nat) list"

definition idle_state :: pace_state where
  "idle_state = \<lparr>next_request = None, blocked_until = None, next_chat = []\<rparr>"

definition unwrap_or :: "nat option \<Rightarrow> nat \<Rightarrow> nat" where
  "unwrap_or x d = (case x of None \<Rightarrow> d | Some v \<Rightarrow> v)"

definition chat_interval :: "int \<Rightarrow> nat" where
  "chat_interval chat = milliseconds (if chat < 0 then 3100 else 1100)"

definition reserve_deadline :: "nat \<Rightarrow> int option \<Rightarrow> pace_state \<Rightarrow> nat" where
  "reserve_deadline now chat st =
     (let deadline = max (unwrap_or (next_request st) now) (unwrap_or (blocked_until st) now) in
      case Option.bind chat (map_of (next_chat st)) of
        Some n \<Rightarrow> max deadline n
      | None \<Rightarrow> deadline)"

text \<open>\<open>Some deadline\<close>: the task sleeps until then and tries again; \<open>None\<close>: the request may be sent now.\<close>

definition reserve_once :: "nat \<Rightarrow> int option \<Rightarrow> pace_state \<Rightarrow> nat option \<times> pace_state" where
  "reserve_once now chat st =
     (if reserve_deadline now chat st \<le> now
      then (None, st\<lparr>next_request := Some (now + milliseconds 50),
              next_chat :=
                (let kept = filter (\<lambda>(_, n). now < n) (next_chat st) in
                 case chat of None \<Rightarrow> kept | Some c \<Rightarrow> AList.update c (now + chat_interval c) kept)\<rparr>)
      else (Some (reserve_deadline now chat st), st))"

definition retry_after :: "nat \<Rightarrow> nat \<Rightarrow> pace_state \<Rightarrow> pace_state" where
  "retry_after now delay st =
     (let deadline = now + delay + milliseconds 100 in
      st\<lparr>blocked_until := Some (case blocked_until st of None \<Rightarrow> deadline | Some current \<Rightarrow> max current deadline)\<rparr>)"

section \<open>Runs\<close>

text \<open>
  The history of a limiter shared by any number of tasks, newest event first: a request that was sent for a
  chat, or a 429 answer with its delay. The answer was read at some instant before the lock was taken.
\<close>

datatype pace_event = Sent nat "int option" | Limited nat nat

inductive paced :: "pace_event list \<Rightarrow> nat \<Rightarrow> pace_state \<Rightarrow> bool" where
  idle: "paced [] start idle_state"
| waiting: "paced es t st \<Longrightarrow> t \<le> now \<Longrightarrow> reserve_once now chat st = (Some deadline, st') \<Longrightarrow> paced es now st'"
| send: "paced es t st \<Longrightarrow> t \<le> now \<Longrightarrow> reserve_once now chat st = (None, st') \<Longrightarrow> paced (Sent now chat # es) now st'"
| limited: "paced es t st \<Longrightarrow> t \<le> now \<Longrightarrow> answered \<le> now \<Longrightarrow> paced (Limited answered delay # es) now (retry_after answered delay st)"


text \<open>What an event may do after an earlier one.\<close>

definition may_follow :: "pace_event \<Rightarrow> pace_event \<Rightarrow> bool" where
  "may_follow later earlier =
     (case later of
        Limited _ _ \<Rightarrow> True
      | Sent t chat \<Rightarrow>
          (case earlier of
             Sent t' chat' \<Rightarrow>
               t' + milliseconds 50 \<le> t
               \<and> (case chat of None \<Rightarrow> True | Some c \<Rightarrow> (if chat' = Some c then t' + chat_interval c \<le> t else True))
           | Limited at delay \<Rightarrow> at + delay + milliseconds 100 \<le> t))"

text \<open>What the state remembers of an event.\<close>

definition remembered :: "nat \<Rightarrow> pace_state \<Rightarrow> pace_event \<Rightarrow> bool" where
  "remembered now st ev =
     (case ev of
        Sent t chat \<Rightarrow>
          t + milliseconds 50 \<le> unwrap_or (next_request st) 0
          \<and> (case chat of None \<Rightarrow> True
              | Some c \<Rightarrow> (case map_of (next_chat st) c of None \<Rightarrow> t + chat_interval c \<le> now | Some n \<Rightarrow> t + chat_interval c \<le> n))
      | Limited at delay \<Rightarrow> at + delay + milliseconds 100 \<le> unwrap_or (blocked_until st) 0)"

lemma reserve_ready:
  assumes "reserve_once now chat st = (None, st')"
  shows "unwrap_or (next_request st) 0 \<le> now" "unwrap_or (blocked_until st) 0 \<le> now"
    "\<And>c n. chat = Some c \<Longrightarrow> map_of (next_chat st) c = Some n \<Longrightarrow> n \<le> now"
    "next_request st' = Some (now + milliseconds 50)" "blocked_until st' = blocked_until st"
    "next_chat st' = (case chat of None \<Rightarrow> filter (\<lambda>(_, n). now < n) (next_chat st)
       | Some c \<Rightarrow> AList.update c (now + chat_interval c) (filter (\<lambda>(_, n). now < n) (next_chat st)))"
  using assms by (auto simp: reserve_once_def reserve_deadline_def unwrap_or_def Let_def split: if_splits option.splits)

lemma remembered_allows:
  assumes "remembered now st ev" "reserve_once now chat st = (None, st')"
  shows "may_follow (Sent now chat) ev"
  using assms(1) reserve_ready(1-3) [OF assms(2)]
  by (cases ev) (force simp: remembered_def may_follow_def split: option.splits)+

lemma map_of_kept:
  assumes "distinct (map fst xs)"
  shows "map_of (filter (\<lambda>(_, n). now < n) xs) c = (case map_of xs c of Some n \<Rightarrow> if now < n then Some n else None | None \<Rightarrow> None)"
  using assms
proof (induction xs)
  case (Cons a xs)
  obtain k n where a: "a = (k, n)" by (cases a)
  have "map_of xs k = None" using Cons.prems by (simp add: a map_of_eq_None_iff)
  with Cons show ?case by (auto simp: a)
qed simp

lemma remembered_later: "remembered t st ev \<Longrightarrow> t \<le> now \<Longrightarrow> remembered now st ev"
  by (cases ev) (auto simp: remembered_def split: option.splits)

lemma paced_invariant:
  assumes "paced es t st"
  shows "sorted_wrt may_follow es \<and> (\<forall>ev \<in> set es. remembered t st ev) \<and> distinct (map fst (next_chat st))"
  using assms
proof (induction rule: paced.induct)
  case (send es t st now chat st')
  have now: "remembered now st ev" if "ev \<in> set es" for ev
    using send.IH that send.hyps(2) remembered_later by blast
  note ready = reserve_ready [OF send.hyps(3)]
  have distinct: "distinct (map fst (next_chat st'))"
    using send.IH by (auto simp: ready(6) distinct_update distinct_map_filter split: option.splits)
  have chats: "map_of (next_chat st') c = (if chat = Some c then Some (now + chat_interval c)
      else case map_of (next_chat st) c of Some n \<Rightarrow> if now < n then Some n else None | None \<Rightarrow> None)" for c
    using map_of_kept [of "next_chat st" now] send.IH by (cases chat) (simp_all add: ready(6) update_conv')
  have keep: "remembered now st' ev" if "ev \<in> set es" for ev
  proof (cases ev)
    case (Sent t' chat')
    have old: "t' + milliseconds 50 \<le> now" "\<And>c. chat' = Some c \<Longrightarrow> map_of (next_chat st) c = None \<Longrightarrow> t' + chat_interval c \<le> now"
        "\<And>c n. chat' = Some c \<Longrightarrow> map_of (next_chat st) c = Some n \<Longrightarrow> t' + chat_interval c \<le> n"
      using now [OF that] ready(1) by (auto simp: Sent remembered_def split: option.splits)
    have "case map_of (next_chat st') c of None \<Rightarrow> t' + chat_interval c \<le> now | Some n \<Rightarrow> t' + chat_interval c \<le> n" if "chat' = Some c" for c
      using old(1) old(2,3) [OF that] by (cases "map_of (next_chat st) c") (auto simp: chats split: if_splits)
    then show ?thesis using old(1) by (auto simp: Sent remembered_def ready(4) unwrap_or_def split: option.splits)
  qed (use now [OF that] in \<open>auto simp: remembered_def ready(5)\<close>)
  moreover have "remembered now st' (Sent now chat)"
    by (auto simp: remembered_def ready(4) unwrap_or_def chats split: option.splits)
  ultimately show ?case using send.IH now remembered_allows [OF _ send.hyps(3)] distinct by auto
next
  case (waiting es t st now chat deadline st')
  then have "st' = st" by (auto simp: reserve_once_def split: if_splits)
  moreover have "remembered now st ev" if "ev \<in> set es" for ev
    using waiting.IH that waiting.hyps(2) remembered_later by blast
  ultimately show ?case using waiting.IH by blast
next
  case (limited es t st now answered delay)
  have "remembered now (retry_after answered delay st) ev" if "ev \<in> set es" for ev
  proof -
    have "remembered now st ev" using limited.IH that limited.hyps(2) remembered_later by blast
    then show ?thesis
      by (cases ev) (auto simp: remembered_def retry_after_def unwrap_or_def Let_def split: option.splits)
  qed
  moreover have "remembered now (retry_after answered delay st) (Limited answered delay)"
    by (simp add: remembered_def retry_after_def unwrap_or_def Let_def split: option.splits)
  ultimately show ?case
    using limited.IH by (auto simp: may_follow_def retry_after_def Let_def)
qed (simp add: idle_state_def)

section \<open>Properties\<close>

text \<open>A task that sleeps until its deadline is served then, unless the state changed meanwhile.\<close>

lemma reserve_wakes:
  assumes "reserve_once now chat st = (Some deadline, st')"
  shows "st' = st" "now < deadline" "now \<le> t \<Longrightarrow> fst (reserve_once t chat st) = None \<longleftrightarrow> deadline \<le> t"
  using assms
  by (auto simp: reserve_once_def reserve_deadline_def unwrap_or_def Let_def max_def split: if_splits option.splits)

text \<open>C34: however many tasks share the limiter and however they interleave, two requests are at least 50 ms
  apart, two requests for the same chat at least 1.1 s and for the same group (a negative identifier) at
  least 3.1 s, and after a 429 answer nothing is sent until its delay and another 100 ms have passed.\<close>

theorem requests_are_paced:
  assumes "paced (newer @ Sent t chat # older) now st"
  shows "(\<forall>t' chat'. Sent t' chat' \<in> set older \<longrightarrow> t' + 50 * 1000000 \<le> t
        \<and> (\<forall>c. chat = Some c \<and> chat' = Some c \<longrightarrow> t' + (if c < 0 then 3100 else 1100) * 1000000 \<le> t))
    \<and> (\<forall>answered delay. Limited answered delay \<in> set older \<longrightarrow> answered + delay + 100 * 1000000 \<le> t)"
proof -
  have follow: "may_follow (Sent t chat) ev" if "ev \<in> set older" for ev
    using paced_invariant [OF assms] that by (simp add: sorted_wrt_append)
  have "t' + 50 * 1000000 \<le> t \<and> (\<forall>c. chat = Some c \<and> chat' = Some c \<longrightarrow> t' + (if c < 0 then 3100 else 1100) * 1000000 \<le> t)"
    if "Sent t' chat' \<in> set older" for t' chat'
    using follow [OF that] by (auto simp: may_follow_def milliseconds_def chat_interval_def)
  moreover have "answered + delay + 100 * 1000000 \<le> t" if "Limited answered delay \<in> set older" for answered delay
    using follow [OF that] by (simp add: may_follow_def milliseconds_def)
  ultimately show ?thesis by blast
qed

theorem requests_are_paced_witness:
  "\<exists>st. paced [Sent 3000000000 (Some 7), Limited 1100000000 1000000000, Sent 0 (Some 7)] 3000000000 st
     \<and> (1100000000 :: nat) + 1000000000 + 100 * 1000000 \<le> 3000000000"
proof -
  define st where "st = snd (reserve_once 0 (Some 7) idle_state)"
  have first: "paced [Sent 0 (Some 7)] 0 st"
    using paced.send [OF paced.idle [of 0], of 0 "Some 7" st]
    by (simp add: st_def reserve_once_def reserve_deadline_def idle_state_def unwrap_or_def)
  then have second: "paced [Limited 1100000000 1000000000, Sent 0 (Some 7)] 1200000000 (retry_after 1100000000 1000000000 st)"
    by (rule paced.limited) simp_all
  have "fst (reserve_once 3000000000 (Some 7) (retry_after 1100000000 1000000000 st)) = None"
    unfolding st_def by code_simp
  then have third: "paced [Sent 3000000000 (Some 7), Limited 1100000000 1000000000, Sent 0 (Some 7)] 3000000000
      (snd (reserve_once 3000000000 (Some 7) (retry_after 1100000000 1000000000 st)))"
    using paced.send [OF second, of 3000000000 "Some 7"] by (simp add: prod_eq_iff)
  from requests_are_paced [of "[]" 3000000000 "Some 7", simplified, OF third] third show ?thesis by auto
qed

end
