(* ===== verification/Bindings.thy ===== *)
theory Bindings
  imports Main "HOL-Library.Code_Target_Nat"
begin

text \<open>
  The table that binds conversations of the chat channels to agent sessions
  (\<open>agentix-domain/src/binding.rs\<close>). The hash maps are partial functions; epochs are 64-bit counters that
  saturate.
\<close>

datatype event_importance = Stream | Critical

datatype delivery_class = Live | Draining

record ('c, 's) attach_outcome =
  ao_previous_session :: "'s option"
  ao_displaced_conversation :: "'c option"
  ao_epoch :: nat

record ('c, 's) binding_table =
  by_conversation :: "'c \<rightharpoonup> 's"
  by_session :: "'s \<rightharpoonup> 'c"
  draining :: "'s \<rightharpoonup> 'c"
  epochs :: "'c \<rightharpoonup> nat"

definition empty_table :: "('c, 's) binding_table" where
  "empty_table = \<lparr>by_conversation = Map.empty, by_session = Map.empty, draining = Map.empty, epochs = Map.empty\<rparr>"

definition next_epoch :: "nat \<Rightarrow> nat" where
  "next_epoch n = min (n + 1) (2 ^ 64 - 1)"

definition table_epoch :: "('c, 's) binding_table \<Rightarrow> 'c \<Rightarrow> nat" where
  "table_epoch b c = (case epochs b c of None \<Rightarrow> 0 | Some n \<Rightarrow> n)"

definition release_previous :: "'c \<Rightarrow> bool \<Rightarrow> ('c, 's) binding_table \<Rightarrow> ('c, 's) binding_table" where
  "release_previous c active b =
     (case by_conversation b c of
        None \<Rightarrow> b
      | Some p \<Rightarrow>
          b\<lparr>by_conversation := (by_conversation b)(c := None), by_session := (by_session b)(p := None),
            draining := (draining b)(p := (if active then Some c else None))\<rparr>)"

definition displace :: "'s \<Rightarrow> ('c, 's) binding_table \<Rightarrow> ('c, 's) binding_table" where
  "displace s b =
     (case by_session b s of
        None \<Rightarrow> b
      | Some other \<Rightarrow>
          b\<lparr>by_session := (by_session b)(s := None), by_conversation := (by_conversation b)(other := None)\<rparr>)"

definition attach :: "'c \<Rightarrow> 's \<Rightarrow> bool \<Rightarrow> ('c, 's) binding_table \<Rightarrow> ('c, 's) attach_outcome \<times> ('c, 's) binding_table" where
  "attach c s active b =
     (if by_conversation b c = Some s
      then (\<lparr>ao_previous_session = None, ao_displaced_conversation = None, ao_epoch = table_epoch b c\<rparr>, b)
      else
        let b1 = release_previous c active b;
            b2 = displace s b1;
            epoch = next_epoch (table_epoch b2 c);
            b3 = b2\<lparr>draining := (draining b2)(s := None), by_conversation := (by_conversation b2)(c \<mapsto> s),
                    by_session := (by_session b2)(s \<mapsto> c), epochs := (epochs b2)(c \<mapsto> epoch)\<rparr>
        in (\<lparr>ao_previous_session = by_conversation b c, ao_displaced_conversation = by_session b1 s, ao_epoch = epoch\<rparr>, b3))"

definition attach_at_epoch ::
  "'c \<Rightarrow> 's \<Rightarrow> bool \<Rightarrow> nat \<Rightarrow> ('c, 's) binding_table \<Rightarrow> ('c, 's) attach_outcome \<times> ('c, 's) binding_table" where
  "attach_at_epoch c s active epoch b =
     (let (outcome, b1) = attach c s active b
      in (outcome\<lparr>ao_epoch := epoch\<rparr>, b1\<lparr>epochs := (epochs b1)(c \<mapsto> epoch)\<rparr>))"

definition route :: "'s \<Rightarrow> event_importance \<Rightarrow> ('c, 's) binding_table \<Rightarrow> ('c \<times> delivery_class) option" where
  "route s importance b =
     (case by_session b s of
        Some c \<Rightarrow> Some (c, Live)
      | None \<Rightarrow>
          if importance = Critical then map_option (\<lambda>c. (c, Draining)) (draining b s) else None)"

definition finish_draining :: "'s \<Rightarrow> ('c, 's) binding_table \<Rightarrow> ('c, 's) binding_table" where
  "finish_draining s b = b\<lparr>draining := (draining b)(s := None)\<rparr>"

definition detach :: "'c \<Rightarrow> bool \<Rightarrow> ('c, 's) binding_table \<Rightarrow> 's option \<times> ('c, 's) binding_table" where
  "detach c keep_draining b =
     (case by_conversation b c of
        None \<Rightarrow> (None, b)
      | Some s \<Rightarrow>
          (Some s, b\<lparr>by_conversation := (by_conversation b)(c := None), by_session := (by_session b)(s := None),
             draining := (if keep_draining then (draining b)(s \<mapsto> c) else draining b),
             epochs := (epochs b)(c \<mapsto> next_epoch (table_epoch b c))\<rparr>))"

section \<open>Invariant\<close>

text \<open>The two maps are inverse to each other, and a bound session does not drain.\<close>

definition bindings_ok :: "('c, 's) binding_table \<Rightarrow> bool" where
  "bindings_ok b \<longleftrightarrow>
     (\<forall>c s. by_session b s = Some c \<longleftrightarrow> by_conversation b c = Some s)
     \<and> (\<forall>s. by_session b s \<noteq> None \<longrightarrow> draining b s = None)"

inductive bindings_reachable :: "('c, 's) binding_table \<Rightarrow> bool" where
  empty: "bindings_reachable empty_table"
| attach: "bindings_reachable b \<Longrightarrow> bindings_reachable (snd (attach c s active b))"
| attach_at_epoch: "bindings_reachable b \<Longrightarrow> bindings_reachable (snd (attach_at_epoch c s active epoch b))"
| finish_draining: "bindings_reachable b \<Longrightarrow> bindings_reachable (finish_draining s b)"
| detach: "bindings_reachable b \<Longrightarrow> bindings_reachable (snd (detach c keep b))"

locale table_invariant =
  fixes inv :: "('c, 's) binding_table \<Rightarrow> bool"
  assumes empty_inv: "inv empty_table"
    and attach_inv: "inv b \<Longrightarrow> inv (snd (attach c s active b))"
    and epoch_inv: "inv b \<Longrightarrow> inv (b\<lparr>epochs := es\<rparr>)"
    and drain_inv: "inv b \<Longrightarrow> inv (finish_draining s b)"
    and detach_inv: "inv b \<Longrightarrow> inv (snd (detach c keep b))"
begin

lemma always: "bindings_reachable b \<Longrightarrow> inv b"
  by (induction rule: bindings_reachable.induct)
    (auto intro: empty_inv attach_inv epoch_inv drain_inv detach_inv simp: attach_at_epoch_def case_prod_beta)

end

lemma release_previous_ok:
  "bindings_ok b \<Longrightarrow> bindings_ok (release_previous c active b) \<and> by_conversation (release_previous c active b) c = None"
  by (auto simp: release_previous_def bindings_ok_def split: option.splits if_splits) (metis option.inject)+

lemma displace_ok:
  "bindings_ok b \<Longrightarrow> bindings_ok (displace s b) \<and> by_session (displace s b) s = None
     \<and> (by_conversation b c = None \<longrightarrow> by_conversation (displace s b) c = None)"
  by (auto simp: displace_def bindings_ok_def split: option.splits) (metis option.inject)+

lemma attach_ok: "bindings_ok b \<Longrightarrow> bindings_ok (snd (attach c s active b))"
proof (cases "by_conversation b c = Some s")
  case False
  assume "bindings_ok b"
  define b2 where "b2 = displace s (release_previous c active b)"
  have "bindings_ok b2" "by_session b2 s = None" "by_conversation b2 c = None"
    using release_previous_ok [OF \<open>bindings_ok b\<close>, of c active] displace_ok [of "release_previous c active b" s c]
    by (simp_all add: b2_def)
  then show ?thesis using False by (auto simp: attach_def Let_def bindings_ok_def simp flip: b2_def) (metis option.inject option.distinct(1))+
qed (simp add: attach_def)

interpretation bindings: table_invariant bindings_ok
proof
  show "bindings_ok (snd (detach c keep b))" if "bindings_ok b" for c keep and b :: "('c, 's) binding_table"
    using that by (auto simp: detach_def bindings_ok_def split: option.splits) (metis option.inject)+
  show "bindings_ok (snd (attach c s active b))" if "bindings_ok b" for c s active and b :: "('c, 's) binding_table"
    using that by (rule attach_ok)
qed (simp_all add: bindings_ok_def empty_table_def finish_draining_def)

section \<open>Properties\<close>

text \<open>C35: the binding of conversations and sessions is one to one at every moment: a session that is bound to
  a conversation is the current session of exactly this one, it never drains at the same time, every event of
  it is delivered live there, and an event of an unbound session is delivered only when it is critical, to the
  conversation where the session still drains.\<close>

theorem bindings_one_to_one:
  assumes "bindings_reachable b"
  shows "(\<forall>c s. by_conversation b c = Some s \<longleftrightarrow> by_session b s = Some c)
    \<and> (\<forall>s. \<not> (by_session b s \<noteq> None \<and> draining b s \<noteq> None))
    \<and> (\<forall>c s importance. route s importance b = Some (c, Live) \<longleftrightarrow> by_conversation b c = Some s)
    \<and> (\<forall>c s importance. route s importance b = Some (c, Draining) \<longleftrightarrow> importance = Critical \<and> draining b s = Some c)"
proof -
  have ok: "bindings_ok b" using assms by (rule bindings.always)
  have live: "route s importance b = Some (c, Live) \<longleftrightarrow> by_session b s = Some c" for c s importance
    by (auto simp: route_def split: option.splits)
  have drain: "route s importance b = Some (c, Draining) \<longleftrightarrow> by_session b s = None \<and> importance = Critical \<and> draining b s = Some c"
    for c s importance by (auto simp: route_def split: option.splits)
  have inverse: "by_conversation b c = Some s \<longleftrightarrow> by_session b s = Some c" for c s
    using ok [unfolded bindings_ok_def, THEN conjunct1] by simp
  have alone: "\<not> (by_session b s \<noteq> None \<and> draining b s \<noteq> None)" for s
    using ok [unfolded bindings_ok_def, THEN conjunct2, rule_format, of s] by (cases "by_session b s") simp_all
  have unbound: "by_session b s = None \<and> importance = Critical \<and> draining b s = Some c \<longleftrightarrow> importance = Critical \<and> draining b s = Some c"
    for c s importance using alone [of s] by auto
  show ?thesis
  proof (intro conjI allI)
    show "by_conversation b c = Some s \<longleftrightarrow> by_session b s = Some c" for c s by (rule inverse)
    show "\<not> (by_session b s \<noteq> None \<and> draining b s \<noteq> None)" for s by (rule alone)
    show "route s importance b = Some (c, Live) \<longleftrightarrow> by_conversation b c = Some s" for c s importance
      unfolding live by (rule inverse [symmetric])
    show "route s importance b = Some (c, Draining) \<longleftrightarrow> importance = Critical \<and> draining b s = Some c" for c s importance
      unfolding drain by (rule unbound)
  qed
qed

theorem bindings_one_to_one_witness:
  "let b = snd (attach ''chat'' ''new'' True (snd (attach ''chat'' ''old'' False empty_table))) in
     route ''new'' Stream b = Some (''chat'', Live) \<and> route ''old'' Critical b = Some (''chat'', Draining)"
proof -
  let ?b = "snd (attach ''chat'' ''new'' True (snd (attach ''chat'' ''old'' False empty_table)))"
  have "bindings_reachable ?b" by (intro bindings_reachable.intros)
  moreover have "by_conversation ?b ''chat'' = Some ''new''" "draining ?b ''old'' = Some ''chat''" by code_simp+
  ultimately show ?thesis using bindings_one_to_one [of ?b] unfolding Let_def by blast
qed

end
