(* ===== verification/Overlap.thy ===== *)
theory Overlap
  imports Main "HOL-Library.Sublist" "HOL-Library.Code_Target_Nat"
begin

text \<open>
  The join of a history text with a stream that may overlap it: \<open>merge_delta\<close> of
  \<open>agentix-core/src/engine/attachment_history.rs\<close>, with the Knuth-Morris-Pratt loop that finds the overlap.
  Both loops run over the prefix table, so their termination is part of the proof.
\<close>

section \<open>The code\<close>

text \<open>The \<open>while\<close> loops: fall back along the table while the next byte does not match.\<close>

partial_function (option) retreat :: "(nat \<Rightarrow> bool) \<Rightarrow> nat list \<Rightarrow> nat \<Rightarrow> nat option" where
  "retreat mismatch table k = (if 0 < k \<and> mismatch k then retreat mismatch table (table ! (k - 1)) else Some k)"

declare retreat.simps [code]

definition table_step :: "'a list \<Rightarrow> nat list option \<Rightarrow> nat \<Rightarrow> nat list option" where
  "table_step p acc index =
     Option.bind acc (\<lambda>table.
     Option.bind (retreat (\<lambda>k. p ! index \<noteq> p ! k) table (table ! (index - 1))) (\<lambda>k.
     Some (table[index := (if p ! index = p ! k then k + 1 else k)])))"

definition prefix_table :: "'a list \<Rightarrow> nat list option" where
  "prefix_table p = foldl (table_step p) (Some (replicate (length p) 0)) [1..<length p]"

definition overlap_step :: "'a list \<Rightarrow> nat list \<Rightarrow> nat option \<Rightarrow> 'a \<Rightarrow> nat option" where
  "overlap_step p table acc b =
     Option.bind acc (\<lambda>k0.
     Option.bind (retreat (\<lambda>k. k = length p \<or> b \<noteq> p ! k) table k0) (\<lambda>k.
     Some (if b = p ! k then k + 1 else k)))"

definition text_overlap :: "'a list \<Rightarrow> 'a list \<Rightarrow> nat option" where
  "text_overlap p w = Option.bind (prefix_table p) (\<lambda>table. foldl (overlap_step p table) (Some 0) w)"

definition merge_delta :: "'a list \<Rightarrow> 'a list \<Rightarrow> 'a list option" where
  "merge_delta history observed =
     (if sublist observed history then Some history
      else if prefix history observed then Some observed
      else map_option (\<lambda>k. history @ drop k observed) (text_overlap observed history))"

section \<open>Longest matches\<close>

text \<open>\<open>matched p B w k\<close>: the first \<open>k \<le> B\<close> elements of the pattern end the text.\<close>

definition matched :: "'a list \<Rightarrow> nat \<Rightarrow> 'a list \<Rightarrow> nat \<Rightarrow> bool" where
  "matched p B w k \<longleftrightarrow> k \<le> B \<and> k \<le> length p \<and> suffix (take k p) w"

definition longest :: "'a list \<Rightarrow> nat \<Rightarrow> 'a list \<Rightarrow> nat \<Rightarrow> bool" where
  "longest p B w k \<longleftrightarrow> matched p B w k \<and> (\<forall>j. matched p B w j \<longrightarrow> j \<le> k)"

text \<open>The entries below \<open>m\<close> of the table are the longest proper borders.\<close>

definition table_ok :: "'a list \<Rightarrow> nat list \<Rightarrow> nat \<Rightarrow> bool" where
  "table_ok p t m \<longleftrightarrow> length t = length p \<and> (\<forall>j < m. longest p j (take (j + 1) p) (t ! j))"

lemma matched_Suc:
  assumes "j < length p"
  shows "matched p (Suc B) (w @ [b]) (Suc j) \<longleftrightarrow> matched p B w j \<and> p ! j = b"
  using assms by (auto simp: matched_def take_Suc_conv_app_nth)

lemma matched_border:
  assumes "matched p B w k" "matched p B w j" "j \<le> k"
  shows "suffix (take j p) (take k p)"
  using assms suffix_length_suffix [of "take j p" w "take k p"] by (simp add: matched_def)

lemma matched_chain:
  assumes "matched p B w k" "suffix (take j p) (take k p)" "j \<le> k"
  shows "matched p B w j"
  using assms suffix_order.trans by (auto simp: matched_def)

text \<open>The fall-back finds the longest match that the next byte continues.\<close>

lemma retreat_longest:
  assumes "matched p B w k" "table_ok p t k" "\<And>j. j \<le> k \<Longrightarrow> mismatch j \<longleftrightarrow> j = length p \<or> b \<noteq> p ! j"
  shows "\<exists>r. retreat mismatch t k = Some r \<and> r \<le> k \<and> matched p B w r \<and> (r = 0 \<or> \<not> mismatch r)
    \<and> (\<forall>j \<le> k. matched p B w j \<longrightarrow> \<not> mismatch j \<longrightarrow> j \<le> r)"
  using assms
proof (induction k rule: less_induct)
  case (less k)
  show ?case
  proof (cases "0 < k \<and> mismatch k")
    case False
    then have "retreat mismatch t k = Some k" by (subst retreat.simps) auto
    with less.prems(1) False show ?thesis by auto
  next
    case True
    let ?k = "t ! (k - 1)"
    have border: "longest p (k - 1) (take k p) ?k"
      using less.prems(2) True by (auto simp: table_ok_def dest: spec [of _ "k - 1"])
    then have small: "?k < k" using True by (auto simp: longest_def matched_def)
    have "matched p B w ?k"
      by (rule matched_chain [OF less.prems(1)]) (use border small in \<open>auto simp: longest_def matched_def\<close>)
    moreover have "table_ok p t ?k" using less.prems(2) small by (auto simp: table_ok_def)
    moreover have "mismatch j \<longleftrightarrow> j = length p \<or> b \<noteq> p ! j" if "j \<le> ?k" for j
      using less.prems(3) [of j] that small by simp
    ultimately obtain r where r: "retreat mismatch t ?k = Some r" "r \<le> ?k" "matched p B w r" "r = 0 \<or> \<not> mismatch r"
        "\<forall>j \<le> ?k. matched p B w j \<longrightarrow> \<not> mismatch j \<longrightarrow> j \<le> r"
      using less.IH [OF small] by blast
    have "j \<le> r" if "j \<le> k" "matched p B w j" "\<not> mismatch j" for j
    proof -
      have "j < k" using that True by (cases "j = k") auto
      moreover have "suffix (take j p) (take k p)" using matched_border [OF less.prems(1) that(2,1)] .
      ultimately have "matched p (k - 1) (take k p) j" using that(2) by (auto simp: matched_def)
      then have "j \<le> ?k" using border by (simp add: longest_def)
      with r(5) that show ?thesis by blast
    qed
    moreover have "retreat mismatch t k = Some r" using True r(1) by (subst retreat.simps) simp
    moreover have "r \<le> k" using r(2) small by simp
    ultimately show ?thesis using r(3,4) by blast
  qed
qed

lemma match_step:
  assumes k: "longest p B w k" and t: "table_ok p t k" and p: "p \<noteq> []"
    and mismatch: "\<And>j. j \<le> k \<Longrightarrow> mismatch j \<longleftrightarrow> j = length p \<or> b \<noteq> p ! j"
  shows "\<exists>r. retreat mismatch t k = Some r \<and> longest p (Suc B) (w @ [b]) (if b = p ! r then r + 1 else r)"
proof -
  obtain r where r: "retreat mismatch t k = Some r" "r \<le> k" "matched p B w r" "r = 0 \<or> \<not> mismatch r"
      "\<forall>j \<le> k. matched p B w j \<longrightarrow> \<not> mismatch j \<longrightarrow> j \<le> r"
    using retreat_longest [OF _ t mismatch] k unfolding longest_def by blast
  let ?n = "if b = p ! r then r + 1 else r"
  have bound: "r < length p" using r(4) mismatch [OF r(2)] r(3) p by (cases "r = 0") (auto simp: matched_def)
  have zero: "\<not> b = p ! r \<Longrightarrow> r = 0" using r(4) mismatch [OF r(2)] bound by auto
  have "matched p (Suc B) (w @ [b]) ?n"
  proof (cases "b = p ! r")
    case True
    then show ?thesis using matched_Suc [OF bound] r(3) by simp
  next
    case False
    then show ?thesis using zero by (simp add: matched_def)
  qed
  moreover have "j \<le> ?n" if "matched p (Suc B) (w @ [b]) j" for j
  proof (cases j)
    case (Suc i)
    have "i < length p" using that Suc by (simp add: matched_def)
    then have i: "matched p B w i" "p ! i = b" using that matched_Suc [OF \<open>i < length p\<close>, of B w b] by (simp_all add: Suc)
    then have "i \<le> k" using k by (simp add: longest_def)
    moreover have "\<not> mismatch i" using mismatch [OF \<open>i \<le> k\<close>] i(2) \<open>i < length p\<close> by auto
    ultimately have "i \<le> r" using r(5) i(1) by blast
    moreover have "b = p ! r"
    proof (rule ccontr)
      assume "b \<noteq> p ! r"
      then have "r = 0" by (rule zero)
      with \<open>i \<le> r\<close> i(2) \<open>b \<noteq> p ! r\<close> show False by simp
    qed
    ultimately show ?thesis using Suc by simp
  qed simp
  ultimately show ?thesis using r(1) by (auto simp: longest_def)
qed

section \<open>The table\<close>

lemma table_step_ok:
  assumes t: "table_ok p t index" and i: "0 < index" "index < length p"
  shows "\<exists>t'. table_step p (Some t) index = Some t' \<and> table_ok p t' (Suc index)"
proof -
  let ?k = "t ! (index - 1)"
  have k: "longest p (index - 1) (take index p) ?k"
    using t i by (auto simp: table_ok_def dest: spec [of _ "index - 1"])
  then have small: "?k < index" using i by (auto simp: longest_def matched_def)
  then have tk: "table_ok p t ?k" using t by (auto simp: table_ok_def)
  have mismatch: "p ! index \<noteq> p ! j \<longleftrightarrow> j = length p \<or> p ! index \<noteq> p ! j" if "j \<le> ?k" for j
    using that small i(2) by auto
  have "p \<noteq> []" using i(2) by auto
  from match_step [OF k tk this mismatch] obtain r where
    r: "retreat (\<lambda>j. p ! index \<noteq> p ! j) t ?k = Some r"
       "longest p (Suc (index - 1)) (take index p @ [p ! index]) (if p ! index = p ! r then r + 1 else r)" by blast
  let ?t = "t[index := (if p ! index = p ! r then r + 1 else r)]"
  have new: "longest p index (take (index + 1) p) (if p ! index = p ! r then r + 1 else r)"
    using r(2) i by (simp add: take_Suc_conv_app_nth)
  have "longest p j (take (j + 1) p) (?t ! j)" if "j < Suc index" for j
    using that t i(2) new by (cases "j = index") (auto simp: table_ok_def)
  then have "table_ok p ?t (Suc index)" using t by (simp add: table_ok_def)
  moreover have "table_step p (Some t) index = Some ?t" by (simp only: table_step_def r(1) bind.bind_lunit)
  ultimately show ?thesis by blast
qed

lemma prefix_table_ok:
  assumes "p \<noteq> []"
  shows "\<exists>t. prefix_table p = Some t \<and> table_ok p t (length p)"
proof -
  have "\<exists>t. foldl (table_step p) (Some (replicate (length p) 0)) [1..<m] = Some t \<and> table_ok p t m"
    if "1 \<le> m" "m \<le> length p" for m
    using that
  proof (induction m rule: nat_induct_at_least)
    case base
    have "longest p 0 (take 1 p) 0" by (auto simp: longest_def matched_def)
    with assms show ?case by (auto simp: table_ok_def)
  next
    case (Suc m)
    then obtain t where "foldl (table_step p) (Some (replicate (length p) 0)) [1..<m] = Some t" "table_ok p t m" by auto
    then show ?case using table_step_ok [of p t m] Suc by simp
  qed
  then show ?thesis using assms by (simp add: prefix_table_def Suc_le_eq)
qed

lemma overlap_step_ok:
  assumes t: "table_ok p t (length p)" and p: "p \<noteq> []" and k: "longest p (length p) w k"
  shows "\<exists>n. overlap_step p t (Some k) b = Some n \<and> longest p (length p) (w @ [b]) n"
proof -
  have tk: "table_ok p t k" using t k by (auto simp: table_ok_def longest_def matched_def)
  obtain r where r: "retreat (\<lambda>j. j = length p \<or> b \<noteq> p ! j) t k = Some r"
      "longest p (Suc (length p)) (w @ [b]) (if b = p ! r then r + 1 else r)"
    using match_step [OF k tk p, of "\<lambda>j. j = length p \<or> b \<noteq> p ! j" b] by blast
  have "matched p (Suc (length p)) v j \<longleftrightarrow> matched p (length p) v j" for v j by (auto simp: matched_def)
  with r show ?thesis by (simp add: overlap_step_def longest_def)
qed

theorem text_overlap_longest:
  assumes "p \<noteq> []"
  shows "\<exists>k. text_overlap p w = Some k \<and> longest p (length p) w k"
proof -
  obtain t where t: "prefix_table p = Some t" "table_ok p t (length p)" using prefix_table_ok [OF assms] by blast
  have "\<exists>k. foldl (overlap_step p t) (Some 0) w = Some k \<and> longest p (length p) w k"
  proof (induction w rule: rev_induct)
    case Nil
    then show ?case by (auto simp: longest_def matched_def)
  next
    case (snoc b w)
    then show ?case using overlap_step_ok [OF t(2) assms] by auto
  qed
  with t(1) show ?thesis by (simp add: text_overlap_def)
qed

section \<open>Properties\<close>

text \<open>C36: joining a history text and an observed stream always ends, and it joins them at their longest
  overlap: the result starts with the history, ends with the stream and repeats nothing that both share; a
  stream that the history already contains adds nothing.\<close>

theorem merge_delta_longest_overlap:
  "\<exists>k \<le> length observed. suffix (take k observed) history
     \<and> (\<forall>j \<le> length observed. suffix (take j observed) history \<longrightarrow> j \<le> k)
     \<and> merge_delta history observed = Some (if sublist observed history then history else history @ drop k observed)"
proof (cases "observed = []")
  case True
  then show ?thesis by (simp add: merge_delta_def)
next
  case False
  obtain k where k: "text_overlap observed history = Some k" "longest observed (length observed) history k"
    using text_overlap_longest [OF False] by blast
  have found: "k \<le> length observed" "suffix (take k observed) history"
      "\<And>j. j \<le> length observed \<Longrightarrow> suffix (take j observed) history \<Longrightarrow> j \<le> k"
    using k(2) by (auto simp: longest_def matched_def)
  have "observed = history @ drop k observed" if whole: "prefix history observed" "\<not> sublist observed history"
  proof -
    obtain r where r: "observed = history @ r" using whole(1) by (auto simp: prefix_def)
    have "length history \<le> k" using found(3) [of "length history"] r by simp
    moreover have "k \<le> length history" using suffix_length_le [OF found(2)] found(1) by simp
    ultimately show ?thesis using r by simp
  qed
  then have "merge_delta history observed = Some (if sublist observed history then history else history @ drop k observed)"
    by (auto simp: merge_delta_def k(1))
  with found show ?thesis by blast
qed

theorem merge_delta_longest_overlap_witness:
  "merge_delta ''hello wor'' '' world'' = Some ''hello world''"
proof -
  have m: "\<not> sublist '' world'' ''hello wor''" by (simp add: sublist_code)
  have n: "suffix (take j '' world'') ''hello wor'' \<longleftrightarrow> j = 0 \<or> j = 4" if "j \<le> 6" for j
  proof -
    have "j \<in> {0, 1, 2, 3, 4, 5, 6}" using that by auto
    then show ?thesis by (auto simp: suffix_to_prefix)
  qed
  from merge_delta_longest_overlap [of "'' world''" "''hello wor''"] obtain k where k: "k \<le> length '' world''"
      "suffix (take k '' world'') ''hello wor''"
      "\<forall>j \<le> length '' world''. suffix (take j '' world'') ''hello wor'' \<longrightarrow> j \<le> k"
      "merge_delta ''hello wor'' '' world'' = Some (if sublist '' world'' ''hello wor'' then ''hello wor'' else ''hello wor'' @ drop k '' world'')"
    by blast
  have "4 \<le> k" using k(3) n [of 4] by simp
  then have "k = 4" using n [of k] k(1,2) by simp
  then show ?thesis using k(4) m by simp
qed

end
