(* ===== verification/Projection.thy ===== *)
theory Projection
  imports Json "HOL-Library.Word" "HOL-Library.AList" "HOL-Library.Code_Target_Nat"
begin

unbundle bit_operations_syntax

text \<open>
  The incremental JSON reader of the Codex proxy (\<open>agentix-codex/src/proxy_wire/json.rs\<close>): it validates a
  message of any size in pieces and keeps only the fields that the session registry needs. An error of the
  reader is \<open>None\<close>; the code clears its state then. The stack is a list with the innermost container first,
  the fields of an object are an association list. The calls of \<open>serde_json\<close> on one complete token, and the
  final serialisation, are the fields of \<open>reader\<close>.
\<close>

type_synonym bytes = "8 word list"

record reader =
  read_value :: "bytes \<Rightarrow> json option"
  read_key :: "bytes \<Rightarrow> string option"
  is_value :: "bytes \<Rightarrow> bool"
  write_value :: "json \<Rightarrow> bytes option"

definition max_depth :: nat where
  "max_depth = 128"

definition max_token :: nat where
  "max_token = 4096"

datatype node = Root | Result | Thread | Source | Params | Client | Leaf | Skip

definition child :: "node \<Rightarrow> string \<Rightarrow> node" where
  "child n key =
     (case n of
        Root \<Rightarrow>
          if key = ''id'' \<or> key = ''method'' \<or> key = ''error'' then Leaf
          else if key = ''result'' then Result
          else if key = ''params'' then Params else Skip
      | Result \<Rightarrow> if key = ''thread'' then Thread else if key = ''status'' then Leaf else Skip
      | Thread \<Rightarrow> if key = ''id'' \<or> key = ''ephemeral'' then Leaf else if key = ''source'' then Source else Skip
      | Source \<Rightarrow> if key = ''subAgent'' then Leaf else Skip
      | Params \<Rightarrow> if key = ''threadId'' \<or> key = ''ephemeral'' then Leaf else if key = ''clientInfo'' then Client else Skip
      | Client \<Rightarrow> if key = ''name'' then Leaf else Skip
      | Leaf \<Rightarrow> Skip
      | Skip \<Rightarrow> Skip)"

datatype phase = KeyOrEnd | Key | Colon | ValueOrEnd | Value | CommaOrEnd

record container =
  in_object :: bool
  at_phase :: phase
  at_node :: node
  at_key :: string
  at_fields :: "(string \<times> json) list"

record string_token =
  st_key :: bool
  st_capture :: bool
  st_raw :: bytes
  st_escape :: bool
  st_digits :: nat
  st_code :: "16 word"
  st_high :: bool
  st_low_escape :: nat

datatype token = StringTok string_token | Atom bytes node

record projection =
  pj_stack :: "container list"
  pj_token :: "token option"
  pj_result :: "json option"
  pj_invalid :: bool
  pj_utf8_tail :: bytes

definition new_projection :: projection where
  "new_projection = \<lparr>pj_stack = [], pj_token = None, pj_result = None, pj_invalid = False, pj_utf8_tail = []\<rparr>"

section \<open>Strings\<close>

definition new_string :: "bool \<Rightarrow> bool \<Rightarrow> string_token" where
  "new_string key capture = \<lparr>st_key = key, st_capture = capture, st_raw = [34], st_escape = False, st_digits = 0,
     st_code = 0, st_high = False, st_low_escape = 0\<rparr>"

definition hex_digit :: "8 word \<Rightarrow> (16 word) option" where
  "hex_digit b =
     (if 48 \<le> b \<and> b \<le> 57 then Some (ucast (b - 48))
      else if 97 \<le> b \<and> b \<le> 102 then Some (ucast (b - 87))
      else if 65 \<le> b \<and> b \<le> 70 then Some (ucast (b - 55))
      else None)"

text \<open>The four hexadecimal digits of an escape, with the two halves of a surrogate pair.\<close>

definition unicode_digit :: "string_token \<Rightarrow> 8 word \<Rightarrow> string_token option" where
  "unicode_digit s b =
     (case hex_digit b of
        None \<Rightarrow> None
      | Some digit \<Rightarrow>
          let code = push_bit 4 (st_code s) OR digit; s1 = s\<lparr>st_code := code, st_digits := st_digits s - 1\<rparr> in
          if 0 < st_digits s1 then Some s1
          else if st_high s then
            if 0xdc00 \<le> code \<and> code \<le> 0xdfff then Some (s1\<lparr>st_high := False\<rparr>) else None
          else if 0xd800 \<le> code \<and> code \<le> 0xdbff then Some (s1\<lparr>st_high := True, st_low_escape := 2\<rparr>)
          else if 0xdc00 \<le> code \<and> code \<le> 0xdfff then None
          else Some s1)"

definition surrogate_escape :: "string_token \<Rightarrow> 8 word \<Rightarrow> string_token option" where
  "surrogate_escape s b =
     (if b \<noteq> (if st_low_escape s = 2 then 92 else 117) then None
      else if st_low_escape s - 1 = 0
      then Some (s\<lparr>st_low_escape := 0, st_digits := 4, st_code := 0\<rparr>)
      else Some (s\<lparr>st_low_escape := st_low_escape s - 1\<rparr>))"

definition escaped_byte :: "string_token \<Rightarrow> 8 word \<Rightarrow> string_token option" where
  "escaped_byte s b =
     (let s1 = s\<lparr>st_escape := False\<rparr> in
      if b = 117 then Some (s1\<lparr>st_digits := 4, st_code := 0\<rparr>)
      else if b \<in> {34, 92, 47, 98, 102, 110, 114, 116} then Some s1
      else None)"

text \<open>One byte of a string: the new token and whether the string is complete.\<close>

definition string_byte :: "string_token \<Rightarrow> 8 word \<Rightarrow> (bool \<times> string_token) option" where
  "string_byte s0 b =
     (if st_capture s0 \<and> length (st_raw s0) = max_token then None
      else
        let s = (if st_capture s0 then s0\<lparr>st_raw := st_raw s0 @ [b]\<rparr> else s0) in
        if 0 < st_digits s then map_option (Pair False) (unicode_digit s b)
        else if 0 < st_low_escape s then map_option (Pair False) (surrogate_escape s b)
        else if st_escape s then map_option (Pair False) (escaped_byte s b)
        else if b = 34 then Some (True, s)
        else if b = 92 then Some (False, s\<lparr>st_escape := True\<rparr>)
        else if b \<le> 31 then None
        else Some (False, s))"

section \<open>UTF-8\<close>

text \<open>
  \<open>std::str::from_utf8\<close>: the bytes that may follow the first byte of a character, and the check of a byte
  string. An error has a length (\<open>Broken\<close>), or the input ends inside the character that starts at
  \<open>valid_up_to\<close> (\<open>Cut\<close>).
\<close>

definition utf8_ranges :: "8 word \<Rightarrow> (8 word \<times> 8 word) list option" where
  "utf8_ranges b =
     (if b < 0x80 then Some []
      else if 0xC2 \<le> b \<and> b \<le> 0xDF then Some [(0x80, 0xBF)]
      else if b = 0xE0 then Some [(0xA0, 0xBF), (0x80, 0xBF)]
      else if b = 0xED then Some [(0x80, 0x9F), (0x80, 0xBF)]
      else if 0xE1 \<le> b \<and> b \<le> 0xEF then Some [(0x80, 0xBF), (0x80, 0xBF)]
      else if b = 0xF0 then Some [(0x90, 0xBF), (0x80, 0xBF), (0x80, 0xBF)]
      else if 0xF1 \<le> b \<and> b \<le> 0xF3 then Some [(0x80, 0xBF), (0x80, 0xBF), (0x80, 0xBF)]
      else if b = 0xF4 then Some [(0x80, 0x8F), (0x80, 0xBF), (0x80, 0xBF)]
      else None)"

definition utf8_next :: "(8 word \<times> 8 word) list \<Rightarrow> 8 word \<Rightarrow> (8 word \<times> 8 word) list option" where
  "utf8_next expected b =
     (case expected of
        [] \<Rightarrow> utf8_ranges b
      | (low, high) # rest \<Rightarrow> if low \<le> b \<and> b \<le> high then Some rest else None)"

datatype utf8_check = Valid | Broken | Cut nat

primrec utf8_scan :: "nat \<Rightarrow> nat \<Rightarrow> (8 word \<times> 8 word) list \<Rightarrow> bytes \<Rightarrow> utf8_check" where
  "utf8_scan start index expected [] = (if expected = [] then Valid else Cut start)"
| "utf8_scan start index expected (b # bs) =
     (case utf8_next expected b of
        None \<Rightarrow> Broken
      | Some next \<Rightarrow> utf8_scan (if next = [] then Suc index else start) (Suc index) next bs)"

definition from_utf8 :: "bytes \<Rightarrow> utf8_check" where
  "from_utf8 bs = utf8_scan 0 0 [] bs"

text \<open>The loop that completes a character cut by the previous piece: the new tail and the bytes after it.\<close>

fun extend_tail :: "bytes \<Rightarrow> bytes \<Rightarrow> (bytes \<times> bytes) option" where
  "extend_tail tail [] = Some (tail, [])"
| "extend_tail tail (b # bs) =
     (if length tail < 4 then
        (case from_utf8 (tail @ [b]) of
           Valid \<Rightarrow> Some ([], bs)
         | Broken \<Rightarrow> None
         | Cut _ \<Rightarrow> extend_tail (tail @ [b]) bs)
      else Some (tail, b # bs))"

definition check_rest :: "bytes \<Rightarrow> bytes \<Rightarrow> bytes option" where
  "check_rest tail bs =
     (case from_utf8 bs of
        Valid \<Rightarrow> Some tail
      | Broken \<Rightarrow> None
      | Cut valid_up_to \<Rightarrow> Some (tail @ drop valid_up_to bs))"

definition validate_utf8 :: "bytes \<Rightarrow> bytes \<Rightarrow> bytes option" where
  "validate_utf8 tail bs =
     (if tail = [] then check_rest tail bs
      else
        (case extend_tail tail bs of
           None \<Rightarrow> None
         | Some (t, rest) \<Rightarrow> if t \<noteq> [] then Some t else check_rest t rest))"

section \<open>The grammar\<close>

definition current_node :: "projection \<Rightarrow> node" where
  "current_node p =
     (case pj_stack p of
        [] \<Rightarrow> Root
      | c # _ \<Rightarrow> if in_object c then child (at_node c) (at_key c) else Skip)"

definition put_value :: "json \<Rightarrow> projection \<Rightarrow> projection option" where
  "put_value v p =
     (case pj_stack p of
        c # cs \<Rightarrow>
          if at_phase c \<noteq> Value \<and> at_phase c \<noteq> ValueOrEnd then None
          else
            let c1 = (if in_object c \<and> child (at_node c) (at_key c) \<noteq> Skip
                      then c\<lparr>at_fields := AList.update (at_key c) v (at_fields c), at_key := []\<rparr> else c)
            in Some (p\<lparr>pj_stack := c1\<lparr>at_phase := CommaOrEnd\<rparr> # cs\<rparr>)
      | [] \<Rightarrow> if pj_result p \<noteq> None then None else Some (p\<lparr>pj_result := Some v\<rparr>))"

text \<open>\<open>finish_atom\<close> takes the token in every case, also when it is a string.\<close>

definition finish_atom :: "reader \<Rightarrow> projection \<Rightarrow> projection option" where
  "finish_atom rd p =
     (let p1 = p\<lparr>pj_token := None\<rparr> in
      case pj_token p of
        Some (Atom raw node) \<Rightarrow>
          if node = Skip then (if is_value rd raw then put_value JNull p1 else None)
          else Option.bind (read_value rd raw) (\<lambda>v. put_value v p1)
      | _ \<Rightarrow> Some p1)"

definition close_string :: "reader \<Rightarrow> string_token \<Rightarrow> projection \<Rightarrow> projection option" where
  "close_string rd s p =
     (if st_key s then
        (case pj_stack p of
           [] \<Rightarrow> None
         | c # cs \<Rightarrow>
             Option.bind (if st_capture s then read_key rd (st_raw s) else Some [])
               (\<lambda>key. Some (p\<lparr>pj_stack := c\<lparr>at_key := key, at_phase := Colon\<rparr> # cs\<rparr>)))
      else Option.bind (if st_capture s then read_value rd (st_raw s) else Some JNull) (\<lambda>v. put_value v p))"

definition begin_value :: "8 word \<Rightarrow> projection \<Rightarrow> projection option" where
  "begin_value b p =
     (let node = current_node p in
      if b = 123 \<or> b = 91 then
        if max_depth \<le> length (pj_stack p) then None
        else Some (p\<lparr>pj_stack := \<lparr>in_object = (b = 123), at_phase = (if b = 123 then KeyOrEnd else ValueOrEnd),
                                 at_node = node, at_key = [], at_fields = []\<rparr> # pj_stack p\<rparr>)
      else if b = 34 then Some (p\<lparr>pj_token := Some (StringTok (new_string False (node \<noteq> Skip)))\<rparr>)
      else if b = 45 \<or> 48 \<le> b \<and> b \<le> 57 \<or> b = 116 \<or> b = 102 \<or> b = 110
      then Some (p\<lparr>pj_token := Some (Atom [b] node)\<rparr>)
      else None)"

definition is_space :: "8 word \<Rightarrow> bool" where
  "is_space b \<longleftrightarrow> b = 32 \<or> b = 13 \<or> b = 10 \<or> b = 9"

definition ends_atom :: "8 word \<Rightarrow> bool" where
  "ends_atom b \<longleftrightarrow> is_space b \<or> b = 44 \<or> b = 125 \<or> b = 93"

definition closing :: "container \<Rightarrow> 8 word" where
  "closing c = (if in_object c then 125 else 93)"

text \<open>A byte inside the innermost container \<open>c\<close>, outside of tokens.\<close>

definition inner_byte :: "container \<Rightarrow> container list \<Rightarrow> 8 word \<Rightarrow> projection \<Rightarrow> projection option" where
  "inner_byte c cs b p =
     (if (at_phase c = KeyOrEnd \<or> at_phase c = Key) \<and> b = 34
      then Some (p\<lparr>pj_token := Some (StringTok (new_string True (at_node c \<noteq> Skip \<and> at_node c \<noteq> Leaf)))\<rparr>)
      else if (at_phase c = KeyOrEnd \<or> at_phase c = Key) \<and> (b \<noteq> 125 \<or> at_phase c \<noteq> KeyOrEnd) then None
      else if at_phase c = Colon
      then (if b \<noteq> 58 then None else Some (p\<lparr>pj_stack := c\<lparr>at_phase := Value\<rparr> # cs\<rparr>))
      else if at_phase c = CommaOrEnd \<and> b = 44
      then Some (p\<lparr>pj_stack := c\<lparr>at_phase := (if in_object c then Key else Value)\<rparr> # cs\<rparr>)
      else if at_phase c = CommaOrEnd \<and> b \<noteq> closing c then None
      else if b = 125 \<or> b = 93
      then (if b \<noteq> closing c \<or> at_phase c \<notin> {KeyOrEnd, ValueOrEnd, CommaOrEnd} then None
            else put_value (if in_object c then JObject (at_fields c) else JArray []) (p\<lparr>pj_stack := cs\<rparr>))
      else begin_value b p)"

definition plain_byte :: "8 word \<Rightarrow> projection \<Rightarrow> projection option" where
  "plain_byte b p =
     (if is_space b then Some p
      else
        (case pj_stack p of
           c # cs \<Rightarrow> inner_byte c cs b p
         | [] \<Rightarrow> if pj_result p \<noteq> None then None else begin_value b p))"

text \<open>
  One iteration of the loop on a nonempty rest. In a string that is not kept the scan for the next quote or
  backslash skips all bytes before it at once.
\<close>

definition skippable :: "string_token \<Rightarrow> bool" where
  "skippable s \<longleftrightarrow> \<not> st_capture s \<and> \<not> st_escape s \<and> st_digits s = 0 \<and> st_low_escape s = 0"

definition string_iteration :: "reader \<Rightarrow> string_token \<Rightarrow> bytes \<Rightarrow> projection \<Rightarrow> (bytes \<times> projection) option" where
  "string_iteration rd s bs p =
     (let n = length (takeWhile (\<lambda>b. b \<noteq> 34 \<and> b \<noteq> 92) bs) in
      if skippable s \<and> list_ex (\<lambda>b. b < 32) (take n bs) then None
      else
        (case (if skippable s then drop n bs else bs) of
           [] \<Rightarrow> Some ([], p)
         | b # rest \<Rightarrow>
             Option.bind (string_byte s b) (\<lambda>(finished, s1).
               if finished
               then map_option (Pair rest) (close_string rd s1 (p\<lparr>pj_token := None\<rparr>))
               else Some (rest, p\<lparr>pj_token := Some (StringTok s1)\<rparr>))))"

definition iteration :: "reader \<Rightarrow> bytes \<Rightarrow> projection \<Rightarrow> (bytes \<times> projection) option" where
  "iteration rd bs p =
     (case pj_token p of
        Some (StringTok s) \<Rightarrow> string_iteration rd s bs p
      | Some (Atom raw node) \<Rightarrow>
          if ends_atom (hd bs) then map_option (Pair bs) (finish_atom rd p)
          else if max_token \<le> length raw then None
          else Some (tl bs, p\<lparr>pj_token := Some (Atom (raw @ [hd bs]) node)\<rparr>)
      | None \<Rightarrow> map_option (Pair (tl bs)) (plain_byte (hd bs) p))"

definition atom_pending :: "projection \<Rightarrow> bool" where
  "atom_pending p \<longleftrightarrow> (case pj_token p of Some (Atom _ _) \<Rightarrow> True | _ \<Rightarrow> False)"

lemma put_value_token: "put_value v p = Some p' \<Longrightarrow> pj_token p' = pj_token p"
  by (auto simp: put_value_def Let_def split: list.splits if_splits)

lemma finish_atom_token: "finish_atom rd p = Some p' \<Longrightarrow> pj_token p' = None"
  by (auto simp: finish_atom_def Let_def bind_eq_Some_conv dest!: put_value_token split: option.splits token.splits if_splits)

lemma string_iteration_shorter:
  assumes "string_iteration rd s bs p = Some (bs', p')" "bs \<noteq> []"
  shows "length bs' < length bs"
proof -
  have drop: "drop n bs = b # rest \<Longrightarrow> length rest < length bs" for n b rest
    by (metis add_diff_cancel_left' diff_le_self length_drop length_Cons less_eq_Suc_le)
  show ?thesis
    using assms by (auto simp: string_iteration_def Let_def bind_eq_Some_conv dest: drop split: if_splits list.splits)
qed

lemma iteration_progress:
  assumes "iteration rd bs p = Some (bs', p')" "bs \<noteq> []"
  shows "length bs' < length bs \<or> bs' = bs \<and> atom_pending p \<and> \<not> atom_pending p'"
proof (cases "pj_token p")
  case (Some t)
  then show ?thesis
    using assms string_iteration_shorter
    by (cases t) (auto simp: iteration_def atom_pending_def dest: finish_atom_token split: if_splits)
qed (use assms in \<open>auto simp: iteration_def\<close>)

function parse :: "reader \<Rightarrow> bytes \<Rightarrow> projection \<Rightarrow> projection option" where
  "parse rd bs p =
     (if bs = [] then Some p
      else (case iteration rd bs p of None \<Rightarrow> None | Some (bs', p') \<Rightarrow> parse rd bs' p'))"
  by pat_completeness auto

termination
  by (relation "measure (\<lambda>(rd, bs, p). 2 * length bs + (if atom_pending p then 1 else 0))")
    (auto dest!: iteration_progress)

declare parse.simps [simp del]

definition feed :: "reader \<Rightarrow> projection \<Rightarrow> bytes \<Rightarrow> projection" where
  "feed rd p bs =
     (if pj_invalid p then p
      else
        (case Option.bind (validate_utf8 (pj_utf8_tail p) bs) (\<lambda>tail. parse rd bs (p\<lparr>pj_utf8_tail := tail\<rparr>)) of
           None \<Rightarrow> p\<lparr>pj_invalid := True, pj_stack := [], pj_token := None, pj_result := None\<rparr>
         | Some p1 \<Rightarrow> p1))"

definition finish :: "reader \<Rightarrow> projection \<Rightarrow> bytes option" where
  "finish rd p =
     (if pj_invalid p \<or> pj_utf8_tail p \<noteq> [] then None
      else
        Option.bind (finish_atom rd p) (\<lambda>p1.
          if pj_token p1 \<noteq> None \<or> pj_stack p1 \<noteq> [] then None
          else Option.bind (pj_result p1) (write_value rd)))"

end
