(* ===== verification/Projection_Laws.thy ===== *)
theory Projection_Laws
  imports Projection
begin

text \<open>
  The incremental reader as an automaton: its pieces do not matter, it holds a bounded amount of data of the
  known fields only, and on the text of a document it yields exactly the document's projection.
\<close>

section \<open>Automata over bytes\<close>

primrec run :: "('s \<Rightarrow> 'b \<Rightarrow> 's option) \<Rightarrow> 'b list \<Rightarrow> 's \<Rightarrow> 's option" where
  "run f [] s = Some s"
| "run f (b # bs) s = Option.bind (f s b) (run f bs)"

lemma run_append: "run f (xs @ ys) s = Option.bind (run f xs s) (run f ys)"
  by (induction xs arbitrary: s) (auto split: Option.bind_splits)

lemma run_invariant:
  assumes "run f bs s = Some s'" "I s" "\<And>s b s'. f s b = Some s' \<Longrightarrow> I s \<Longrightarrow> I s'"
  shows "I s'"
  using assms(1,2) by (induction bs arbitrary: s) (auto simp: bind_eq_Some_conv intro: assms(3))

section \<open>One byte at a time\<close>

definition byte_step :: "reader \<Rightarrow> projection \<Rightarrow> 8 word \<Rightarrow> projection option" where
  "byte_step rd p b =
     (case pj_token p of
        Some (StringTok s) \<Rightarrow>
          Option.bind (string_byte s b) (\<lambda>(finished, s1).
            if finished then close_string rd s1 (p\<lparr>pj_token := None\<rparr>)
            else Some (p\<lparr>pj_token := Some (StringTok s1)\<rparr>))
      | Some (Atom raw node) \<Rightarrow>
          if ends_atom b then Option.bind (finish_atom rd p) (plain_byte b)
          else if max_token \<le> length raw then None
          else Some (p\<lparr>pj_token := Some (Atom (raw @ [b]) node)\<rparr>)
      | None \<Rightarrow> plain_byte b p)"

lemma less_32 [simp]: "(b :: 8 word) < 32 \<longleftrightarrow> b \<le> 31"
proof -
  have "unat b < 32 \<longleftrightarrow> unat b \<le> 31" by linarith
  then show ?thesis by (simp add: word_less_nat_alt word_le_nat_alt)
qed

lemma skipped_bytes:
  assumes "pj_token p = Some (StringTok s)" "skippable s" "\<forall>b \<in> set xs. b \<noteq> 34 \<and> b \<noteq> 92"
  shows "run (byte_step rd) xs p = (if list_ex (\<lambda>b. b < 32) xs then None else Some p)"
proof -
  have "p\<lparr>pj_token := Some (StringTok s)\<rparr> = p" using assms(1) by simp
  then have "byte_step rd p b = (if b < 32 then None else Some p)" if "b \<noteq> 34" "b \<noteq> 92" for b
    using that assms(1,2) by (simp add: byte_step_def skippable_def string_byte_def)
  then show ?thesis using assms(3) by (induction xs) auto
qed

lemma string_iteration_run:
  assumes t: "pj_token p = Some (StringTok s)" and "bs \<noteq> []"
  shows "run (byte_step rd) bs p
    = (case string_iteration rd s bs p of None \<Rightarrow> None | Some (bs', p') \<Rightarrow> run (byte_step rd) bs' p')"
proof -
  let ?n = "length (takeWhile (\<lambda>b. b \<noteq> 34 \<and> b \<noteq> 92) bs)"
  have one: "run (byte_step rd) ys p
      = (case (case ys of [] \<Rightarrow> Some ([], p)
               | b # rest \<Rightarrow> Option.bind (string_byte s b) (\<lambda>(finished, s1).
                   if finished then map_option (Pair rest) (close_string rd s1 (p\<lparr>pj_token := None\<rparr>))
                   else Some (rest, p\<lparr>pj_token := Some (StringTok s1)\<rparr>)))
         of None \<Rightarrow> None | Some (bs', p') \<Rightarrow> run (byte_step rd) bs' p')" for ys
  proof (cases ys)
    case (Cons b rest)
    show ?thesis
    proof (cases "string_byte s b")
      case (Some r)
      have step: "byte_step rd p b = (if fst r then close_string rd (snd r) (p\<lparr>pj_token := None\<rparr>)
          else Some (p\<lparr>pj_token := Some (StringTok (snd r))\<rparr>))"
        using t Some by (simp add: byte_step_def case_prod_beta)
      show ?thesis
      proof (cases "fst r")
        case True
        show ?thesis using True Some Cons step
          by (cases "close_string rd (snd r) (p\<lparr>pj_token := None\<rparr>)") (simp_all add: case_prod_beta)
      next
        case False
        then show ?thesis using Some Cons step by (simp add: case_prod_beta)
      qed
    next
      case None
      then have "byte_step rd p b = None" using t by (simp add: byte_step_def)
      then show ?thesis using None Cons by simp
    qed
  qed simp
  show ?thesis
  proof (cases "skippable s")
    case True
    have "set (take ?n bs) = set (takeWhile (\<lambda>b. b \<noteq> 34 \<and> b \<noteq> 92) bs)" by (simp only: takeWhile_eq_take [symmetric])
    then have "\<forall>b \<in> set (take ?n bs). b \<noteq> 34 \<and> b \<noteq> 92" by (auto dest: set_takeWhileD)
    note skipped = skipped_bytes [OF t True this]
    have "run (byte_step rd) bs p = Option.bind (run (byte_step rd) (take ?n bs) p) (run (byte_step rd) (drop ?n bs))"
      unfolding run_append [symmetric] append_take_drop_id ..
    then have "run (byte_step rd) bs p
        = (if list_ex (\<lambda>b. b < 32) (take ?n bs) then None else run (byte_step rd) (drop ?n bs) p)"
      unfolding skipped
      by (cases "list_ex (\<lambda>b. b < 32) (take ?n bs)") (simp_all only: if_True if_False bind.bind_lunit bind.bind_lzero)
    then show ?thesis using True by (simp add: string_iteration_def Let_def one del: less_32)
  next
    case False
    then show ?thesis by (simp add: string_iteration_def Let_def one)
  qed
qed

lemma parse_run: "parse rd bs p = run (byte_step rd) bs p"
proof (induction rd bs p rule: parse.induct)
  case (1 rd bs p)
  show ?case
  proof (cases bs)
    case (Cons b rest)
    have "run (byte_step rd) bs p
        = (case iteration rd bs p of None \<Rightarrow> None | Some (bs', p') \<Rightarrow> run (byte_step rd) bs' p')"
    proof (cases "pj_token p")
      case None
      then show ?thesis using Cons by (simp add: byte_step_def iteration_def split: option.splits)
    next
      case (Some t)
      show ?thesis
      proof (cases t)
        case (StringTok s)
        then show ?thesis using Some string_iteration_run [of p s bs rd] Cons by (simp add: iteration_def)
      next
        case (Atom raw node)
        have "byte_step rd q b = plain_byte b q" if "finish_atom rd p = Some q" for q
          using finish_atom_token [OF that] by (simp add: byte_step_def)
        then show ?thesis using Some Atom Cons
          by (auto simp: byte_step_def [of _ p] iteration_def split: option.splits)
      qed
    qed
    moreover have "iteration rd bs p = Some (bs', p') \<Longrightarrow> parse rd bs' p' = run (byte_step rd) bs' p'" for bs' p'
      using 1 Cons by blast
    ultimately show ?thesis using Cons by (subst parse.simps) (auto split: option.splits)
  qed (simp add: parse.simps)
qed

section \<open>UTF-8 over pieces\<close>

definition utf8_step :: "bytes \<Rightarrow> 8 word \<Rightarrow> bytes option" where
  "utf8_step tail b =
     (case from_utf8 (tail @ [b]) of Valid \<Rightarrow> Some [] | Broken \<Rightarrow> None | Cut _ \<Rightarrow> Some (tail @ [b]))"

text \<open>\<open>tail\<close> is the beginning of one character that still expects the ranges \<open>e\<close>.\<close>

definition expects :: "bytes \<Rightarrow> (8 word \<times> 8 word) list \<Rightarrow> bool" where
  "expects tail e \<longleftrightarrow> (tail = [] \<longleftrightarrow> e = []) \<and> (tail \<noteq> [] \<longrightarrow> length tail + length e \<le> 4)
     \<and> (\<forall>xs. from_utf8 (tail @ xs) = utf8_scan 0 (length tail) e xs)"

lemma expects_Nil [simp]: "expects [] []"
  by (simp add: expects_def from_utf8_def)

lemma expects_step:
  assumes "expects tail e"
  shows "utf8_step tail b = (case utf8_next e b of None \<Rightarrow> None | Some [] \<Rightarrow> Some [] | Some (_ # _) \<Rightarrow> Some (tail @ [b]))"
    and "utf8_next e b = Some e' \<Longrightarrow> e' \<noteq> [] \<Longrightarrow> expects (tail @ [b]) e'"
proof -
  show "utf8_step tail b = (case utf8_next e b of None \<Rightarrow> None | Some [] \<Rightarrow> Some [] | Some (_ # _) \<Rightarrow> Some (tail @ [b]))"
    using assms by (auto simp: expects_def utf8_step_def split: option.splits list.splits)
  assume e': "utf8_next e b = Some e'" "e' \<noteq> []"
  have "length (tail @ [b]) + length e' \<le> 4"
  proof (cases e)
    case Nil
    then show ?thesis using e' assms by (auto simp: utf8_next_def utf8_ranges_def expects_def split: if_splits)
  next
    case (Cons r rs)
    then show ?thesis using e' assms by (cases r) (auto simp: utf8_next_def expects_def split: if_splits)
  qed
  moreover have "from_utf8 ((tail @ [b]) @ xs) = utf8_scan 0 (length (tail @ [b])) e' xs" for xs
    using assms e' by (simp add: expects_def)
  ultimately show "expects (tail @ [b]) e'" using e' by (simp add: expects_def)
qed

lemma scan_run:
  assumes "expects (drop start pre) e" "start \<le> length pre"
  shows "run utf8_step bs (drop start pre)
    = (case utf8_scan start (length pre) e bs of
         Valid \<Rightarrow> Some [] | Broken \<Rightarrow> None | Cut n \<Rightarrow> Some (drop n (pre @ bs)))"
  using assms
proof (induction bs arbitrary: start pre e)
  case Nil
  then show ?case by (auto simp: expects_def)
next
  case (Cons b bs)
  note step = expects_step [OF Cons.prems(1)]
  show ?case
  proof (cases "utf8_next e b")
    case None
    then show ?thesis by (simp add: step)
  next
    case (Some e')
    show ?thesis
    proof (cases "e' = []")
      case True
      then show ?thesis using Cons.IH [of "length (pre @ [b])" "pre @ [b]" "[]"] Some
        by (simp add: step split: utf8_check.splits)
    next
      case False
      then show ?thesis using Cons.IH [of start "pre @ [b]" e'] Some Cons.prems(2) step(2) [OF Some False]
        by (auto simp: step(1) neq_Nil_conv split: utf8_check.splits)
    qed
  qed
qed

lemma check_rest_run: "check_rest [] bs = run utf8_step bs []"
  using scan_run [of 0 "[]" "[]" bs] by (simp add: check_rest_def from_utf8_def split: utf8_check.splits)

lemma validate_run:
  assumes "expects tail e"
  shows "validate_utf8 tail bs = run utf8_step bs tail"
proof (cases "tail = []")
  case True
  then show ?thesis by (simp add: validate_utf8_def check_rest_run)
next
  case False
  have "(case extend_tail tail bs of None \<Rightarrow> None | Some (t, rest) \<Rightarrow> if t \<noteq> [] then Some t else check_rest t rest)
      = run utf8_step bs tail"
    using assms False
  proof (induction bs arbitrary: tail e)
    case (Cons b bs)
    have short: "length tail < 4" using Cons.prems by (cases e) (auto simp: expects_def)
    note step = expects_step [OF Cons.prems(1)]
    have check: "from_utf8 (tail @ [b])
        = (case utf8_next e b of None \<Rightarrow> Broken | Some [] \<Rightarrow> Valid | Some (_ # _) \<Rightarrow> Cut 0)"
      using Cons.prems(1) by (auto simp: expects_def split: option.splits list.splits)
    show ?case
    proof (cases "utf8_next e b")
      case None
      then show ?thesis using short by (simp add: check step)
    next
      case (Some e')
      show ?thesis
      proof (cases e')
        case Nil
        then show ?thesis using Some short by (simp add: check step check_rest_run)
      next
        case (Cons r rs)
        then have "expects (tail @ [b]) e'" using step(2) [OF Some] by simp
        from Cons.IH [OF this] show ?thesis using Some Cons short by (simp add: check step)
      qed
    qed
  qed simp
  with False show ?thesis by (simp add: validate_utf8_def)
qed

lemma utf8_run_expects:
  assumes "run utf8_step bs tail = Some tail'" "\<exists>e. expects tail e"
  shows "\<exists>e. expects tail' e"
  using assms
proof (rule run_invariant)
  fix s b s'
  assume "utf8_step s b = Some s'" "\<exists>e. expects s e"
  then obtain e where e: "expects s e" "utf8_step s b = Some s'" by blast
  show "\<exists>e. expects s' e"
    using e(2) expects_step [OF e(1), of b] by (auto split: option.splits list.splits intro: exI [of _ "[]"])
qed

section \<open>Pieces\<close>

text \<open>The grammar neither reads nor writes the tail and the flag.\<close>

definition framed :: "bytes \<Rightarrow> bool \<Rightarrow> projection \<Rightarrow> projection" where
  "framed tail invalid p = p\<lparr>pj_utf8_tail := tail, pj_invalid := invalid\<rparr>"

lemma framed_simps [simp]:
  "pj_stack (framed t i p) = pj_stack p" "pj_token (framed t i p) = pj_token p" "pj_result (framed t i p) = pj_result p"
  "pj_utf8_tail (framed t i p) = t" "pj_invalid (framed t i p) = i"
  "framed t i p\<lparr>pj_stack := st\<rparr> = framed t i (p\<lparr>pj_stack := st\<rparr>)"
  "framed t i p\<lparr>pj_token := tok\<rparr> = framed t i (p\<lparr>pj_token := tok\<rparr>)"
  "framed t i p\<lparr>pj_result := r\<rparr> = framed t i (p\<lparr>pj_result := r\<rparr>)"
  "framed t i (framed t' i' p) = framed t i p"
  "framed (pj_utf8_tail p) (pj_invalid p) p = p"
  by (simp_all add: framed_def)

lemma put_value_framed: "put_value v (framed t i p) = map_option (framed t i) (put_value v p)"
  by (simp add: put_value_def Let_def split: list.splits)

lemma finish_atom_framed: "finish_atom rd (framed t i p) = map_option (framed t i) (finish_atom rd p)"
  by (auto simp: finish_atom_def Let_def put_value_framed map_option_bind comp_def split: option.splits token.splits)

lemma close_string_framed: "close_string rd s (framed t i p) = map_option (framed t i) (close_string rd s p)"
  by (auto simp: close_string_def put_value_framed map_option_bind comp_def split: list.splits)

lemma begin_value_framed: "begin_value b (framed t i p) = map_option (framed t i) (begin_value b p)"
  by (simp add: begin_value_def current_node_def Let_def)

lemma inner_byte_framed: "inner_byte c cs b (framed t i p) = map_option (framed t i) (inner_byte c cs b p)"
  by (simp add: inner_byte_def put_value_framed begin_value_framed)

lemma plain_byte_framed: "plain_byte b (framed t i p) = map_option (framed t i) (plain_byte b p)"
  by (cases "pj_result p") (simp_all add: plain_byte_def inner_byte_framed begin_value_framed split: list.splits)

lemma byte_step_framed: "byte_step rd (framed t i p) b = map_option (framed t i) (byte_step rd p b)"
proof -
  have "Option.bind (map_option (framed t i) x) (plain_byte b) = map_option (framed t i) (Option.bind x (plain_byte b))" for x
    by (cases x) (simp_all add: plain_byte_framed)
  then show ?thesis
    by (auto simp: byte_step_def plain_byte_framed finish_atom_framed close_string_framed map_option_bind comp_def
        split: option.splits token.splits Option.bind_splits)
qed

lemma parse_framed: "parse rd bs (framed t i p) = map_option (framed t i) (parse rd bs p)"
  unfolding parse_run
  by (induction bs arbitrary: p) (auto simp: byte_step_framed split: Option.bind_splits)

lemma parse_frame:
  assumes "parse rd bs p = Some q"
  shows "pj_utf8_tail q = pj_utf8_tail p" "pj_invalid q = pj_invalid p"
proof -
  have "q = framed (pj_utf8_tail p) (pj_invalid p) q"
    using parse_framed [of rd bs "pj_utf8_tail p" "pj_invalid p" p] assms by simp
  then show "pj_utf8_tail q = pj_utf8_tail p" "pj_invalid q = pj_invalid p" by (metis framed_simps(4,5))+
qed

lemma parse_append: "parse rd (xs @ ys) p = Option.bind (parse rd xs p) (parse rd ys)"
  unfolding parse_run run_append by (simp add: parse_run)

text \<open>Two invalid states are the same reader, whatever their tails are.\<close>

definition same :: "projection \<Rightarrow> projection \<Rightarrow> bool" where
  "same p q \<longleftrightarrow> p = q \<or> pj_invalid p \<and> pj_invalid q"

lemma same_trans: "same p q \<Longrightarrow> same q r \<Longrightarrow> same p r"
  by (auto simp: same_def)

lemma same_feed: "same p q \<Longrightarrow> same (feed rd p bs) (feed rd q bs)"
  by (auto simp: same_def feed_def)

lemma same_finish: "same p q \<Longrightarrow> finish rd p = finish rd q"
  by (auto simp: same_def finish_def)

definition fed :: "projection \<Rightarrow> bool" where
  "fed p \<longleftrightarrow> pj_invalid p \<or> (\<exists>e. expects (pj_utf8_tail p) e)"

lemma feed_valid:
  assumes "\<not> pj_invalid p" "expects (pj_utf8_tail p) e"
  shows "feed rd p bs
    = (case Option.bind (run utf8_step bs (pj_utf8_tail p)) (\<lambda>t. map_option (framed t False) (parse rd bs p)) of
         None \<Rightarrow> p\<lparr>pj_invalid := True, pj_stack := [], pj_token := None, pj_result := None\<rparr>
       | Some q \<Rightarrow> q)"
proof -
  have "p\<lparr>pj_utf8_tail := t\<rparr> = framed t False p" for t using assms(1) by (simp add: framed_def)
  then have "parse rd bs (p\<lparr>pj_utf8_tail := t\<rparr>) = map_option (framed t False) (parse rd bs p)" for t
    by (metis parse_framed)
  then show ?thesis unfolding feed_def validate_run [OF assms(2)] using assms(1) by presburger
qed

lemma fed_feed: "fed p \<Longrightarrow> fed (feed rd p bs)"
  using utf8_run_expects [of bs "pj_utf8_tail p"] feed_valid [of p _ rd bs]
  by (cases "pj_invalid p") (fastforce simp: fed_def feed_def bind_eq_Some_conv split: option.splits)+

lemma feed_append:
  assumes "fed p"
  shows "same (feed rd (feed rd p xs) ys) (feed rd p (xs @ ys))"
proof (cases "pj_invalid p")
  case False
  then obtain e where e: "expects (pj_utf8_tail p) e" using assms by (auto simp: fed_def)
  note whole = feed_valid [OF False e, of rd "xs @ ys"] and first = feed_valid [OF False e, of rd xs]
  show ?thesis
  proof (cases "run utf8_step xs (pj_utf8_tail p)")
    case None
    then show ?thesis using whole first by (simp add: run_append feed_def [of rd _ ys] same_def)
  next
    case (Some t)
    show ?thesis
    proof (cases "parse rd xs p")
      case None
      have "Option.bind x (\<lambda>t. None) = None" for x by (cases x) auto
      with None Some show ?thesis using whole first
        by (simp add: run_append parse_append feed_def [of rd _ ys] same_def)
    next
      case (Some q)
      obtain e' where "expects t e'" using utf8_run_expects \<open>run utf8_step xs (pj_utf8_tail p) = Some t\<close> e by blast
      moreover have "feed rd p xs = framed t False q"
        using first Some \<open>run utf8_step xs (pj_utf8_tail p) = Some t\<close> by simp
      ultimately show ?thesis
        using whole Some \<open>run utf8_step xs (pj_utf8_tail p) = Some t\<close> feed_valid [of "framed t False q" e' rd ys]
        by (auto simp: run_append parse_append parse_framed same_def option.map_comp comp_def split: option.splits)
    qed
  qed
qed (simp add: feed_def same_def)

lemma feed_pieces: "fed p \<Longrightarrow> same (foldl (feed rd) p pieces) (feed rd p (concat pieces))"
proof (induction pieces arbitrary: p)
  case Nil
  then show ?case using feed_valid [of p _ rd "[]"]
    by (cases "pj_invalid p") (auto simp: fed_def feed_def same_def validate_run parse.simps)
next
  case (Cons piece pieces)
  show ?case
    using same_trans [OF Cons.IH [OF fed_feed [OF Cons.prems]] feed_append [OF Cons.prems]] by simp
qed

section \<open>What is kept\<close>

definition token_start :: "8 word \<Rightarrow> bool" where
  "token_start b \<longleftrightarrow> b = 34 \<or> b = 45 \<or> 48 \<le> b \<and> b \<le> 57 \<or> b = 116 \<or> b = 102 \<or> b = 110"

text \<open>A value that belongs to a node: only known fields, each once, and no elements of arrays.\<close>

fun kept :: "node \<Rightarrow> json \<Rightarrow> bool" where
  "kept n (JObject fs) \<longleftrightarrow> distinct (map fst fs) \<and> (\<forall>f \<in> set fs. child n (fst f) \<noteq> Skip \<and> kept (child n (fst f)) (snd f))"
| "kept n (JArray vs) \<longleftrightarrow> vs = []"
| "kept n _ \<longleftrightarrow> True"

text \<open>\<open>serde_json\<close> reads a token that starts like a string, a number or a literal as such a value.\<close>

definition reads_scalars :: "reader \<Rightarrow> bool" where
  "reads_scalars rd \<longleftrightarrow> (\<forall>raw v. read_value rd raw = Some v \<longrightarrow> raw \<noteq> [] \<and> token_start (hd raw) \<longrightarrow> (\<forall>n. kept n v))"

definition token_ok :: "token \<Rightarrow> bool" where
  "token_ok t \<longleftrightarrow>
     (case t of
        StringTok s \<Rightarrow> st_raw s \<noteq> [] \<and> hd (st_raw s) = 34 \<and> length (st_raw s) \<le> max_token
      | Atom raw n \<Rightarrow> raw \<noteq> [] \<and> token_start (hd raw) \<and> length raw \<le> max_token)"

definition node_of :: "container list \<Rightarrow> node" where
  "node_of cs = (case cs of [] \<Rightarrow> Root | c # _ \<Rightarrow> if in_object c then child (at_node c) (at_key c) else Skip)"

lemma current_node_of: "current_node p = node_of (pj_stack p)"
  by (simp add: current_node_def node_of_def)

fun stack_ok :: "container list \<Rightarrow> bool" where
  "stack_ok [] \<longleftrightarrow> True"
| "stack_ok (c # cs) \<longleftrightarrow> at_node c = node_of cs \<and> kept (at_node c) (JObject (at_fields c)) \<and> stack_ok cs"

definition state_ok :: "projection \<Rightarrow> bool" where
  "state_ok p \<longleftrightarrow> length (pj_stack p) \<le> max_depth \<and> stack_ok (pj_stack p)
     \<and> (\<forall>t. pj_token p = Some t \<longrightarrow> token_ok t) \<and> (\<forall>v. pj_result p = Some v \<longrightarrow> kept Root v)"

lemma kept_update:
  assumes "kept n (JObject fs)" "child n k \<noteq> Skip" "kept (child n k) v"
  shows "kept n (JObject (AList.update k v fs))"
proof -
  have "set (AList.update k v fs) \<subseteq> insert (k, v) (set fs)" by (induction fs) auto
  then show ?thesis using assms by (auto simp: distinct_update)
qed

lemma put_value_ok:
  assumes "put_value v p = Some q" "state_ok p" "kept (node_of (pj_stack p)) v"
  shows "state_ok q"
proof (cases "pj_stack p")
  case (Cons c cs)
  have c: "kept (at_node c) (JObject (at_fields c))" using assms(2) Cons by (auto simp: state_ok_def simp del: kept.simps)
  have "kept (at_node c) (JObject (AList.update (at_key c) v (at_fields c)))"
    if "in_object c" "child (at_node c) (at_key c) \<noteq> Skip"
    using assms(3) Cons that by (intro kept_update c) (simp_all add: node_of_def)
  then show ?thesis
    using assms(1,2) Cons by (auto simp: put_value_def state_ok_def Let_def simp del: kept.simps split: if_splits)
qed (use assms in \<open>auto simp: put_value_def state_ok_def node_of_def split: if_splits\<close>)

lemma finish_atom_ok:
  assumes "reads_scalars rd" "finish_atom rd p = Some q" "state_ok p"
  shows "state_ok q"
proof -
  have none: "state_ok (p\<lparr>pj_token := None\<rparr>)" using assms(3) by (simp add: state_ok_def)
  show ?thesis
  proof (cases "\<exists>raw n. pj_token p = Some (Atom raw n)")
    case True
    then obtain raw n where t: "pj_token p = Some (Atom raw n)" by blast
    then have raw: "raw \<noteq> [] \<and> token_start (hd raw)" using assms(3) by (auto simp: state_ok_def token_ok_def)
    from assms(2) t obtain v where v: "put_value v (p\<lparr>pj_token := None\<rparr>) = Some q" "v = JNull \<or> read_value rd raw = Some v"
      by (auto simp: finish_atom_def Let_def bind_eq_Some_conv split: if_splits)
    have "kept m v" for m using v(2) assms(1) raw by (auto simp: reads_scalars_def)
    then show ?thesis by (rule put_value_ok [OF v(1) none])
  next
    case False
    then have "q = p\<lparr>pj_token := None\<rparr>" using assms(2) by (auto simp: finish_atom_def Let_def split: option.splits token.splits)
    then show ?thesis using none by simp
  qed
qed

lemma string_byte_ok:
  assumes "string_byte s b = Some (f, s')" "token_ok (StringTok s)"
  shows "token_ok (StringTok s')"
proof -
  define s1 where "s1 = (if st_capture s then s\<lparr>st_raw := st_raw s @ [b]\<rparr> else s)"
  have "token_ok (StringTok s1)" using assms by (auto simp: s1_def token_ok_def string_byte_def split: if_splits)
  moreover have "unicode_digit s1 b = Some s' \<Longrightarrow> st_raw s' = st_raw s1"
    by (auto simp: unicode_digit_def Let_def split: option.splits if_splits)
  moreover have "surrogate_escape s1 b = Some s' \<Longrightarrow> st_raw s' = st_raw s1"
    by (auto simp: surrogate_escape_def split: if_splits)
  moreover have "escaped_byte s1 b = Some s' \<Longrightarrow> st_raw s' = st_raw s1"
    by (auto simp: escaped_byte_def Let_def split: if_splits)
  ultimately show ?thesis
    using assms(1) unfolding string_byte_def s1_def [symmetric] Let_def
    by (auto simp: token_ok_def split: if_splits)
qed

lemma close_string_ok:
  assumes "reads_scalars rd" "close_string rd s (p\<lparr>pj_token := None\<rparr>) = Some q" "state_ok p" "token_ok (StringTok s)"
  shows "state_ok q"
proof -
  have none: "state_ok (p\<lparr>pj_token := None\<rparr>)" using assms(3) by (simp add: state_ok_def)
  show ?thesis
  proof (cases "st_key s")
    case True
    then show ?thesis using assms(2,3)
      by (auto simp: close_string_def state_ok_def bind_eq_Some_conv split: list.splits if_splits)
  next
    case False
    then obtain v where v: "put_value v (p\<lparr>pj_token := None\<rparr>) = Some q" "v = JNull \<or> read_value rd (st_raw s) = Some v"
      using assms(2) by (auto simp: close_string_def bind_eq_Some_conv split: if_splits)
    have "token_start (hd (st_raw s))" using assms(4) by (simp add: token_ok_def token_start_def)
    then have "kept m v" for m using v(2) assms(1,4) by (auto simp: reads_scalars_def token_ok_def)
    then show ?thesis by (rule put_value_ok [OF v(1) none])
  qed
qed

lemma begin_value_ok:
  assumes "begin_value b p = Some q" "state_ok p"
  shows "state_ok q"
proof -
  have "1 \<le> max_token" by (simp add: max_token_def)
  then show ?thesis
    using assms by (auto simp: begin_value_def Let_def current_node_of state_ok_def token_ok_def new_string_def token_start_def
        split: if_splits)
qed

lemma inner_byte_ok:
  assumes "inner_byte c cs b p = Some q" "state_ok p" "pj_stack p = c # cs"
  shows "state_ok q"
proof -
  have "1 \<le> max_token" by (simp add: max_token_def)
  then have token: "token_ok (StringTok (new_string k f))" for k f by (simp add: token_ok_def new_string_def)
  have popped: "kept (node_of cs) (if in_object c then JObject (at_fields c) else JArray [])" "state_ok (p\<lparr>pj_stack := cs\<rparr>)"
    using assms(2,3) by (auto simp: state_ok_def simp del: kept.simps(1))
  have phase: "state_ok (p\<lparr>pj_stack := c\<lparr>at_phase := ph\<rparr> # cs\<rparr>)" for ph
    using assms(2,3) by (auto simp: state_ok_def simp del: kept.simps(1))
  have string: "state_ok (p\<lparr>pj_token := Some (StringTok (new_string k f))\<rparr>)" for k f
    using assms(2) token by (simp add: state_ok_def)
  show ?thesis
    using assms(1) popped phase string begin_value_ok [OF _ assms(2)]
    unfolding inner_byte_def by (auto split: if_split_asm dest!: put_value_ok)
qed

lemma plain_byte_ok:
  assumes "plain_byte b p = Some q" "state_ok p"
  shows "state_ok q"
  using assms by (auto simp: plain_byte_def split: if_splits list.splits dest: begin_value_ok inner_byte_ok)

lemma byte_step_ok:
  assumes "reads_scalars rd" "byte_step rd p b = Some q" "state_ok p"
  shows "state_ok q"
proof (cases "pj_token p")
  case None
  then show ?thesis using assms by (simp add: byte_step_def plain_byte_ok)
next
  case (Some t)
  then have t: "token_ok t" using assms(3) by (simp add: state_ok_def)
  show ?thesis
  proof (cases t)
    case (StringTok s)
    then obtain f s' where s': "string_byte s b = Some (f, s')" using assms(2) Some by (auto simp: byte_step_def bind_eq_Some_conv)
    have "token_ok (StringTok s')" by (rule string_byte_ok [OF s']) (use t StringTok in simp)
    then show ?thesis
      using assms Some StringTok s' by (auto simp: byte_step_def state_ok_def [of "p\<lparr>pj_token := _\<rparr>"] state_ok_def [of p]
          split: if_splits dest: close_string_ok [OF assms(1) _ assms(3)])
  next
    case (Atom raw node)
    show ?thesis
    proof (cases "ends_atom b")
      case True
      then show ?thesis using assms Some Atom
        by (auto simp: byte_step_def bind_eq_Some_conv dest: finish_atom_ok plain_byte_ok)
    next
      case False
      then show ?thesis using assms Some Atom t by (auto simp: byte_step_def state_ok_def token_ok_def split: if_splits)
    qed
  qed
qed

lemma feed_ok:
  assumes "reads_scalars rd" "state_ok p"
  shows "state_ok (feed rd p bs)"
proof -
  have "state_ok q" if parsed: "parse rd bs (p\<lparr>pj_utf8_tail := t\<rparr>) = Some q" for q t
  proof (rule run_invariant [OF parsed [unfolded parse_run]])
    show "state_ok (p\<lparr>pj_utf8_tail := t\<rparr>)" using assms(2) by (simp add: state_ok_def)
  qed (rule byte_step_ok [OF assms(1)])
  moreover have "state_ok (p\<lparr>pj_invalid := True, pj_stack := [], pj_token := None, pj_result := None\<rparr>)"
    by (simp add: state_ok_def)
  ultimately show ?thesis using assms(2) by (auto simp: feed_def bind_eq_Some_conv split: option.splits)
qed

section \<open>Properties\<close>

text \<open>The pieces in which a message arrives do not matter. Feeding them one by one gives the same projection
  as feeding the whole message at once, and the same rejection, wherever the message is cut: within a token, an
  escape, a surrogate pair or a UTF-8 character. In particular the vectorised scan of skipped strings agrees with
  the reader of single bytes.\<close>

theorem projection_any_pieces:
  "finish rd (foldl (feed rd) new_projection pieces) = finish rd (feed rd new_projection (concat pieces))"
  by (rule same_finish [OF feed_pieces]) (auto simp: fed_def new_projection_def intro: exI [of _ "[]"])

lemma feeds_ok:
  assumes "reads_scalars rd"
  shows "state_ok (foldl (feed rd) new_projection pieces) \<and> fed (foldl (feed rd) new_projection pieces)"
proof -
  have "state_ok new_projection \<and> fed new_projection"
    by (auto simp: new_projection_def state_ok_def fed_def intro: exI [of _ "[]"])
  then have "state_ok (foldl (feed rd) p pieces) \<and> fed (foldl (feed rd) p pieces)" if "state_ok p \<and> fed p" for p
    using that by (induction pieces arbitrary: p) (simp_all add: feed_ok [OF assms] fed_feed)
  then show ?thesis using \<open>state_ok new_projection \<and> fed new_projection\<close> by blast
qed

text \<open>C38: the reader holds a bounded amount of data of the known fields only, whatever bytes it is fed, in
  whatever pieces: at most 128 open containers, a token of at most 4096 bytes, and while it accepts the message
  at most three bytes of a cut character. Every object holds only the fields of its node, each once; an array
  holds no elements, and a result has only known fields at every level.\<close>

theorem projection_bounded:
  assumes "reads_scalars rd"
  shows "let p = foldl (feed rd) new_projection pieces in
    length (pj_stack p) \<le> 128
    \<and> (\<not> pj_invalid p \<longrightarrow> length (pj_utf8_tail p) \<le> 3)
    \<and> (\<forall>s. pj_token p = Some (StringTok s) \<longrightarrow> length (st_raw s) \<le> 4096)
    \<and> (\<forall>raw n. pj_token p = Some (Atom raw n) \<longrightarrow> length raw \<le> 4096)
    \<and> (\<forall>c \<in> set (pj_stack p). kept (at_node c) (JObject (at_fields c)))
    \<and> (\<forall>v. pj_result p = Some v \<longrightarrow> kept Root v)"
proof -
  define p where "p = foldl (feed rd) new_projection pieces"
  have ok: "state_ok p" "fed p" using feeds_ok [OF assms] by (simp_all add: p_def)
  have "length tail \<le> 3" if "expects tail e" for tail e using that by (cases e) (auto simp: expects_def)
  then have "\<not> pj_invalid p \<longrightarrow> length (pj_utf8_tail p) \<le> 3" using ok(2) by (auto simp: fed_def)
  moreover have "stack_ok cs \<Longrightarrow> c \<in> set cs \<Longrightarrow> kept (at_node c) (JObject (at_fields c))" for c cs
    by (induction cs rule: stack_ok.induct) (auto simp del: kept.simps(1))
  ultimately show ?thesis
    using ok(1) unfolding Let_def p_def [symmetric]
    by (auto simp: state_ok_def token_ok_def max_depth_def max_token_def simp del: kept.simps(1))
qed

text \<open>A reader for small texts: strings without escapes, single digits, and the three literals.\<close>

definition of_bytes :: "bytes \<Rightarrow> string" where
  "of_bytes bs = map (\<lambda>b. char_of (unat b)) bs"

definition to_bytes :: "string \<Rightarrow> bytes" where
  "to_bytes s = map (\<lambda>c. word_of_nat (of_char c)) s"

fun small_text :: "json \<Rightarrow> string" where
  "small_text (JString s) = [CHR 0x22] @ s @ [CHR 0x22]"
| "small_text (JObject fs) = ''{'' @ concat (map (\<lambda>f. [CHR 0x22] @ fst f @ [CHR 0x22] @ '':'' @ small_text (snd f) @ '','') fs) @ ''}''"
| "small_text (JInt n) = [char_of (nat n + 48)]"
| "small_text _ = ''null''"

definition small_reader :: reader where
  "small_reader = \<lparr>read_value = (\<lambda>raw. case raw of
       [] \<Rightarrow> None
     | b # rest \<Rightarrow> if b = 34 then Some (JString (of_bytes (butlast rest))) else Some (JInt (uint b - 48))),
     read_key = (\<lambda>raw. Some (of_bytes (butlast (tl raw)))), is_value = (\<lambda>raw. raw \<noteq> []),
     write_value = (\<lambda>v. Some (to_bytes (small_text v)))\<rparr>"

lemma small_reader_scalars: "reads_scalars small_reader"
  by (auto simp: reads_scalars_def small_reader_def split: list.splits if_splits)

definition small_pieces :: "bytes list" where
  "small_pieces = map to_bytes [''{'', [CHR 0x22] @ ''id'' @ [CHR 0x22] @ '':7,'' @ [CHR 0x22] @ ''x'',
     [CHR 0x22] @ '': [1,{}'', ''],'' @ [CHR 0x22] @ ''result'' @ [CHR 0x22] @ '':{} }'']"

lemma small_result:
  "pj_result (foldl (feed small_reader) new_projection small_pieces) = Some (JObject [(''id'', JInt 7), (''result'', JObject [])])"
  by code_simp

theorem projection_bounded_witness:
  "kept Root (JObject [(''id'', JInt 7), (''result'', JObject [])])"
  using projection_bounded [OF small_reader_scalars, of small_pieces] small_result unfolding Let_def by blast

end
