(* ===== verification/Projection_Documents.thy ===== *)
theory Projection_Documents
  imports Projection_Laws
begin

text \<open>
  What the incremental reader computes: documents as syntax trees with their text, the projection of a tree,
  and the theorem that reading the text of a tree, in any pieces, yields its projection.
\<close>

section \<open>Documents\<close>

text \<open>
  A string is the list of its lexical units (a plain byte or an escape). \<open>Spaced\<close> puts white space around a
  value, a member of an object has white space around its key.
\<close>

datatype doc =
    Scalar bytes
  | Text "bytes list"
  | Arr "doc list"
  | Obj "(bytes \<times> bytes list \<times> bytes \<times> doc) list"
  | Spaced bytes doc bytes

definition quoted :: "bytes list \<Rightarrow> bytes" where
  "quoted units = 34 # concat units @ [34]"

fun text_of :: "doc \<Rightarrow> bytes"
and items_text :: "doc list \<Rightarrow> bytes"
and members_text :: "(bytes \<times> bytes list \<times> bytes \<times> doc) list \<Rightarrow> bytes" where
  "text_of (Scalar raw) = raw"
| "text_of (Text units) = quoted units"
| "text_of (Arr ds) = 91 # items_text ds"
| "text_of (Obj ms) = 123 # members_text ms"
| "text_of (Spaced before d after) = before @ text_of d @ after"
| "items_text [] = [93]"
| "items_text [d] = text_of d @ [93]"
| "items_text (d # ds) = text_of d @ 44 # items_text ds"
| "members_text [] = [125]"
| "members_text [(before, key, after, d)] = before @ quoted key @ after @ 58 # text_of d @ [125]"
| "members_text ((before, key, after, d) # ms) = before @ quoted key @ after @ 58 # text_of d @ 44 # members_text ms"

section \<open>Strings\<close>

definition code4 :: "8 word \<Rightarrow> 8 word \<Rightarrow> 8 word \<Rightarrow> 8 word \<Rightarrow> (16 word) option" where
  "code4 a b c d =
     (case (hex_digit a, hex_digit b, hex_digit c, hex_digit d) of
        (Some w, Some x, Some y, Some z) \<Rightarrow> Some (((w * 16 + x) * 16 + y) * 16 + z)
      | _ \<Rightarrow> None)"

text \<open>A plain byte, an escape, an escaped character of the basic plane, or an escaped surrogate pair.\<close>

definition unit_ok :: "bytes \<Rightarrow> bool" where
  "unit_ok u =
     (case u of
        [b] \<Rightarrow> b \<noteq> 34 \<and> b \<noteq> 92 \<and> 32 \<le> b
      | [e, c] \<Rightarrow> e = 92 \<and> c \<in> {34, 92, 47, 98, 102, 110, 114, 116}
      | [e, u, a, b, c, d] \<Rightarrow> e = 92 \<and> u = 117 \<and>
          (case code4 a b c d of None \<Rightarrow> False | Some n \<Rightarrow> n < 0xd800 \<or> 0xdfff < n)
      | [e, u, a, b, c, d, e', u', a', b', c', d'] \<Rightarrow> e = 92 \<and> u = 117 \<and> e' = 92 \<and> u' = 117 \<and>
          (case (code4 a b c d, code4 a' b' c' d') of
             (Some n, Some m) \<Rightarrow> 0xd800 \<le> n \<and> n \<le> 0xdbff \<and> 0xdc00 \<le> m \<and> m \<le> 0xdfff
           | _ \<Rightarrow> False)
      | _ \<Rightarrow> False)"

lemma hex_digit_small: "hex_digit b = Some d \<Longrightarrow> d < 16"
  by (auto simp: hex_digit_def word_less_nat_alt word_le_nat_alt unsigned_ucast_eq take_bit_nat_eq_self unat_sub_if'
      split: if_splits)

lemma shift_in_digit: "d < 16 \<Longrightarrow> push_bit 4 c OR d = c * 16 + (d :: 16 word)"
proof -
  assume d: "d < 16"
  have "take_bit 4 d = d"
    by (rule word_unat_eq_iff [THEN iffD2])
      (use d in \<open>simp add: unsigned_take_bit_eq take_bit_nat_eq_self word_less_nat_alt\<close>)
  then have "n < 4" if "bit d n" for n using that by (metis bit_take_bit_iff)
  then have "push_bit 4 c AND d = 0"
    by (intro bit_word_eqI) (auto simp: bit_simps dest: leD)
  then show ?thesis
    by (simp add: disjunctive_add_eq_or [symmetric] push_bit_eq_mult)
qed

lemma bind_run_Nil [simp]: "Option.bind x (run f []) = x"
  by (cases x) simp_all

definition string_step :: "string_token \<Rightarrow> 8 word \<Rightarrow> string_token option" where
  "string_step s b = (case string_byte s b of Some (False, s') \<Rightarrow> Some s' | _ \<Rightarrow> None)"

definition pushed :: "string_token \<Rightarrow> bytes \<Rightarrow> string_token" where
  "pushed s bs = (if st_capture s then s\<lparr>st_raw := st_raw s @ bs\<rparr> else s)"

definition room :: "string_token \<Rightarrow> nat \<Rightarrow> bool" where
  "room s n \<longleftrightarrow> (st_capture s \<longrightarrow> length (st_raw s) + n \<le> max_token)"

definition between :: "string_token \<Rightarrow> bool" where
  "between s \<longleftrightarrow> \<not> st_escape s \<and> st_digits s = 0 \<and> st_low_escape s = 0 \<and> \<not> st_high s"

lemma pushed_simps [simp]:
  "st_capture (pushed s bs) = st_capture s" "st_key (pushed s bs) = st_key s" "st_escape (pushed s bs) = st_escape s"
  "st_digits (pushed s bs) = st_digits s" "st_code (pushed s bs) = st_code s" "st_high (pushed s bs) = st_high s"
  "st_low_escape (pushed s bs) = st_low_escape s" "pushed (pushed s bs) cs = pushed s (bs @ cs)"
  "between (pushed s bs) = between s"
  by (simp_all add: pushed_def between_def)

lemma room_pushed [simp]: "room (pushed s bs) n = room s (length bs + n)"
  by (auto simp: room_def pushed_def)

lemma pushed_updates [simp]:
  "pushed (s\<lparr>st_code := c\<rparr>) bs = (pushed s bs)\<lparr>st_code := c\<rparr>" "pushed (s\<lparr>st_digits := n\<rparr>) bs = (pushed s bs)\<lparr>st_digits := n\<rparr>"
  "pushed (s\<lparr>st_high := f\<rparr>) bs = (pushed s bs)\<lparr>st_high := f\<rparr>" "pushed (s\<lparr>st_escape := f\<rparr>) bs = (pushed s bs)\<lparr>st_escape := f\<rparr>"
  "pushed (s\<lparr>st_low_escape := n\<rparr>) bs = (pushed s bs)\<lparr>st_low_escape := n\<rparr>"
  "room (s\<lparr>st_code := c\<rparr>) k = room s k" "room (s\<lparr>st_digits := n\<rparr>) k = room s k" "room (s\<lparr>st_high := f\<rparr>) k = room s k"
  "room (s\<lparr>st_escape := f\<rparr>) k = room s k" "room (s\<lparr>st_low_escape := n\<rparr>) k = room s k"
  by (simp_all add: pushed_def room_def)

text \<open>The four kinds of steps inside a string.\<close>

lemma string_step_room:
  assumes "room s (Suc n)"
  shows "string_step s b =
    (let s = pushed s [b] in
     if 0 < st_digits s then unicode_digit s b
     else if 0 < st_low_escape s then surrogate_escape s b
     else if st_escape s then escaped_byte s b
     else if b = 34 then None
     else if b = 92 then Some (s\<lparr>st_escape := True\<rparr>)
     else if b \<le> 31 then None
     else Some s)"
proof -
  have full: "(st_capture s \<and> length (st_raw s) = max_token) = False" using assms by (auto simp: room_def)
  have raw: "(if st_capture s then s\<lparr>st_raw := st_raw s @ [b]\<rparr> else s) = pushed s [b]" by (simp add: pushed_def)
  show ?thesis
    unfolding string_step_def string_byte_def full raw if_False Let_def
    by (simp add: if_distrib [of "\<lambda>r. case r of Some (False, s') \<Rightarrow> Some s' | _ \<Rightarrow> None"] comp_def split: option.split)
qed

lemma hex_digits:
  assumes "code4 a b c d = Some n" "room s 4" "st_digits s = 4" "st_code s = 0"
  shows "run string_step [a, b, c, d] s =
    (let s1 = (pushed s [a, b, c, d])\<lparr>st_code := n, st_digits := 0\<rparr> in
     if st_high s then (if 0xdc00 \<le> n \<and> n \<le> 0xdfff then Some (s1\<lparr>st_high := False\<rparr>) else None)
     else if 0xd800 \<le> n \<and> n \<le> 0xdbff then Some (s1\<lparr>st_high := True, st_low_escape := 2\<rparr>)
     else if 0xdc00 \<le> n \<and> n \<le> 0xdfff then None
     else Some s1)"
proof -
  obtain w x y z where h: "hex_digit a = Some w" "hex_digit b = Some x" "hex_digit c = Some y" "hex_digit d = Some z"
      and n: "n = ((w * 16 + x) * 16 + y) * 16 + z"
    using assms(1) by (auto simp: code4_def split: option.splits)
  have r: "room s (Suc 3)" "room s (Suc (Suc 2))" "room s (Suc (Suc (Suc 1)))" using assms(2) by (auto simp: room_def)
  have digit: "string_step t e = Some ((pushed t [e])\<lparr>st_code := st_code t * 16 + v, st_digits := st_digits t - 1\<rparr>)"
    if "hex_digit e = Some v" "room t (Suc k)" "1 < st_digits t" for t e v k
    using that by (simp add: string_step_room [OF that(2)] unicode_digit_def Let_def shift_in_digit hex_digit_small)
  have last: "string_step t e = (let m = st_code t * 16 + v; s1 = (pushed t [e])\<lparr>st_code := m, st_digits := 0\<rparr> in
     if st_high s1 then (if 0xdc00 \<le> m \<and> m \<le> 0xdfff then Some (s1\<lparr>st_high := False\<rparr>) else None)
     else if 0xd800 \<le> m \<and> m \<le> 0xdbff then Some (s1\<lparr>st_high := True, st_low_escape := 2\<rparr>)
     else if 0xdc00 \<le> m \<and> m \<le> 0xdfff then None
     else Some s1)"
    if "hex_digit e = Some v" "room t (Suc k)" "st_digits t = 1" for t e v k
    using that by (simp add: string_step_room [OF that(2)] unicode_digit_def Let_def shift_in_digit hex_digit_small)
  show ?thesis
    using r assms(3,4)
    by (simp add: digit [OF h(1), where k = 3] digit [OF h(2), where k = 2] digit [OF h(3), where k = 1] last [OF h(4), where k = 0]
        n eval_nat_numeral Let_def; blast)
qed

lemma unit_run:
  assumes u: "unit_ok u" and s: "between s" "room s (length u)"
  shows "\<exists>s'. run string_step u s = Some s' \<and> between s' \<and> st_key s' = st_key s \<and> st_capture s' = st_capture s
    \<and> (st_capture s \<longrightarrow> st_raw s' = st_raw s @ u)"
proof -
  have flags: "\<not> st_escape s" "st_digits s = 0" "st_low_escape s = 0" "\<not> st_high s" using s(1) by (simp_all add: between_def)
  let ?u = "\<lambda>s. (pushed s [92, 117])\<lparr>st_digits := 4, st_code := 0\<rparr>"
  have escape_u: "run string_step [92, 117] s = Some (?u s)" if "room s (Suc (Suc 0))"
    using that flags string_step_room [of s 1 92] string_step_room [of "(pushed s [92])\<lparr>st_escape := True\<rparr>" 0 117]
    by (simp add: Let_def escaped_byte_def)
  consider (plain) b where "u = [b]" "b \<noteq> 34" "b \<noteq> 92" "32 \<le> b"
    | (escape) c where "u = [92, c]" "c \<in> {34, 92, 47, 98, 102, 110, 114, 116}"
    | (code) a b c d n where "u = [92, 117, a, b, c, d]" "code4 a b c d = Some n" "n < 0xd800 \<or> 0xdfff < n"
    | (pair) a b c d a' b' c' d' n m where "u = [92, 117, a, b, c, d, 92, 117, a', b', c', d']"
        "code4 a b c d = Some n" "code4 a' b' c' d' = Some m" "0xd800 \<le> n" "n \<le> 0xdbff" "0xdc00 \<le> m" "m \<le> 0xdfff"
    using u unfolding unit_ok_def by (auto split: list.splits option.splits)
  then show ?thesis
  proof cases
    case plain
    then have "\<not> b \<le> 31" using leD less_32 by blast
    then show ?thesis using plain flags s string_step_room [of s 0 b] by (auto simp: pushed_def between_def)
  next
    case escape
    have c: "c \<noteq> 117" using escape(2) by auto
    have r: "room s (Suc (Suc 0))" using s(2) escape(1) by simp
    have step: "string_step s 92 = Some ((pushed s [92])\<lparr>st_escape := True\<rparr>)"
      using flags r string_step_room [of s 1 92] by (simp add: Let_def)
    have "string_step ((pushed s [92])\<lparr>st_escape := True\<rparr>) c = Some ((pushed s u)\<lparr>st_escape := False\<rparr>)"
      using flags r c escape(2) string_step_room [of "(pushed s [92])\<lparr>st_escape := True\<rparr>" 0 c]
      by (simp add: Let_def escaped_byte_def escape(1))
    then have "run string_step u s = Some ((pushed s u)\<lparr>st_escape := False\<rparr>)" by (simp add: escape(1) step)
    then show ?thesis using flags by (auto simp: between_def pushed_def)
  next
    case code
    have range: "\<not> (0xd800 \<le> n \<and> n \<le> 0xdbff)" "\<not> (0xdc00 \<le> n \<and> n \<le> 0xdfff)"
      using code(3) by (auto simp: word_less_nat_alt word_le_nat_alt)
    have r: "room s (Suc (Suc 0))" "room (?u s) 4" using s(2) code(1) by (auto simp: room_def pushed_def)
    have "run string_step ([92, 117] @ [a, b, c, d]) s = run string_step [a, b, c, d] (?u s)"
      unfolding run_append escape_u [OF r(1)] by (simp only: bind.bind_lunit)
    also have "\<dots> = Some ((pushed s u)\<lparr>st_digits := 0, st_code := n\<rparr>)"
      using range flags hex_digits [OF code(2) r(2)] code(1) by (auto simp: Let_def)
    finally have "run string_step u s = Some ((pushed s u)\<lparr>st_digits := 0, st_code := n\<rparr>)" using code(1) by simp
    then show ?thesis using flags by (auto simp: between_def pushed_def)
  next
    case pair
    let ?h = "(pushed s [92, 117, a, b, c, d])\<lparr>st_code := n, st_digits := 0, st_high := True, st_low_escape := 2\<rparr>"
    let ?l = "(pushed s [92, 117, a, b, c, d, 92, 117])\<lparr>st_code := 0, st_digits := 4, st_high := True, st_low_escape := 0\<rparr>"
    have r: "room s k" if "k \<le> 12" for k using that s(2) pair(1) by (auto simp: room_def)
    have "run string_step ([92, 117] @ [a, b, c, d]) s = Some ?h"
      unfolding run_append using escape_u r flags pair(4,5) hex_digits [OF pair(2), of "?u s"]
      by (simp add: Let_def)
    moreover have "run string_step [92, 117] ?h = Some ?l"
      using r flags string_step_room [of ?h 1 92] string_step_room [of "(pushed ?h [92])\<lparr>st_low_escape := 1\<rparr>" 0 117]
      by (simp add: Let_def surrogate_escape_def)
    moreover have "run string_step [a', b', c', d'] ?l
        = Some ((pushed s u)\<lparr>st_code := m, st_digits := 0, st_high := False, st_low_escape := 0\<rparr>)"
      using r flags pair(1,6,7) hex_digits [OF pair(3), of ?l] by (simp add: Let_def)
    moreover have "u = ([92, 117] @ [a, b, c, d]) @ [92, 117] @ [a', b', c', d']" using pair(1) by simp
    ultimately have "run string_step u s = Some ((pushed s u)\<lparr>st_code := m, st_digits := 0, st_high := False, st_low_escape := 0\<rparr>)"
      by (simp only: run_append bind.bind_lunit)
    then show ?thesis using flags by (auto simp: between_def pushed_def)
  qed
qed

lemma units_run:
  assumes "list_all unit_ok us" "between s" "room s (length (concat us))"
  shows "\<exists>s'. run string_step (concat us) s = Some s' \<and> between s' \<and> st_key s' = st_key s \<and> st_capture s' = st_capture s
    \<and> (st_capture s \<longrightarrow> st_raw s' = st_raw s @ concat us)"
  using assms
proof (induction us arbitrary: s)
  case (Cons u us)
  have "room s (length u)" using Cons.prems(3) by (auto simp: room_def)
  then obtain t where t: "run string_step u s = Some t" "between t" "st_key t = st_key s" "st_capture t = st_capture s"
      "st_capture s \<longrightarrow> st_raw t = st_raw s @ u"
    using unit_run [of u s] Cons.prems by auto
  have "room t (length (concat us))" using Cons.prems(3) t by (auto simp: room_def)
  then obtain s' where "run string_step (concat us) t = Some s'" "between s'" "st_key s' = st_key t" "st_capture s' = st_capture t"
      "st_capture t \<longrightarrow> st_raw s' = st_raw t @ concat us"
    using Cons.IH [of t] Cons.prems t by auto
  then show ?case using t by (auto simp: run_append)
qed auto

lemma string_run_projection:
  assumes "run string_step bs s = Some s'"
  shows "run (byte_step rd) bs (p\<lparr>pj_token := Some (StringTok s)\<rparr>) = Some (p\<lparr>pj_token := Some (StringTok s')\<rparr>)"
  using assms
proof (induction bs arbitrary: s)
  case (Cons b bs)
  then obtain t where t: "string_step s b = Some t" "run string_step bs t = Some s'" by (auto simp: bind_eq_Some_conv)
  then have "string_byte s b = Some (False, t)" by (auto simp: string_step_def split: option.splits bool.splits)
  then have "byte_step rd (p\<lparr>pj_token := Some (StringTok s)\<rparr>) b = Some (p\<lparr>pj_token := Some (StringTok t)\<rparr>)"
    by (simp add: byte_step_def)
  with Cons.IH [OF t(2)] show ?case by simp
qed simp

text \<open>A complete string after its opening quote.\<close>

lemma quoted_run:
  assumes "list_all unit_ok us" "capture \<longrightarrow> length (quoted us) \<le> max_token"
  shows "\<exists>s. st_key s = key \<and> st_capture s = capture \<and> (capture \<longrightarrow> st_raw s = quoted us)
    \<and> run (byte_step rd) (concat us @ [34]) (p\<lparr>pj_token := Some (StringTok (new_string key capture))\<rparr>)
        = close_string rd s (p\<lparr>pj_token := None\<rparr>)"
proof -
  let ?s = "new_string key capture"
  have "between ?s" "room ?s (length (concat us))"
    using assms(2) by (auto simp: between_def new_string_def room_def quoted_def)
  from units_run [OF assms(1) this] obtain t where t: "run string_step (concat us) ?s = Some t" "between t"
      "st_key t = key" "st_capture t = capture" "capture \<longrightarrow> st_raw t = 34 # concat us"
    by (auto simp: new_string_def)
  have "string_byte t 34 = Some (True, pushed t [34])"
    using t assms(2) by (auto simp: string_byte_def between_def pushed_def quoted_def)
  then have "byte_step rd (p\<lparr>pj_token := Some (StringTok t)\<rparr>) 34 = close_string rd (pushed t [34]) (p\<lparr>pj_token := None\<rparr>)"
    by (simp add: byte_step_def)
  then have "run (byte_step rd) (concat us @ [34]) (p\<lparr>pj_token := Some (StringTok ?s)\<rparr>)
      = close_string rd (pushed t [34]) (p\<lparr>pj_token := None\<rparr>)"
    using string_run_projection [OF t(1), of rd p] by (simp add: run_append)
  moreover have "capture \<longrightarrow> st_raw (pushed t [34]) = quoted us" using t by (simp add: pushed_def quoted_def)
  ultimately show ?thesis using t(3,4) by (intro exI [of _ "pushed t [34]"]) simp
qed

section \<open>The projection of a document\<close>

definition key_of :: "reader \<Rightarrow> node \<Rightarrow> bytes list \<Rightarrow> string" where
  "key_of rd n key = (if n \<noteq> Skip \<and> n \<noteq> Leaf then the (read_key rd (quoted key)) else [])"

fun prune :: "reader \<Rightarrow> node \<Rightarrow> doc \<Rightarrow> json"
and prune_members :: "reader \<Rightarrow> node \<Rightarrow> (bytes \<times> bytes list \<times> bytes \<times> doc) list \<Rightarrow> (string \<times> json) list \<Rightarrow> (string \<times> json) list" where
  "prune rd n (Scalar raw) = (if n = Skip then JNull else the (read_value rd raw))"
| "prune rd n (Text us) = (if n = Skip then JNull else the (read_value rd (quoted us)))"
| "prune rd n (Arr ds) = JArray []"
| "prune rd n (Obj ms) = JObject (prune_members rd n ms [])"
| "prune rd n (Spaced before d after) = prune rd n d"
| "prune_members rd n [] fs = fs"
| "prune_members rd n ((before, key, after, d) # ms) fs =
     prune_members rd n ms
       (let k = key_of rd n key in
        if child n k = Skip then fs else AList.update k (prune rd (child n k) d) fs)"

text \<open>
  Documents that fit: at most \<open>k\<close> nested containers, tokens within the limit, tokens that \<open>serde_json\<close>
  accepts. Strings and keys that are skipped may have any length.
\<close>

fun doc_ok :: "reader \<Rightarrow> nat \<Rightarrow> node \<Rightarrow> doc \<Rightarrow> bool"
and items_ok :: "reader \<Rightarrow> nat \<Rightarrow> doc list \<Rightarrow> bool"
and members_ok :: "reader \<Rightarrow> nat \<Rightarrow> node \<Rightarrow> (bytes \<times> bytes list \<times> bytes \<times> doc) list \<Rightarrow> bool" where
  "doc_ok rd k n (Scalar raw) \<longleftrightarrow> raw \<noteq> [] \<and> hd raw \<noteq> 34 \<and> token_start (hd raw) \<and> length raw \<le> max_token
     \<and> list_all (\<lambda>b. \<not> ends_atom b) raw \<and> (if n = Skip then is_value rd raw else read_value rd raw \<noteq> None)"
| "doc_ok rd k n (Text us) \<longleftrightarrow> list_all unit_ok us
     \<and> (n \<noteq> Skip \<longrightarrow> length (quoted us) \<le> max_token \<and> read_value rd (quoted us) \<noteq> None)"
| "doc_ok rd k n (Arr ds) \<longleftrightarrow> 0 < k \<and> items_ok rd (k - 1) ds"
| "doc_ok rd k n (Obj ms) \<longleftrightarrow> 0 < k \<and> members_ok rd (k - 1) n ms"
| "doc_ok rd k n (Spaced before d after) \<longleftrightarrow> list_all is_space before \<and> doc_ok rd k n d \<and> list_all is_space after"
| "items_ok rd k [] \<longleftrightarrow> True"
| "items_ok rd k (d # ds) \<longleftrightarrow> doc_ok rd k Skip d \<and> items_ok rd k ds"
| "members_ok rd k n [] \<longleftrightarrow> True"
| "members_ok rd k n ((before, key, after, d) # ms) \<longleftrightarrow>
     list_all is_space before \<and> list_all is_space after \<and> list_all unit_ok key
     \<and> (n \<noteq> Skip \<and> n \<noteq> Leaf \<longrightarrow> length (quoted key) \<le> max_token \<and> read_key rd (quoted key) \<noteq> None)
     \<and> doc_ok rd k (child n (key_of rd n key)) d \<and> members_ok rd k n ms"

section \<open>Reading a document\<close>

definition ready :: "projection \<Rightarrow> bool" where
  "ready p \<longleftrightarrow> pj_token p = None
     \<and> (case pj_stack p of [] \<Rightarrow> pj_result p = None | c # _ \<Rightarrow> at_phase c = Value \<or> at_phase c = ValueOrEnd)"

text \<open>After the text of a value: its atom may still wait for the next byte.\<close>

definition after_value :: "reader \<Rightarrow> projection \<Rightarrow> projection \<Rightarrow> bool" where
  "after_value rd q r \<longleftrightarrow> pj_token r = None \<and> finish_atom rd q = Some r \<and> (\<forall>s. pj_token q \<noteq> Some (StringTok s))"

lemma after_value_refl: "pj_token r = None \<Longrightarrow> after_value rd r r"
  by (simp add: after_value_def finish_atom_def)

lemma after_value_step: "after_value rd q r \<Longrightarrow> ends_atom b \<Longrightarrow> byte_step rd q b = plain_byte b r"
proof -
  assume after: "after_value rd q r" and "ends_atom b"
  show ?thesis
  proof (cases "pj_token q")
    case None
    then have "q\<lparr>pj_token := None\<rparr> = q" by simp
    moreover have "q\<lparr>pj_token := None\<rparr> = r" using None after by (simp add: after_value_def finish_atom_def)
    ultimately have "r = q" by metis
    then show ?thesis using None by (simp add: byte_step_def)
  next
    case (Some t)
    then show ?thesis using after \<open>ends_atom b\<close> by (cases t) (simp_all add: after_value_def byte_step_def)
  qed
qed

lemma plain_step: "pj_token p = None \<Longrightarrow> byte_step rd p b = plain_byte b p"
  by (simp add: byte_step_def)

lemma spaces_run: "list_all is_space bs \<Longrightarrow> pj_token p = None \<Longrightarrow> run (byte_step rd) bs p = Some p"
  by (induction bs) (simp_all add: plain_step plain_byte_def)

lemma spaces_after:
  assumes "after_value rd q r" "list_all is_space bs"
  shows "\<exists>q'. run (byte_step rd) bs q = Some q' \<and> after_value rd q' r"
proof (cases bs)
  case (Cons b rest)
  have "byte_step rd q b = Some r"
    using after_value_step [OF assms(1), of b] assms(2) Cons by (simp add: ends_atom_def plain_byte_def)
  then show ?thesis
    using spaces_run [of rest r rd] assms Cons after_value_refl by (auto simp: after_value_def)
qed (use assms in simp)

lemma put_value_ready:
  assumes "ready p"
  shows "\<exists>r. put_value v p = Some r \<and> pj_token r = None"
proof -
  have "put_value v p \<noteq> None" using assms by (auto simp: ready_def put_value_def Let_def split: list.splits)
  then obtain r where "put_value v p = Some r" by blast
  then show ?thesis using put_value_token assms by (auto simp: ready_def)
qed

lemma plain_ready:
  assumes "ready p" "\<not> is_space b" "b \<noteq> 125" "b \<noteq> 93"
  shows "plain_byte b p = begin_value b p"
proof (cases "pj_stack p")
  case (Cons c cs)
  then have "at_phase c = Value \<or> at_phase c = ValueOrEnd" using assms(1) by (simp add: ready_def)
  then show ?thesis using Cons assms(2,3,4) by (auto simp: plain_byte_def inner_byte_def)
qed (use assms in \<open>auto simp: plain_byte_def ready_def\<close>)

lemma atom_run:
  assumes "list_all (\<lambda>b. \<not> ends_atom b) bs" "length raw + length bs \<le> max_token" "pj_token p = Some (Atom raw n)"
  shows "run (byte_step rd) bs p = Some (p\<lparr>pj_token := Some (Atom (raw @ bs) n)\<rparr>)"
  using assms
proof (induction bs arbitrary: raw p)
  case (Cons b bs)
  have "byte_step rd p b = Some (p\<lparr>pj_token := Some (Atom (raw @ [b]) n)\<rparr>)"
    using Cons.prems by (simp add: byte_step_def)
  then show ?case using Cons.IH [of "raw @ [b]" "p\<lparr>pj_token := Some (Atom (raw @ [b]) n)\<rparr>"] Cons.prems by simp
qed simp

lemma scalar_run:
  assumes "ready p" "current_node p = n" "doc_ok rd k n (Scalar raw)"
  shows "\<exists>q r. run (byte_step rd) raw p = Some q \<and> after_value rd q r \<and> put_value (prune rd n (Scalar raw)) p = Some r"
proof -
  obtain b bs where raw: "raw = b # bs" using assms(3) by (cases raw) auto
  have b: "b \<noteq> 34" "token_start b" "\<not> ends_atom b" using assms(3) raw by auto
  have "b \<noteq> 123" "b \<noteq> 91" using b(2) by (auto simp: token_start_def)
  then have "byte_step rd p b = Some (p\<lparr>pj_token := Some (Atom [b] n)\<rparr>)"
    using assms(1,2) b plain_ready [OF assms(1), of b]
    by (auto simp: plain_step ready_def ends_atom_def begin_value_def token_start_def Let_def)
  then have q: "run (byte_step rd) raw p = Some (p\<lparr>pj_token := Some (Atom raw n)\<rparr>)"
    using atom_run [of bs "[b]" "p\<lparr>pj_token := Some (Atom [b] n)\<rparr>" n rd] assms(3) raw by simp
  have none: "p\<lparr>pj_token := None\<rparr> = p" using assms(1) by (simp add: ready_def)
  obtain r where r: "put_value (prune rd n (Scalar raw)) p = Some r" "pj_token r = None"
    using put_value_ready [OF assms(1)] by blast
  then have "after_value rd (p\<lparr>pj_token := Some (Atom raw n)\<rparr>) r"
    using assms(3) by (auto simp: after_value_def finish_atom_def none)
  with q r(1) show ?thesis by blast
qed

lemma text_run:
  assumes "ready p" "current_node p = n" "doc_ok rd k n (Text us)"
  shows "\<exists>q r. run (byte_step rd) (quoted us) p = Some q \<and> after_value rd q r \<and> put_value (prune rd n (Text us)) p = Some r"
proof -
  have "byte_step rd p 34 = Some (p\<lparr>pj_token := Some (StringTok (new_string False (n \<noteq> Skip)))\<rparr>)"
    using assms(1,2) plain_ready [OF assms(1), of 34]
    by (simp add: plain_step ready_def is_space_def begin_value_def Let_def)
  moreover obtain s where s: "st_key s = False" "st_capture s = (n \<noteq> Skip)" "n \<noteq> Skip \<longrightarrow> st_raw s = quoted us"
      "run (byte_step rd) (concat us @ [34]) (p\<lparr>pj_token := Some (StringTok (new_string False (n \<noteq> Skip)))\<rparr>)
        = close_string rd s (p\<lparr>pj_token := None\<rparr>)"
    using quoted_run [of us "n \<noteq> Skip" False rd p] assms(3) by auto
  moreover have none: "p\<lparr>pj_token := None\<rparr> = p" using assms(1) by (simp add: ready_def)
  ultimately have run: "run (byte_step rd) (quoted us) p = put_value (prune rd n (Text us)) p"
    using assms(3) by (auto simp: quoted_def close_string_def)
  obtain r where "put_value (prune rd n (Text us)) p = Some r" "pj_token r = None"
    using put_value_ready [OF assms(1)] by blast
  with run show ?thesis using after_value_refl by fastforce
qed

text \<open>An open container on top of a state that waits for a value.\<close>

definition opened :: "projection \<Rightarrow> container \<Rightarrow> projection" where
  "opened p c = p\<lparr>pj_stack := c # pj_stack p\<rparr>"

lemma opened_simps [simp]:
  "pj_stack (opened p c) = c # pj_stack p" "pj_token (opened p c) = pj_token p"
  "current_node (opened p c) = (if in_object c then child (at_node c) (at_key c) else Skip)"
  "opened p c\<lparr>pj_stack := pj_stack p\<rparr> = p" "opened p c\<lparr>pj_stack := d # pj_stack p\<rparr> = opened p d"
  by (simp_all add: opened_def current_node_def)

definition value_ok :: "reader \<Rightarrow> nat \<Rightarrow> node \<Rightarrow> doc \<Rightarrow> bool" where
  "value_ok rd k n d \<longleftrightarrow>
     (\<forall>p. ready p \<longrightarrow> current_node p = n \<longrightarrow> length (pj_stack p) + k \<le> max_depth \<longrightarrow>
       (\<exists>q r. run (byte_step rd) (text_of d) p = Some q \<and> after_value rd q r \<and> put_value (prune rd n d) p = Some r))"

lemma value_then:
  assumes "value_ok rd k n d" "ready p" "current_node p = n" "length (pj_stack p) + k \<le> max_depth" "ends_atom b"
    "put_value (prune rd n d) p = Some r"
  shows "run (byte_step rd) (text_of d @ b # rest) p = Option.bind (plain_byte b r) (run (byte_step rd) rest)"
proof -
  obtain q where "run (byte_step rd) (text_of d) p = Some q" "after_value rd q r"
    using assms(1-4,6) unfolding value_ok_def by fastforce
  then show ?thesis using assms(5) by (simp add: run_append after_value_step)
qed

lemma value_spaced:
  assumes "value_ok rd k n d" "list_all is_space before" "list_all is_space after"
  shows "value_ok rd k n (Spaced before d after)"
  unfolding value_ok_def
proof (intro allI impI)
  fix p
  assume p: "ready p" "current_node p = n" "length (pj_stack p) + k \<le> max_depth"
  then obtain q r where qr: "run (byte_step rd) (text_of d) p = Some q" "after_value rd q r" "put_value (prune rd n d) p = Some r"
    using assms(1) unfolding value_ok_def by blast
  obtain q' where "run (byte_step rd) after q = Some q'" "after_value rd q' r" using spaces_after [OF qr(2) assms(3)] by blast
  moreover have "run (byte_step rd) before p = Some p" using spaces_run [OF assms(2)] p(1) by (simp add: ready_def)
  ultimately show "\<exists>q r. run (byte_step rd) (text_of (Spaced before d after)) p = Some q \<and> after_value rd q r
      \<and> put_value (prune rd n (Spaced before d after)) p = Some r"
    using qr by (simp add: run_append)
qed

lemma closed_value:
  assumes "ready p" "run (byte_step rd) bs p = put_value v p"
  shows "\<exists>q r. run (byte_step rd) bs p = Some q \<and> after_value rd q r \<and> put_value v p = Some r"
  using assms put_value_ready [OF assms(1), of v] after_value_refl by auto

lemma open_container:
  assumes "ready p" "length (pj_stack p) < max_depth" "b = 123 \<or> b = 91"
  shows "byte_step rd p b = Some (opened p \<lparr>in_object = (b = 123), at_phase = (if b = 123 then KeyOrEnd else ValueOrEnd),
    at_node = current_node p, at_key = [], at_fields = []\<rparr>)"
  using assms plain_ready [OF assms(1), of b]
  by (auto simp: plain_step ready_def is_space_def begin_value_def Let_def opened_def)

section \<open>Arrays and objects\<close>

definition items_read :: "reader \<Rightarrow> nat \<Rightarrow> doc list \<Rightarrow> bool" where
  "items_read rd k ds \<longleftrightarrow>
     (\<forall>p c. pj_token p = None \<longrightarrow> \<not> in_object c \<longrightarrow> at_phase c = ValueOrEnd \<or> at_phase c = Value \<and> ds \<noteq> [] \<longrightarrow>
       Suc (length (pj_stack p)) + k \<le> max_depth \<longrightarrow>
       run (byte_step rd) (items_text ds) (opened p c) = put_value (JArray []) p)"

lemma close_array:
  "\<not> in_object c \<Longrightarrow> at_phase c \<in> {ValueOrEnd, CommaOrEnd} \<Longrightarrow> plain_byte 93 (opened p c) = put_value (JArray []) p"
  by (auto simp: plain_byte_def is_space_def inner_byte_def closing_def)

lemma items_read_Nil: "items_read rd k []"
  by (simp add: items_read_def plain_step close_array)

lemma items_read_Cons:
  assumes d: "value_ok rd k Skip d" and ds: "items_read rd k ds"
  shows "items_read rd k (d # ds)"
  unfolding items_read_def
proof (intro allI impI)
  fix p :: projection and c :: container
  assume c: "pj_token p = None" "\<not> in_object c" "at_phase c = ValueOrEnd \<or> at_phase c = Value \<and> d # ds \<noteq> []"
    "Suc (length (pj_stack p)) + k \<le> max_depth"
  have ready: "ready (opened p c)" using c(1,3) by (auto simp: ready_def)
  have put: "put_value (prune rd Skip d) (opened p c) = Some (opened p (c\<lparr>at_phase := CommaOrEnd\<rparr>))"
    using c(2,3) by (auto simp: put_value_def Let_def)
  note go = value_then [OF d ready _ _ _ put]
  show "run (byte_step rd) (items_text (d # ds)) (opened p c) = put_value (JArray []) p"
  proof (cases ds)
    case Nil
    then show ?thesis using go [of 93 "[]"] c(2,4) by (simp add: ends_atom_def close_array)
  next
    case (Cons e es)
    have "plain_byte 44 (opened p (c\<lparr>at_phase := CommaOrEnd\<rparr>)) = Some (opened p (c\<lparr>at_phase := Value\<rparr>))"
      using c(2) by (simp add: plain_byte_def is_space_def inner_byte_def)
    moreover have "run (byte_step rd) (items_text ds) (opened p (c\<lparr>at_phase := Value\<rparr>)) = put_value (JArray []) p"
      using ds c(1,2,4) Cons unfolding items_read_def by simp
    ultimately show ?thesis using go [of 44 "items_text ds"] c(2,4) Cons by (simp add: ends_atom_def)
  qed
qed

lemma value_array:
  assumes "items_read rd (k - 1) ds" "0 < k"
  shows "value_ok rd k n (Arr ds)"
  unfolding value_ok_def
proof (intro allI impI)
  fix p
  assume p: "ready p" "current_node p = n" "length (pj_stack p) + k \<le> max_depth"
  have "run (byte_step rd) (text_of (Arr ds)) p = put_value (JArray []) p"
    using open_container [OF p(1), of 91 rd] assms p unfolding items_read_def by (simp add: ready_def)
  from closed_value [OF p(1) this]
  show "\<exists>q r. run (byte_step rd) (text_of (Arr ds)) p = Some q \<and> after_value rd q r \<and> put_value (prune rd n (Arr ds)) p = Some r"
    by (simp only: prune.simps)
qed

definition members_read :: "reader \<Rightarrow> nat \<Rightarrow> node \<Rightarrow> (bytes \<times> bytes list \<times> bytes \<times> doc) list \<Rightarrow> bool" where
  "members_read rd k n ms \<longleftrightarrow>
     (\<forall>p c. pj_token p = None \<longrightarrow> in_object c \<longrightarrow> at_node c = n \<longrightarrow> at_phase c = KeyOrEnd \<or> at_phase c = Key \<and> ms \<noteq> [] \<longrightarrow>
       Suc (length (pj_stack p)) + k \<le> max_depth \<longrightarrow>
       run (byte_step rd) (members_text ms) (opened p c) = put_value (JObject (prune_members rd n ms (at_fields c))) p)"

lemma close_object:
  "in_object c \<Longrightarrow> at_phase c \<in> {KeyOrEnd, CommaOrEnd} \<Longrightarrow> plain_byte 125 (opened p c) = put_value (JObject (at_fields c)) p"
  by (auto simp: plain_byte_def is_space_def inner_byte_def closing_def)

lemma members_read_Nil: "members_read rd k n []"
  by (simp add: members_read_def plain_step close_object)

text \<open>White space, a key, white space and the colon.\<close>

lemma key_run:
  assumes c: "pj_token p = None" "in_object c" "at_node c = n" "at_phase c = KeyOrEnd \<or> at_phase c = Key"
    and key: "list_all is_space before" "list_all is_space after" "list_all unit_ok key"
      "n \<noteq> Skip \<and> n \<noteq> Leaf \<longrightarrow> length (quoted key) \<le> max_token \<and> read_key rd (quoted key) \<noteq> None"
  shows "run (byte_step rd) (before @ quoted key @ after @ 58 # rest) (opened p c)
    = run (byte_step rd) rest (opened p (c\<lparr>at_key := key_of rd n key, at_phase := Value\<rparr>))"
proof -
  let ?capture = "n \<noteq> Skip \<and> n \<noteq> Leaf"
  let ?s = "(opened p c)\<lparr>pj_token := Some (StringTok (new_string True ?capture))\<rparr>"
  let ?c = "c\<lparr>at_key := key_of rd n key, at_phase := Colon\<rparr>"
  have quote: "byte_step rd (opened p c) 34 = Some ?s"
    using c by (simp add: plain_step plain_byte_def is_space_def inner_byte_def)
  obtain s where s: "st_key s" "st_capture s = ?capture" "?capture \<longrightarrow> st_raw s = quoted key"
      "run (byte_step rd) (concat key @ [34]) ?s = close_string rd s (opened p c\<lparr>pj_token := None\<rparr>)"
    using quoted_run [of key ?capture True rd "opened p c"] key(3,4) by auto
  have "opened p c\<lparr>pj_token := None\<rparr> = opened p c" using c(1) by (simp add: opened_def)
  then have closed: "close_string rd s (opened p c\<lparr>pj_token := None\<rparr>) = Some (opened p ?c)"
    using s(1-3) key(4) by (auto simp: close_string_def key_of_def)
  have key_read: "run (byte_step rd) (quoted key) (opened p c) = Some (opened p ?c)"
    using quote s(4) closed by (simp add: quoted_def)
  have colon: "byte_step rd (opened p ?c) 58 = Some (opened p (c\<lparr>at_key := key_of rd n key, at_phase := Value\<rparr>))"
    using c(1) by (simp add: plain_step plain_byte_def is_space_def inner_byte_def)
  have "run (byte_step rd) before (opened p c) = Some (opened p c)" "run (byte_step rd) after (opened p ?c) = Some (opened p ?c)"
    using spaces_run key(1,2) c(1) by simp_all
  then show ?thesis using key_read colon by (simp add: run_append)
qed

lemma members_read_Cons:
  assumes key: "list_all is_space before" "list_all is_space after" "list_all unit_ok key"
      "n \<noteq> Skip \<and> n \<noteq> Leaf \<longrightarrow> length (quoted key) \<le> max_token \<and> read_key rd (quoted key) \<noteq> None"
    and d: "value_ok rd k (child n (key_of rd n key)) d" and ms: "members_read rd k n ms"
  shows "members_read rd k n ((before, key, after, d) # ms)"
  unfolding members_read_def
proof (intro allI impI)
  fix p :: projection and c :: container
  assume c: "pj_token p = None" "in_object c" "at_node c = n"
    "at_phase c = KeyOrEnd \<or> at_phase c = Key \<and> (before, key, after, d) # ms \<noteq> []" "Suc (length (pj_stack p)) + k \<le> max_depth"
  let ?k = "key_of rd n key"
  let ?c = "c\<lparr>at_key := ?k, at_phase := Value\<rparr>"
  let ?fs = "if child n ?k = Skip then at_fields c else AList.update ?k (prune rd (child n ?k) d) (at_fields c)"
  have ready: "ready (opened p ?c)" using c(1) by (simp add: ready_def)
  obtain c' where put: "put_value (prune rd (child n ?k) d) (opened p ?c) = Some (opened p c')"
      and c': "in_object c'" "at_node c' = n" "at_phase c' = CommaOrEnd" "at_fields c' = ?fs"
    using c(2,3) by (auto simp: put_value_def Let_def)
  have key_run: "run (byte_step rd) (before @ quoted key @ after @ 58 # rest) (opened p c) = run (byte_step rd) rest (opened p ?c)" for rest
    using key_run [OF c(1-3) _ key] c(4) by blast
  note go = value_then [OF d ready _ _ _ put]
  show "run (byte_step rd) (members_text ((before, key, after, d) # ms)) (opened p c)
      = put_value (JObject (prune_members rd n ((before, key, after, d) # ms) (at_fields c))) p"
  proof (cases ms)
    case Nil
    then show ?thesis using go [of 125 "[]"] c(2,3,5) c' by (simp add: key_run ends_atom_def close_object Let_def)
  next
    case (Cons m ms')
    have "plain_byte 44 (opened p c') = Some (opened p (c'\<lparr>at_phase := Key\<rparr>))"
      using c' by (simp add: plain_byte_def is_space_def inner_byte_def)
    moreover have "run (byte_step rd) (members_text ms) (opened p (c'\<lparr>at_phase := Key\<rparr>))
        = put_value (JObject (prune_members rd n ms ?fs)) p"
      using ms c(1,5) c' Cons unfolding members_read_def by simp
    ultimately show ?thesis using go [of 44 "members_text ms"] c(2,3,5) Cons by (simp add: key_run ends_atom_def Let_def)
  qed
qed

lemma value_object:
  assumes "members_read rd (k - 1) n ms" "0 < k"
  shows "value_ok rd k n (Obj ms)"
  unfolding value_ok_def
proof (intro allI impI)
  fix p
  assume p: "ready p" "current_node p = n" "length (pj_stack p) + k \<le> max_depth"
  have "run (byte_step rd) (text_of (Obj ms)) p = put_value (JObject (prune_members rd n ms [])) p"
    using open_container [OF p(1), of 123 rd] assms p unfolding members_read_def by (simp add: ready_def)
  from closed_value [OF p(1) this]
  show "\<exists>q r. run (byte_step rd) (text_of (Obj ms)) p = Some q \<and> after_value rd q r \<and> put_value (prune rd n (Obj ms)) p = Some r"
    by (simp only: prune.simps)
qed

lemma documents_read:
  "doc_ok rd k n d \<Longrightarrow> value_ok rd k n d"
  "items_ok rd k ds \<Longrightarrow> items_read rd k ds"
  "members_ok rd k n ms \<Longrightarrow> members_read rd k n ms"
proof (induction rd k n d and rd k ds and rd k n ms rule: doc_ok_items_ok_members_ok.induct)
  case (1 rd k n raw)
  then show ?case using scalar_run [of _ n rd k raw] unfolding value_ok_def text_of.simps by blast
next
  case (2 rd k n us)
  then show ?case using text_run [of _ n rd k us] unfolding value_ok_def text_of.simps by blast
qed (auto intro: value_array value_object value_spaced items_read_Nil items_read_Cons members_read_Nil members_read_Cons)

section \<open>Properties\<close>

text \<open>C39: what the incremental reader computes. Fed with the text of a JSON document, in any pieces, it succeeds
  and yields exactly the document's projection to the known fields: every known field with its value, the last
  one where a key is repeated, arrays emptied, everything else dropped. The document may contain any white space
  around values and keys, all escapes, surrogate pairs, skipped strings of any length, and 128 levels of nesting.\<close>

theorem projection_of_document:
  assumes "doc_ok rd 128 Root d" "from_utf8 (text_of d) = Valid" "concat pieces = text_of d"
  shows "finish rd (foldl (feed rd) new_projection pieces) = write_value rd (prune rd Root d)"
proof -
  let ?n = new_projection
  have ready: "ready ?n" "current_node ?n = Root" "length (pj_stack ?n) + 128 \<le> max_depth"
    by (simp_all add: ready_def new_projection_def current_node_def max_depth_def)
  obtain q r where qr: "parse rd (text_of d) ?n = Some q" "after_value rd q r" "put_value (prune rd Root d) ?n = Some r"
    using documents_read(1) [OF assms(1)] ready unfolding value_ok_def parse_run by blast
  have "run utf8_step (text_of d) [] = Some []" using assms(2) by (simp add: check_rest_run [symmetric] check_rest_def)
  then have "feed rd ?n (text_of d) = framed [] False q"
    using feed_valid [of ?n "[]" rd "text_of d"] qr(1) by (simp add: new_projection_def)
  moreover have "r = ?n\<lparr>pj_result := Some (prune rd Root d)\<rparr>" using qr(3) by (simp add: put_value_def new_projection_def)
  moreover have "finish_atom rd (framed [] False q) = Some (framed [] False r)"
    using qr(2) by (simp add: finish_atom_framed after_value_def)
  ultimately have "finish rd (feed rd ?n (text_of d)) = write_value rd (prune rd Root d)"
    by (simp add: finish_def new_projection_def)
  then show ?thesis using projection_any_pieces [of rd pieces] assms(3) by simp
qed

definition unit_list :: "string \<Rightarrow> bytes list" where
  "unit_list s = map (\<lambda>b. [b]) (to_bytes s)"

text \<open>\<open>{"id": 7,"x": [1,{}, "\<dots>"],"result":{"thread":{"id":"new","turns":[]}}}\<close>, where the skipped string holds
  a surrogate pair.\<close>

definition small_doc :: doc where
  "small_doc = Spaced [10] (Obj
     [([], unit_list ''id'', [], Spaced [32] (Scalar [55]) []),
      ([], unit_list ''x'', [], Spaced [32] (Arr [Scalar [49], Obj [],
         Spaced [32] (Text [to_bytes [CHR 0x5C] @ to_bytes ''uD83D'' @ to_bytes [CHR 0x5C] @ to_bytes ''uDE00'']) []]) []),
      ([32], unit_list ''result'', [32], Obj [([], unit_list ''thread'', [],
         Obj [([], unit_list ''id'', [], Text (unit_list ''new'')), ([], unit_list ''turns'', [], Arr [])])])]) [10]"

theorem projection_of_document_witness:
  "finish small_reader (foldl (feed small_reader) new_projection [take 9 (text_of small_doc), drop 9 (text_of small_doc)])
    = write_value small_reader (JObject [(''id'', JInt 7), (''result'', JObject [(''thread'', JObject [(''id'', JString ''new'')])])])"
proof -
  have ok: "doc_ok small_reader 128 Root small_doc" by code_simp
  have valid: "from_utf8 (text_of small_doc) = Valid" by code_simp
  have pieces: "concat [take 9 (text_of small_doc), drop 9 (text_of small_doc)] = text_of small_doc" by simp
  have kept_fields: "prune small_reader Root small_doc
      = JObject [(''id'', JInt 7), (''result'', JObject [(''thread'', JObject [(''id'', JString ''new'')])])]" by code_simp
  show ?thesis using projection_of_document [OF ok valid pieces] unfolding kept_fields .
qed

end
