(* ===== verification/Wire.thy ===== *)
theory Wire
  imports Projection_Laws
begin

text \<open>
  The observer of the Codex proxy (\<open>agentix-codex/src/proxy_wire.rs\<close>): it watches the bytes of one direction of
  a WebSocket connection, without changing them, and hands the text messages to the session registry. The
  header buffer is the list of its \<open>header_len\<close> bytes. The texts handed out are returned in order, with the flag
  that marks a projection. After an error the observer is disabled and nothing of its state is read again, so
  the model keeps the state before the failed call.
\<close>

definition small_message :: nat where
  "small_message = 64 * 1024"

section \<open>Messages\<close>

record text_message =
  tm_small :: bytes
  tm_projection :: "projection option"

definition empty_message :: text_message where
  "empty_message = \<lparr>tm_small = [], tm_projection = None\<rparr>"

definition message_feed :: "reader \<Rightarrow> text_message \<Rightarrow> bytes \<Rightarrow> text_message" where
  "message_feed rd m bs =
     (case tm_projection m of
        Some p \<Rightarrow> m\<lparr>tm_projection := Some (feed rd p bs)\<rparr>
      | None \<Rightarrow>
          if length (tm_small m) + length bs \<le> small_message then m\<lparr>tm_small := tm_small m @ bs\<rparr>
          else m\<lparr>tm_small := [], tm_projection := Some (feed rd (feed rd new_projection (tm_small m)) bs)\<rparr>)"

definition message_finish :: "reader \<Rightarrow> text_message \<Rightarrow> (bytes \<times> bool) list \<times> text_message" where
  "message_finish rd m =
     (case tm_projection m of
        Some p \<Rightarrow> (case finish rd p of Some v \<Rightarrow> [(v, True)] | None \<Rightarrow> [], empty_message)
      | None \<Rightarrow> (if from_utf8 (tm_small m) = Valid then [(tm_small m, False)] else [], empty_message))"

section \<open>Frames\<close>

datatype role = ServerSide | ClientSide

record frame =
  fr_remaining :: nat
  fr_offset :: nat
  fr_mask :: "bytes option"
  fr_opcode :: "8 word"
  fr_fin :: bool

record observer =
  ob_role :: role
  ob_header :: bytes
  ob_frame :: "frame option"
  ob_message_opcode :: "8 word option"
  ob_message :: text_message
  ob_disabled :: bool
  ob_closed :: bool

definition new_observer :: "role \<Rightarrow> observer" where
  "new_observer r = \<lparr>ob_role = r, ob_header = [], ob_frame = None, ob_message_opcode = None, ob_message = empty_message,
     ob_disabled = False, ob_closed = False\<rparr>"

text \<open>How many bytes the header needs, as far as it is known.\<close>

definition extended :: "bytes \<Rightarrow> bool" where
  "extended h \<longleftrightarrow> 126 \<le> h ! 1 AND 127 \<or> h ! 1 AND 128 \<noteq> 0"

definition needed :: "bytes \<Rightarrow> nat" where
  "needed h =
     (if length h < 2 then 2
      else 2 + (if h ! 1 AND 127 = 126 then 2 else if h ! 1 AND 127 = 127 then 8 else 0) + (if h ! 1 AND 128 \<noteq> 0 then 4 else 0))"

lemma short_length_cases:
  assumes "126 \<le> (b :: 8 word) AND 127"
  shows "b AND 127 = 126 \<or> b AND 127 = 127"
proof -
  have "unat (b AND 127) \<le> unat (127 :: 8 word)" by (rule word_and_le1 [THEN word_le_nat_alt [THEN iffD1]])
  with assms have "unat (b AND 127) = 126 \<or> unat (b AND 127) = 127" by (simp add: word_le_nat_alt) arith
  then show ?thesis by (simp add: word_unat_eq_iff)
qed

lemma needed_extended: "length h = 2 \<Longrightarrow> needed h = 2 \<longleftrightarrow> \<not> extended h"
  using short_length_cases [of "h ! 1"] by (auto simp: needed_def extended_def)

text \<open>The inner loop: the header, the rest of the bytes, and whether the header is complete.\<close>

function read_header :: "bytes \<Rightarrow> bytes \<Rightarrow> bytes \<times> bytes \<times> bool" where
  "read_header h bs =
     (let n = min (needed h - length h) (length bs); h1 = h @ take n bs; rest = drop n bs in
      if length h1 < needed h then (h1, rest, False)
      else if length h1 = 2 \<and> needed h = 2 \<and> extended h1 then read_header h1 rest
      else (h1, rest, True))"
  by pat_completeness auto
termination
proof (relation "measure (\<lambda>(h, _). 2 - length h)")
  fix h bs n h1 rest
  assume n: "n = min (needed h - length h) (length bs)" "h1 = h @ take n bs" and more: "length h1 = 2 \<and> needed h = 2 \<and> extended h1"
  have "length h < 2"
  proof (rule ccontr)
    assume "\<not> length h < 2"
    then have "h1 = h" using n more by auto
    then show False using more needed_extended [of h] by auto
  qed
  then show "((h1, rest), (h, bs)) \<in> measure (\<lambda>(h, _). 2 - length h)" using more by simp
qed simp

declare read_header.simps [simp del]

definition be_value :: "bytes \<Rightarrow> nat" where
  "be_value bs = foldl (\<lambda>n b. n * 256 + unat b) 0 bs"

text \<open>\<open>begin_frame\<close> on a complete header: the frame and the opcode of the message it belongs to.\<close>

definition parse_header :: "role \<Rightarrow> 8 word option \<Rightarrow> bytes \<Rightarrow> (frame \<times> 8 word option) result" where
  "parse_header r message_opcode h =
     (let first = h ! 0; opcode = first AND 15; fin = (first AND 128 \<noteq> 0); masked = (h ! 1 AND 128 \<noteq> 0); short = h ! 1 AND 127;
          (len, stop) = (if short = 126 then (be_value (take 2 (drop 2 h)), 4)
                        else if short = 127 then (be_value (take 8 (drop 2 h)), 10)
                        else (unat short, 2 :: nat));
          frame = \<lparr>fr_remaining = len, fr_offset = 0, fr_mask = (if masked then Some (take 4 (drop stop h)) else None),
                   fr_opcode = opcode, fr_fin = fin\<rparr> in
      ensure (first AND 0x70 = 0 \<and> opcode \<in> {0, 1, 2, 8, 9, 10}) (Failed ''invalid WebSocket flags/opcode'')
      (ensure (masked \<longleftrightarrow> r = ServerSide) (Failed ''invalid WebSocket masking'')
      (ensure (len < 2 ^ 63) (Failed ''invalid WebSocket length'')
      (if 8 \<le> opcode then
         ensure (fin \<and> len \<le> 125 \<and> \<not> (opcode = 8 \<and> len = 1)) (Failed ''invalid control frame'')
           (Inr (frame, message_opcode))
       else if opcode = 0 then
         ensure (message_opcode \<noteq> None) (Failed ''unexpected continuation'') (Inr (frame, message_opcode))
       else
         ensure (message_opcode = None) (Failed ''unfinished fragmented message'') (Inr (frame, Some opcode))))))"

definition begin_frame :: "observer \<Rightarrow> observer result" where
  "begin_frame ob =
     attempt (parse_header (ob_role ob) (ob_message_opcode ob) (ob_header ob)) (\<lambda>(frame, message_opcode).
     Inr (ob\<lparr>ob_frame := Some frame, ob_message_opcode := message_opcode, ob_header := []\<rparr>))"

section \<open>Payload\<close>

primrec unmask :: "bytes \<Rightarrow> nat \<Rightarrow> bytes \<Rightarrow> bytes" where
  "unmask key offset [] = []"
| "unmask key offset (b # bs) = (b XOR key ! (offset mod 4)) # unmask key (Suc offset) bs"

text \<open>The loop over chunks of the fixed scratch space; \<open>& 3\<close> is the remainder by four.\<close>

function feed_masked :: "reader \<Rightarrow> bytes \<Rightarrow> nat \<Rightarrow> bytes \<Rightarrow> text_message \<Rightarrow> nat \<times> text_message" where
  "feed_masked rd key offset bs m =
     (if bs = [] then (offset, m)
      else
        let chunk = take 8192 bs in
        feed_masked rd key ((offset + length chunk) mod 4) (drop 8192 bs) (message_feed rd m (unmask key offset chunk)))"
  by pat_completeness auto
termination by (relation "measure (\<lambda>(_, _, _, bs, _). length bs)") auto

declare feed_masked.simps [simp del]

definition is_text :: "8 word option \<Rightarrow> frame \<Rightarrow> bool" where
  "is_text message_opcode frame \<longleftrightarrow> message_opcode = Some 1 \<and> fr_opcode frame < 8"

definition take_payload :: "reader \<Rightarrow> bytes \<Rightarrow> frame \<Rightarrow> observer \<Rightarrow> frame \<times> observer" where
  "take_payload rd bs frame ob =
     (let n = min (fr_remaining frame) (length bs);
          (offset, message) =
            (if is_text (ob_message_opcode ob) frame then
               (case fr_mask frame of
                  Some key \<Rightarrow> feed_masked rd key (fr_offset frame) (take n bs) (ob_message ob)
                | None \<Rightarrow> (fr_offset frame, message_feed rd (ob_message ob) (take n bs)))
             else (fr_offset frame, ob_message ob));
          frame1 = frame\<lparr>fr_remaining := fr_remaining frame - n, fr_offset := offset\<rparr>
      in (frame1, ob\<lparr>ob_message := message, ob_frame := Some frame1\<rparr>))"

definition end_frame :: "reader \<Rightarrow> frame \<Rightarrow> observer \<Rightarrow> (bytes \<times> bool) list \<times> observer" where
  "end_frame rd frame ob =
     (let ob1 = ob\<lparr>ob_frame := None\<rparr> in
      if fr_opcode frame = 8 then ([], ob1\<lparr>ob_closed := True\<rparr>)
      else if fr_opcode frame < 8 \<and> fr_fin frame then
        let (texts, message) =
          (if ob_message_opcode ob1 = Some 1 then message_finish rd (ob_message ob1) else ([], ob_message ob1))
        in (texts, ob1\<lparr>ob_message := message, ob_message_opcode := None\<rparr>)
      else ([], ob1))"

section \<open>The loop\<close>

text \<open>The current frame, where the header is complete, and the bytes after the header.\<close>

definition current_frame :: "bytes \<Rightarrow> observer \<Rightarrow> (frame option \<times> bytes \<times> observer) result" where
  "current_frame bs ob =
     (case ob_frame ob of
        Some frame \<Rightarrow> Inr (Some frame, bs, ob)
      | None \<Rightarrow>
          let (h, rest, complete) = read_header (ob_header ob) bs; ob1 = ob\<lparr>ob_header := h\<rparr> in
          if \<not> complete then Inr (None, rest, ob1)
          else attempt (begin_frame ob1) (\<lambda>ob2. Inr (ob_frame ob2, rest, ob2)))"

function decode :: "reader \<Rightarrow> bytes \<Rightarrow> observer \<Rightarrow> (bytes \<times> bool) list \<times> observer result" where
  "decode rd bs ob =
     (if bs = [] \<and> \<not> (case ob_frame ob of Some frame \<Rightarrow> fr_remaining frame = 0 | None \<Rightarrow> False) then ([], Inr ob)
      else
        (case current_frame bs ob of
           Inl e \<Rightarrow> ([], Inl e)
         | Inr (None, _, ob1) \<Rightarrow> ([], Inr ob1)
         | Inr (Some frame, rest, ob1) \<Rightarrow>
             let (frame1, ob2) = take_payload rd rest frame ob1; rest1 = drop (fr_remaining frame) rest in
             if fr_remaining frame1 \<noteq> 0 then ([], Inr ob2)
             else
               let (texts, ob3) = end_frame rd frame1 ob2 in
               if ob_closed ob3 then (texts, Inr ob3)
               else let (more, r) = decode rd rest1 ob3 in (texts @ more, r)))"
  by pat_completeness auto


lemma read_header_eq:
  assumes "n = min (needed h - length h) (length bs)" "h1 = h @ take n bs"
  shows "read_header h bs =
    (if length h1 < needed h then (h1, drop n bs, False)
     else if length h1 = 2 \<and> needed h = 2 \<and> extended h1 then read_header h1 (drop n bs)
     else (h1, drop n bs, True))"
  by (subst read_header.simps) (simp only: assms Let_def)

lemma read_header_shorter:
  "read_header h bs = (h', rest, True) \<Longrightarrow> length rest \<le> length bs \<and> (h = [] \<longrightarrow> length rest < length bs)"
proof (induction h bs arbitrary: h' rest rule: read_header.induct)
  case (1 h bs)
  obtain n h1 where n: "n = min (needed h - length h) (length bs)" and h1: "h1 = h @ take n bs" by blast
  note eq = read_header_eq [OF n h1]
  show ?case
  proof (cases "length h1 < needed h")
    case False
    have "length (drop n bs) \<le> length bs \<and> (h = [] \<longrightarrow> length (drop n bs) < length bs)"
      using False n h1 by (auto simp: needed_def)
    moreover have "length rest \<le> length (drop n bs)"
    proof (cases "length h1 = 2 \<and> needed h = 2 \<and> extended h1")
      case True
      then have "read_header h1 (drop n bs) = (h', rest, True)" using 1(2) eq False by simp
      then show ?thesis using 1(1) [OF n h1 refl False True] by blast
    next
      case no: False
      then show ?thesis using 1(2) eq False by auto
    qed
    ultimately show ?thesis by linarith
  next
    case True
    then show ?thesis using 1(2) eq by simp
  qed
qed

lemma current_frame_progress:
  assumes "current_frame bs ob = Inr (Some frame, rest, ob1)"
  shows "ob_header ob1 = (if ob_frame ob = None then [] else ob_header ob)"
    "length rest \<le> length bs" "ob_frame ob = None \<Longrightarrow> ob_header ob = [] \<Longrightarrow> length rest < length bs"
  using assms
  by (auto simp: current_frame_def begin_frame_def Let_def result_simps split: option.splits if_splits prod.splits
      dest: read_header_shorter)

lemma end_frame_header [simp]: "ob_header (snd (end_frame rd frame ob)) = ob_header ob" "ob_frame (snd (end_frame rd frame ob)) = None"
  by (auto simp: end_frame_def Let_def split: prod.splits)

lemma take_payload_header [simp]: "ob_header (snd (take_payload rd bs frame ob)) = ob_header ob"
  by (auto simp: take_payload_def Let_def split: prod.splits)

lemma decode_progress:
  assumes "current_frame bs ob = Inr (Some frame, rest, ob1)" "(frame1, ob2) = take_payload rd rest frame ob1"
    "(texts, ob3) = end_frame rd frame1 ob2"
  shows "length (drop n rest) + (if ob_frame ob3 \<noteq> None then 1 else 0) + (if ob_header ob3 \<noteq> [] then 1 else 0)
    < length bs + (if ob_frame ob \<noteq> None then 1 else 0) + (if ob_header ob \<noteq> [] then 1 else 0)"
proof -
  have "ob_frame ob3 = None" "ob_header ob3 = ob_header ob1"
    using end_frame_header [of rd frame1 ob2] take_payload_header [of rd rest frame ob1] assms(2,3) by (metis snd_conv)+
  then show ?thesis
    using current_frame_progress [OF assms(1)] by (auto split: if_splits)
qed

termination decode
  by (relation "measure (\<lambda>(rd, bs, ob). length bs + (if ob_frame ob \<noteq> None then 1 else 0) + (if ob_header ob \<noteq> [] then 1 else 0))")
    (simp, simp only: in_measure prod.case, blast intro: decode_progress)

declare decode.simps [simp del]

definition feed_with :: "reader \<Rightarrow> observer \<Rightarrow> bytes \<Rightarrow> (bytes \<times> bool) list \<times> bool result \<times> observer" where
  "feed_with rd ob bs =
     (if ob_disabled ob \<or> ob_closed ob then ([], Inr (\<not> ob_closed ob), ob)
      else
        (case decode rd bs ob of
           (texts, Inl e) \<Rightarrow> (texts, Inl e, ob\<lparr>ob_disabled := True, ob_message := empty_message, ob_frame := None\<rparr>)
         | (texts, Inr ob1) \<Rightarrow> (texts, Inr (\<not> ob_closed ob1), ob1)))"

end
