(* ===== verification/Wire_Laws.thy ===== *)
theory Wire_Laws
  imports Wire
begin

text \<open>
  The observer refines a machine that reads one byte at a time and keeps the text of the current message as it
  is. The pieces in which the bytes arrive therefore do not matter, and on the bytes of well-formed frames the
  observer hands out exactly the text messages.
\<close>

section \<open>Messages\<close>

definition message_texts :: "reader \<Rightarrow> bytes \<Rightarrow> (bytes \<times> bool) list" where
  "message_texts rd t =
     (if length t \<le> small_message then (if from_utf8 t = Valid then [(t, False)] else [])
      else (case finish rd (feed rd new_projection t) of Some v \<Rightarrow> [(v, True)] | None \<Rightarrow> []))"

text \<open>A message buffer holds the bytes \<open>t\<close>: themselves, or their projection when there are many.\<close>

definition represents :: "reader \<Rightarrow> text_message \<Rightarrow> bytes \<Rightarrow> bool" where
  "represents rd m t \<longleftrightarrow>
     (if length t \<le> small_message then m = \<lparr>tm_small = t, tm_projection = None\<rparr>
      else tm_small m = [] \<and> (\<exists>p. tm_projection m = Some p \<and> fed p \<and> same p (feed rd new_projection t)))"

lemma fed_new [simp]: "fed new_projection"
  by (auto simp: fed_def new_projection_def intro: exI [of _ "[]"])

lemma represents_empty [simp]: "represents rd empty_message []"
  by (simp add: represents_def empty_message_def)

lemma represents_feed:
  assumes "represents rd m t"
  shows "represents rd (message_feed rd m bs) (t @ bs)"
proof (cases "length t \<le> small_message")
  case True
  then have m: "m = \<lparr>tm_small = t, tm_projection = None\<rparr>" using assms by (simp add: represents_def)
  show ?thesis
    using feed_append [OF fed_new, of rd t bs] 
    by (auto simp: m message_feed_def represents_def fed_feed)
next
  case False
  then obtain p where p: "tm_small m = []" "tm_projection m = Some p" "fed p" "same p (feed rd new_projection t)"
    using assms by (auto simp: represents_def)
  have "same (feed rd p bs) (feed rd new_projection (t @ bs))"
    using same_trans [OF same_feed [OF p(4)] feed_append [OF fed_new]] .
  then show ?thesis using p False fed_feed by (auto simp: message_feed_def represents_def)
qed

lemma represents_finish:
  assumes "represents rd m t"
  shows "message_finish rd m = (message_texts rd t, empty_message)"
proof (cases "length t \<le> small_message")
  case False
  then obtain p where "tm_projection m = Some p" "same p (feed rd new_projection t)"
    using assms by (auto simp: represents_def)
  then show ?thesis using False same_finish by (auto simp: message_finish_def message_texts_def)
qed (use assms in \<open>auto simp: represents_def message_finish_def message_texts_def\<close>)

lemma length_unmask [simp]: "length (unmask key offset bs) = length bs"
  by (induction bs arbitrary: offset) auto

lemma unmask_append: "unmask key offset (xs @ ys) = unmask key offset xs @ unmask key (offset + length xs) ys"
  by (induction xs arbitrary: offset) auto

lemma unmask_mod: "unmask key (offset mod 4) bs = unmask key offset bs"
proof (induction bs arbitrary: offset)
  case (Cons b bs)
  have "unmask key (Suc (offset mod 4)) bs = unmask key (Suc offset) bs"
    using Cons.IH [of "Suc (offset mod 4)"] Cons.IH [of "Suc offset"] by (simp add: mod_Suc_eq)
  then show ?case by simp
qed simp

lemma feed_masked_represents:
  assumes "represents rd m t"
  shows "fst (feed_masked rd key offset bs m) = (if bs = [] then offset else (offset + length bs) mod 4)
    \<and> represents rd (snd (feed_masked rd key offset bs m)) (t @ unmask key offset bs)"
  using assms
proof (induction rd key offset bs m arbitrary: t rule: feed_masked.induct)
  case (1 rd key offset bs m)
  show ?case
  proof (cases "bs = []")
    case True
    then show ?thesis using 1(2) by (simp add: feed_masked.simps [of _ _ _ "[]"])
  next
    case False
    let ?c = "take 8192 bs" and ?r = "drop 8192 bs"
    let ?o = "(offset + length ?c) mod 4" and ?m = "message_feed rd m (unmask key offset ?c)"
    have step: "feed_masked rd key offset bs m = feed_masked rd key ?o ?r ?m"
      using False by (subst feed_masked.simps) (simp add: Let_def)
    have "represents rd ?m (t @ unmask key offset ?c)" by (rule represents_feed [OF 1(2)])
    note IH = 1(1) [OF False refl this]
    have whole: "unmask key offset bs = unmask key offset ?c @ unmask key ?o ?r"
      using unmask_append [of key offset ?c ?r] by (simp add: unmask_mod)
    have "(?o + length ?r) mod 4 = (offset + length bs) mod 4" by (simp add: mod_add_left_eq add.assoc) (simp add: min_def)
    moreover have "?r = [] \<Longrightarrow> ?o = (offset + length bs) mod 4" by simp
    ultimately show ?thesis using IH False unfolding step whole by (simp split: if_splits)
  qed
qed

section \<open>The machine of single bytes\<close>

datatype watch_end = Open | Closed | Lost

record watch =
  wa_role :: role
  wa_header :: bytes
  wa_frame :: "frame option"
  wa_opcode :: "8 word option"
  wa_text :: bytes
  wa_end :: watch_end

definition new_watch :: "role \<Rightarrow> watch" where
  "new_watch r = \<lparr>wa_role = r, wa_header = [], wa_frame = None, wa_opcode = None, wa_text = [], wa_end = Open\<rparr>"

definition complete :: "bytes \<Rightarrow> bool" where
  "complete h \<longleftrightarrow> 2 \<le> length h \<and> needed h \<le> length h"

definition watch_end_frame :: "reader \<Rightarrow> frame \<Rightarrow> watch \<Rightarrow> (bytes \<times> bool) list \<times> watch" where
  "watch_end_frame rd frame w =
     (let w1 = w\<lparr>wa_frame := None\<rparr> in
      if fr_opcode frame = 8 then ([], w1\<lparr>wa_end := Closed\<rparr>)
      else if fr_opcode frame < 8 \<and> fr_fin frame then
        if wa_opcode w = Some 1 then (message_texts rd (wa_text w), w1\<lparr>wa_text := [], wa_opcode := None\<rparr>)
        else ([], w1\<lparr>wa_opcode := None\<rparr>)
      else ([], w1))"

definition watch_payload :: "bytes \<Rightarrow> frame \<Rightarrow> watch \<Rightarrow> frame \<times> watch" where
  "watch_payload xs frame w =
     (let text = (if is_text (wa_opcode w) frame
                  then (case fr_mask frame of Some key \<Rightarrow> unmask key (fr_offset frame) xs | None \<Rightarrow> xs) else []);
          offset = (if is_text (wa_opcode w) frame \<and> fr_mask frame \<noteq> None \<and> xs \<noteq> []
                    then (fr_offset frame + length xs) mod 4 else fr_offset frame);
          frame1 = frame\<lparr>fr_remaining := fr_remaining frame - length xs, fr_offset := offset\<rparr>
      in (frame1, w\<lparr>wa_frame := Some frame1, wa_text := wa_text w @ text\<rparr>))"

definition enter :: "reader \<Rightarrow> frame \<Rightarrow> watch \<Rightarrow> (bytes \<times> bool) list \<times> watch" where
  "enter rd frame w = (if fr_remaining frame = 0 then watch_end_frame rd frame w else ([], w))"

definition begin_watch :: "reader \<Rightarrow> bytes \<Rightarrow> watch \<Rightarrow> (bytes \<times> bool) list \<times> watch" where
  "begin_watch rd h w =
     (case parse_header (wa_role w) (wa_opcode w) h of
        Inl _ \<Rightarrow> ([], w\<lparr>wa_header := h, wa_end := Lost\<rparr>)
      | Inr (frame, opcode) \<Rightarrow> enter rd frame (w\<lparr>wa_header := [], wa_opcode := opcode, wa_frame := Some frame\<rparr>))"

definition watch_byte :: "reader \<Rightarrow> watch \<Rightarrow> 8 word \<Rightarrow> (bytes \<times> bool) list \<times> watch" where
  "watch_byte rd w b =
     (if wa_end w \<noteq> Open then ([], w)
      else
        (case wa_frame w of
           None \<Rightarrow>
             let h = wa_header w @ [b] in
             if complete h then begin_watch rd h w else ([], w\<lparr>wa_header := h\<rparr>)
         | Some frame \<Rightarrow> let (frame1, w1) = watch_payload [b] frame w in enter rd frame1 w1))"

text \<open>Runs of a machine with outputs.\<close>

definition emit :: "('o list \<times> 's) \<Rightarrow> ('s \<Rightarrow> 'o list \<times> 's) \<Rightarrow> 'o list \<times> 's" where
  "emit r f = (fst r @ fst (f (snd r)), snd (f (snd r)))"

lemma emit_simps [simp]: "emit ([], s) f = f s" "emit r (Pair []) = r" "emit (emit r f) g = emit r (\<lambda>s. emit (f s) g)"
  by (simp_all add: emit_def)

primrec watch_bytes :: "reader \<Rightarrow> bytes \<Rightarrow> watch \<Rightarrow> (bytes \<times> bool) list \<times> watch" where
  "watch_bytes rd [] w = ([], w)"
| "watch_bytes rd (b # bs) w = emit (watch_byte rd w b) (watch_bytes rd bs)"

lemma emit_Nil [simp]: "emit r (watch_bytes rd []) = r"
  by (simp add: emit_def)

lemma watch_bytes_Cons: "watch_bytes rd (b # bs) = (\<lambda>w. emit (watch_byte rd w b) (watch_bytes rd bs))"
  by (rule ext) simp

lemma watch_append: "watch_bytes rd (xs @ ys) w = emit (watch_bytes rd xs w) (watch_bytes rd ys)"
  by (induction xs arbitrary: w) (simp_all add: emit_def)

lemma watch_ended: "wa_end w \<noteq> Open \<Longrightarrow> watch_bytes rd bs w = ([], w)"
  by (induction bs) (simp_all add: watch_byte_def)

section \<open>Refinement\<close>

definition settled_watch :: "watch \<Rightarrow> bool" where
  "settled_watch w \<longleftrightarrow> (case wa_frame w of None \<Rightarrow> \<not> complete (wa_header w) | Some frame \<Rightarrow> 0 < fr_remaining frame \<and> wa_header w = [])"

definition same_fields :: "reader \<Rightarrow> observer \<Rightarrow> watch \<Rightarrow> bool" where
  "same_fields rd ob w \<longleftrightarrow> \<not> ob_disabled ob \<and> \<not> ob_closed ob \<and> wa_end w = Open \<and> wa_role w = ob_role ob
     \<and> wa_header w = ob_header ob \<and> wa_frame w = ob_frame ob \<and> wa_opcode w = ob_message_opcode ob
     \<and> represents rd (ob_message ob) (wa_text w)"

definition agrees :: "reader \<Rightarrow> observer \<Rightarrow> watch \<Rightarrow> bool" where
  "agrees rd ob w \<longleftrightarrow>
     (case wa_end w of
        Open \<Rightarrow> same_fields rd ob w \<and> settled_watch w
      | Closed \<Rightarrow> ob_closed ob
      | Lost \<Rightarrow> ob_disabled ob \<and> \<not> ob_closed ob)"

text \<open>The header, byte by byte.\<close>

fun header_split :: "bytes \<Rightarrow> bytes \<Rightarrow> bytes \<times> bytes \<times> bool" where
  "header_split h [] = (h, [], False)"
| "header_split h (b # bs) = (if complete (h @ [b]) then (h @ [b], bs, True) else header_split (h @ [b]) bs)"

lemma header_split_partial: "header_split h bs = (h', rest, False) \<Longrightarrow> \<not> complete h \<Longrightarrow> \<not> complete h'"
  by (induction h bs rule: header_split.induct) (auto split: if_splits)

lemma header_split_skip:
  assumes "\<And>j. 0 < j \<Longrightarrow> j \<le> n \<Longrightarrow> \<not> complete (h @ take j bs)" "n \<le> length bs"
  shows "header_split h bs = header_split (h @ take n bs) (drop n bs)"
  using assms
proof (induction n arbitrary: h bs)
  case (Suc n)
  then obtain b cs where bs: "bs = b # cs" by (cases bs) auto
  have "\<not> complete (h @ [b])" using Suc.prems(1) [of 1] bs by simp
  moreover have "\<not> complete ((h @ [b]) @ take j cs)" if "0 < j" "j \<le> n" for j
    using Suc.prems(1) [of "Suc j"] that bs by simp
  ultimately show ?case using Suc.IH [of "h @ [b]" cs] Suc.prems(2) bs by simp
qed simp

lemma needed_append: "2 \<le> length h \<Longrightarrow> needed (h @ x) = needed h"
  by (simp add: needed_def nth_append)

lemma needed_ge: "2 \<le> needed h"
  by (simp add: needed_def)

lemma read_header_split: "\<not> complete h \<Longrightarrow> read_header h bs = header_split h bs"
proof (induction h bs rule: read_header.induct)
  case (1 h bs)
  obtain n h1 where n: "n = min (needed h - length h) (length bs)" and h1: "h1 = h @ take n bs" by blast
  note eq = read_header_eq [OF n h1]
  have short: "length h < needed h" using 1(2) needed_ge [of h] by (auto simp: complete_def)
  have early: "\<not> complete (h @ take j bs)" if "0 < j" "j \<le> n" "length h + j < needed h" for j
  proof (cases "2 \<le> length h")
    case True
    then show ?thesis using that n needed_append [of h "take j bs"] by (auto simp: complete_def)
  next
    case False
    then show ?thesis using that n by (auto simp: complete_def needed_def [of h])
  qed
  show ?case
  proof (cases "length h1 < needed h")
    case True
    then have len: "n = length bs" using n h1 by auto
    have "header_split h bs = header_split h1 (drop n bs)"
      unfolding h1 using early True n h1 by (intro header_split_skip) auto
    then show ?thesis using eq True len by simp
  next
    case False
    have len: "n = needed h - length h" "n \<le> length bs" "0 < n" using False n h1 short by auto
    have at: "header_split h bs = header_split (h @ take (n - 1) bs) (drop (n - 1) bs)"
      using early len by (intro header_split_skip) auto
    obtain b where b: "drop (n - 1) bs = b # drop n bs" "h1 = h @ take (n - 1) bs @ [b]"
    proof -
      obtain m where m: "n = Suc m" using len(3) by (cases n) auto
      then have "m < length bs" using len(2) by simp
      have "drop m bs = bs ! m # drop (Suc m) bs" "take (Suc m) bs = take m bs @ [bs ! m]"
        using \<open>m < length bs\<close> by (simp_all add: Cons_nth_drop_Suc take_Suc_conv_app_nth)
      then show thesis using that [of "bs ! m"] h1 m by simp
    qed
    show ?thesis
    proof (cases "complete h1")
      case True
      have short_header: "\<not> (length h1 = 2 \<and> needed h = 2 \<and> extended h1)"
        using True needed_extended [of h1] needed_ge [of h1] by (auto simp: complete_def)
      have "read_header h bs = (h1, drop n bs, True)" by (simp only: eq if_not_P [OF False] if_not_P [OF short_header])
      moreover have "header_split h bs = (h1, drop n bs, True)" using at b True by simp
      ultimately show ?thesis by simp
    next
      case partial: False
      have "length h1 = needed h" using len h1 by simp
      have "\<not> 2 \<le> length h"
      proof
        assume "2 \<le> length h"
        then have "needed h1 = needed h" using needed_append h1 by simp
        then show False using partial \<open>length h1 = needed h\<close> needed_ge [of h] by (simp add: complete_def)
      qed
      then have "needed h = 2" by (simp add: needed_def)
      then have "length h1 = 2 \<and> needed h = 2 \<and> extended h1"
        using partial \<open>length h1 = needed h\<close> needed_extended [of h1] by (auto simp: complete_def)
      moreover from this have "read_header h1 (drop n bs) = header_split h1 (drop n bs)"
        using 1(1) [OF n h1 refl False _ partial] by blast
      ultimately show ?thesis using at b partial False eq by simp
    qed
  qed
qed

lemma watch_header:
  assumes "wa_end w = Open" "wa_frame w = None"
  shows "watch_bytes rd bs w =
    (case header_split (wa_header w) bs of
       (h, rest, whole) \<Rightarrow>
         if whole then emit (begin_watch rd h w) (watch_bytes rd rest) else ([], w\<lparr>wa_header := h\<rparr>))"
  using assms
proof (induction bs arbitrary: w)
  case (Cons b bs)
  show ?case
  proof (cases "complete (wa_header w @ [b])")
    case True
    then show ?thesis using Cons.prems by (simp add: watch_byte_def)
  next
    case False
    have header: "begin_watch rd h (w\<lparr>wa_header := h'\<rparr>) = begin_watch rd h w" for h h'
      by (auto simp: begin_watch_def split: sum.splits prod.splits)
    then show ?thesis
      using Cons.prems Cons.IH [of "w\<lparr>wa_header := wa_header w @ [b]\<rparr>"] by (simp add: watch_byte_def header split: prod.splits)
  qed
qed simp

lemma watch_payload_Nil: "wa_frame w = Some frame \<Longrightarrow> watch_payload [] frame w = (frame, w)"
  by (auto simp: watch_payload_def Let_def split: option.splits)

lemma watch_payload_Cons:
  assumes "watch_payload [b] frame w = (frame1, w1)"
  shows "watch_payload (b # bs) frame w = watch_payload bs frame1 w1"
proof -
  have more: "unmask key offset (b # bs) = unmask key offset [b] @ unmask key (Suc offset mod 4) bs" for key offset
    using unmask_append [of key offset "[b]" bs] by (simp add: unmask_mod)
  have offset: "(Suc k mod 4 + length bs) mod 4 = (k + length (b # bs)) mod 4" for k
    by (simp add: mod_add_left_eq)
  show ?thesis
  proof (cases "is_text (wa_opcode w) frame")
    case False
    then show ?thesis using assms by (auto simp: watch_payload_def is_text_def Let_def)
  next
    case True
    then have "is_text (wa_opcode w1) frame1" using assms by (auto simp: watch_payload_def is_text_def Let_def)
    then show ?thesis using assms True
      by (cases "fr_mask frame") (auto simp: watch_payload_def more offset Let_def simp del: unmask.simps(2))
  qed
qed

lemma watch_frame:
  assumes "wa_end w = Open" "wa_frame w = Some frame" "n = min (fr_remaining frame) (length bs)"
  shows "emit (enter rd frame w) (watch_bytes rd bs) =
    (let (frame1, w1) = watch_payload (take n bs) frame w in
     if fr_remaining frame1 \<noteq> 0 then ([], w1) else emit (watch_end_frame rd frame1 w1) (watch_bytes rd (drop n bs)))"
  using assms
proof (induction bs arbitrary: n frame w)
  case Nil
  then show ?case by (simp add: watch_payload_Nil enter_def)
next
  case (Cons b bs)
  show ?case
  proof (cases "fr_remaining frame = 0")
    case True
    then show ?thesis using Cons.prems by (simp add: watch_payload_Nil enter_def watch_bytes_Cons)
  next
    case False
    obtain frame1 w1 where one: "watch_payload [b] frame w = (frame1, w1)" by fastforce
    then have w1: "wa_end w1 = Open" "wa_frame w1 = Some frame1" "fr_remaining frame1 = fr_remaining frame - 1"
      using Cons.prems(1) by (auto simp: watch_payload_def Let_def)
    have n: "n = Suc (min (fr_remaining frame1) (length bs))" using Cons.prems(3) False w1(3) by auto
    have "emit (enter rd frame w) (watch_bytes rd (b # bs)) = emit (enter rd frame1 w1) (watch_bytes rd bs)"
      using False Cons.prems(1,2) one by (simp add: enter_def watch_byte_def)
    also have "\<dots> = (let (frame2, w2) = watch_payload (take (min (fr_remaining frame1) (length bs)) bs) frame1 w1 in
        if fr_remaining frame2 \<noteq> 0 then ([], w2)
        else emit (watch_end_frame rd frame2 w2) (watch_bytes rd (drop (min (fr_remaining frame1) (length bs)) bs)))"
      by (rule Cons.IH [OF w1(1,2) refl])
    finally show ?thesis unfolding n take_Suc_Cons drop_Suc_Cons watch_payload_Cons [OF one] .
  qed
qed

lemma take_payload_watch:
  assumes "same_fields rd ob w" "ob_frame ob = Some frame" "xs = take (min (fr_remaining frame) (length bs)) bs"
  shows "\<exists>ob2. take_payload rd bs frame ob = (fst (watch_payload xs frame w), ob2) \<and> same_fields rd ob2 (snd (watch_payload xs frame w))
    \<and> ob_header ob2 = ob_header ob"
proof -
  have rep: "represents rd (ob_message ob) (wa_text w)" and op: "wa_opcode w = ob_message_opcode ob"
    using assms(1) by (simp_all add: same_fields_def)
  have n: "min (fr_remaining frame) (length bs) = length xs" using assms(3) by simp
  then have xs: "take (length xs) bs = xs" using assms(3) by simp
  note defs = take_payload_def watch_payload_def Let_def n xs op
  show ?thesis
  proof (cases "is_text (ob_message_opcode ob) frame")
    case False
    then show ?thesis using assms(1,2) by (simp add: defs same_fields_def)
  next
    case True
    show ?thesis
    proof (cases "fr_mask frame")
      case None
      then show ?thesis using assms(1,2) True represents_feed [OF rep, of xs] by (simp add: defs same_fields_def)
    next
      case (Some key)
      obtain offset m where fm: "feed_masked rd key (fr_offset frame) xs (ob_message ob) = (offset, m)" by fastforce
      have "offset = (if xs = [] then fr_offset frame else (fr_offset frame + length xs) mod 4)"
        "represents rd m (wa_text w @ unmask key (fr_offset frame) xs)"
        using feed_masked_represents [OF rep, of key "fr_offset frame" xs] fm by simp_all
      then show ?thesis using assms(1,2) True Some fm by (simp add: defs same_fields_def)
    qed
  qed
qed

lemma watch_end_frame_end: "wa_end w = Open \<Longrightarrow> wa_end (snd (watch_end_frame rd frame w)) = Open \<or> wa_end (snd (watch_end_frame rd frame w)) = Closed"
  by (simp add: watch_end_frame_def Let_def)

lemma end_frame_watch:
  assumes "same_fields rd ob w" "ob_header ob = []"
  shows "fst (end_frame rd frame ob) = fst (watch_end_frame rd frame w)
    \<and> agrees rd (snd (end_frame rd frame ob)) (snd (watch_end_frame rd frame w))
    \<and> ob_closed (snd (end_frame rd frame ob)) = (wa_end (snd (watch_end_frame rd frame w)) = Closed)"
proof -
  have rep: "represents rd (ob_message ob) (wa_text w)" and op: "wa_opcode w = ob_message_opcode ob"
    using assms(1) by (simp_all add: same_fields_def)
  have empty: "\<not> complete []" by (simp add: complete_def)
  show ?thesis
    using assms
    by (auto simp: end_frame_def watch_end_frame_def Let_def op represents_finish [OF rep] agrees_def same_fields_def
        settled_watch_def empty)
qed

lemma parse_header_open: "same_fields rd ob w \<Longrightarrow> parse_header (wa_role w) (wa_opcode w) h = parse_header (ob_role ob) (ob_message_opcode ob) h"
  by (simp add: same_fields_def)

text \<open>Up to the payload: the header of the next frame, or the frame that is open already.\<close>

lemma current_frame_watch:
  assumes "agrees rd ob w" "wa_end w = Open" "bs \<noteq> []"
  shows "case current_frame bs ob of
      Inl e \<Rightarrow> fst (watch_bytes rd bs w) = [] \<and> wa_end (snd (watch_bytes rd bs w)) = Lost
    | Inr (None, rest, ob1) \<Rightarrow> fst (watch_bytes rd bs w) = [] \<and> agrees rd ob1 (snd (watch_bytes rd bs w))
    | Inr (Some frame, rest, ob1) \<Rightarrow>
        \<exists>w1. same_fields rd ob1 w1 \<and> ob_frame ob1 = Some frame \<and> ob_header ob1 = []
          \<and> watch_bytes rd bs w = emit (enter rd frame w1) (watch_bytes rd rest)"
proof -
  have same: "same_fields rd ob w" and settled: "settled_watch w" using assms(1,2) by (simp_all add: agrees_def)
  show ?thesis
  proof (cases "ob_frame ob")
    case (Some frame)
    then have w: "wa_frame w = Some frame" "0 < fr_remaining frame" "ob_header ob = []"
      using same settled by (auto simp: same_fields_def settled_watch_def)
    have "watch_bytes rd bs w = emit (enter rd frame w) (watch_bytes rd bs)" using w(2) by (simp add: enter_def)
    then show ?thesis using Some same w(3) by (auto simp: current_frame_def)
  next
    case None
    then have w: "wa_frame w = None" "\<not> complete (wa_header w)" "wa_header w = ob_header ob"
      using same settled by (auto simp: same_fields_def settled_watch_def)
    obtain h rest whole where split: "header_split (wa_header w) bs = (h, rest, whole)" by (cases "header_split (wa_header w) bs")
    then have read: "read_header (ob_header ob) bs = (h, rest, whole)" using read_header_split [OF w(2)] w(3) by simp
    show ?thesis
    proof (cases whole)
      case False
      have "\<not> complete h" using header_split_partial split w(2) False by simp
      then have "agrees rd (ob\<lparr>ob_header := h\<rparr>) (w\<lparr>wa_header := h\<rparr>)"
        using same None w(1) by (simp add: agrees_def same_fields_def settled_watch_def)
      then show ?thesis using watch_header [OF assms(2) w(1), of rd bs] split False None read by (simp add: current_frame_def)
    next
      case True
      note run = watch_header [OF assms(2) w(1), of rd bs]
      show ?thesis
      proof (cases "parse_header (ob_role ob) (ob_message_opcode ob) h")
        case (Inl e)
        then show ?thesis using run split True None read parse_header_open [OF same]
          by (simp add: current_frame_def begin_frame_def begin_watch_def watch_ended)
      next
        case (Inr r)
        obtain frame opcode where r: "r = (frame, opcode)" by fastforce
        let ?w = "w\<lparr>wa_header := [], wa_opcode := opcode, wa_frame := Some frame\<rparr>"
        let ?ob = "ob\<lparr>ob_header := h, ob_frame := Some frame, ob_message_opcode := opcode, ob_header := []\<rparr>"
        have "same_fields rd ?ob ?w" using same by (simp add: same_fields_def)
        moreover have "watch_bytes rd bs w = emit (enter rd frame ?w) (watch_bytes rd rest)"
          using run split True Inr r parse_header_open [OF same] by (simp add: begin_watch_def)
        moreover have "current_frame bs ob = Inr (Some frame, rest, ?ob)"
          using True None read Inr r by (simp add: current_frame_def begin_frame_def)
        ultimately show ?thesis by auto
      qed
    qed
  qed
qed

text \<open>One call of the loop and the byte machine on the same bytes.\<close>

lemma decode_watch:
  assumes "agrees rd ob w" "wa_end w = Open"
  shows "fst (decode rd bs ob) = fst (watch_bytes rd bs w)
    \<and> (case snd (decode rd bs ob) of
         Inl e \<Rightarrow> wa_end (snd (watch_bytes rd bs w)) = Lost
       | Inr ob1 \<Rightarrow> agrees rd ob1 (snd (watch_bytes rd bs w)))"
  using assms
proof (induction rd bs ob arbitrary: w rule: decode.induct)
  case (1 rd bs ob)
  have due: "\<not> (case ob_frame ob of Some frame \<Rightarrow> fr_remaining frame = 0 | None \<Rightarrow> False)"
    using 1(2,3) by (auto simp: agrees_def same_fields_def settled_watch_def split: option.splits)
  show ?case
  proof (cases "bs = []")
    case True
    then show ?thesis using 1(2) due by (simp add: decode.simps)
  next
    case False
    note at = current_frame_watch [OF 1(2,3) False]
    consider (error) e where "current_frame bs ob = Inl e"
      | (partial) rest ob1 where "current_frame bs ob = Inr (None, rest, ob1)"
      | (frame) frame rest ob1 where "current_frame bs ob = Inr (Some frame, rest, ob1)"
      by (cases "current_frame bs ob") (auto, metis not_None_eq)
    then show ?thesis
    proof cases
      case error
      then show ?thesis using at False by (subst (1 2) decode.simps) simp
    next
      case partial
      then show ?thesis using at False by (subst (1 2) decode.simps) simp
    next
      case frame
      then obtain w1 where w1: "same_fields rd ob1 w1" "ob_frame ob1 = Some frame" "ob_header ob1 = []"
          "watch_bytes rd bs w = emit (enter rd frame w1) (watch_bytes rd rest)" using at by auto
      define n where "n = min (fr_remaining frame) (length rest)"
      obtain frame1 w2 where wp: "watch_payload (take n rest) frame w1 = (frame1, w2)" by fastforce
      obtain ob2 where tp: "take_payload rd rest frame ob1 = (frame1, ob2)" and same: "same_fields rd ob2 w2" "ob_header ob2 = []"
        using take_payload_watch [OF w1(1,2), of "take n rest" rest] wp w1(3) by (auto simp: n_def)
      have "wa_end w1 = Open" "wa_frame w1 = Some frame" using w1(1,2) by (auto simp: same_fields_def)
      from watch_frame [OF this n_def, of rd] have watch: "watch_bytes rd bs w =
          (if fr_remaining frame1 \<noteq> 0 then ([], w2) else emit (watch_end_frame rd frame1 w2) (watch_bytes rd (drop n rest)))"
        by (simp add: w1(4) wp)
      obtain texts ob3 where ef: "end_frame rd frame1 ob2 = (texts, ob3)" by fastforce
      have run: "decode rd bs ob = (if fr_remaining frame1 \<noteq> 0 then ([], Inr ob2)
          else if ob_closed ob3 then (texts, Inr ob3)
          else (texts @ fst (decode rd (drop (fr_remaining frame) rest) ob3), snd (decode rd (drop (fr_remaining frame) rest) ob3)))"
        using False by (subst decode.simps) (simp add: frame tp ef case_prod_beta)
      show ?thesis
      proof (cases "fr_remaining frame1 = 0")
        case more: False
        have "wa_frame w2 = Some frame1" "wa_header w2 = []" "wa_end w2 = Open"
          using wp same by (auto simp: watch_payload_def Let_def same_fields_def)
        then have "agrees rd ob2 w2" using same(1) more by (simp add: agrees_def settled_watch_def)
        then show ?thesis using run watch more by simp
      next
        case done_frame: True
        have rest: "drop (fr_remaining frame) rest = drop n rest"
          using wp done_frame by (auto simp: watch_payload_def Let_def n_def)
        obtain ts w3 where we: "watch_end_frame rd frame1 w2 = (ts, w3)" by fastforce
        have ended: "texts = ts" "agrees rd ob3 w3" "ob_closed ob3 \<longleftrightarrow> wa_end w3 = Closed"
          using end_frame_watch [OF same, of frame1] ef we by auto
        have "wa_end w3 = Open \<or> wa_end w3 = Closed"
          using watch_end_frame_end [of w2 rd frame1] same(1) we by (simp add: same_fields_def)
        then show ?thesis
        proof
          assume "wa_end w3 = Closed"
          then show ?thesis using run watch done_frame we ended by (simp add: watch_ended emit_def)
        next
          assume "wa_end w3 = Open"
          then have "\<not> ob_closed ob3" using ended(3) by simp
          have nonempty: "\<not> (bs = [] \<and> \<not> (case ob_frame ob of Some frame \<Rightarrow> fr_remaining frame = 0 | None \<Rightarrow> False))"
            using False by simp
          have zero: "\<not> fr_remaining frame1 \<noteq> 0" using done_frame by simp
          note IH = 1(1) [OF nonempty frame refl refl refl refl tp [symmetric] refl zero refl ef [symmetric]
              \<open>\<not> ob_closed ob3\<close> ended(2) \<open>wa_end w3 = Open\<close>]
          show ?thesis
            using IH [unfolded rest] run [unfolded rest] watch done_frame we ended(1) \<open>\<not> ob_closed ob3\<close>
            by (simp add: emit_def split: sum.splits)
        qed
      qed
    qed
  qed
qed

section \<open>Any pieces\<close>

text \<open>The relay calls \<open>feed_with\<close> for every piece that it forwards.\<close>

definition feed_piece :: "reader \<Rightarrow> (bytes \<times> bool) list \<times> observer \<Rightarrow> bytes \<Rightarrow> (bytes \<times> bool) list \<times> observer" where
  "feed_piece rd state piece = (let (texts, _, ob) = feed_with rd (snd state) piece in (fst state @ texts, ob))"

lemma feed_with_watch:
  assumes "agrees rd ob w"
  shows "fst (feed_with rd ob bs) = fst (watch_bytes rd bs w)
    \<and> agrees rd (snd (snd (feed_with rd ob bs))) (snd (watch_bytes rd bs w))"
proof (cases "wa_end w = Open")
  case True
  then have "\<not> ob_disabled ob" "\<not> ob_closed ob" using assms by (simp_all add: agrees_def same_fields_def)
  obtain ts res where d: "decode rd bs ob = (ts, res)" by fastforce
  show ?thesis
  proof (cases res)
    case (Inl e)
    then show ?thesis using \<open>\<not> ob_closed ob\<close> \<open>\<not> ob_disabled ob\<close> d decode_watch [OF assms True, of bs]
      by (simp add: feed_with_def agrees_def)
  next
    case (Inr ob1)
    then show ?thesis using \<open>\<not> ob_closed ob\<close> \<open>\<not> ob_disabled ob\<close> d decode_watch [OF assms True, of bs]
      by (simp add: feed_with_def)
  qed
next
  case False
  then have "ob_disabled ob \<or> ob_closed ob" using assms by (cases "wa_end w") (auto simp: agrees_def)
  then show ?thesis using assms False by (simp add: feed_with_def watch_ended)
qed

lemma new_agrees: "agrees rd (new_observer r) (new_watch r)"
  by (simp add: agrees_def same_fields_def settled_watch_def new_observer_def new_watch_def complete_def)

lemma pieces_watch:
  assumes "agrees rd ob w"
  shows "fst (foldl (feed_piece rd) (texts, ob) pieces) = texts @ fst (watch_bytes rd (concat pieces) w)
    \<and> agrees rd (snd (foldl (feed_piece rd) (texts, ob) pieces)) (snd (watch_bytes rd (concat pieces) w))"
  using assms
proof (induction pieces arbitrary: texts ob w)
  case (Cons piece pieces)
  obtain ts r ob1 where f: "feed_with rd ob piece = (ts, r, ob1)" by (cases "feed_with rd ob piece")
  have one: "ts = fst (watch_bytes rd piece w)" "agrees rd ob1 (snd (watch_bytes rd piece w))"
    using feed_with_watch [OF Cons.prems, of piece] f by simp_all
  show ?case
    using Cons.IH [OF one(2), of "texts @ ts"] one(1)
    by (simp add: feed_piece_def f watch_append emit_def)
qed simp

text \<open>C40: the pieces in which the bytes of a connection arrive do not matter to the observer. Feeding them one by
  one hands out the same texts, in the same order, as feeding all bytes at once, and the observer ends closed or
  disabled in the same cases, for every stream: fragmented, masked, malformed, cut within a header, a mask or a
  payload, below and above the limit of small messages.\<close>

theorem observer_any_pieces:
  fixes pieces :: "bytes list"
  shows "let (texts, ob) = foldl (feed_piece rd) ([], new_observer r) pieces;
         (texts1, ob1) = feed_piece rd ([], new_observer r) (concat pieces) in
     texts = texts1 \<and> ob_closed ob = ob_closed ob1 \<and> (ob_disabled ob \<and> \<not> ob_closed ob) = (ob_disabled ob1 \<and> \<not> ob_closed ob1)"
proof -
  have status: "ob_closed ob \<longleftrightarrow> wa_end w = Closed" "ob_disabled ob \<and> \<not> ob_closed ob \<longleftrightarrow> wa_end w = Lost"
    if "agrees rd ob w" for ob w
    using that by (cases "wa_end w"; simp add: agrees_def same_fields_def)+
  note many = pieces_watch [OF new_agrees, where texts = "[]" and pieces = pieces] and once = pieces_watch [OF new_agrees, where texts = "[]" and pieces = "[concat pieces]"]
  show ?thesis
    using many once status [OF conjunct2 [OF many]] status [OF conjunct2 [OF once]] by (simp add: case_prod_beta)
qed

end
