(* ===== verification/Wire_Frames.thy ===== *)
theory Wire_Frames
  imports Wire_Laws
begin

text \<open>
  The observer as the inverse of the WebSocket encoding (RFC 6455): frames and their bytes, the messages that a
  sequence of frames carries, and the theorem that the observer hands out exactly these.
\<close>

section \<open>Frames and their bytes\<close>

record wire_frame =
  wf_fin :: bool
  wf_opcode :: "8 word"
  wf_mask :: "bytes option"
  wf_payload :: bytes

primrec be_bytes :: "nat \<Rightarrow> nat \<Rightarrow> bytes" where
  "be_bytes 0 n = []"
| "be_bytes (Suc k) n = be_bytes k (n div 256) @ [word_of_nat (n mod 256)]"

definition short_length :: "nat \<Rightarrow> nat" where
  "short_length n = (if n \<le> 125 then n else if n < 65536 then 126 else 127)"

definition long_length :: "nat \<Rightarrow> bytes" where
  "long_length n = (if n \<le> 125 then [] else if n < 65536 then be_bytes 2 n else be_bytes 8 n)"

definition first_byte :: "bool \<Rightarrow> 8 word \<Rightarrow> 8 word" where
  "first_byte fin opcode = (if fin then 128 else 0) OR opcode"

definition second_byte :: "bool \<Rightarrow> nat \<Rightarrow> 8 word" where
  "second_byte masked n = (if masked then 128 else 0) OR word_of_nat (short_length n)"

definition header_bytes :: "wire_frame \<Rightarrow> bytes" where
  "header_bytes f =
     [first_byte (wf_fin f) (wf_opcode f), second_byte (wf_mask f \<noteq> None) (length (wf_payload f))]
     @ long_length (length (wf_payload f)) @ (case wf_mask f of None \<Rightarrow> [] | Some key \<Rightarrow> key)"

definition payload_bytes :: "wire_frame \<Rightarrow> bytes" where
  "payload_bytes f = (case wf_mask f of None \<Rightarrow> wf_payload f | Some key \<Rightarrow> unmask key 0 (wf_payload f))"

definition frame_bytes :: "wire_frame \<Rightarrow> bytes" where
  "frame_bytes f = header_bytes f @ payload_bytes f"

text \<open>A frame that the sender may send next: only the client of a connection masks, a control frame is short and
  not fragmented, a continuation continues a message and a new message does not interrupt one.\<close>

definition legal :: "role \<Rightarrow> 8 word option \<Rightarrow> wire_frame \<Rightarrow> bool" where
  "legal r message_opcode f \<longleftrightarrow>
     wf_opcode f \<in> {0, 1, 2, 8, 9, 10} \<and> (wf_mask f \<noteq> None \<longleftrightarrow> r = ServerSide) \<and> (case wf_mask f of None \<Rightarrow> True | Some key \<Rightarrow> length key = 4)
     \<and> length (wf_payload f) < 2 ^ 63
     \<and> (if 8 \<le> wf_opcode f then wf_fin f \<and> length (wf_payload f) \<le> 125 \<and> \<not> (wf_opcode f = 8 \<and> length (wf_payload f) = 1)
        else if wf_opcode f = 0 then message_opcode \<noteq> None else message_opcode = None)"

definition opcode_after :: "8 word option \<Rightarrow> wire_frame \<Rightarrow> 8 word option" where
  "opcode_after message_opcode f = (if wf_opcode f \<in> {1, 2} then Some (wf_opcode f) else message_opcode)"

fun legal_frames :: "role \<Rightarrow> 8 word option \<Rightarrow> wire_frame list \<Rightarrow> bool" where
  "legal_frames r message_opcode [] \<longleftrightarrow> True"
| "legal_frames r message_opcode (f # fs) \<longleftrightarrow> legal r message_opcode f
     \<and> (wf_opcode f = 8
        \<or> legal_frames r (if wf_opcode f < 8 \<and> wf_fin f then None else opcode_after message_opcode f) fs)"

text \<open>The text messages of a sequence of frames; \<open>t\<close> is the text of the message that is not complete yet.\<close>

fun deliver :: "reader \<Rightarrow> 8 word option \<Rightarrow> bytes \<Rightarrow> wire_frame list \<Rightarrow> (bytes \<times> bool) list" where
  "deliver rd message_opcode t [] = []"
| "deliver rd message_opcode t (f # fs) =
     (if wf_opcode f = 8 then []
      else if 8 \<le> wf_opcode f then deliver rd message_opcode t fs
      else
        let opcode = opcode_after message_opcode f; t1 = (if opcode = Some 1 then t @ wf_payload f else t) in
        if wf_fin f then (if opcode = Some 1 then message_texts rd t1 else []) @ deliver rd None [] fs
        else deliver rd opcode t1 fs)"

section \<open>Headers\<close>

lemma unmask_twice: "unmask key offset (unmask key offset bs) = bs"
  by (induction bs arbitrary: offset) (simp_all add: xor.assoc)

lemma length_be_bytes [simp]: "length (be_bytes k n) = k"
  by (induction k arbitrary: n) simp_all

lemma be_value_snoc: "be_value (bs @ [b]) = be_value bs * 256 + unat b"
  by (simp add: be_value_def)

lemma be_value_bytes: "n < 256 ^ k \<Longrightarrow> be_value (be_bytes k n) = n"
proof (induction k arbitrary: n)
  case (Suc k)
  have "n div 256 < 256 ^ k" using Suc.prems by (simp add: less_mult_imp_div_less mult.commute)
  moreover have "unat (word_of_nat (n mod 256) :: 8 word) = n mod 256" by (simp add: unat_of_nat)
  ultimately show ?case using Suc.IH by (simp add: be_value_snoc)
qed (simp add: be_value_def)

lemma seven_bits:
  assumes "n < 128"
  shows "((if masked then 128 else 0) OR word_of_nat n :: 8 word) AND 127 = word_of_nat n"
    and "((if masked then 128 else 0) OR word_of_nat n :: 8 word) AND 128 \<noteq> 0 \<longleftrightarrow> masked"
proof -
  let ?b = "word_of_nat n :: 8 word"
  have "take_bit 7 ?b = ?b"
    by (rule word_unat_eq_iff [THEN iffD2])
      (use assms in \<open>simp add: unsigned_take_bit_eq take_bit_nat_eq_self unat_of_nat\<close>)
  then have low: "k < 7" if "bit ?b k" for k using that by (metis bit_take_bit_iff)
  have b127: "bit (127 :: 8 word) k \<longleftrightarrow> k < 7" for k
  proof -
    have "(127 :: 8 word) = mask 7" by (simp add: mask_eq_exp_minus_1)
    then show ?thesis by (simp only: bit_mask_iff) auto
  qed
  have b128: "bit (128 :: 8 word) k \<longleftrightarrow> k = 7" for k
  proof -
    have "(128 :: 8 word) = 2 ^ 7" by simp
    then show ?thesis by (simp only: bit_exp_iff) auto
  qed
  show "((if masked then 128 else 0) OR ?b) AND 127 = ?b"
    by (cases masked; rule bit_word_eqI; simp only: bit_and_iff bit_or_iff b127 b128 if_True if_False; use low in auto)
  have "(128 OR ?b) AND 128 \<noteq> 0"
  proof -
    have "bit ((128 OR ?b) AND 128) 7" by (simp only: bit_and_iff bit_or_iff b128 simp_thms)
    then show ?thesis by auto
  qed
  moreover have "?b AND 128 = 0"
    by (rule bit_word_eqI; simp only: bit_and_iff b128; use low in auto)
  ultimately show "((if masked then 128 else 0) OR ?b) AND 128 \<noteq> 0 \<longleftrightarrow> masked" by simp
qed

lemma first_byte_bits:
  assumes "opcode \<in> {0, 1, 2, 8, 9, 10}"
  shows "first_byte fin opcode AND 15 = opcode" "first_byte fin opcode AND 128 \<noteq> 0 \<longleftrightarrow> fin" "first_byte fin opcode AND 0x70 = 0"
  using assms by (auto simp: first_byte_def)

lemma short_length_bound: "short_length n < 128"
  by (simp add: short_length_def)

lemma second_byte_bits:
  "second_byte masked n AND 127 = word_of_nat (short_length n)" "second_byte masked n AND 128 \<noteq> 0 \<longleftrightarrow> masked"
  using seven_bits [OF short_length_bound [of n], of masked] by (simp_all add: second_byte_def)

lemma short_byte_cases:
  "(word_of_nat (short_length n) :: 8 word) = 126 \<longleftrightarrow> 125 < n \<and> n < 65536"
  "(word_of_nat (short_length n) :: 8 word) = 127 \<longleftrightarrow> 65536 \<le> n"
  "unat (word_of_nat (short_length n) :: 8 word) = short_length n"
proof -
  show u: "unat (word_of_nat (short_length n) :: 8 word) = short_length n"
    using short_length_bound [of n] by (simp add: unat_of_nat)
  then show "(word_of_nat (short_length n) :: 8 word) = 126 \<longleftrightarrow> 125 < n \<and> n < 65536"
    "(word_of_nat (short_length n) :: 8 word) = 127 \<longleftrightarrow> 65536 \<le> n"
    by (auto simp: word_unat_eq_iff short_length_def split: if_splits)
qed

lemma header_nth: "header_bytes f ! 0 = first_byte (wf_fin f) (wf_opcode f)"
  "header_bytes f ! 1 = second_byte (wf_mask f \<noteq> None) (length (wf_payload f))"
  by (simp_all add: header_bytes_def)

lemma needed_header:
  assumes "\<forall>key. wf_mask f = Some key \<longrightarrow> length key = 4"
  shows "needed (header_bytes f) = length (header_bytes f)" "2 \<le> length (header_bytes f)"
proof -
  show "2 \<le> length (header_bytes f)" by (simp add: header_bytes_def)
  then show "needed (header_bytes f) = length (header_bytes f)"
    using assms unfolding needed_def header_nth second_byte_bits short_byte_cases
    by (auto simp: header_bytes_def long_length_def split: option.splits)
qed

lemma header_split_exact:
  assumes "2 \<le> length h" "needed h = length h"
  shows "header_split [] (h @ rest) = (h, rest, True)"
proof -
  obtain x b where h: "h = x @ [b]" using assms(1) by (cases h rule: rev_cases) auto
  have partial: "\<not> complete (take j h)" if "j < length h" for j
  proof (cases "2 \<le> j")
    case True
    have "needed (take j h) = needed h" using needed_append [of "take j h" "drop j h"] True that by simp
    then show ?thesis using that assms(2) by (simp add: complete_def)
  qed (simp add: complete_def)
  have "header_split [] (h @ rest) = header_split ([] @ take (length x) (h @ rest)) (drop (length x) (h @ rest))"
    by (rule header_split_skip) (use partial h in \<open>auto simp: min_def\<close>)
  then show ?thesis using assms h by (simp add: complete_def)
qed

text \<open>The parser reads back what the header says.\<close>

lemma parse_header_bytes:
  assumes "legal r opcode f"
  shows "parse_header r opcode (header_bytes f) =
    Inr (\<lparr>fr_remaining = length (wf_payload f), fr_offset = 0, fr_mask = wf_mask f, fr_opcode = wf_opcode f, fr_fin = wf_fin f\<rparr>,
         opcode_after opcode f)"
proof -
  let ?n = "length (wf_payload f)" and ?h = "header_bytes f"
  have ok: "wf_opcode f \<in> {0, 1, 2, 8, 9, 10}" "wf_mask f \<noteq> None \<longleftrightarrow> r = ServerSide"
      "\<forall>key. wf_mask f = Some key \<longrightarrow> length key = 4" "?n < 2 ^ 63"
    using assms by (auto simp: legal_def split: option.splits)
  let ?stop = "if 125 < ?n \<and> ?n < 65536 then 4 else if 65536 \<le> ?n then 10 else 2 :: nat"
  have len: "(if 125 < ?n \<and> ?n < 65536 then be_value (take 2 (drop 2 ?h))
      else if 65536 \<le> ?n then be_value (take 8 (drop 2 ?h)) else short_length ?n) = ?n"
    using ok(4) be_value_bytes [of ?n 2] be_value_bytes [of ?n 8]
    by (simp add: header_bytes_def long_length_def short_length_def)
  have key: "(if wf_mask f \<noteq> None then Some (take 4 (drop ?stop ?h)) else None) = wf_mask f"
    using ok(3) by (cases "wf_mask f") (auto simp: header_bytes_def long_length_def)
  note bits = header_nth second_byte_bits short_byte_cases first_byte_bits [OF ok(1)]
  have pair: "(if ?h ! 1 AND 127 = 126 then (be_value (take 2 (drop 2 ?h)), 4)
      else if ?h ! 1 AND 127 = 127 then (be_value (take 8 (drop 2 ?h)), 10) else (unat (?h ! 1 AND 127), 2)) = (?n, ?stop)"
    unfolding bits using len by (auto split: if_splits)
  have header: "parse_header r opcode ?h =
     (let frame = \<lparr>fr_remaining = ?n, fr_offset = 0, fr_mask = wf_mask f, fr_opcode = wf_opcode f, fr_fin = wf_fin f\<rparr> in
      if 8 \<le> wf_opcode f then
        ensure (wf_fin f \<and> ?n \<le> 125 \<and> \<not> (wf_opcode f = 8 \<and> ?n = 1)) (Failed ''invalid control frame'') (Inr (frame, opcode))
      else if wf_opcode f = 0 then ensure (opcode \<noteq> None) (Failed ''unexpected continuation'') (Inr (frame, opcode))
      else ensure (opcode = None) (Failed ''unfinished fragmented message'') (Inr (frame, Some (wf_opcode f))))"
    unfolding parse_header_def Let_def
    unfolding pair prod.case
    unfolding bits key
    using ok by (simp only: ensure_True simp_thms refl)
  show ?thesis using assms ok(1) unfolding header by (auto simp: legal_def opcode_after_def Let_def word_le_nat_alt)
qed

section \<open>Messages\<close>

text \<open>A watch between two frames.\<close>

definition between_frames :: "role \<Rightarrow> 8 word option \<Rightarrow> bytes \<Rightarrow> watch" where
  "between_frames r opcode t = \<lparr>wa_role = r, wa_header = [], wa_frame = None, wa_opcode = opcode, wa_text = t, wa_end = Open\<rparr>"

lemma watch_one_frame:
  assumes "legal r opcode f" "opcode_after opcode f \<noteq> Some 1 \<longrightarrow> t = []"
  shows "watch_bytes rd (frame_bytes f @ rest) (between_frames r opcode t) =
    (let mo = opcode_after opcode f; t1 = (if wf_opcode f < 8 \<and> mo = Some 1 then t @ wf_payload f else t) in
     if wf_opcode f = 8 then ([], (between_frames r mo t1)\<lparr>wa_end := Closed\<rparr>)
     else if wf_opcode f < 8 \<and> wf_fin f
     then emit (if mo = Some 1 then message_texts rd t1 else [], between_frames r None []) (watch_bytes rd rest)
     else watch_bytes rd rest (between_frames r mo t1))"
proof -
  let ?w = "between_frames r opcode t" and ?mo = "opcode_after opcode f" and ?n = "length (wf_payload f)"
  let ?frame = "\<lparr>fr_remaining = ?n, fr_offset = 0, fr_mask = wf_mask f, fr_opcode = wf_opcode f, fr_fin = wf_fin f\<rparr>"
  let ?w1 = "(between_frames r ?mo t)\<lparr>wa_frame := Some ?frame\<rparr>"
  have key: "\<forall>key. wf_mask f = Some key \<longrightarrow> length key = 4" using assms(1) by (auto simp: legal_def split: option.splits)
  have len: "length (payload_bytes f) = ?n" by (simp add: payload_bytes_def split: option.splits)
  have "watch_bytes rd (frame_bytes f @ rest) ?w = emit (begin_watch rd (header_bytes f) ?w) (watch_bytes rd (payload_bytes f @ rest))"
    using watch_header [of ?w rd "frame_bytes f @ rest"] header_split_exact [OF needed_header(2,1) [OF key], of "payload_bytes f @ rest"]
    by (simp add: between_frames_def frame_bytes_def)
  also have "begin_watch rd (header_bytes f) ?w = enter rd ?frame ?w1"
    using parse_header_bytes [OF assms(1)] by (simp add: begin_watch_def between_frames_def)
  also have "emit (enter rd ?frame ?w1) (watch_bytes rd (payload_bytes f @ rest)) =
    (let (frame1, w2) = watch_payload (payload_bytes f) ?frame ?w1 in
     if fr_remaining frame1 \<noteq> 0 then ([], w2) else emit (watch_end_frame rd frame1 w2) (watch_bytes rd rest))"
  proof -
    have "take ?n (payload_bytes f @ rest) = payload_bytes f" "drop ?n (payload_bytes f @ rest) = rest" using len by simp_all
    moreover have "wa_end ?w1 = Open" "wa_frame ?w1 = Some ?frame" "?n = min (fr_remaining ?frame) (length (payload_bytes f @ rest))"
      using len by (simp_all add: between_frames_def)
    ultimately show ?thesis using watch_frame [of ?w1 ?frame ?n "payload_bytes f @ rest" rd] by metis
  qed
  also have "\<dots> = (let t1 = (if wf_opcode f < 8 \<and> ?mo = Some 1 then t @ wf_payload f else t) in
     if wf_opcode f = 8 then ([], (between_frames r ?mo t1)\<lparr>wa_end := Closed\<rparr>)
     else if wf_opcode f < 8 \<and> wf_fin f
     then emit (if ?mo = Some 1 then message_texts rd t1 else [], between_frames r None []) (watch_bytes rd rest)
     else watch_bytes rd rest (between_frames r ?mo t1))"
  proof -
    let ?t1 = "if wf_opcode f < 8 \<and> ?mo = Some 1 then t @ wf_payload f else t"
    obtain frame1 w2 where wp: "watch_payload (payload_bytes f) ?frame ?w1 = (frame1, w2)" by fastforce
    then have frame1: "fr_remaining frame1 = 0" "fr_opcode frame1 = wf_opcode f" "fr_fin frame1 = wf_fin f"
      using len by (auto simp: watch_payload_def Let_def)
    have w2: "w2 = (between_frames r ?mo ?t1)\<lparr>wa_frame := Some frame1\<rparr>"
      using wp by (cases "wf_mask f")
        (auto simp: watch_payload_def Let_def is_text_def payload_bytes_def unmask_twice between_frames_def)
    have ended: "wa_end w = Closed \<Longrightarrow> watch_bytes rd rest w = ([], w)" for w by (rule watch_ended) simp
    show ?thesis
      unfolding wp w2 Let_def prod.case
      using assms(2) frame1 by (auto simp: watch_end_frame_def between_frames_def ended emit_def Let_def)
  qed
  finally show ?thesis by (simp only: Let_def)
qed

lemma watch_frames:
  assumes "legal_frames r opcode fs" "opcode \<noteq> Some 1 \<longrightarrow> t = []"
  shows "fst (watch_bytes rd (concat (map frame_bytes fs)) (between_frames r opcode t)) = deliver rd opcode t fs
    \<and> wa_end (snd (watch_bytes rd (concat (map frame_bytes fs)) (between_frames r opcode t)))
        = (if \<exists>f \<in> set fs. wf_opcode f = 8 then Closed else Open)"
  using assms
proof (induction fs arbitrary: opcode t)
  case Nil
  then show ?case by (simp add: between_frames_def)
next
  case (Cons f fs)
  let ?mo = "opcode_after opcode f" and ?bs = "concat (map frame_bytes fs)"
  let ?t1 = "if wf_opcode f < 8 \<and> ?mo = Some 1 then t @ wf_payload f else t"
  have legal: "legal r opcode f" using Cons.prems(1) by simp
  have t: "?mo \<noteq> Some 1 \<longrightarrow> t = []"
    using legal Cons.prems(2) by (auto simp: legal_def opcode_after_def split: if_splits)
  note one = watch_one_frame [OF legal t, where rd = rd and rest = ?bs, unfolded Let_def]
  have bytes: "concat (map frame_bytes (f # fs)) = frame_bytes f @ ?bs" by simp
  consider (close) "wf_opcode f = 8" | (last) "wf_opcode f < 8" "wf_fin f" | (other) "wf_opcode f \<noteq> 8" "\<not> (wf_opcode f < 8 \<and> wf_fin f)"
    by auto
  then show ?case
  proof cases
    case close
    then show ?thesis unfolding bytes one by (simp add: between_frames_def)
  next
    case last
    then have next_legal: "legal_frames r None fs" using Cons.prems(1) by auto
    have data: "wf_opcode f \<noteq> 8" "\<not> 8 \<le> wf_opcode f" using last by auto
    show ?thesis
      unfolding bytes one using last data Cons.IH [OF next_legal, of "[]"] by (auto simp: emit_def Let_def)
  next
    case other
    then have next_legal: "legal_frames r ?mo fs" using Cons.prems(1) by auto
    have "?mo \<noteq> Some 1 \<longrightarrow> ?t1 = []" using t by simp
    from Cons.IH [OF next_legal this] show ?thesis
      unfolding bytes one using other legal by (cases "8 \<le> wf_opcode f") (auto simp: Let_def legal_def opcode_after_def)
  qed
qed

section \<open>Properties\<close>

text \<open>C19: the observer inverts the WebSocket encoding. When one side of a connection sends a legal sequence of
  frames, with messages split into any number of frames, control frames in between, masks and lengths of every
  form, then the observer, fed with the bytes in any pieces, hands out exactly the text messages, in order and
  unmasked (the large ones as their projection); it is never disabled, and it closes with the close frame.\<close>

theorem observer_reads_messages:
  assumes "legal_frames r None frames" "concat pieces = concat (map frame_bytes frames)"
  shows "let (texts, ob) = foldl (feed_piece rd) ([], new_observer r) pieces in
    texts = deliver rd None [] frames \<and> (ob_closed ob \<longleftrightarrow> (\<exists>f \<in> set frames. wf_opcode f = 8)) \<and> (ob_disabled ob \<longrightarrow> ob_closed ob)"
proof -
  have "new_watch r = between_frames r None []" by (simp add: new_watch_def between_frames_def)
  then have watch: "fst (watch_bytes rd (concat pieces) (new_watch r)) = deliver rd None [] frames"
      "wa_end (snd (watch_bytes rd (concat pieces) (new_watch r))) = (if \<exists>f \<in> set frames. wf_opcode f = 8 then Closed else Open)"
    using watch_frames [OF assms(1), of "[]" rd] assms(2) by simp_all
  note run = pieces_watch [OF new_agrees, where texts = "[]" and pieces = pieces]
  show ?thesis
    using run [of rd r] watch by (auto simp: case_prod_beta agrees_def same_fields_def split: if_splits)
qed

text \<open>A masked message \<open>hello\<close> in two frames with a ping in between, then a close frame.\<close>

definition hello_frames :: "wire_frame list" where
  "hello_frames =
     [\<lparr>wf_fin = False, wf_opcode = 1, wf_mask = Some [1, 2, 3, 4], wf_payload = to_bytes ''hel''\<rparr>,
      \<lparr>wf_fin = True, wf_opcode = 9, wf_mask = Some [9, 8, 7, 6], wf_payload = [0, 255]\<rparr>,
      \<lparr>wf_fin = True, wf_opcode = 0, wf_mask = Some [5, 6, 7, 8], wf_payload = to_bytes ''lo''\<rparr>,
      \<lparr>wf_fin = True, wf_opcode = 8, wf_mask = Some [0, 0, 0, 1], wf_payload = []\<rparr>]"

theorem observer_reads_messages_witness:
  "fst (foldl (feed_piece small_reader) ([], new_observer ServerSide) (map (\<lambda>b. [b]) (concat (map frame_bytes hello_frames))))
    = [(to_bytes ''hello'', False)]"
proof -
  have legal: "legal_frames ServerSide None hello_frames" by code_simp
  have pieces: "concat (map (\<lambda>b. [b]) bs) = bs" for bs :: bytes by (induction bs) simp_all
  have texts: "deliver small_reader None [] hello_frames = [(to_bytes ''hello'', False)]" by code_simp
  show ?thesis using observer_reads_messages [OF legal pieces, of small_reader] texts by (simp add: case_prod_beta)
qed

end
