(* ===== verification/Views.thy ===== *)
theory Views
  imports Prelude
begin

text \<open>
  What the gateway sends to a chat channel (\<open>agentix-domain/src/channel.rs\<close>): a view has a title, a body or sections,
  a status and actions. Texts are UTF-8 byte strings.
\<close>

datatype view_status =
  ViewInfo | ViewRunning | ViewWaiting | ViewSuccess | ViewWarning | ViewError | ViewMuted | ViewBackground

datatype action_style = PrimaryStyle | DefaultStyle | DangerStyle

record action_button =
  ab_disabled :: bool
  ab_label :: string
  ab_token :: string
  ab_style :: action_style

record view_section =
  vs_action_tokens :: "string list"
  vs_title :: string
  vs_body :: string
  vs_collapsible :: bool
  vs_expanded :: "bool option"

record outbound_view =
  ov_sections :: "view_section list"
  ov_title :: string
  ov_subtitle :: "string option"
  ov_body :: string
  ov_status :: view_status
  ov_actions :: "action_button list"

datatype channel_error =
    NotSent string
  | Transport string
  | Rejected string
  | InvalidPayload string

definition text_view :: "string \<Rightarrow> string \<Rightarrow> outbound_view" where
  "text_view title body = \<lparr>ov_sections = [], ov_title = title, ov_subtitle = None, ov_body = body,
     ov_status = ViewInfo, ov_actions = []\<rparr>"

end
