(* ===== verification/Turn_Output.thy ===== *)
theory Turn_Output
  imports Task_Model Views
begin

text \<open>
  The output of one agent turn as the gateway shows it (\<open>agentix-core/src/engine/output_buffer.rs\<close>, with
  \<open>TurnBuffer\<close> of \<open>engine.rs\<close>, \<open>process_text\<close> of \<open>output.rs\<close> and the summaries of \<open>agentix-domain/src/agent.rs\<close>).
  Texts are UTF-8 byte strings; instants and durations are natural numbers of nanoseconds.
\<close>

section \<open>Summaries\<close>

datatype turn_status = TurnInProgress | TurnCompleted | TurnInterrupted | TurnFailed | TurnUnknown

record tool_summary =
  tl_kind :: string
  tl_label :: string
  tl_status :: string

record item_summary =
  is_id :: string
  is_kind :: string
  is_text :: "string option"
  is_status :: "string option"

record turn_summary =
  ts_id :: string
  ts_status :: turn_status
  ts_user_text :: "string option"
  ts_agent_text :: "string option"
  ts_tools :: "tool_summary list"
  ts_items :: "item_summary list"

record output_config =
  show_reasoning :: bool
  show_tool_calls :: bool

definition text_or_empty :: "string option \<Rightarrow> string" where
  "text_or_empty t = (case t of None \<Rightarrow> [] | Some s \<Rightarrow> s)"

definition trim_end :: "string \<Rightarrow> string" where
  "trim_end s = of_chars (rev (dropWhile is_whitespace (rev (chars s))))"

definition trim_text :: "string \<Rightarrow> string" where
  "trim_text s = trim_end (trim_start s)"

definition newlines :: "nat \<Rightarrow> string" where
  "newlines n = replicate n (CHR 0x0A)"

definition reasoning_prefix :: string where
  "reasoning_prefix = ''**Reasoning**'' @ newlines 2"

definition process_text :: "output_config \<Rightarrow> item_summary \<Rightarrow> string option" where
  "process_text cfg item =
     (let kind = is_kind item; reasoning = kind \<in> {''reasoning'', ''thinking'', ''commentary''} in
      if kind \<in> {''agentMessage'', ''userMessage'', ''plan'', ''unknown''} \<or> reasoning \<and> \<not> show_reasoning cfg
         \<or> \<not> reasoning \<and> \<not> show_tool_calls cfg
      then None
      else
        let content = trim_text (text_or_empty (is_text item)) in
        if reasoning then (if content = [] then None else Some (reasoning_prefix @ content))
        else
          let status = (case is_status item of None \<Rightarrow> ''completed'' | Some s \<Rightarrow> s) in
          Some (trim_end (''**Tool call**: '' @ kind @ '' ('' @ status @ '')'' @ newlines 2 @ content)))"

section \<open>The buffer\<close>

record output_item =
  oi_active :: bool
  oi_summary_fallback :: bool
  oi_id :: "string option"
  oi_text :: string
  oi_process :: bool

record turn_buffer =
  tb_answer_complete :: bool
  tb_final_card_delivered :: bool
  tb_user_text :: string
  tb_agent_text :: string
  tb_items :: "output_item list"
  tb_status :: turn_status
  tb_started_at :: "nat option"
  tb_rendered_elapsed :: "nat option"
  tb_terminal_elapsed :: "nat option"

definition empty_buffer :: turn_buffer where
  "empty_buffer = \<lparr>tb_answer_complete = False, tb_final_card_delivered = False, tb_user_text = [], tb_agent_text = [],
     tb_items = [], tb_status = TurnInProgress, tb_started_at = None, tb_rendered_elapsed = None, tb_terminal_elapsed = None\<rparr>"

definition ensure_started :: "nat \<Rightarrow> turn_buffer \<Rightarrow> turn_buffer" where
  "ensure_started now b = b\<lparr>tb_started_at := Some (case tb_started_at b of None \<Rightarrow> now | Some t \<Rightarrow> t)\<rparr>"

definition elapsed :: "nat \<Rightarrow> turn_buffer \<Rightarrow> nat option" where
  "elapsed now b =
     (case tb_terminal_elapsed b of
        Some d \<Rightarrow> Some d
      | None \<Rightarrow> map_option (\<lambda>t. now - t) (tb_started_at b))"

definition elapsed_seconds :: "nat \<Rightarrow> turn_buffer \<Rightarrow> nat option" where
  "elapsed_seconds now b = map_option (\<lambda>d. d div 1000000000) (elapsed now b)"

definition set_turn_status :: "nat \<Rightarrow> turn_status \<Rightarrow> turn_buffer \<Rightarrow> turn_buffer" where
  "set_turn_status now st b =
     (if st \<in> {TurnCompleted, TurnInterrupted, TurnFailed}
      then b\<lparr>tb_terminal_elapsed := (if tb_terminal_elapsed b = None then elapsed now b else tb_terminal_elapsed b), tb_status := st\<rparr>
      else b\<lparr>tb_terminal_elapsed := None, tb_status := st\<rparr>)"

fun join_texts :: "string \<Rightarrow> string list \<Rightarrow> string" where
  "join_texts sep [] = []"
| "join_texts sep [t] = t"
| "join_texts sep (t # ts) = t @ sep @ join_texts sep ts"

definition answer_texts :: "output_item list \<Rightarrow> string list" where
  "answer_texts items = map oi_text (filter (\<lambda>i. \<not> oi_process i \<and> oi_text i \<noteq> []) items)"

definition refresh_agent_text :: "turn_buffer \<Rightarrow> turn_buffer" where
  "refresh_agent_text b = b\<lparr>tb_agent_text := join_texts (newlines 2) (answer_texts (tb_items b))\<rparr>"

definition activate_output :: "nat \<Rightarrow> turn_buffer \<Rightarrow> turn_buffer" where
  "activate_output index b =
     b\<lparr>tb_items := map (\<lambda>(k, i). i\<lparr>oi_active := (k = index)\<rparr>) (enumerate 0 (tb_items b))\<rparr>"

definition hydrate :: "string option \<Rightarrow> bool \<Rightarrow> turn_buffer \<Rightarrow> turn_buffer" where
  "hydrate ident process b =
     (if tb_items b = [] \<and> tb_agent_text b \<noteq> []
      then b\<lparr>tb_items := [\<lparr>oi_active = False, oi_summary_fallback = (process \<or> ident = None),
              oi_id = (if process then None else ident), oi_text = tb_agent_text b, oi_process = False\<rparr>]\<rparr>
      else b)"

definition existing_index :: "string option \<Rightarrow> bool \<Rightarrow> output_item list \<Rightarrow> nat option" where
  "existing_index ident process items =
     (case position (\<lambda>i. ident \<noteq> None \<and> oi_id i = ident) items of
        Some k \<Rightarrow> Some k
      | None \<Rightarrow> if \<not> process \<and> ident \<noteq> None then position oi_summary_fallback items else None)"

definition update_item :: "string option \<Rightarrow> string \<Rightarrow> bool \<Rightarrow> bool \<Rightarrow> output_item \<Rightarrow> output_item" where
  "update_item ident content process appending i =
     (let i1 = (if oi_summary_fallback i then i\<lparr>oi_id := ident, oi_summary_fallback := False\<rparr> else i)
      in i1\<lparr>oi_process := process, oi_text := (if appending then oi_text i1 @ content else content)\<rparr>)"

definition activates :: "string \<Rightarrow> bool \<Rightarrow> bool \<Rightarrow> nat option \<Rightarrow> output_item list \<Rightarrow> bool" where
  "activates content process appending existing items \<longleftrightarrow> \<not> is_blank content
     \<and> (appending
        \<or> (case existing of
             None \<Rightarrow> True
           | Some k \<Rightarrow> is_blank (oi_text (items ! k))
               \<or> \<not> process \<and> (oi_process (items ! k) \<or> oi_text (items ! k) \<noteq> content)))"

definition record_output :: "string option \<Rightarrow> string \<Rightarrow> bool \<Rightarrow> bool \<Rightarrow> turn_buffer \<Rightarrow> turn_buffer" where
  "record_output ident content process appending b =
     (let b1 = (if \<not> process \<and> appending then b\<lparr>tb_answer_complete := False\<rparr> else b);
          b2 = hydrate ident process b1;
          existing = existing_index ident process (tb_items b2);
          activate = activates content process appending existing (tb_items b2);
          b3 = (case existing of
                  Some k \<Rightarrow> b2\<lparr>tb_items := upd_nth k (update_item ident content process appending) (tb_items b2)\<rparr>
                | None \<Rightarrow> b2\<lparr>tb_items := tb_items b2 @
                    [\<lparr>oi_active = False, oi_summary_fallback = False, oi_id = ident, oi_text = content,
                      oi_process = process\<rparr>]\<rparr>);
          b4 = (if activate
                then activate_output (case existing of Some k \<Rightarrow> k | None \<Rightarrow> length (tb_items b3) - 1) b3 else b3)
      in refresh_agent_text b4)"

definition finish_summary :: "turn_buffer \<Rightarrow> turn_buffer" where
  "finish_summary b = refresh_agent_text
     (case position (\<lambda>i. \<not> oi_process i) (tb_items b) of
        Some k \<Rightarrow> activate_output k b
      | None \<Rightarrow> b)"

definition record_summary :: "string \<Rightarrow> turn_buffer \<Rightarrow> turn_buffer" where
  "record_summary content b =
     (case filter (\<lambda>k. \<not> oi_process (tb_items b ! k)) [0..<length (tb_items b)] of
        [] \<Rightarrow> finish_summary (b\<lparr>tb_items := tb_items b @
               [\<lparr>oi_active = False, oi_summary_fallback = True, oi_id = None, oi_text = content, oi_process = False\<rparr>]\<rparr>)
      | [k] \<Rightarrow>
          if oi_text (tb_items b ! k) = content then b
          else finish_summary (b\<lparr>tb_items := upd_nth k (\<lambda>i. i\<lparr>oi_text := content\<rparr>) (tb_items b)\<rparr>)
      | _ \<Rightarrow> b)"

definition apply_item :: "nat \<Rightarrow> output_config \<Rightarrow> item_summary \<Rightarrow> turn_buffer \<Rightarrow> bool \<times> turn_buffer" where
  "apply_item now cfg item b =
     (let process = process_text cfg item; kind = is_kind item in
      if kind \<notin> {''agentMessage'', ''userMessage'', ''commentary''} \<and> process = None then (False, b)
      else
        let b1 = ensure_started now b in
        (True,
         if kind = ''agentMessage'' then
           let b2 = record_output (Some (is_id item)) (text_or_empty (is_text item)) False False b1
           in b2\<lparr>tb_answer_complete := \<not> is_blank (tb_agent_text b2)\<rparr>
         else if kind = ''commentary'' then record_output (Some (is_id item)) (text_or_empty process) True False b1
         else if kind = ''userMessage'' then b1\<lparr>tb_user_text := text_or_empty (is_text item)\<rparr>
         else (case process of Some content \<Rightarrow> record_output (Some (is_id item)) content True False b1 | None \<Rightarrow> b1)))"

definition append_commentary :: "string \<Rightarrow> string \<Rightarrow> turn_buffer \<Rightarrow> turn_buffer" where
  "append_commentary ident delta b =
     (let b1 = (if list_ex (\<lambda>i. oi_id i = Some ident \<and> oi_text i = []) (tb_items b)
                then record_output (Some ident) reasoning_prefix True False b else b)
      in record_output (Some ident) delta True True b1)"

text \<open>A turn read back from the agent: its items, then its user text, then the cumulative answer.\<close>

fun latest_users :: "item_summary list \<Rightarrow> item_summary list \<Rightarrow> item_summary list" where
  "latest_users users [] = users"
| "latest_users users (i # items) =
     (case position (\<lambda>u. is_id u = is_id i) users of
        Some k \<Rightarrow> latest_users (users[k := i]) items
      | None \<Rightarrow> latest_users (users @ [i]) items)"

definition summary_user_text :: "turn_summary \<Rightarrow> string" where
  "summary_user_text t =
     join_texts (newlines 2)
       (filter (\<lambda>s. \<not> is_blank s)
         (List.map_filter is_text (latest_users [] (filter (\<lambda>i. is_kind i = ''userMessage'') (ts_items t)))))"

definition from_summary :: "nat \<Rightarrow> output_config \<Rightarrow> turn_summary \<Rightarrow> turn_buffer" where
  "from_summary now cfg t =
     (let b0 = empty_buffer\<lparr>tb_user_text := text_or_empty (ts_user_text t), tb_status := ts_status t\<rparr>;
          b1 = fold (\<lambda>i b. snd (apply_item now cfg i b)) (filter (\<lambda>i. is_kind i \<noteq> ''userMessage'') (ts_items t)) b0;
          b2 = (if is_blank (tb_user_text b1) then b1\<lparr>tb_user_text := summary_user_text t\<rparr> else b1);
          b3 = (if is_blank (tb_agent_text b2)
                then (case ts_agent_text t of
                        Some s \<Rightarrow> if is_blank s then b2 else record_summary s b2
                      | None \<Rightarrow> b2)
                else b2)
      in b3\<lparr>tb_answer_complete := (\<not> is_blank (tb_agent_text b3)
             \<and> ts_status t \<in> {TurnCompleted, TurnFailed, TurnInterrupted})\<rparr>)"

definition merge_item :: "output_item \<Rightarrow> turn_buffer \<Rightarrow> turn_buffer" where
  "merge_item i b =
     (if oi_summary_fallback i then record_summary (oi_text i) b
      else record_output (oi_id i) (oi_text i) (oi_process i) False b)"

definition merge_summary :: "nat \<Rightarrow> output_config \<Rightarrow> turn_summary \<Rightarrow> turn_buffer \<Rightarrow> turn_buffer" where
  "merge_summary now cfg t b =
     (let restored = from_summary now cfg t;
          b1 = (if \<not> is_blank (tb_agent_text restored)
                then b\<lparr>tb_answer_complete := tb_answer_complete restored\<rparr> else b);
          b2 = (if \<not> is_blank (tb_user_text restored)
                   \<and> ((case ts_user_text t of Some s \<Rightarrow> \<not> is_blank s | None \<Rightarrow> False) \<or> is_blank (tb_user_text b1))
                then b1\<lparr>tb_user_text := tb_user_text restored\<rparr> else b1)
      in fold merge_item (tb_items restored) b2)"

section \<open>Events of a running turn\<close>

text \<open>
  The buffer of a turn under the engine's handlers: a delta of an agent message (\<open>handle_message_delta\<close>), the start
  of a commentary item (\<open>handle_routed_event\<close>), a completed item (\<open>apply_completed_item\<close>), the completion of the
  turn (\<open>handle_turn_completed\<close>) and a history read (\<open>session_flows.rs\<close>).
\<close>

definition message_delta :: "nat \<Rightarrow> output_config \<Rightarrow> string \<Rightarrow> string \<Rightarrow> turn_buffer \<Rightarrow> turn_buffer" where
  "message_delta now cfg item_id delta b =
     (let b1 = ensure_started now b in
      if list_ex (\<lambda>i. oi_id i = Some item_id \<and> oi_process i) (tb_items b1)
      then (if show_reasoning cfg then append_commentary item_id delta b1 else b1)
      else record_output (Some item_id) delta False True b1)"

definition commentary_started :: "string \<Rightarrow> turn_buffer \<Rightarrow> turn_buffer" where
  "commentary_started item_id b =
     (if list_ex (\<lambda>i. oi_id i = Some item_id) (tb_items b) then b
      else record_output (Some item_id) [] True False b)"

definition turn_completed :: "nat \<Rightarrow> turn_status \<Rightarrow> string option \<Rightarrow> turn_buffer \<Rightarrow> turn_buffer" where
  "turn_completed now st err b =
     (let b1 = set_turn_status now st (ensure_started now b) in
      case err of Some e \<Rightarrow> record_output None (''Error: '' @ e) False False b1 | None \<Rightarrow> b1)"

definition history_read :: "nat \<Rightarrow> output_config \<Rightarrow> turn_summary \<Rightarrow> turn_buffer \<Rightarrow> turn_buffer" where
  "history_read now cfg t b = set_turn_status now (ts_status t) (merge_summary now cfg t b)"

datatype turn_event =
    MessageDelta string string
  | CommentaryStarted string
  | ItemCompleted item_summary
  | TurnCompletedEvent turn_status "string option"
  | HistoryRead turn_summary

fun turn_step :: "output_config \<Rightarrow> nat \<times> turn_event \<Rightarrow> turn_buffer \<Rightarrow> turn_buffer" where
  "turn_step cfg (now, MessageDelta item_id delta) b = message_delta now cfg item_id delta b"
| "turn_step cfg (now, CommentaryStarted item_id) b = commentary_started item_id b"
| "turn_step cfg (now, ItemCompleted item) b = snd (apply_item now cfg item b)"
| "turn_step cfg (now, TurnCompletedEvent st err) b = turn_completed now st err b"
| "turn_step cfg (now, HistoryRead t) b = history_read now cfg t b"

text \<open>The buffer restored from a stored view: texts without items (\<open>startup.rs\<close>).\<close>

definition restored_buffer :: "nat \<Rightarrow> string \<Rightarrow> string \<Rightarrow> turn_status \<Rightarrow> turn_buffer" where
  "restored_buffer now user agent st =
     \<lparr>tb_answer_complete = False, tb_final_card_delivered = False, tb_user_text = user, tb_agent_text = agent,
      tb_items = [], tb_status = st, tb_started_at = (if st \<in> {TurnInProgress, TurnUnknown} then Some now else None),
      tb_rendered_elapsed = None, tb_terminal_elapsed = None\<rparr>"

section \<open>Presentation\<close>

definition user_title :: string where
  "user_title = of_chars [0x1F464] @ '' You''"

definition agent_title :: "string \<Rightarrow> string" where
  "agent_title name = of_chars [0x1F916] @ '' '' @ name"

definition reasoning_title :: string where
  "reasoning_title = of_chars [0x1F9E0] @ '' Reasoning''"

definition tool_title :: string where
  "tool_title = of_chars [0x1F528] @ '' Tool Call''"

definition tool_prefix :: string where
  "tool_prefix = ''**Tool call**: ''"

definition item_section :: "string \<Rightarrow> output_item \<Rightarrow> string \<times> string" where
  "item_section name i =
     (if \<not> oi_process i then (agent_title name, oi_text i)
      else case strip_prefix reasoning_prefix (oi_text i) of
        Some s \<Rightarrow> (reasoning_title, s)
      | None \<Rightarrow> (tool_title, case strip_prefix tool_prefix (oi_text i) of Some s \<Rightarrow> s | None \<Rightarrow> oi_text i))"

definition add_section :: "string \<Rightarrow> output_item \<Rightarrow> view_section list \<Rightarrow> view_section list" where
  "add_section name i sections =
     (let (title, body) = item_section name i in
      if sections \<noteq> [] \<and> vs_title (last sections) = title
      then butlast sections @ [(last sections)
             \<lparr>vs_body := vs_body (last sections) @ newlines 2 @ body,
              vs_expanded := Some (vs_expanded (last sections) = Some True \<or> oi_active i)\<rparr>]
      else sections @ [\<lparr>vs_action_tokens = [], vs_title = title, vs_body = body, vs_collapsible = oi_process i, vs_expanded = Some (oi_active i)\<rparr>])"

definition view_sections :: "string \<Rightarrow> turn_buffer \<Rightarrow> view_section list" where
  "view_sections name b =
     (let users = (if is_blank (tb_user_text b) then []
                   else [\<lparr>vs_action_tokens = [], vs_title = user_title, vs_body = tb_user_text b, vs_collapsible = False, vs_expanded = None\<rparr>]);
          sections = fold (add_section name) (filter (\<lambda>i. \<not> is_blank (oi_text i)) (tb_items b)) users
      in if tb_items b = [] \<and> \<not> is_blank (tb_agent_text b)
         then sections @ [\<lparr>vs_action_tokens = [], vs_title = agent_title name, vs_body = tb_agent_text b, vs_collapsible = False, vs_expanded = None\<rparr>]
         else sections)"

definition render_item :: "bool \<Rightarrow> output_item \<Rightarrow> string \<times> bool option \<Rightarrow> string \<times> bool option" where
  "render_item has_process i st =
     (case st of (output, previous) \<Rightarrow>
       let process = (if oi_process i then Some (starts_with (oi_text i) reasoning_prefix) else None) in
       if process \<noteq> None \<and> process = previous
       then (output @ newlines 2 @
               (case strip_prefix reasoning_prefix (oi_text i) of
                  Some s \<Rightarrow> s
                | None \<Rightarrow> (case strip_prefix tool_prefix (oi_text i) of Some s \<Rightarrow> s | None \<Rightarrow> oi_text i)), process)
       else ((if output = [] then [] else output @ newlines 3)
               @ (if has_process \<and> \<not> oi_process i then ''**Output**'' @ newlines 2 else []) @ oi_text i, process))"

definition render_output :: "turn_buffer \<Rightarrow> string" where
  "render_output b =
     (if tb_items b = [] then tb_agent_text b
      else fst (fold (render_item (list_ex (\<lambda>i. oi_process i \<and> \<not> is_blank (oi_text i)) (tb_items b)))
                 (filter (\<lambda>i. oi_text i \<noteq> []) (tb_items b)) ([], None)))"

end
