(* ===== verification/Turn_Laws.thy ===== *)
theory Turn_Laws
  imports Turn_Output
begin

text \<open>
  What every turn buffer satisfies, and what a stream of deltas leaves in it.
\<close>

section \<open>The invariant\<close>

text \<open>
  An identifier names one item, at most one item is expanded, at most one item stands for a cumulative answer (an
  answer without identifier), and the answer text is the join of the answer items.
\<close>

definition unique :: "('a \<Rightarrow> bool) \<Rightarrow> 'a list \<Rightarrow> bool" where
  "unique p xs \<longleftrightarrow> (\<forall>i < length xs. \<forall>j < i. \<not> (p (xs ! i) \<and> p (xs ! j)))"

definition distinct_ids :: "output_item list \<Rightarrow> bool" where
  "distinct_ids items \<longleftrightarrow> (\<forall>i < length items. \<forall>j < i. oi_id (items ! i) \<noteq> None \<longrightarrow> oi_id (items ! i) \<noteq> oi_id (items ! j))"

definition items_ok :: "output_item list \<Rightarrow> bool" where
  "items_ok items \<longleftrightarrow> distinct_ids items \<and> unique oi_active items \<and> unique oi_summary_fallback items
     \<and> list_all (\<lambda>i. oi_summary_fallback i \<longrightarrow> \<not> oi_process i \<and> oi_id i = None) items"

definition buffer_ok :: "turn_buffer \<Rightarrow> bool" where
  "buffer_ok b \<longleftrightarrow> items_ok (tb_items b)
     \<and> (tb_items b = [] \<or> tb_agent_text b = join_texts (newlines 2) (answer_texts (tb_items b)))"

definition activate_items :: "nat \<Rightarrow> output_item list \<Rightarrow> output_item list" where
  "activate_items k items = map (\<lambda>(j, i). i\<lparr>oi_active := (j = k)\<rparr>) (enumerate 0 items)"

lemma activate_output_items: "activate_output k b = b\<lparr>tb_items := activate_items k (tb_items b)\<rparr>"
  by (simp add: activate_output_def activate_items_def)

lemma length_activate [simp]: "length (activate_items k items) = length items"
  by (simp add: activate_items_def)

lemma nth_activate [simp]: "j < length items \<Longrightarrow> activate_items k items ! j = (items ! j)\<lparr>oi_active := (j = k)\<rparr>"
  by (simp add: activate_items_def nth_enumerate_eq)

lemma items_ok_nil [simp]: "items_ok []"
  by (simp add: items_ok_def distinct_ids_def unique_def)

lemma items_ok_activate: "items_ok items \<Longrightarrow> items_ok (activate_items k items)"
  by (auto simp: items_ok_def distinct_ids_def unique_def list_all_length)

lemma distinct_idsD:
  assumes "distinct_ids items" "i < length items" "j < length items" "oi_id (items ! i) = Some a" "oi_id (items ! j) = Some a"
  shows "i = j"
  using assms unfolding distinct_ids_def by (metis linorder_neqE_nat option.distinct(1))

lemma uniqueD:
  assumes "unique p xs" "i < length xs" "j < length xs" "p (xs ! i)" "p (xs ! j)"
  shows "i = j"
  using assms unfolding unique_def by (metis linorder_neqE_nat)

lemma distinct_ids_update:
  assumes d: "distinct_ids items" and k: "k < length items"
    and y: "oi_id y = None \<or> oi_id y = oi_id (items ! k) \<or> (\<forall>x \<in> set items. oi_id x \<noteq> oi_id y)"
  shows "distinct_ids (items[k := y])"
  unfolding distinct_ids_def
proof (intro allI impI notI)
  fix i j assume i: "i < length (items[k := y])" "j < i" and some: "oi_id (items[k := y] ! i) \<noteq> None"
    and eq: "oi_id (items[k := y] ! i) = oi_id (items[k := y] ! j)"
  from some eq obtain a where a: "oi_id (items[k := y] ! i) = Some a" "oi_id (items[k := y] ! j) = Some a" by auto
  have other: "\<not> (l < length items \<and> l \<noteq> k \<and> oi_id (items ! l) = Some a)" if "oi_id y = Some a" for l
    using y that distinct_idsD [OF d _ k] by (metis nth_mem option.distinct(1))
  show False
    using i a other [of i] other [of j] distinct_idsD [OF d, of i j a] k by (auto simp: nth_list_update split: if_splits)
qed

lemma unique_update:
  assumes u: "unique p xs" and k: "k < length xs" and y: "p y \<Longrightarrow> p (xs ! k)"
  shows "unique p (xs[k := y])"
  unfolding unique_def
proof (intro allI impI notI)
  fix i j assume i: "i < length (xs[k := y])" "j < i" and both: "p (xs[k := y] ! i) \<and> p (xs[k := y] ! j)"
  then have "p (xs ! i)" "p (xs ! j)" using y k by (auto simp: nth_list_update split: if_splits)
  then show False using uniqueD [OF u, of i j] i by simp
qed

lemma distinct_ids_push:
  assumes "distinct_ids items" "oi_id y \<noteq> None \<Longrightarrow> \<forall>x \<in> set items. oi_id x \<noteq> oi_id y"
  shows "distinct_ids (items @ [y])"
  unfolding distinct_ids_def
proof (intro allI impI)
  fix i j assume i: "i < length (items @ [y])" "j < i" "oi_id ((items @ [y]) ! i) \<noteq> None"
  then have j: "j < length items" by simp
  show "oi_id ((items @ [y]) ! i) \<noteq> oi_id ((items @ [y]) ! j)"
  proof (cases "i < length items")
    case True
    then show ?thesis using i j assms(1) by (simp add: distinct_ids_def nth_append)
  next
    case False
    then have "i = length items" using i(1) by simp
    then show ?thesis using i(3) j assms(2) by (simp add: nth_append) (metis nth_mem option.distinct(1))
  qed
qed

lemma unique_push:
  assumes "unique p xs" "p y \<Longrightarrow> \<forall>x \<in> set xs. \<not> p x"
  shows "unique p (xs @ [y])"
  unfolding unique_def
proof (intro allI impI)
  fix i j assume i: "i < length (xs @ [y])" "j < i"
  show "\<not> (p ((xs @ [y]) ! i) \<and> p ((xs @ [y]) ! j))"
  proof (cases "i < length xs")
    case True
    then show ?thesis using i assms(1) by (simp add: unique_def nth_append)
  next
    case False
    then have "i = length xs" using i(1) by simp
    then show ?thesis using i(2) assms(2) by (auto simp: nth_append)
  qed
qed

lemma items_ok_push:
  assumes "items_ok items" "\<not> oi_active i"
    and "oi_id i \<noteq> None \<Longrightarrow> \<forall>x \<in> set items. oi_id x \<noteq> oi_id i"
    and "oi_summary_fallback i \<Longrightarrow> \<not> oi_process i \<and> oi_id i = None \<and> (\<forall>x \<in> set items. oi_process x)"
  shows "items_ok (items @ [i])"
  using assms unfolding items_ok_def
  by (auto intro!: distinct_ids_push unique_push simp: list_all_iff)

lemma items_ok_update:
  assumes "items_ok items" "k < length items"
    and "oi_active (f (items ! k)) = oi_active (items ! k)"
    and "oi_summary_fallback (f (items ! k)) \<Longrightarrow>
           oi_summary_fallback (items ! k) \<and> \<not> oi_process (f (items ! k)) \<and> oi_id (f (items ! k)) = None"
    and "oi_id (f (items ! k)) = None \<or> oi_id (f (items ! k)) = oi_id (items ! k)
           \<or> (\<forall>x \<in> set items. oi_id x \<noteq> oi_id (f (items ! k)))"
  shows "items_ok (upd_nth k f items)"
  using assms unfolding items_ok_def upd_nth_def
  by (auto intro!: distinct_ids_update unique_update simp: list_all_iff dest!: set_update_subset_insert [THEN subsetD])

lemma buffer_ok_refresh: "items_ok (tb_items b) \<Longrightarrow> buffer_ok (refresh_agent_text b)"
  by (simp add: buffer_ok_def refresh_agent_text_def)

lemma items_refresh [simp]: "tb_items (refresh_agent_text b) = tb_items b"
  by (simp add: refresh_agent_text_def)

lemma items_ok_hydrate: "items_ok (tb_items b) \<Longrightarrow> items_ok (tb_items (hydrate ident process b))"
  by (simp add: hydrate_def items_ok_def distinct_ids_def unique_def)

lemma existing_index_Some:
  assumes "existing_index ident process items = Some k"
  shows "k < length items \<and> ident \<noteq> None
    \<and> (oi_id (items ! k) = ident
       \<or> oi_summary_fallback (items ! k) \<and> \<not> process \<and> (\<forall>x \<in> set items. oi_id x \<noteq> ident))"
  using assms by (auto simp: existing_index_def position_Some position_None split: option.splits if_splits)

lemma existing_index_None:
  "existing_index ident process items = None \<Longrightarrow> ident \<noteq> None \<Longrightarrow> x \<in> set items \<Longrightarrow> oi_id x \<noteq> ident"
  by (auto simp: existing_index_def position_None split: option.splits if_splits)

text \<open>The items after a recorded output: updated or pushed, then possibly expanded.\<close>

definition next_items :: "string option \<Rightarrow> string \<Rightarrow> bool \<Rightarrow> bool \<Rightarrow> output_item list \<Rightarrow> output_item list" where
  "next_items ident content process appending items =
     (let existing = existing_index ident process items;
          updated = (case existing of
             Some k \<Rightarrow> upd_nth k (update_item ident content process appending) items
           | None \<Rightarrow> items @ [\<lparr>oi_active = False, oi_summary_fallback = False, oi_id = ident, oi_text = content,
                               oi_process = process\<rparr>])
      in if activates content process appending existing items
         then activate_items (case existing of Some k \<Rightarrow> k | None \<Rightarrow> length items) updated else updated)"

lemma hydrate_answer_complete [simp]:
  "tb_items (hydrate ident process (b\<lparr>tb_answer_complete := v\<rparr>)) = tb_items (hydrate ident process b)"
  by (simp add: hydrate_def)

lemma record_output_items:
  "tb_items (record_output ident content process appending b) =
     next_items ident content process appending (tb_items (hydrate ident process b))"
proof -
  define b1 where "b1 = (if \<not> process \<and> appending then b\<lparr>tb_answer_complete := False\<rparr> else b)"
  have h: "tb_items (hydrate ident process b1) = tb_items (hydrate ident process b)" by (simp add: b1_def)
  show ?thesis
    unfolding record_output_def next_items_def Let_def items_refresh b1_def [symmetric] h
    by (cases "existing_index ident process (tb_items (hydrate ident process b))") (simp_all add: activate_output_items h)
qed

lemma record_output_text:
  "tb_agent_text (record_output ident content process appending b) =
     join_texts (newlines 2) (answer_texts (tb_items (record_output ident content process appending b)))"
  by (simp add: record_output_def Let_def refresh_agent_text_def)

lemma items_ok_next:
  assumes "items_ok items"
  shows "items_ok (next_items ident content process appending items)"
proof (cases "existing_index ident process items")
  case None
  then have "items_ok (items @ [\<lparr>oi_active = False, oi_summary_fallback = False, oi_id = ident, oi_text = content,
                               oi_process = process\<rparr>])"
    using assms existing_index_None [OF None] by (intro items_ok_push) auto
  then show ?thesis using None by (simp add: next_items_def Let_def items_ok_activate)
next
  case (Some k)
  note k = existing_index_Some [OF Some]
  have "oi_id (update_item ident content process appending (items ! k)) = oi_id (items ! k)
      \<or> (\<forall>x \<in> set items. oi_id x \<noteq> oi_id (update_item ident content process appending (items ! k)))"
    using k by (auto simp: update_item_def Let_def)
  then have "items_ok (upd_nth k (update_item ident content process appending) items)"
    using k by (intro items_ok_update [OF assms]) (auto simp: update_item_def Let_def split: if_splits)
  then show ?thesis using Some by (simp add: next_items_def Let_def items_ok_activate)
qed

lemma buffer_ok_record_output:
  assumes "buffer_ok b"
  shows "buffer_ok (record_output ident content process appending b)"
  using assms record_output_text [of ident content process appending b]
  by (auto simp: buffer_ok_def record_output_items intro!: items_ok_next items_ok_hydrate)

lemma buffer_ok_finish_summary: "items_ok (tb_items b) \<Longrightarrow> buffer_ok (finish_summary b)"
  by (auto simp: finish_summary_def activate_output_items intro!: buffer_ok_refresh items_ok_activate split: option.split)

lemma buffer_ok_record_summary:
  assumes "buffer_ok b"
  shows "buffer_ok (record_summary content b)"
proof -
  let ?ks = "filter (\<lambda>k. \<not> oi_process (tb_items b ! k)) [0..<length (tb_items b)]"
  have ok: "items_ok (tb_items b)" using assms by (simp add: buffer_ok_def)
  consider "?ks = []" | k where "?ks = [k]" | k l ks where "?ks = k # l # ks"
    by (metis list.exhaust)
  then show ?thesis
  proof cases
    case 1
    then have "\<forall>x \<in> set (tb_items b). oi_process x" by (auto simp: filter_empty_conv in_set_conv_nth)
    then have "items_ok (tb_items b @ [\<lparr>oi_active = False, oi_summary_fallback = True, oi_id = None,
        oi_text = content, oi_process = False\<rparr>])" by (intro items_ok_push [OF ok]) auto
    then show ?thesis unfolding record_summary_def 1 by (simp add: buffer_ok_finish_summary)
  next
    case (2 k)
    then have "k \<in> set ?ks" by simp
    then have k: "k < length (tb_items b)" by simp
    have "items_ok (upd_nth k (\<lambda>i. i\<lparr>oi_text := content\<rparr>) (tb_items b))"
      using ok k by (intro items_ok_update [OF ok k]) (auto simp: items_ok_def list_all_iff)
    then show ?thesis unfolding record_summary_def 2 using assms by (simp add: buffer_ok_finish_summary)
  next
    case (3 k l ks)
    show ?thesis unfolding record_summary_def 3 using assms by simp
  qed
qed

lemma buffer_ok_cong:
  "tb_items b' = tb_items b \<Longrightarrow> tb_agent_text b' = tb_agent_text b \<Longrightarrow> buffer_ok b' = buffer_ok b"
  by (simp add: buffer_ok_def)

lemma buffer_ok_started [simp]: "buffer_ok (ensure_started now b) = buffer_ok b"
  by (rule buffer_ok_cong) (simp_all add: ensure_started_def)

lemma buffer_ok_status [simp]: "buffer_ok (set_turn_status now st b) = buffer_ok b"
  by (rule buffer_ok_cong) (simp_all add: set_turn_status_def)

lemma buffer_ok_fields [simp]:
  "buffer_ok (b\<lparr>tb_answer_complete := v\<rparr>) = buffer_ok b" "buffer_ok (b\<lparr>tb_user_text := u\<rparr>) = buffer_ok b"
  by (simp_all add: buffer_ok_def)

lemma buffer_ok_apply_item: "buffer_ok b \<Longrightarrow> buffer_ok (snd (apply_item now cfg item b))"
  by (auto simp: apply_item_def Let_def intro: buffer_ok_record_output split: option.split)

lemma buffer_ok_fold: "(\<And>x c. buffer_ok c \<Longrightarrow> buffer_ok (f x c)) \<Longrightarrow> buffer_ok b \<Longrightarrow> buffer_ok (fold f xs b)"
  by (induction xs arbitrary: b) simp_all

lemma buffer_ok_no_items: "tb_items b = [] \<Longrightarrow> buffer_ok b"
  by (simp add: buffer_ok_def)

lemma buffer_ok_from_summary: "buffer_ok (from_summary now cfg t)"
proof -
  have "buffer_ok (fold (\<lambda>i b. snd (apply_item now cfg i b)) items
      (empty_buffer\<lparr>tb_user_text := u, tb_status := st\<rparr>))" for items u st
    by (rule buffer_ok_fold) (simp_all add: buffer_ok_apply_item buffer_ok_no_items empty_buffer_def)
  then show ?thesis
    by (simp add: from_summary_def Let_def buffer_ok_record_summary split: option.split)
qed

lemma buffer_ok_merge: "buffer_ok b \<Longrightarrow> buffer_ok (merge_summary now cfg t b)"
  unfolding merge_summary_def Let_def
  by (intro buffer_ok_fold) (auto simp: merge_item_def intro: buffer_ok_record_output buffer_ok_record_summary)

lemma buffer_ok_step: "buffer_ok b \<Longrightarrow> buffer_ok (turn_step cfg e b)"
proof (cases e)
  case (Pair now ev)
  assume "buffer_ok b"
  then show ?thesis unfolding Pair
    by (cases ev) (auto simp: message_delta_def append_commentary_def commentary_started_def turn_completed_def
        history_read_def Let_def intro!: buffer_ok_record_output buffer_ok_apply_item buffer_ok_merge split: option.split)
qed

lemma buffer_ok_restored: "buffer_ok (restored_buffer now user agent st)"
  by (simp add: buffer_ok_def restored_buffer_def)

text \<open>C28: whatever events a turn receives, from a restored view or from a summary of the agent: identifiers name one
  output item, at most one item is expanded, at most one stands for the cumulative answer, and the answer text is the
  join of the answer items.\<close>

theorem turn_buffer_invariant:
  "buffer_ok (fold (turn_step cfg) events (restored_buffer now user agent st))
   \<and> buffer_ok (fold (turn_step cfg) events (from_summary now cfg t))"
  by (intro conjI buffer_ok_fold buffer_ok_step buffer_ok_restored buffer_ok_from_summary)

section \<open>Streams\<close>

text \<open>
  Deltas of any number of interleaved messages: one item per message, in the order of its first delta, holding the
  concatenation of its own deltas.
\<close>

definition first_seen :: "'a list \<Rightarrow> 'a list" where
  "first_seen xs = rev (remdups (rev xs))"

definition own_text :: "(string \<times> string) list \<Rightarrow> string \<Rightarrow> string" where
  "own_text ds ident = concat (map snd (filter (\<lambda>d. fst d = ident) ds))"

definition stream_deltas :: "nat \<Rightarrow> output_config \<Rightarrow> (string \<times> string) list \<Rightarrow> turn_buffer" where
  "stream_deltas now cfg ds = fold (\<lambda>(ident, delta). message_delta now cfg ident delta) ds empty_buffer"

lemma first_seen_snoc: "first_seen (xs @ [x]) = (if x \<in> set xs then first_seen xs else first_seen xs @ [x])"
  by (simp add: first_seen_def)

lemma set_first_seen [simp]: "set (first_seen xs) = set xs"
  by (simp add: first_seen_def)

lemma distinct_first_seen [simp]: "distinct (first_seen xs)"
  by (simp add: first_seen_def)

lemma own_text_snoc: "own_text (ds @ [(i, d)]) j = own_text ds j @ (if j = i then d else [])"
  by (simp add: own_text_def)

text \<open>The item expanded in the card: the message of the last delta that shows anything.\<close>

definition last_spoken :: "(string \<times> string) list \<Rightarrow> string option" where
  "last_spoken ds = 
     (let shown = filter (\<lambda>d. \<not> is_blank (snd d)) ds in if shown = [] then None else Some (fst (last shown)))"

lemma last_spoken_snoc: "last_spoken (ds @ [(i, d)]) = (if is_blank d then last_spoken ds else Some i)"
  by (simp add: last_spoken_def Let_def)

definition stream_item :: "(string \<times> string) list \<Rightarrow> string \<Rightarrow> output_item" where
  "stream_item ds ident = \<lparr>oi_active = (last_spoken ds = Some ident), oi_summary_fallback = False, oi_id = Some ident,
     oi_text = own_text ds ident, oi_process = False\<rparr>"

lemma existing_index_stream:
  "existing_index (Some i) False (map (stream_item ds) xs) = position (\<lambda>x. x = i) xs"
proof (cases "position (\<lambda>x. x = i) xs")
  case None
  then have "position (\<lambda>x. oi_id x = Some i) (map (stream_item ds) xs) = None"
    "position oi_summary_fallback (map (stream_item ds) xs) = None"
    by (auto simp: position_None stream_item_def)
  then show ?thesis using None by (simp add: existing_index_def)
next
  case (Some k)
  then have "position (\<lambda>x. oi_id x = Some i) (map (stream_item ds) xs) = Some k"
    by (auto simp: position_Some stream_item_def)
  then show ?thesis using Some by (simp add: existing_index_def)
qed

lemma next_items_stream:
  assumes "distinct xs" and xs: "set xs = fst ` set ds"
  shows "next_items (Some i) d False True (map (stream_item ds) xs) =
           map (stream_item (ds @ [(i, d)])) (if i \<in> set xs then xs else xs @ [i])"
proof (cases "i \<in> set xs")
  case True
  then obtain k where k: "position (\<lambda>x. x = i) xs = Some k" by (cases "position (\<lambda>x. x = i) xs") (auto simp: position_None)
  then have kk: "k < length xs" "xs ! k = i" by (auto simp: position_Some)
  have at: "(i = xs ! j) = (j = k)" if "j < length xs" for j
    using kk that assms(1) by (metis nth_eq_iff_index_eq)
  let ?upd = "upd_nth k (update_item (Some i) d False True) (map (stream_item ds) xs)"
  have eq: "(if \<not> is_blank d then activate_items k ?upd else ?upd) = map (stream_item (ds @ [(i, d)])) xs" (is "?l = ?r")
  proof (rule nth_equalityI)
    show "length ?l = length ?r" by simp
    fix j assume "j < length ?l"
    then have j: "j < length xs" by (auto split: if_splits)
    show "?l ! j = ?r ! j"
      using j at [OF j] kk by (cases "j = k")
        (simp_all add: nth_upd_nth stream_item_def update_item_def own_text_snoc last_spoken_snoc)
  qed
  show ?thesis unfolding next_items_def existing_index_stream k Let_def using True eq by (auto simp: activates_def split: if_splits)
next
  case False
  then have k: "position (\<lambda>x. x = i) xs = None" by (auto simp: position_None)
  have new: "own_text ds i = []" using False xs by (force simp: own_text_def filter_empty_conv)
  have quiet: "last_spoken ds \<noteq> Some i"
  proof
    assume "last_spoken ds = Some i"
    then have "filter (\<lambda>d. \<not> is_blank (snd d)) ds \<noteq> []" "i = fst (last (filter (\<lambda>d. \<not> is_blank (snd d)) ds))"
      by (auto simp: last_spoken_def Let_def split: if_splits)
    then have "i \<in> fst ` set (filter (\<lambda>d. \<not> is_blank (snd d)) ds)" by (metis imageI last_in_set)
    then show False using False xs by auto
  qed
  let ?new = "\<lparr>oi_active = False, oi_summary_fallback = False, oi_id = Some i, oi_text = d, oi_process = False\<rparr>"
  have old: "xs ! j \<noteq> i" if "j < length xs" for j using that False by auto
  have eq: "(if \<not> is_blank d then activate_items (length xs) (map (stream_item ds) xs @ [?new])
             else map (stream_item ds) xs @ [?new]) = map (stream_item (ds @ [(i, d)])) (xs @ [i])" (is "?l = ?r")
  proof (rule nth_equalityI)
    show "length ?l = length ?r" by simp
    fix j assume "j < length ?l"
    then consider "j < length xs" | "j = length xs" by (cases "is_blank d"; cases "j = length xs") auto
    then show "?l ! j = ?r ! j"
    proof cases
      case 1
      then show ?thesis using old [OF 1] by (simp add: nth_append stream_item_def own_text_snoc last_spoken_snoc)
    next
      case 2
      then show ?thesis using new quiet by (simp add: nth_append stream_item_def own_text_snoc last_spoken_snoc)
    qed
  qed
  show ?thesis unfolding next_items_def existing_index_stream k Let_def using False eq by (auto simp: activates_def split: if_splits)
qed

lemma message_delta_answer:
  assumes "\<forall>x \<in> set (tb_items b). \<not> oi_process x" "tb_items b = [] \<Longrightarrow> tb_agent_text b = []"
  shows "tb_items (message_delta now cfg i d b) = next_items (Some i) d False True (tb_items b)"
proof -
  have "\<not> list_ex (\<lambda>x. oi_id x = Some i \<and> oi_process x) (tb_items b)" using assms(1) by (auto simp: list_ex_iff)
  moreover have "hydrate (Some i) False (ensure_started now b) = ensure_started now b"
    using assms(2) by (auto simp: hydrate_def ensure_started_def)
  ultimately show ?thesis by (simp add: message_delta_def Let_def record_output_items ensure_started_def)
qed

lemma stream_items:
  "tb_items (stream_deltas now cfg ds) = map (stream_item ds) (first_seen (map fst ds))
   \<and> (tb_items (stream_deltas now cfg ds) = [] \<longrightarrow> tb_agent_text (stream_deltas now cfg ds) = [])"
proof (induction ds rule: rev_induct)
  case Nil
  show ?case by (simp add: stream_deltas_def empty_buffer_def first_seen_def)
next
  case (snoc x ds)
  obtain i d where x: "x = (i, d)" by (cases x)
  let ?b = "stream_deltas now cfg ds"
  have step: "stream_deltas now cfg (ds @ [x]) = message_delta now cfg i d ?b" by (simp add: stream_deltas_def x)
  have "tb_items (message_delta now cfg i d ?b) = next_items (Some i) d False True (tb_items ?b)"
    by (rule message_delta_answer) (use snoc in \<open>auto simp: stream_item_def\<close>)
  also have "\<dots> = map (stream_item (ds @ [x])) (first_seen (map fst (ds @ [x])))"
    using snoc by (simp add: next_items_stream x first_seen_snoc)
  finally have items: "tb_items (message_delta now cfg i d ?b) = map (stream_item (ds @ [x])) (first_seen (map fst (ds @ [x])))" .
  have "set (first_seen (map fst (ds @ [x]))) \<noteq> {}" by simp
  then have "first_seen (map fst (ds @ [x])) \<noteq> []" by fastforce
  then show ?case unfolding step using items by simp
qed

text \<open>C16: however the deltas of the messages of a turn interleave, the turn has one item per message, in the order of
  the first deltas, with the concatenation of its own deltas; the item of the last visible delta is the expanded one,
  and the answer is the join of the messages that have text.\<close>

theorem stream_keeps_messages:
  "tb_items (stream_deltas now cfg ds) = map (stream_item ds) (first_seen (map fst ds))
   \<and> tb_agent_text (stream_deltas now cfg ds) =
       join_texts (newlines 2) (filter (\<lambda>t. t \<noteq> []) (map (own_text ds) (first_seen (map fst ds))))"
proof -
  have "buffer_ok (stream_deltas now cfg ds)"
    unfolding stream_deltas_def
    by (rule buffer_ok_fold) (auto simp: message_delta_def append_commentary_def Let_def buffer_ok_no_items
        empty_buffer_def intro!: buffer_ok_record_output)
  then show ?thesis
    using stream_items [of now cfg ds]
    by (cases ds) (auto simp: buffer_ok_def answer_texts_def filter_map comp_def stream_item_def first_seen_def)
qed

section \<open>Cards\<close>




lemma add_section_nonempty [simp]: "add_section name i sections \<noteq> []"
  by (simp add: add_section_def case_prod_beta)






section \<open>Clocks\<close>

text \<open>The running time of a turn stops with its first terminal status.\<close>

lemma elapsed_frozen:
  assumes "st \<in> {TurnCompleted, TurnInterrupted, TurnFailed}" "tb_started_at b \<noteq> None"
  shows "elapsed later (set_turn_status now st b) = elapsed now b"
  using assms by (auto simp: set_turn_status_def elapsed_def split: option.splits)

end
