(* ===== verification/Turn_History.thy ===== *)
theory Turn_History
  imports Turn_Output Overlap
begin

text \<open>
  What is observed of a session while its history is still being read, and the merge of both
  (\<open>agentix-core/src/engine/attachment_history.rs\<close>; the join of two texts is in \<open>Overlap\<close>).
\<close>

section \<open>Events\<close>

text \<open>The events that tell about a turn; every other event is ignored.\<close>

datatype agent_event =
    TurnStartedEv string
  | TurnCompletedEv string turn_status
  | UserMessageEv string string string
  | AgentMessageDeltaEv string string string
  | ItemStartedEv string string string
  | ItemCompletedEv string item_summary
  | OtherEv


record observed_turn =
  ot_summary :: turn_summary
  ot_snapshots :: "string set"

definition new_turn :: "string \<Rightarrow> observed_turn" where
  "new_turn tid = \<lparr>ot_summary = \<lparr>ts_id = tid, ts_status = TurnInProgress, ts_user_text = None, ts_agent_text = None,
     ts_tools = [], ts_items = []\<rparr>, ot_snapshots = {}\<rparr>"



text \<open>The item an event carries, whether it is appended, and whether it is a complete snapshot of the item.\<close>

fun event_item :: "agent_event \<Rightarrow> (item_summary \<times> bool \<times> bool) option" where
  "event_item (UserMessageEv _ i content) =
     Some (\<lparr>is_id = i, is_kind = ''userMessage'', is_text = Some content, is_status = None\<rparr>, False, True)"
| "event_item (ItemCompletedEv _ item) = Some (item, False, True)"
| "event_item (ItemStartedEv _ i kind) =
     Some (\<lparr>is_id = i, is_kind = kind, is_text = None, is_status = Some ''inProgress''\<rparr>, False, False)"
| "event_item (AgentMessageDeltaEv _ i delta) =
     Some (\<lparr>is_id = i, is_kind = ''agentMessage'', is_text = Some delta, is_status = None\<rparr>, True, False)"
| "event_item _ = None"

definition observe_item :: "item_summary \<Rightarrow> bool \<Rightarrow> bool \<Rightarrow> observed_turn \<Rightarrow> observed_turn" where
  "observe_item item appending snapshot t =
     (let s = ot_summary t;
          items = (case position (\<lambda>x. is_id x = is_id item) (ts_items s) of
             Some k \<Rightarrow> upd_nth k (\<lambda>x.
               if appending then x\<lparr>is_text := Some (text_or_empty (is_text x) @ text_or_empty (is_text item))\<rparr>
               else if snapshot then item else x) (ts_items s)
           | None \<Rightarrow> ts_items s @ [item])
      in t\<lparr>ot_snapshots := (if snapshot then insert (is_id item) (ot_snapshots t) else ot_snapshots t),
           ot_summary := s\<lparr>ts_items := items\<rparr>\<rparr>)"

definition observe_in :: "agent_event \<Rightarrow> observed_turn \<Rightarrow> observed_turn" where
  "observe_in e t =
     (case e of
        TurnCompletedEv _ st \<Rightarrow> t\<lparr>ot_summary := (ot_summary t)\<lparr>ts_status := st\<rparr>\<rparr>
      | _ \<Rightarrow> (case event_item e of
                Some (item, appending, snapshot) \<Rightarrow> observe_item item appending snapshot t
              | None \<Rightarrow> t))"


section \<open>Merge\<close>







section \<open>What is observed\<close>

definition turn_ok :: "observed_turn \<Rightarrow> bool" where
  "turn_ok t \<longleftrightarrow> distinct (map is_id (ts_items (ot_summary t)))
     \<and> ot_snapshots t \<subseteq> set (map is_id (ts_items (ot_summary t)))"


lemma turn_ok_new [simp]: "turn_ok (new_turn tid)"
  by (simp add: turn_ok_def new_turn_def)

lemma distinct_upd_nth_id:
  assumes "distinct (map is_id xs)" "k < length xs" "is_id (f (xs ! k)) = is_id (xs ! k)"
  shows "map is_id (upd_nth k f xs) = map is_id xs"
  using assms by (simp add: upd_nth_def map_update) (metis list_update_id nth_map)




lemma observe_in_id [simp]: "ts_id (ot_summary (observe_in e t)) = ts_id (ot_summary t)"
  by (auto simp: observe_in_def observe_item_def Let_def split: agent_event.splits option.splits)





section \<open>What the merge keeps\<close>

definition keeps :: "string set \<Rightarrow> item_summary \<Rightarrow> item_summary \<Rightarrow> bool" where
  "keeps snapshots z y \<longleftrightarrow> is_id y = is_id z
     \<and> (is_id z \<in> snapshots \<or> prefix (text_or_empty (is_text z)) (text_or_empty (is_text y)))"


lemma keeps_refl [simp]: "keeps snaps z z"
  by (simp add: keeps_def)

















end
