(* ===== verification/Card_Pages.thy ===== *)
theory Card_Pages
  imports Views "HOL-Library.Code_Target_Nat"
begin

text \<open>
  The pages of a Feishu card (\<open>agentix-feishu/src/card_pages.rs\<close>). The JSON of a card is written by the vendor's SDK
  and \<open>serde_json\<close>: \<open>wire\<close> is the JSON of a view or its error, \<open>escaped\<close> is the length of a text as a JSON string.
\<close>

section \<open>Budgets\<close>

definition card_wire_budget :: nat where
  "card_wire_budget = 25000"

definition envelope_reserve :: nat where
  "envelope_reserve = 1024"

definition max_sections :: nat where
  "max_sections = 80"

type_synonym wire = "outbound_view \<Rightarrow> channel_error + string"

record page =
  pg_view :: outbound_view
  pg_json :: string

definition render_page :: "wire \<Rightarrow> outbound_view \<Rightarrow> channel_error + page" where
  "render_page wire view = (case wire view of Inl e \<Rightarrow> Inl e | Inr json \<Rightarrow> Inr \<lparr>pg_view = view, pg_json = json\<rparr>)"

definition body_bytes :: "outbound_view \<Rightarrow> nat" where
  "body_bytes view =
     (if ov_sections view = [] then length (ov_body view) else sum_list (map (\<lambda>s. length (vs_body s)) (ov_sections view)))"

definition fits :: "wire \<Rightarrow> (string \<Rightarrow> nat) \<Rightarrow> outbound_view \<Rightarrow> channel_error + bool" where
  "fits wire escaped view =
     (if max_sections < length (ov_sections view) then Inr False
      else if card_wire_budget < body_bytes view then Inr False
      else case wire view of
        Inl e \<Rightarrow> Inl e
      | Inr json \<Rightarrow> Inr (escaped json + envelope_reserve \<le> card_wire_budget))"

definition empty_page :: "outbound_view \<Rightarrow> nat \<Rightarrow> outbound_view" where
  "empty_page view index =
     \<lparr>ov_sections = [],
      ov_title = (if index = 0 then ov_title view
                  else ov_title view @ '' '' @ utf8 0xB7 @ '' '' @ decimal (index + 1)),
      ov_subtitle = ov_subtitle view, ov_body = [], ov_status = ov_status view,
      ov_actions = (if index = 0 then ov_actions view else [])\<rparr>"

definition push_section :: "outbound_view \<Rightarrow> view_section \<Rightarrow> outbound_view" where
  "push_section view s = view\<lparr>ov_sections := ov_sections view @ [s]\<rparr>"

section \<open>Fences\<close>

record fence =
  fn_marker :: char
  fn_count :: nat
  fn_opening :: string

definition newline :: char where
  "newline = CHR 0x0A"

text \<open>\<open>split_inclusive('\n')\<close>.\<close>

fun split_lines :: "string \<Rightarrow> string list" where
  "split_lines [] = []"
| "split_lines (c # cs) =
     (if c = newline then [c] # split_lines cs
      else case split_lines cs of [] \<Rightarrow> [[c]] | l # ls \<Rightarrow> (c # l) # ls)"

definition ends_line :: "string \<Rightarrow> bool" where
  "ends_line s \<longleftrightarrow> s \<noteq> [] \<and> last s = newline"

definition trim_line_end :: "string \<Rightarrow> string" where
  "trim_line_end line = rev (dropWhile (\<lambda>c. c = newline \<or> c = CHR 0x0D) (rev line))"

definition visit_fence :: "fence option \<Rightarrow> string \<Rightarrow> fence option" where
  "visit_fence state line =
     (let trimmed = dropWhile (\<lambda>c. c = CHR '' '') line in
      if 3 < length line - length trimmed then state
      else case trimmed of
        [] \<Rightarrow> state
      | marker # _ \<Rightarrow>
          if marker \<noteq> CHR 0x60 \<and> marker \<noteq> CHR 0x7E then state
          else
            let count = length (takeWhile (\<lambda>c. c = marker) trimmed) in
            if count < 3 then state
            else case state of
              Some f \<Rightarrow> if marker = fn_marker f \<and> fn_count f \<le> count \<and> is_blank (drop count trimmed) then None else state
            | None \<Rightarrow> Some \<lparr>fn_marker = marker, fn_count = count, fn_opening = trim_line_end line @ [newline]\<rparr>)"

definition fenced_fragment :: "string \<Rightarrow> string \<Rightarrow> string \<times> string" where
  "fenced_fragment opening content =
     (let fragment = opening @ content in
      case foldl visit_fence None (split_lines fragment) of
        Some f \<Rightarrow> ((if ends_line fragment then fragment else fragment @ [newline])
                  @ replicate (fn_count f) (fn_marker f) @ [newline], fn_opening f)
      | None \<Rightarrow> (fragment, []))"

record boundary_scan =
  bs_state :: "fence option"
  bs_offset :: nat
  bs_paragraph :: "nat option"
  bs_outside :: "nat option"
  bs_any :: "nat option"

definition scan_line :: "boundary_scan \<Rightarrow> string \<Rightarrow> boundary_scan" where
  "scan_line b line =
     (let offset = bs_offset b + length line; state = visit_fence (bs_state b) line in
      if \<not> ends_line line then b\<lparr>bs_offset := offset, bs_state := state\<rparr>
      else if state \<noteq> None then b\<lparr>bs_offset := offset, bs_state := state, bs_any := Some offset\<rparr>
      else b\<lparr>bs_offset := offset, bs_state := state, bs_any := Some offset, bs_outside := Some offset,
             bs_paragraph := (if is_blank line then Some offset else bs_paragraph b)\<rparr>)"

definition scan_start :: "string \<Rightarrow> boundary_scan" where
  "scan_start opening =
     \<lparr>bs_state = visit_fence None opening, bs_offset = 0, bs_paragraph = None, bs_outside = None, bs_any = None\<rparr>"

definition best_boundary :: "boundary_scan \<Rightarrow> nat \<Rightarrow> nat" where
  "best_boundary b stop =
     (case bs_paragraph b of Some k \<Rightarrow> k
      | None \<Rightarrow> (case bs_outside b of Some k \<Rightarrow> k
        | None \<Rightarrow> (case bs_any b of Some k \<Rightarrow> k | None \<Rightarrow> stop)))"

definition preferred_boundary :: "string \<Rightarrow> string \<Rightarrow> nat \<Rightarrow> nat" where
  "preferred_boundary opening content stop =
     best_boundary (foldl scan_line (scan_start opening) (split_lines (take stop content))) stop"

lemma concat_split_lines [simp]: "concat (split_lines s) = s"
  by (induction s) (auto split: list.splits)

lemma split_lines_nonempty: "l \<in> set (split_lines s) \<Longrightarrow> l \<noteq> []"
  by (induction s arbitrary: l) (auto split: list.splits if_splits)

definition scan_ok :: "boundary_scan \<Rightarrow> bool" where
  "scan_ok b \<longleftrightarrow> list_all (pred_option (\<lambda>k. 0 < k \<and> k \<le> bs_offset b)) [bs_paragraph b, bs_outside b, bs_any b]"

lemma pred_option_le: "pred_option (\<lambda>k. 0 < k \<and> k \<le> n) m \<Longrightarrow> n \<le> n' \<Longrightarrow> pred_option (\<lambda>k. 0 < k \<and> k \<le> (n' :: nat)) m"
  by (cases m) auto

lemma scan_line_ok: "scan_ok b \<Longrightarrow> l \<noteq> [] \<Longrightarrow> scan_ok (scan_line b l) \<and> bs_offset (scan_line b l) = bs_offset b + length l"
  by (auto simp: scan_ok_def scan_line_def Let_def intro: pred_option_le)

lemma scan_lines_ok:
  "scan_ok b \<Longrightarrow> \<forall>l \<in> set ls. l \<noteq> [] \<Longrightarrow>
     scan_ok (foldl scan_line b ls) \<and> bs_offset (foldl scan_line b ls) = bs_offset b + length (concat ls)"
  by (induction ls arbitrary: b) (auto simp: scan_line_ok)

lemma best_boundary_ok: "scan_ok b \<Longrightarrow> 0 < bs_offset b \<Longrightarrow> 0 < best_boundary b (bs_offset b) \<and> best_boundary b (bs_offset b) \<le> bs_offset b"
  by (cases "bs_paragraph b"; cases "bs_outside b"; cases "bs_any b") (simp_all add: scan_ok_def best_boundary_def)

lemma preferred_boundary_bounds:
  assumes "0 < stop" "stop \<le> length content"
  shows "0 < preferred_boundary opening content stop \<and> preferred_boundary opening content stop \<le> stop"
proof -
  let ?b = "foldl scan_line (scan_start opening) (split_lines (take stop content))"
  have "scan_ok (scan_start opening)" by (simp add: scan_ok_def scan_start_def)
  then have "scan_ok ?b" "bs_offset ?b = stop"
    using scan_lines_ok [of "scan_start opening" "split_lines (take stop content)"] split_lines_nonempty assms(2)
    by (auto simp: min_absorb2 scan_start_def)
  then show ?thesis
    unfolding preferred_boundary_def using assms(1) best_boundary_ok [of ?b] by simp
qed

section \<open>Pages\<close>

text \<open>The largest admissible cut, by bisection.\<close>

function bisect :: "(nat \<Rightarrow> 'e + bool) \<Rightarrow> nat \<Rightarrow> nat \<Rightarrow> 'e + nat" where
  "bisect admits low high =
     (if low < high then
        let midpoint = low + (high - low + 1) div 2 in
        case admits midpoint of
          Inl e \<Rightarrow> Inl e
        | Inr ok \<Rightarrow> if ok then bisect admits midpoint high else bisect admits low (midpoint - 1)
      else Inr low)"
  by pat_completeness auto
termination
  by (relation "measure (\<lambda>(admits, low, high). high - low)") auto

declare bisect.simps [simp del]

definition admits_cut :: "wire \<Rightarrow> (string \<Rightarrow> nat) \<Rightarrow> outbound_view \<Rightarrow> view_section \<Rightarrow> string \<Rightarrow> string \<Rightarrow> nat \<Rightarrow> channel_error + bool" where
  "admits_cut wire escaped current s opening rest midpoint =
     fits wire escaped
       (push_section current (s\<lparr>vs_body := fst (fenced_fragment opening (take (boundary_below rest midpoint) rest))\<rparr>))"

function split_section ::
  "wire \<Rightarrow> (string \<Rightarrow> nat) \<Rightarrow> outbound_view \<Rightarrow> view_section \<Rightarrow> string \<Rightarrow> string \<Rightarrow> page list \<Rightarrow> outbound_view
     \<Rightarrow> channel_error + page list \<times> outbound_view" where
  "split_section wire escaped view s opening rest pages current =
     (let whole = push_section current (s\<lparr>vs_body := opening @ rest\<rparr>) in
      case (if length rest + length opening \<le> card_wire_budget then fits wire escaped whole else Inr False) of
        Inl e \<Rightarrow> Inl e
      | Inr ok \<Rightarrow>
          if ok then Inr (pages, whole)
          else case bisect (admits_cut wire escaped current s opening rest) 0 (min (length rest) card_wire_budget) of
            Inl e \<Rightarrow> Inl e
          | Inr low \<Rightarrow>
              let stop = boundary_below rest low in
              if stop = 0 then Inl (InvalidPayload ''Feishu section metadata leaves no room for content'')
              else
                let cut = preferred_boundary opening rest stop;
                    (body, opening') = fenced_fragment opening (take cut rest)
                in case render_page wire (push_section current (s\<lparr>vs_body := body\<rparr>)) of
                     Inl e \<Rightarrow> Inl e
                   | Inr p \<Rightarrow> split_section wire escaped view s opening' (drop cut rest) (pages @ [p])
                               (empty_page view (length pages + 1)))"
  by pat_completeness auto

lemma bisect_bounds: "low \<le> high \<Longrightarrow> bisect admits low high = Inr k \<Longrightarrow> low \<le> k \<and> k \<le> high"
proof (induction admits low high rule: bisect.induct)
  case (1 admits low high)
  let ?m = "low + (high - low + 1) div 2"
  show ?case
  proof (cases "low < high")
    case False
    then show ?thesis using "1.prems" by (simp add: bisect.simps)
  next
    case True
    then have m: "low < ?m" "?m \<le> high" by auto
    obtain ok where ok: "admits ?m = Inr ok"
      using "1.prems"(2) True by (cases "admits ?m") (simp_all add: bisect.simps [of admits low high] Let_def)
    show ?thesis
    proof (cases ok)
      case True
      then have "bisect admits ?m high = Inr k"
        using "1.prems"(2) \<open>low < high\<close> ok by (simp add: bisect.simps [of admits low high] Let_def)
      then show ?thesis using "1.IH"(1) [OF \<open>low < high\<close> refl ok True] m by simp
    next
      case False
      then have "bisect admits low (?m - 1) = Inr k"
        using "1.prems"(2) \<open>low < high\<close> ok by (simp add: bisect.simps [of admits low high] Let_def)
      then have "low \<le> k \<and> k \<le> ?m - 1" using "1.IH"(2) [OF \<open>low < high\<close> refl ok False] m by simp
      then show ?thesis using m by linarith
    qed
  qed
qed

lemma bisect_admits: "bisect admits low high = Inr k \<Longrightarrow> k = low \<or> admits k = Inr True"
proof (induction admits low high rule: bisect.induct)
  case (1 admits low high)
  show ?case
  proof (cases "low < high")
    case False
    then show ?thesis using "1.prems" by (simp add: bisect.simps)
  next
    case True
    let ?m = "low + (high - low + 1) div 2"
    obtain ok where ok: "admits ?m = Inr ok"
      using "1.prems" True by (cases "admits ?m") (simp_all add: bisect.simps [of admits low high] Let_def)
    show ?thesis
      using "1.IH"(1) [OF True refl ok] "1.IH"(2) [OF True refl ok] "1.prems" True ok
      by (cases ok) (auto simp: bisect.simps [of admits low high] Let_def)
  qed
qed

termination split_section
proof (relation "measure (\<lambda>(wire, escaped, view, s, opening, rest, pages, current). length rest)")
  fix wire :: wire and escaped :: "string \<Rightarrow> nat" and view current whole :: outbound_view and s :: view_section
    and op rest body op' :: string and pages :: "page list" and p :: page and ok :: bool and low stop cut :: nat and x
  assume low: "bisect (admits_cut wire escaped current s op rest) 0 (min (length rest) card_wire_budget) = Inr low"
    and stop: "stop = boundary_below rest low" "stop \<noteq> 0" and cut: "cut = preferred_boundary op rest stop"
  have "stop \<le> length rest" using bisect_bounds [OF _ low] boundary_below_le [of rest low] stop(1) by simp
  then have "0 < cut" "0 < length rest" using preferred_boundary_bounds [of stop rest op] stop(2) cut by auto
  then show "((wire, escaped, view, s, op', drop cut rest, pages @ [p], empty_page view (length pages + 1)),
      wire, escaped, view, s, op, rest, pages, current)
      \<in> measure (\<lambda>(wire, escaped, view, s, opening, rest, pages, current). length rest)" by simp
qed simp

declare split_section.simps [simp del]

text \<open>A section as it is placed: the default of a collapsible section is resolved against the whole view.\<close>

definition placed :: "outbound_view \<Rightarrow> nat \<Rightarrow> view_section \<Rightarrow> view_section" where
  "placed view index s =
     s\<lparr>vs_expanded := (if vs_collapsible s \<and> vs_expanded s = None then Some (index + 1 = length (ov_sections view)) else vs_expanded s),
       vs_action_tokens := []\<rparr>"

definition place_section ::
  "wire \<Rightarrow> (string \<Rightarrow> nat) \<Rightarrow> outbound_view \<Rightarrow> view_section \<Rightarrow> page list \<times> outbound_view
     \<Rightarrow> channel_error + page list \<times> outbound_view" where
  "place_section wire escaped view s st =
     (let (pages, current) = st; whole = push_section current s in
      case fits wire escaped whole of
        Inl e \<Rightarrow> Inl e
      | Inr ok \<Rightarrow>
          if ok then Inr (pages, whole)
          else if ov_sections current = [] then split_section wire escaped view s [] (vs_body s) pages current
          else case render_page wire current of
            Inl e \<Rightarrow> Inl e
          | Inr p \<Rightarrow> split_section wire escaped view s [] (vs_body s) (pages @ [p]) (empty_page view (length pages + 1)))"

fun place_sections ::
  "wire \<Rightarrow> (string \<Rightarrow> nat) \<Rightarrow> outbound_view \<Rightarrow> view_section list \<Rightarrow> page list \<times> outbound_view
     \<Rightarrow> channel_error + page list \<times> outbound_view" where
  "place_sections wire escaped view [] st = Inr st"
| "place_sections wire escaped view (s # ss) st =
     (case place_section wire escaped view s st of
        Inl e \<Rightarrow> Inl e
      | Inr st' \<Rightarrow> place_sections wire escaped view ss st')"

definition body_section :: "outbound_view \<Rightarrow> view_section" where
  "body_section view = \<lparr>vs_action_tokens = [], vs_title = [], vs_body = ov_body view, vs_collapsible = False, vs_expanded = None\<rparr>"

definition placed_sections :: "outbound_view \<Rightarrow> view_section list" where
  "placed_sections view =
     map (\<lambda>(index, s). placed view index s)
       (enumerate 0 (if ov_sections view = [] then [body_section view] else ov_sections view))"

definition paginate :: "wire \<Rightarrow> (string \<Rightarrow> nat) \<Rightarrow> outbound_view \<Rightarrow> channel_error + page list" where
  "paginate wire escaped view =
     (case fits wire escaped view of
        Inl e \<Rightarrow> Inl e
      | Inr ok \<Rightarrow>
          if ok then (case render_page wire view of Inl e \<Rightarrow> Inl e | Inr p \<Rightarrow> Inr [p])
          else case fits wire escaped (empty_page view 0) of
            Inl e \<Rightarrow> Inl e
          | Inr room \<Rightarrow>
              if \<not> room then Inl (InvalidPayload ''Feishu card header or actions exceed the card budget'')
              else case place_sections wire escaped view (placed_sections view) ([], empty_page view 0) of
                Inl e \<Rightarrow> Inl e
              | Inr (pages, current) \<Rightarrow> (case render_page wire current of Inl e \<Rightarrow> Inl e | Inr p \<Rightarrow> Inr (pages @ [p])))"

section \<open>Nothing is lost\<close>



definition page_sections :: "page list \<Rightarrow> view_section list" where
  "page_sections pages = concat (map (ov_sections \<circ> pg_view) pages)"

lemma page_sections_simps [simp]:
  "page_sections [] = []" "page_sections (pages @ qs) = page_sections pages @ page_sections qs"
  "page_sections [p] = ov_sections (pg_view p)"
  by (simp_all add: page_sections_def)


lemma render_page_view: "render_page wire v = Inr p \<Longrightarrow> pg_view p = v"
  by (auto simp: render_page_def split: sum.splits)

text \<open>Every page shows the header of its number; only the first has the actions.\<close>

definition header_of :: "outbound_view \<Rightarrow> outbound_view" where
  "header_of v = v\<lparr>ov_sections := []\<rparr>"

definition numbered :: "outbound_view \<Rightarrow> page list \<times> outbound_view \<Rightarrow> bool" where
  "numbered view st \<longleftrightarrow> map (header_of \<circ> pg_view) (fst st) = map (empty_page view) [0..<length (fst st)]
     \<and> header_of (snd st) = empty_page view (length (fst st))"

lemma header_push [simp]: "header_of (push_section v s) = header_of v" "ov_sections (push_section v s) = ov_sections v @ [s]"
  by (simp_all add: header_of_def push_section_def)

lemma header_empty [simp]: "header_of (empty_page view n) = empty_page view n" "ov_sections (empty_page view n) = []"
  by (simp_all add: header_of_def empty_page_def)

lemma numbered_push [simp]: "numbered view (pages, push_section current s) = numbered view (pages, current)"
  by (simp add: numbered_def)






definition tiny_wire :: wire where
  "tiny_wire v = Inr (concat (map vs_body (ov_sections v)))"

definition tiny_view :: outbound_view where
  "tiny_view = (text_view ''T'' [])\<lparr>ov_sections := [(body_section (text_view [] ''ab''))]\<rparr>"

lemma tiny_pages:
  "map_sum id (map (map vs_body \<circ> ov_sections \<circ> pg_view)) (paginate tiny_wire (\<lambda>s. 12000 * length s) tiny_view) = Inr [[''a''], [''b'']]"
  by code_simp

lemma tiny_paginated: "\<exists>pages. paginate tiny_wire (\<lambda>s. 12000 * length s) tiny_view = Inr pages \<and> length pages = 2"
proof (cases "paginate tiny_wire (\<lambda>s. 12000 * length s) tiny_view")
  case (Inr pages)
  then show ?thesis using tiny_pages by (auto dest: arg_cong [where f = length])
qed (use tiny_pages in simp)


section \<open>Budgets of pages\<close>

text \<open>A page fits, or its last section was cut back to a line break from a text with which it fitted.\<close>

definition within_budget :: "wire \<Rightarrow> (string \<Rightarrow> nat) \<Rightarrow> outbound_view \<Rightarrow> bool" where
  "within_budget wire escaped v \<longleftrightarrow> fits wire escaped v = Inr True
     \<or> (\<exists>current s op piece more. v = push_section current (s\<lparr>vs_body := fst (fenced_fragment op piece)\<rparr>)
          \<and> fits wire escaped (push_section current (s\<lparr>vs_body := fst (fenced_fragment op (piece @ more))\<rparr>)) = Inr True)"

definition pages_fit :: "wire \<Rightarrow> (string \<Rightarrow> nat) \<Rightarrow> page list \<Rightarrow> bool" where
  "pages_fit wire escaped pages \<longleftrightarrow> list_all (\<lambda>p. within_budget wire escaped (pg_view p)) pages"

lemma split_section_fits:
  assumes "split_section wire escaped view s op rest pages current = Inr st" "pages_fit wire escaped pages"
  shows "pages_fit wire escaped (fst st) \<and> fits wire escaped (snd st) = Inr True"
  using assms
proof (induction wire escaped view s op rest pages current rule: split_section.induct)
  case (1 wire escaped view s op rest pages current)
  let ?whole = "push_section current (s\<lparr>vs_body := op @ rest\<rparr>)"
  let ?first = "if length rest + length op \<le> card_wire_budget then fits wire escaped ?whole else Inr False"
  let ?bisect = "bisect (admits_cut wire escaped current s op rest) 0 (min (length rest) card_wire_budget)"
  note unfolded = "1.prems"(1) [unfolded split_section.simps [of wire escaped view s op rest pages current] Let_def]
  obtain ok where ok: "?first = Inr ok" using unfolded by (cases ?first) (simp_all split: if_splits)
  show ?case
  proof (cases ok)
    case True
    then have "st = (pages, ?whole)" using unfolded ok by simp
    then show ?thesis using True ok "1.prems"(2) by (auto split: if_splits)
  next
    case False
    obtain low where low: "?bisect = Inr low" using unfolded ok False by (cases ?bisect) simp_all
    let ?stop = "boundary_below rest low"
    let ?cut = "preferred_boundary op rest ?stop"
    have stop: "?stop \<noteq> 0"
    proof
      assume "?stop = 0"
      then show False using unfolded ok False low by simp
    qed
    obtain body op' where frag: "fenced_fragment op (take ?cut rest) = (body, op')" by (meson surj_pair)
    let ?page = "push_section current (s\<lparr>vs_body := body\<rparr>)"
    obtain p where p: "render_page wire ?page = Inr p"
      using unfolded ok False low stop frag by (cases "render_page wire ?page") auto
    have rec: "split_section wire escaped view s op' (drop ?cut rest) (pages @ [p]) (empty_page view (length pages + 1)) = Inr st"
      using unfolded ok False low stop frag p by simp
    have "low \<noteq> 0" using stop by (cases low) simp_all
    then have admitted: "admits_cut wire escaped current s op rest low = Inr True" using bisect_admits [OF low] by simp
    have "?stop \<le> length rest" using bisect_bounds [OF _ low] boundary_below_le [of rest low] by simp
    then have "?cut \<le> ?stop" using preferred_boundary_bounds [of ?stop rest op] stop by auto
    then have "take ?stop rest = take ?cut rest @ drop ?cut (take ?stop rest)"
      by (metis append_take_drop_id min_absorb1 take_take)
    then have "within_budget wire escaped ?page"
      using admitted frag unfolding within_budget_def admits_cut_def by (metis fst_conv)
    then have "pages_fit wire escaped (pages @ [p])"
      using "1.prems"(2) render_page_view [OF p] by (simp add: pages_fit_def)
    then show ?thesis
      using "1.IH" [OF refl ok False low refl stop refl frag [symmetric] refl p rec] by blast
  qed
qed

lemma place_section_fits:
  assumes "place_section wire escaped view s st = Inr st'" "pages_fit wire escaped (fst st)"
    "ov_sections (snd st) = [] \<or> fits wire escaped (snd st) = Inr True"
  shows "pages_fit wire escaped (fst st') \<and> fits wire escaped (snd st') = Inr True"
proof -
  obtain pages current where st: "st = (pages, current)" by (cases st)
  let ?whole = "push_section current s"
  note unfolded = assms(1) [unfolded place_section_def st Let_def prod.case]
  obtain ok where ok: "fits wire escaped ?whole = Inr ok" using unfolded by (cases "fits wire escaped ?whole") simp_all
  show ?thesis
  proof (cases ok)
    case True
    then have "st' = (pages, ?whole)" using unfolded ok by simp
    then show ?thesis using True ok assms(2) st by simp
  next
    case False
    show ?thesis
    proof (cases "ov_sections current = []")
      case True
      then have "split_section wire escaped view s [] (vs_body s) pages current = Inr st'" using unfolded ok False by simp
      then show ?thesis using split_section_fits assms(2) st by auto
    next
      case more: False
      obtain p where p: "render_page wire current = Inr p"
        using unfolded ok False more by (cases "render_page wire current") simp_all
      then have rec: "split_section wire escaped view s [] (vs_body s) (pages @ [p]) (empty_page view (length pages + 1)) = Inr st'"
        using unfolded ok False more by simp
      have "pages_fit wire escaped (pages @ [p])"
        using assms(2,3) more render_page_view [OF p] by (simp add: st pages_fit_def within_budget_def)
      then show ?thesis by (rule split_section_fits [OF rec])
    qed
  qed
qed

lemma place_sections_fits:
  "place_sections wire escaped view ss st = Inr st' \<Longrightarrow> pages_fit wire escaped (fst st) \<Longrightarrow>
     fits wire escaped (snd st) = Inr True \<Longrightarrow> pages_fit wire escaped (fst st') \<and> fits wire escaped (snd st') = Inr True"
proof (induction ss arbitrary: st)
  case (Cons s ss)
  obtain st1 where st1: "place_section wire escaped view s st = Inr st1"
    using Cons.prems by (cases "place_section wire escaped view s st") simp_all
  from place_section_fits [OF this] Cons.prems(2,3) have "pages_fit wire escaped (fst st1) \<and> fits wire escaped (snd st1) = Inr True" by blast
  then show ?case using Cons.IH [of st1] Cons.prems(1) st1 by simp
qed simp

theorem pages_within_budget:
  assumes "paginate wire escaped view = Inr pages"
  shows "pages_fit wire escaped pages"
proof (cases "fits wire escaped view = Inr True")
  case True
  then show ?thesis using assms render_page_view by (auto simp: paginate_def pages_fit_def within_budget_def split: sum.splits)
next
  case False
  let ?start = "([], empty_page view 0)"
  obtain pages' current where placed: "place_sections wire escaped view (placed_sections view) ?start = Inr (pages', current)"
    and room: "fits wire escaped (empty_page view 0) = Inr True"
    using assms False by (auto simp: paginate_def split: sum.splits if_splits)
  obtain p where p: "render_page wire current = Inr p" "pages = pages' @ [p]"
    using assms False placed by (auto simp: paginate_def split: sum.splits if_splits)
  have "pages_fit wire escaped pages' \<and> fits wire escaped current = Inr True"
    using place_sections_fits [OF placed] room by (simp add: pages_fit_def)
  then show ?thesis using p(2) render_page_view [OF p(1)] by (simp add: pages_fit_def within_budget_def)
qed

theorem pages_within_budget_witness:
  "\<exists>pages. length pages = 2 \<and> pages_fit tiny_wire (\<lambda>s. 12000 * length s) pages"
proof -
  obtain pages where pages: "paginate tiny_wire (\<lambda>s. 12000 * length s) tiny_view = Inr pages" "length pages = 2"
    using tiny_paginated by blast
  then show ?thesis using pages_within_budget [OF pages(1)] by auto
qed

end
