(* ===== verification/Prompts.thy ===== *)
theory Prompts
  imports Prelude "HOL-Library.AList"
begin

text \<open>
  Inputs that wait for an agent (\<open>agentix-core/src/engine/pending_prompts.rs\<close>): a session has at most one input whose
  send is unconfirmed, with the inputs that wait behind it; accepted followers become ready and are sent one by one.
  The hash maps are association lists. Cards and receipts, which only show the state of an input, are left out; what
  they limit is part of the \<open>world\<close>, together with everything an operation learns from outside.
\<close>

section \<open>State\<close>

datatype channel_kind = Telegram | Feishu | Slack

record conversation_ref =
  cr_channel :: channel_kind
  cr_id :: string

record queued_input =
  qi_session :: string
  qi_conversation :: conversation_ref
  qi_prompt :: string
  qi_event :: string
  qi_epoch :: nat
  qi_generation :: nat
  qi_queued :: bool
  qi_cancelled :: bool
  qi_sequence :: nat
  qi_reattachment :: "string option"

type_synonym input_id = "channel_kind \<times> string"

definition input_key :: "queued_input \<Rightarrow> input_id" where
  "input_key i = (cr_channel (qi_conversation i), qi_event i)"

record pending =
  pd_id :: nat
  pd_input :: queued_input
  pd_observed :: "string option"
  pd_stop :: bool
  pd_stop_applied :: bool
  pd_valid :: bool
  pd_queued :: "queued_input list"

record prompts =
  pp_next_id :: nat
  pp_closed :: bool
  pp_pending :: "(string \<times> pending) list"
  pp_ready :: "queued_input list"
  pp_owned :: "(input_id \<times> queued_input) list"

definition no_prompts :: prompts where
  "no_prompts = \<lparr>pp_next_id = 0, pp_closed = False, pp_pending = [], pp_ready = [], pp_owned = []\<rparr>"

definition max_pending :: nat where
  "max_pending = 32"

definition max_queued :: nat where
  "max_queued = 16"

definition pending_of :: "prompts \<Rightarrow> string \<Rightarrow> pending option" where
  "pending_of p s = map_of (pp_pending p) s"

definition change_pending :: "string \<Rightarrow> (pending \<Rightarrow> pending) \<Rightarrow> prompts \<Rightarrow> prompts" where
  "change_pending s f p =
     (case pending_of p s of
        Some pd \<Rightarrow> p\<lparr>pp_pending := AList.update s (f pd) (pp_pending p)\<rparr>
      | None \<Rightarrow> p)"

section \<open>Operations under the lock\<close>

definition cancel_matching :: "(queued_input \<Rightarrow> bool) \<Rightarrow> prompts \<Rightarrow> prompts" where
  "cancel_matching f p =
     p\<lparr>pp_owned := map (\<lambda>(k, i). (k, if qi_queued i \<and> qi_reattachment i = None \<and> f i then i\<lparr>qi_cancelled := True\<rparr> else i))
        (pp_owned p)\<rparr>"

definition cancel_conversation :: "conversation_ref \<Rightarrow> prompts \<Rightarrow> prompts" where
  "cancel_conversation c = cancel_matching (\<lambda>i. qi_conversation i = c)"

definition finish_reattachment :: "string \<Rightarrow> nat option \<Rightarrow> prompts \<Rightarrow> prompts" where
  "finish_reattachment ident epoch p =
     (let settle = (\<lambda>i. case epoch of
            Some e \<Rightarrow> i\<lparr>qi_reattachment := None, qi_epoch := e\<rparr>
          | None \<Rightarrow> i\<lparr>qi_reattachment := None, qi_cancelled := True\<rparr>);
          concerned = (\<lambda>(_, i). qi_reattachment i = Some ident);
          inputs = map (\<lambda>(_, i). settle i) (filter concerned (pp_owned p))
      in p\<lparr>pp_owned := map (\<lambda>(k, i). (k, if qi_reattachment i = Some ident then settle i else i)) (pp_owned p),
           pp_ready := pp_ready p @ sort_key qi_sequence inputs\<rparr>)"

definition forget_input :: "input_id \<Rightarrow> prompts \<Rightarrow> prompts" where
  "forget_input k p = p\<lparr>pp_owned := AList.delete k (pp_owned p)\<rparr>"

definition start_pending :: "nat \<Rightarrow> queued_input \<Rightarrow> prompts \<Rightarrow> prompts option" where
  "start_pending cards i p =
     (if pp_closed p \<or> max_pending \<le> length (pp_pending p) \<or> max_pending \<le> cards \<or> pending_of p (qi_session i) \<noteq> None
      then None
      else Some (p\<lparr>pp_next_id := pp_next_id p + 1,
        pp_owned := AList.update (input_key i) i (pp_owned p),
        pp_pending := AList.update (qi_session i)
          \<lparr>pd_id = pp_next_id p, pd_input = i, pd_observed = None, pd_stop = False, pd_stop_applied = False,
           pd_valid = True, pd_queued = []\<rparr> (pp_pending p)\<rparr>))"

definition invalidate :: "string \<Rightarrow> prompts \<Rightarrow> prompts" where
  "invalidate s p = change_pending s (\<lambda>pd. pd\<lparr>pd_valid := False\<rparr>) (cancel_matching (\<lambda>i. qi_session i = s) p)"

definition observed_pending :: "string \<Rightarrow> prompts \<Rightarrow> string option" where
  "observed_pending s p =
     (case pending_of p s of Some pd \<Rightarrow> if pd_valid pd then pd_observed pd else None | None \<Rightarrow> None)"

definition request_stop :: "string \<Rightarrow> prompts \<Rightarrow> bool \<times> prompts" where
  "request_stop s p =
     (let p1 = cancel_matching (\<lambda>i. qi_session i = s) p in
      (pending_of p1 s \<noteq> None, change_pending s (\<lambda>pd. pd\<lparr>pd_stop := True\<rparr>) p1))"

definition take_stop :: "string \<Rightarrow> prompts \<Rightarrow> bool \<times> prompts" where
  "take_stop s p =
     (case pending_of p s of
        Some pd \<Rightarrow>
          if pd_valid pd \<and> pd_stop pd \<and> \<not> pd_stop_applied pd
          then (True, change_pending s (\<lambda>pd. pd\<lparr>pd_stop_applied := True\<rparr>) p)
          else (False, p)
      | None \<Rightarrow> (False, p))"

definition abort_prompts :: "prompts \<Rightarrow> prompts" where
  "abort_prompts p = p\<lparr>pp_closed := True\<rparr>"

section \<open>Waiting\<close>

text \<open>
  What an operation learns from outside: limits of cards and receipts, the agent, and the session's state.
  \<open>w_writable\<close>: the session may be written and its terminal does not take the input. \<open>w_slow\<close>: the agent does not answer
  within the display deadline. Of the errors of the agent only an uncertain outcome is told apart.
\<close>

datatype agent_result = AgentOk | AgentUncertain | AgentFailed

record world =
  w_epoch :: nat
  w_generation :: nat
  w_cards :: nat
  w_receipts_full :: bool
  w_writable :: bool
  w_active_turn :: bool
  w_slow :: bool
  w_result :: agent_result
  w_bound :: "string option"

text \<open>\<open>w_bound\<close>: the session to which the conversation of the input is bound.\<close>

definition is_current :: "world \<Rightarrow> queued_input \<Rightarrow> bool" where
  "is_current w i \<longleftrightarrow> qi_generation i = w_generation w \<and> qi_epoch i = w_epoch w \<and> w_bound w = Some (qi_session i)"

definition adopt_turn :: "world \<Rightarrow> string \<Rightarrow> string \<Rightarrow> prompts \<Rightarrow> prompts" where
  "adopt_turn w s turn p =
     (case pending_of p s of
        Some pd \<Rightarrow>
          if is_current w (pd_input pd) \<and> pd_valid pd \<and> (pd_observed pd = None \<or> pd_observed pd = Some turn)
          then change_pending s (\<lambda>pd. pd\<lparr>pd_observed := Some turn\<rparr>) p else p
      | None \<Rightarrow> p)"

datatype admission = NotQueued | Refused | Queued prompts

definition waiting_count :: "string \<Rightarrow> prompts \<Rightarrow> nat" where
  "waiting_count s p = length (filter (\<lambda>(_, i). qi_queued i \<and> qi_session i = s) (pp_owned p))"

definition insert_waiting :: "queued_input \<Rightarrow> queued_input list \<Rightarrow> queued_input list" where
  "insert_waiting i qs =
     takeWhile (\<lambda>q. qi_sequence q < qi_sequence i) qs @ i # dropWhile (\<lambda>q. qi_sequence q < qi_sequence i) qs"

definition queue_waiting ::
  "world \<Rightarrow> conversation_ref \<Rightarrow> string \<Rightarrow> string \<Rightarrow> string option \<Rightarrow> string \<Rightarrow> bool \<Rightarrow> prompts \<Rightarrow> admission" where
  "queue_waiting w c s prompt reattachment event from_queue p =
     (let key = (cr_channel c, event) in
      if reattachment = None \<and> pending_of p s = None \<and> (from_queue \<or> waiting_count s p = 0) then NotQueued
      else if w_receipts_full w then Refused
      else if max_queued \<le> waiting_count s p \<and> map_of (pp_owned p) key = None then Refused
      else
        let (sequence, p1) = (case map_of (pp_owned p) key of
              Some i \<Rightarrow> (qi_sequence i, p)
            | None \<Rightarrow> (pp_next_id p, p\<lparr>pp_next_id := pp_next_id p + 1\<rparr>));
            i = \<lparr>qi_session = s, qi_conversation = c, qi_prompt = prompt, qi_event = event, qi_epoch = w_epoch w,
                 qi_generation = w_generation w, qi_queued = True, qi_cancelled = False, qi_sequence = sequence,
                 qi_reattachment = reattachment\<rparr>;
            p2 = p1\<lparr>pp_owned := AList.update key i (pp_owned p1)\<rparr>
        in Queued
          (if reattachment \<noteq> None then p2
           else if pending_of p2 s \<noteq> None
           then change_pending s (\<lambda>pd. pd\<lparr>pd_queued := insert_waiting i (pd_queued pd)\<rparr>) p2
           else p2\<lparr>pp_ready := pp_ready p2 @ [i]\<rparr>))"

section \<open>Sending\<close>

datatype send_outcome = SendDeferred | SendDone | SendUncertain | SendFailed

fun outcome_of :: "agent_result \<Rightarrow> send_outcome" where
  "outcome_of AgentOk = SendDone"
| "outcome_of AgentUncertain = SendUncertain"
| "outcome_of AgentFailed = SendFailed"

text \<open>
  \<open>send_prompt\<close>: wait behind a pending input, steer the active turn, or start a turn; a send that is not confirmed
  within its display deadline is kept as the pending input of its session. The boolean tells whether the prompt
  was handed to the agent, whose own queue is a part of it. A conversation that waits for its session to be attached
  again keeps its inputs before this point.
\<close>

definition send_prompt ::
  "world \<Rightarrow> conversation_ref \<Rightarrow> string \<Rightarrow> string \<Rightarrow> string \<Rightarrow> bool \<Rightarrow> prompts \<Rightarrow> send_outcome \<times> bool \<times> prompts" where
  "send_prompt w c s prompt event from_queue p =
     (if \<not> w_writable w then (SendDone, False, p)
      else case queue_waiting w c s prompt None event from_queue p of
        Queued p' \<Rightarrow> (SendDeferred, False, p')
      | Refused \<Rightarrow> (SendFailed, False, p)
      | NotQueued \<Rightarrow>
          if w_active_turn w \<or> \<not> w_slow w then (outcome_of (w_result w), True, p)
          else
            let i = \<lparr>qi_session = s, qi_conversation = c, qi_prompt = prompt, qi_event = event, qi_epoch = w_epoch w,
                     qi_generation = w_generation w, qi_queued = False, qi_cancelled = False, qi_sequence = 0,
                     qi_reattachment = None\<rparr>
            in case start_pending (w_cards w) i p of
                 Some p' \<Rightarrow> (SendDeferred, True, p')
               | None \<Rightarrow> (outcome_of (w_result w), True, p))"

text \<open>How an inbound event is settled in the durable table.\<close>

datatype settlement = Completed | Fenced | Released

fun settlement_of :: "send_outcome \<Rightarrow> settlement option" where
  "settlement_of SendDeferred = None"
| "settlement_of SendDone = Some Completed"
| "settlement_of SendUncertain = Some Fenced"
| "settlement_of SendFailed = Some Released"

definition settle :: "input_id \<Rightarrow> send_outcome \<Rightarrow> (input_id \<times> settlement) list" where
  "settle k r = (case settlement_of r of Some x \<Rightarrow> [(k, x)] | None \<Rightarrow> [])"

definition handle_prompt ::
  "world \<Rightarrow> conversation_ref \<Rightarrow> string \<Rightarrow> string \<Rightarrow> string \<Rightarrow> prompts \<Rightarrow> (input_id \<times> settlement) list \<times> bool \<times> prompts" where
  "handle_prompt w c s prompt event p =
     (let (r, sent, p') = send_prompt w c s prompt event False p in (settle (cr_channel c, event) r, sent, p'))"

definition cancel_queued_input :: "queued_input \<Rightarrow> prompts \<Rightarrow> (input_id \<times> settlement) list \<times> prompts" where
  "cancel_queued_input i p = ([(input_key i, Completed)], forget_input (input_key i) p)"

definition apply_queued_input ::
  "world \<Rightarrow> queued_input \<Rightarrow> prompts \<Rightarrow> (input_id \<times> settlement) list \<times> bool \<times> prompts" where
  "apply_queued_input w i p =
     (let cancelled = (pp_closed p \<or> (case map_of (pp_owned p) (input_key i) of None \<Rightarrow> True | Some own \<Rightarrow> qi_cancelled own)) in
      if cancelled \<or> \<not> is_current w i
      then (let (x, p') = cancel_queued_input i p in (x, False, p'))
      else
        let (r, sent, p') = send_prompt w (qi_conversation i) (qi_session i) (qi_prompt i) (qi_event i) True p in
        (settle (input_key i) r, sent, if r = SendDeferred then p' else forget_input (input_key i) p'))"

text \<open>\<open>apply_prompt_acknowledged\<close>: the pending input is settled, its followers become ready or are cancelled.\<close>

definition acknowledge ::
  "world \<Rightarrow> string \<Rightarrow> nat \<Rightarrow> prompts \<Rightarrow> (input_id \<times> settlement) list \<times> prompts" where
  "acknowledge w s ident p =
     (case pending_of p s of
        None \<Rightarrow> ([], p)
      | Some pd \<Rightarrow>
          if pd_id pd \<noteq> ident then ([], p)
          else
            let current = (pd_valid pd \<and> is_current w (pd_input pd));
                transfers = (w_result w = AgentOk \<and> current \<and> \<not> pd_stop pd);
                p1 = p\<lparr>pp_pending := AList.delete s (pp_pending p)\<rparr>;
                p2 = (if transfers then p1\<lparr>pp_ready := pp_ready p1 @ pd_queued pd\<rparr> else p1);
                p3 = forget_input (input_key (pd_input pd)) p2;
                own = settle (input_key (pd_input pd)) (outcome_of (w_result w))
            in if transfers then (own, p3)
               else (own @ map (\<lambda>i. (input_key i, Completed)) (pd_queued pd),
                     fold (\<lambda>i. forget_input (input_key i)) (pd_queued pd) p3))"

end
