(* ===== verification/Prompts_Laws.thy ===== *)
theory Prompts_Laws
  imports Prompts "HOL-Library.Sublist"
begin

text \<open>
  Inputs that wait for an agent, with the lanes in which the dispatch queue runs the work of a session: inputs reach the
  agent in the order of their arrival, none twice, none is forgotten, and each is settled at most once.
\<close>

section \<open>Lanes\<close>

text \<open>
  The work of one session runs in order of admission (\<open>Routing\<close>). A ready input is admitted before the answer of
  a pending send is looked at (\<open>next\<close>): \<open>Pop\<close> takes the front of the ready inputs, \<open>Answer\<close> needs that there is none.
\<close>

datatype work =
    InboundWork conversation_ref string string
  | QueuedWork queued_input
  | AckWork nat

record system =
  sy_prompts :: prompts
  sy_lane :: "string \<Rightarrow> work list"
  sy_tasks :: "string \<Rightarrow> nat set"
  sy_arrived :: "string \<Rightarrow> input_id list"
  sy_sent :: "string \<Rightarrow> input_id list"
  sy_settled :: "(input_id \<times> settlement) list"

definition idle_system :: system where
  "idle_system = \<lparr>sy_prompts = no_prompts, sy_lane = (\<lambda>_. []), sy_tasks = (\<lambda>_. {}), sy_arrived = (\<lambda>_. []),
     sy_sent = (\<lambda>_. []), sy_settled = []\<rparr>"

definition started :: "string \<Rightarrow> prompts \<Rightarrow> prompts \<Rightarrow> nat set" where
  "started s p p' = (if pending_of p s = None then (case pending_of p' s of Some pd \<Rightarrow> {pd_id pd} | None \<Rightarrow> {}) else {})"

definition ran :: "string \<Rightarrow> work list \<Rightarrow> input_id \<Rightarrow> (input_id \<times> settlement) list \<times> bool \<times> prompts \<Rightarrow> system \<Rightarrow> system" where
  "ran s rest k r y =
     (case r of (settled, sent, p') \<Rightarrow>
       y\<lparr>sy_prompts := p', sy_lane := (sy_lane y)(s := rest),
         sy_tasks := (sy_tasks y)(s := sy_tasks y s \<union> started s (sy_prompts y) p'),
         sy_sent := (if sent then (sy_sent y)(s := sy_sent y s @ [k]) else sy_sent y),
         sy_settled := sy_settled y @ settled\<rparr>)"

inductive prompt_step :: "system \<Rightarrow> system \<Rightarrow> bool" where
  Arrive: "\<forall>s'. (cr_channel c, event) \<notin> set (sy_arrived y s') \<Longrightarrow>
    prompt_step y (y\<lparr>sy_lane := (sy_lane y)(s := sy_lane y s @ [InboundWork c prompt event]),
                     sy_arrived := (sy_arrived y)(s := sy_arrived y s @ [(cr_channel c, event)])\<rparr>)"
| Pop: "pp_ready (sy_prompts y) = i # rest \<Longrightarrow>
    prompt_step y (y\<lparr>sy_prompts := (sy_prompts y)\<lparr>pp_ready := rest\<rparr>,
                     sy_lane := (sy_lane y)(qi_session i := sy_lane y (qi_session i) @ [QueuedWork i])\<rparr>)"
| Answer: "pp_ready (sy_prompts y) = [] \<Longrightarrow> ident \<in> sy_tasks y s \<Longrightarrow>
    prompt_step y (y\<lparr>sy_tasks := (sy_tasks y)(s := sy_tasks y s - {ident}),
                     sy_lane := (sy_lane y)(s := sy_lane y s @ [AckWork ident])\<rparr>)"
| Inbound: "sy_lane y s = InboundWork c prompt event # rest \<Longrightarrow>
    prompt_step y (ran s rest (cr_channel c, event) (handle_prompt w c s prompt event (sy_prompts y)) y)"
| Waiting: "sy_lane y s = QueuedWork i # rest \<Longrightarrow>
    prompt_step y (ran s rest (input_key i) (apply_queued_input w i (sy_prompts y)) y)"
| Acknowledged: "sy_lane y s = AckWork ident # rest \<Longrightarrow> acknowledge w s ident (sy_prompts y) = (settled, p') \<Longrightarrow>
    prompt_step y (y\<lparr>sy_prompts := p', sy_lane := (sy_lane y)(s := rest), sy_settled := sy_settled y @ settled\<rparr>)"
| Control: "p' \<in> {cancel_conversation c (sy_prompts y), invalidate s (sy_prompts y), snd (request_stop s (sy_prompts y)),
       snd (take_stop s (sy_prompts y)), adopt_turn w s turn (sy_prompts y), abort_prompts (sy_prompts y)} \<Longrightarrow>
    prompt_step y (y\<lparr>sy_prompts := p'\<rparr>)"

definition prompts_reachable :: "system \<Rightarrow> bool" where
  "prompts_reachable y \<longleftrightarrow> prompt_step\<^sup>*\<^sup>* idle_system y"

section \<open>Tickets\<close>

type_synonym ticket = "nat \<times> input_id"

definition ticket :: "queued_input \<Rightarrow> ticket" where
  "ticket i = (qi_sequence i, input_key i)"

definition ascending :: "ticket list \<Rightarrow> bool" where
  "ascending xs \<longleftrightarrow> sorted_wrt (\<lambda>x y. fst x < fst y) xs"

fun lane_queued :: "work list \<Rightarrow> ticket list" where
  "lane_queued [] = []"
| "lane_queued (QueuedWork i # ws) = ticket i # lane_queued ws"
| "lane_queued (_ # ws) = lane_queued ws"

fun lane_inbound :: "work list \<Rightarrow> input_id list" where
  "lane_inbound [] = []"
| "lane_inbound (InboundWork c _ event # ws) = (cr_channel c, event) # lane_inbound ws"
| "lane_inbound (_ # ws) = lane_inbound ws"

text \<open>No waiting input stands behind an answer; at most one answer is in the lane.\<close>

fun lane_acks :: "work list \<Rightarrow> nat list" where
  "lane_acks [] = []"
| "lane_acks (AckWork n # ws) = n # lane_acks ws"
| "lane_acks (_ # ws) = lane_acks ws"

fun acks_last :: "work list \<Rightarrow> bool" where
  "acks_last [] = True"
| "acks_last (AckWork n # ws) = (lane_queued ws = [])"
| "acks_last (_ # ws) = acks_last ws"

lemma lane_append [simp]:
  "lane_queued (xs @ ys) = lane_queued xs @ lane_queued ys"
  "lane_inbound (xs @ ys) = lane_inbound xs @ lane_inbound ys"
  "lane_acks (xs @ ys) = lane_acks xs @ lane_acks ys"
proof -
  show "lane_queued (xs @ ys) = lane_queued xs @ lane_queued ys" by (induction xs rule: lane_queued.induct) simp_all
  show "lane_inbound (xs @ ys) = lane_inbound xs @ lane_inbound ys" by (induction xs rule: lane_inbound.induct) simp_all
  show "lane_acks (xs @ ys) = lane_acks xs @ lane_acks ys" by (induction xs rule: lane_acks.induct) simp_all
qed

lemma acks_last_append:
  "acks_last (xs @ ys) \<longleftrightarrow> (if lane_acks xs = [] then acks_last ys else acks_last xs \<and> lane_queued ys = [])"
  by (induction xs rule: acks_last.induct) auto

lemma acks_last_none: "lane_acks xs = [] \<Longrightarrow> acks_last xs"
  by (induction xs rule: acks_last.induct) auto

lemma ascending_Cons: "ascending (x # xs) \<longleftrightarrow> (\<forall>y \<in> set xs. fst x < fst y) \<and> ascending xs"
  by (simp add: ascending_def)

lemma ascending_append: "ascending (xs @ ys) \<longleftrightarrow> ascending xs \<and> ascending ys \<and> (\<forall>x \<in> set xs. \<forall>y \<in> set ys. fst x < fst y)"
  by (simp add: ascending_def sorted_wrt_append)

lemma ascending_Nil [simp]: "ascending []"
  by (simp add: ascending_def)

lemma ascending_snoc: "ascending xs \<Longrightarrow> \<forall>x \<in> set xs. fst x < fst y \<Longrightarrow> ascending (xs @ [y])"
  by (simp add: ascending_append ascending_Cons)

lemma ascending_unique:
  assumes "ascending xs" "ascending ys" "set xs = set ys"
  shows "xs = ys"
  using assms
proof (induction xs arbitrary: ys)
  case (Cons x xs)
  then obtain y ys' where ys: "ys = y # ys'" by (cases ys) auto
  have "x = y"
  proof (rule ccontr)
    assume "x \<noteq> y"
    then have "x \<in> set ys'" "y \<in> set xs" using Cons.prems(3) ys by auto
    then show False using Cons.prems(1,2) ys by (fastforce simp: ascending_Cons)
  qed
  moreover have "x \<notin> set xs" "y \<notin> set ys'" using Cons.prems(1,2) ys by (auto simp: ascending_Cons)
  ultimately have "set xs = set ys'" using Cons.prems(3) ys by (metis insert_ident list.simps(15))
  then show ?case using Cons ys \<open>x = y\<close> by (simp add: ascending_Cons)
qed simp

lemma insert_waiting_ticket:
  assumes "ascending (map ticket qs)" "\<forall>q \<in> set qs. qi_sequence q \<noteq> qi_sequence i"
  shows "ascending (map ticket (insert_waiting i qs)) \<and> set (insert_waiting i qs) = insert i (set qs)"
  using assms
proof (induction qs)
  case Nil
  then show ?case by (simp add: insert_waiting_def ascending_def)
next
  case (Cons q qs)
  show ?case
  proof (cases "qi_sequence q < qi_sequence i")
    case True
    then have step: "insert_waiting i (q # qs) = q # insert_waiting i qs" by (simp add: insert_waiting_def)
    then show ?thesis using Cons True by (auto simp: ascending_Cons ticket_def)
  next
    case False
    then have step: "insert_waiting i (q # qs) = i # q # qs" by (simp add: insert_waiting_def)
    have "qi_sequence i < qi_sequence q" using False Cons.prems(2) by (metis linorder_neqE_nat list.set_intros(1))
    then show ?thesis using Cons.prems by (fastforce simp: step ascending_Cons ticket_def)
  qed
qed

section \<open>The invariant of a session\<close>

text \<open>What the properties need of an owned input: whether it waits, its session and its number.\<close>

definition core :: "prompts \<Rightarrow> input_id \<Rightarrow> (bool \<times> string \<times> nat) option" where
  "core p k = map_option (\<lambda>i. (qi_queued i, qi_session i, qi_sequence i)) (map_of (pp_owned p) k)"

definition behind :: "pending option \<Rightarrow> ticket list" where
  "behind pd = (case pd of None \<Rightarrow> [] | Some d \<Rightarrow> map ticket (pd_queued d))"

definition ready_of :: "string \<Rightarrow> prompts \<Rightarrow> ticket list" where
  "ready_of s p = map ticket (filter (\<lambda>i. qi_session i = s) (pp_ready p))"

definition pending_keys :: "pending option \<Rightarrow> input_id set" where
  "pending_keys pd = (case pd of None \<Rightarrow> {} | Some d \<Rightarrow> {input_key (pd_input d)})"

text \<open>\<open>awaited\<close>: a pending send has one task or one answer in the lane, and then nothing is ready.\<close>

definition awaited :: "pending option \<Rightarrow> ticket list \<Rightarrow> work list \<Rightarrow> nat set \<Rightarrow> bool" where
  "awaited pd ready lane tasks \<longleftrightarrow>
     (case pd of
        None \<Rightarrow> lane_acks lane = [] \<and> tasks = {}
      | Some d \<Rightarrow> (lane_acks lane = [] \<and> tasks = {pd_id d})
           \<or> (lane_acks lane = [pd_id d] \<and> tasks = {} \<and> ready = [] \<and> acks_last lane))"

definition of_session :: "string \<Rightarrow> pending option \<Rightarrow> work list \<Rightarrow> bool" where
  "of_session s pd lane \<longleftrightarrow>
     list_all (\<lambda>w. case w of QueuedWork i \<Rightarrow> qi_session i = s | _ \<Rightarrow> True) lane
     \<and> (case pd of None \<Rightarrow> True | Some d \<Rightarrow> list_all (\<lambda>i. qi_session i = s) (pd_queued d))"

text \<open>Waiting inputs are owned, numbered in order, and stand in the order of their arrival behind what was sent.\<close>

definition in_order ::
  "(input_id \<Rightarrow> (bool \<times> string \<times> nat) option) \<Rightarrow> nat \<Rightarrow> string \<Rightarrow> ticket list \<Rightarrow> ticket list \<Rightarrow> input_id list
     \<Rightarrow> input_id list \<Rightarrow> input_id list \<Rightarrow> bool" where
  "in_order c next s waits followers inbound sent arrived \<longleftrightarrow>
     ascending waits \<and> ascending followers \<and> set waits \<inter> set followers = {}
     \<and> (\<forall>x \<in> set waits \<union> set followers. fst x < next \<and> c (snd x) = Some (True, s, fst x))
     \<and> (\<exists>order. ascending order \<and> set order = set waits \<union> set followers
           \<and> subseq (sent @ map snd order @ inbound) arrived)"

definition session_ok ::
  "(input_id \<Rightarrow> (bool \<times> string \<times> nat) option) \<Rightarrow> nat \<Rightarrow> pending option \<Rightarrow> ticket list \<Rightarrow> work list \<Rightarrow> nat set
     \<Rightarrow> input_id list \<Rightarrow> input_id list \<Rightarrow> input_id set \<Rightarrow> string \<Rightarrow> bool" where
  "session_ok c next pd ready lane tasks sent arrived settled s \<longleftrightarrow>
     in_order c next s (lane_queued lane @ ready) (behind pd) (lane_inbound lane) sent arrived
     \<and> awaited pd ready lane tasks \<and> of_session s pd lane \<and> distinct arrived
     \<and> (\<forall>k \<in> pending_keys pd. k \<in> set arrived \<and> (\<exists>n. c k = Some (False, s, n)))
     \<and> (\<forall>k \<in> set (lane_inbound lane). c k = None \<and> k \<notin> settled)
     \<and> set arrived \<subseteq> set (lane_inbound lane) \<union> snd ` set (lane_queued lane @ ready @ behind pd) \<union> pending_keys pd \<union> settled"

lemma set_subseq: "subseq xs ys \<Longrightarrow> set xs \<subseteq> set ys"
  by (induction rule: list_emb.induct) auto

lemma distinct_subseq: "subseq xs ys \<Longrightarrow> distinct ys \<Longrightarrow> distinct xs"
  by (induction rule: list_emb.induct) (auto dest: set_subseq)

lemma in_order_keys:
  assumes "in_order c next s waits followers inbound sent arrived"
  shows "snd ` (set waits \<union> set followers) \<subseteq> set arrived" "set inbound \<subseteq> set arrived" "set sent \<subseteq> set arrived"
proof -
  obtain order where o: "set order = set waits \<union> set followers" "subseq (sent @ map snd order @ inbound) arrived"
    using assms by (auto simp: in_order_def)
  from set_subseq [OF o(2)] have "set sent \<union> snd ` set order \<union> set inbound \<subseteq> set arrived" by auto
  then show "snd ` (set waits \<union> set followers) \<subseteq> set arrived" "set inbound \<subseteq> set arrived" "set sent \<subseteq> set arrived"
    using o(1) by auto
qed

text \<open>A step of another session changes nothing that this one looks at.\<close>

lemma session_ok_frame:
  assumes "session_ok c next pd ready lane tasks sent arrived settled s"
    and "\<And>k. k \<in> set arrived \<Longrightarrow> c' k = c k" "next \<le> next'" "\<And>k. k \<in> set arrived \<Longrightarrow> k \<in> settled' \<longleftrightarrow> k \<in> settled"
  shows "session_ok c' next' pd ready lane tasks sent arrived settled' s"
proof -
  have o: "in_order c next s (lane_queued lane @ ready) (behind pd) (lane_inbound lane) sent arrived"
    using assms(1) by (simp add: session_ok_def)
  note keys = in_order_keys [OF o]
  have "c' (snd x) = c (snd x)" if "x \<in> set (lane_queued lane @ ready) \<union> set (behind pd)" for x
    using that keys(1) assms(2) by blast
  then have "in_order c' next' s (lane_queued lane @ ready) (behind pd) (lane_inbound lane) sent arrived"
    using o assms(3) unfolding in_order_def by (auto intro: less_le_trans)
  note order' = this
  have inbound: "k \<in> set arrived" if "k \<in> set (lane_inbound lane)" for k using keys(2) that by blast
  show ?thesis
    unfolding session_ok_def
  proof (intro conjI ballI)
    fix k assume k: "k \<in> pending_keys pd"
    then show "k \<in> set arrived" and "\<exists>n. c' k = Some (False, s, n)" using assms(1,2) by (auto simp: session_ok_def)
  next
    fix k assume k: "k \<in> set (lane_inbound lane)"
    show "c' k = None" "k \<notin> settled'" using assms(1,2,4) inbound [OF k] k by (auto simp: session_ok_def)
  next
    show "set arrived \<subseteq> set (lane_inbound lane) \<union> snd ` set (lane_queued lane @ ready @ behind pd) \<union> pending_keys pd \<union> settled'"
    proof
      fix k assume k: "k \<in> set arrived"
      then have "k \<in> set (lane_inbound lane) \<union> snd ` set (lane_queued lane @ ready @ behind pd) \<union> pending_keys pd \<union> settled"
        using assms(1) unfolding session_ok_def by blast
      then show "k \<in> set (lane_inbound lane) \<union> snd ` set (lane_queued lane @ ready @ behind pd) \<union> pending_keys pd \<union> settled'"
        using assms(4) [OF k] by blast
    qed
  qed (use order' assms(1) in \<open>auto simp: session_ok_def\<close>)
qed

definition sys_session :: "system \<Rightarrow> string \<Rightarrow> bool" where
  "sys_session y s \<longleftrightarrow>
     session_ok (core (sy_prompts y)) (pp_next_id (sy_prompts y)) (pending_of (sy_prompts y) s) (ready_of s (sy_prompts y))
       (sy_lane y s) (sy_tasks y s) (sy_sent y s) (sy_arrived y s) (fst ` set (sy_settled y)) s"

definition sys_ok :: "system \<Rightarrow> bool" where
  "sys_ok y \<longleftrightarrow> (\<forall>s. sys_session y s) \<and> distinct (map fst (pp_pending (sy_prompts y)))
     \<and> (\<forall>s s'. s \<noteq> s' \<longrightarrow> set (sy_arrived y s) \<inter> set (sy_arrived y s') = {})
     \<and> (\<forall>k q s n. core (sy_prompts y) k = Some (q, s, n) \<longrightarrow> k \<in> set (sy_arrived y s))
     \<and> distinct (map fst (sy_settled y))
     \<and> (\<forall>k \<in> fst ` set (sy_settled y). core (sy_prompts y) k = None \<and> (\<exists>s. k \<in> set (sy_arrived y s)))"

section \<open>Steps of a lane\<close>

text \<open>
  A step of the session \<open>s\<close> that touches only inputs which arrived at \<open>s\<close> keeps the invariant of every session, when
  it keeps that of \<open>s\<close>.
\<close>

lemma sys_ok_step:
  assumes ok: "sys_ok y" and s: "sys_session y' s"
    and lanes: "\<And>s'. s' \<noteq> s \<Longrightarrow> sy_lane y' s' = sy_lane y s' \<and> sy_tasks y' s' = sy_tasks y s'
        \<and> sy_sent y' s' = sy_sent y s' \<and> sy_arrived y' s' = sy_arrived y s'"
    and views: "\<And>s'. s' \<noteq> s \<Longrightarrow> pending_of (sy_prompts y') s' = pending_of (sy_prompts y) s'
        \<and> ready_of s' (sy_prompts y') = ready_of s' (sy_prompts y)"
    and numbers: "pp_next_id (sy_prompts y) \<le> pp_next_id (sy_prompts y')"
    and arrived: "set (sy_arrived y s) \<subseteq> set (sy_arrived y' s)"
      "\<And>k s'. k \<in> set (sy_arrived y' s) \<Longrightarrow> k \<notin> set (sy_arrived y s) \<Longrightarrow> k \<notin> set (sy_arrived y s')"
    and cores: "\<And>k. k \<notin> set (sy_arrived y' s) \<Longrightarrow> core (sy_prompts y') k = core (sy_prompts y) k"
      "\<And>k q t n. k \<in> set (sy_arrived y' s) \<Longrightarrow> core (sy_prompts y') k = Some (q, t, n) \<Longrightarrow> t = s"
    and settled: "fst ` set (sy_settled y) \<subseteq> fst ` set (sy_settled y')"
      "fst ` set (sy_settled y') \<subseteq> fst ` set (sy_settled y) \<union> set (sy_arrived y' s)"
      "distinct (map fst (sy_settled y'))"
      "\<And>k. k \<in> fst ` set (sy_settled y') \<Longrightarrow> core (sy_prompts y') k = None"
    and pending: "distinct (map fst (pp_pending (sy_prompts y')))"
  shows "sys_ok y'"
proof -
  have apart: "set (sy_arrived y' s) \<inter> set (sy_arrived y s') = {}" if "s' \<noteq> s" for s'
  proof -
    have disjoint: "set (sy_arrived y s) \<inter> set (sy_arrived y s') = {}" using ok that by (simp add: sys_ok_def)
    show ?thesis using disjoint arrived(2) [of _ s'] by blast
  qed
  have sessions: "sys_session y' s'" for s'
  proof (cases "s' = s")
    case False
    have old: "sys_session y s'" using ok by (simp add: sys_ok_def)
    have same: "core (sy_prompts y') k = core (sy_prompts y) k" if "k \<in> set (sy_arrived y s')" for k
      using cores(1) apart [OF False] that by blast
    have kept: "k \<in> fst ` set (sy_settled y') \<longleftrightarrow> k \<in> fst ` set (sy_settled y)" if "k \<in> set (sy_arrived y s')" for k
      using settled(1,2) apart [OF False] that by blast
    have "session_ok (core (sy_prompts y')) (pp_next_id (sy_prompts y')) (pending_of (sy_prompts y) s') (ready_of s' (sy_prompts y))
       (sy_lane y s') (sy_tasks y s') (sy_sent y s') (sy_arrived y s') (fst ` set (sy_settled y')) s'"
      by (rule session_ok_frame [OF old [unfolded sys_session_def] same numbers kept])
    then show ?thesis using lanes [OF False] views [OF False] by (simp add: sys_session_def)
  qed (simp add: s)
  have disjoint: "set (sy_arrived y' s1) \<inter> set (sy_arrived y' s2) = {}" if ne: "s1 \<noteq> s2" for s1 s2
  proof -
    consider "s1 = s" "s2 \<noteq> s" | "s2 = s" "s1 \<noteq> s" | "s1 \<noteq> s" "s2 \<noteq> s" using ne by blast
    then show ?thesis
    proof cases
      case 3
      then show ?thesis using ok ne lanes by (simp add: sys_ok_def)
    qed (use apart lanes in auto)
  qed
  have owners: "k \<in> set (sy_arrived y' t)" if "core (sy_prompts y') k = Some (q, t, n)" for k q t n
  proof (cases "k \<in> set (sy_arrived y' s)")
    case False
    then have "k \<in> set (sy_arrived y t)" using that cores(1) ok unfolding sys_ok_def by metis
    then show ?thesis using lanes False arrived(1) by (metis subsetD)
  qed (use that cores(2) in blast)
  have known: "\<exists>t. k \<in> set (sy_arrived y' t)" if "k \<in> fst ` set (sy_settled y')" for k
  proof (cases "k \<in> set (sy_arrived y' s)")
    case False
    then have "k \<in> fst ` set (sy_settled y)" using that settled(2) by blast
    then obtain t where "k \<in> set (sy_arrived y t)" using ok unfolding sys_ok_def by blast
    then show ?thesis using lanes False arrived(1) by (metis subsetD)
  qed blast
  show ?thesis
    unfolding sys_ok_def
    by (intro conjI allI impI ballI sessions pending disjoint settled(3) settled(4) known) (assumption | erule owners)+
qed

section \<open>The order of waiting inputs\<close>

lemma subseq_filter_middle: "subseq (xs @ map f (filter Q ys) @ zs) (xs @ map f ys @ zs)"
  by (intro list_emb_append_mono subseq_map subseq_filter_left) simp_all

lemma in_order_mono:
  assumes "in_order c next s waits followers inbound sent arrived"
    and "ascending waits'" "ascending followers'" "set waits' \<inter> set followers' = {}"
    and sub: "set waits' \<union> set followers' \<subseteq> set waits \<union> set followers"
    and "\<forall>x \<in> set waits' \<union> set followers'. fst x < next' \<and> c' (snd x) = Some (True, s, fst x)"
    and inb: "subseq inbound' inbound"
  shows "in_order c' next' s waits' followers' inbound' sent arrived"
proof -
  obtain order where o: "ascending order" "set order = set waits \<union> set followers" "subseq (sent @ map snd order @ inbound) arrived"
    using assms(1) by (auto simp: in_order_def)
  let ?order = "filter (\<lambda>x. x \<in> set waits' \<union> set followers') order"
  have "subseq (sent @ map snd ?order @ inbound') (sent @ map snd order @ inbound)"
    using inb by (intro list_emb_append_mono subseq_map subseq_filter_left) simp_all
  then have "subseq (sent @ map snd ?order @ inbound') arrived" using o(3) subseq_order.trans by blast
  moreover have "set ?order = set waits' \<union> set followers'" using o(2) sub by auto
  moreover have "ascending ?order" using o(1) by (simp add: ascending_def sorted_wrt_filter)
  ultimately show ?thesis using assms(2-4,6) unfolding in_order_def by blast
qed

lemma in_order_sent:
  assumes "in_order c next s (x # waits) [] inbound sent arrived"
    and "\<forall>y \<in> set waits. fst y < next' \<and> c' (snd y) = Some (True, s, fst y)"
  shows "in_order c' next' s waits [] inbound (sent @ [snd x]) arrived"
proof -
  obtain order where o: "ascending order" "set order = set (x # waits)" "subseq (sent @ map snd order @ inbound) arrived"
    and asc: "ascending (x # waits)"
    using assms(1) by (auto simp: in_order_def)
  have "order = x # waits" by (rule ascending_unique [OF o(1) asc o(2)])
  then show ?thesis using o(3) asc assms(2) unfolding in_order_def by (auto simp: ascending_Cons intro!: exI [of _ waits])
qed

lemma in_order_sent_inbound:
  assumes "in_order c next s [] [] (k # inbound) sent arrived"
  shows "in_order c' next' s [] [] inbound (sent @ [k]) arrived"
  using assms by (auto simp: in_order_def)

lemma in_order_wait:
  assumes "in_order c next s waits followers (k # inbound) sent arrived"
    and "ascending waits'" "ascending followers'" "set waits' \<inter> set followers' = {}"
    and new: "set waits' \<union> set followers' = insert (next, k) (set waits \<union> set followers)"
    and "c' k = Some (True, s, next)" "\<forall>x \<in> set waits \<union> set followers. c' (snd x) = c (snd x)"
  shows "in_order c' (next + 1) s waits' followers' inbound sent arrived"
proof -
  obtain order where o: "ascending order" "set order = set waits \<union> set followers" "subseq (sent @ map snd order @ k # inbound) arrived"
    and old: "\<forall>x \<in> set waits \<union> set followers. fst x < next \<and> c (snd x) = Some (True, s, fst x)"
    using assms(1) by (auto simp: in_order_def)
  have "ascending (order @ [(next, k)])" using o(1,2) old by (auto simp: ascending_append ascending_Cons)
  moreover have "set (order @ [(next, k)]) = set waits' \<union> set followers'" using new o(2) by auto
  moreover have "subseq (sent @ map snd (order @ [(next, k)]) @ inbound) arrived" using o(3) by simp
  moreover have "\<forall>x \<in> set waits' \<union> set followers'. fst x < next + 1 \<and> c' (snd x) = Some (True, s, fst x)"
  proof
    fix x assume "x \<in> set waits' \<union> set followers'"
    then consider "x = (next, k)" | "x \<in> set waits \<union> set followers" using new by blast
    then show "fst x < next + 1 \<and> c' (snd x) = Some (True, s, fst x)"
    proof cases
      case 2
      then have "fst x < next \<and> c (snd x) = Some (True, s, fst x)" "c' (snd x) = c (snd x)" using old assms(7) by blast+
      then show ?thesis by simp
    qed (use assms(6) in simp)
  qed
  ultimately show ?thesis using assms(2-4) unfolding in_order_def by blast
qed

lemma in_order_arrive:
  assumes "in_order c next s waits followers inbound sent arrived"
  shows "in_order c next s waits followers (inbound @ [k]) sent (arrived @ [k])"
proof -
  obtain order where o: "ascending order" "set order = set waits \<union> set followers" "subseq (sent @ map snd order @ inbound) arrived"
    using assms by (auto simp: in_order_def)
  have "subseq ((sent @ map snd order @ inbound) @ [k]) (arrived @ [k])" by (intro list_emb_append_mono o(3)) simp
  then show ?thesis using assms o(1,2) unfolding in_order_def by (auto intro!: exI [of _ order])
qed

section \<open>Sessions under the steps\<close>

lemma session_okD:
  assumes "session_ok c next pd ready lane tasks sent arrived settled s"
  shows "in_order c next s (lane_queued lane @ ready) (behind pd) (lane_inbound lane) sent arrived"
    "awaited pd ready lane tasks" "of_session s pd lane" "distinct arrived"
    "\<And>k. k \<in> pending_keys pd \<Longrightarrow> k \<in> set arrived \<and> (\<exists>n. c k = Some (False, s, n))"
    "\<And>k. k \<in> set (lane_inbound lane) \<Longrightarrow> c k = None \<and> k \<notin> settled \<and> k \<in> set arrived"
    "\<And>k. k \<in> set arrived \<Longrightarrow> k \<in> set (lane_inbound lane) \<or> k \<in> snd ` set (lane_queued lane @ ready @ behind pd)
        \<or> k \<in> pending_keys pd \<or> k \<in> settled"
    "\<And>x. x \<in> set (lane_queued lane @ ready @ behind pd) \<Longrightarrow> fst x < next \<and> c (snd x) = Some (True, s, fst x) \<and> snd x \<in> set arrived"
    "distinct (lane_inbound lane)"
proof -
  show o: "in_order c next s (lane_queued lane @ ready) (behind pd) (lane_inbound lane) sent arrived"
    using assms by (simp add: session_ok_def)
  note keys = in_order_keys [OF o]
  show "awaited pd ready lane tasks" "of_session s pd lane" and d: "distinct arrived"
    using assms by (simp_all add: session_ok_def)
  show "k \<in> set arrived \<and> (\<exists>n. c k = Some (False, s, n))" if "k \<in> pending_keys pd" for k
    using assms that unfolding session_ok_def by blast
  show "c k = None \<and> k \<notin> settled \<and> k \<in> set arrived" if "k \<in> set (lane_inbound lane)" for k
    using assms that keys(2) unfolding session_ok_def by blast
  show "k \<in> set (lane_inbound lane) \<or> k \<in> snd ` set (lane_queued lane @ ready @ behind pd) \<or> k \<in> pending_keys pd \<or> k \<in> settled"
    if "k \<in> set arrived" for k
    using assms that unfolding session_ok_def by blast
  show "fst x < next \<and> c (snd x) = Some (True, s, fst x) \<and> snd x \<in> set arrived" if "x \<in> set (lane_queued lane @ ready @ behind pd)" for x
  proof -
    have x: "x \<in> set (lane_queued lane @ ready) \<union> set (behind pd)" using that by auto
    then show ?thesis using o keys(1) unfolding in_order_def by blast
  qed
  show "distinct (lane_inbound lane)"
    using o d distinct_subseq unfolding in_order_def by (metis distinct_append)
qed

lemma session_okI:
  assumes "in_order c next s (lane_queued lane @ ready) (behind pd) (lane_inbound lane) sent arrived"
    "awaited pd ready lane tasks" "of_session s pd lane" "distinct arrived"
    "\<And>k. k \<in> pending_keys pd \<Longrightarrow> k \<in> set arrived \<and> (\<exists>n. c k = Some (False, s, n))"
    "\<And>k. k \<in> set (lane_inbound lane) \<Longrightarrow> c k = None \<and> k \<notin> settled"
    "\<And>k. k \<in> set arrived \<Longrightarrow> k \<in> set (lane_inbound lane) \<or> k \<in> snd ` set (lane_queued lane @ ready @ behind pd)
        \<or> k \<in> pending_keys pd \<or> k \<in> settled"
  shows "session_ok c next pd ready lane tasks sent arrived settled s"
  unfolding session_ok_def using assms by blast

lemma session_arrive:
  assumes ok: "session_ok c next pd ready lane tasks sent arrived settled s"
    and k: "k = (cr_channel cv, event)" "k \<notin> set arrived" "c k = None" "k \<notin> settled"
  shows "session_ok c next pd ready (lane @ [InboundWork cv prompt event]) tasks sent (arrived @ [k]) settled s"
proof (rule session_okI)
  note d = session_okD [OF ok]
  show "in_order c next s (lane_queued (lane @ [InboundWork cv prompt event]) @ ready) (behind pd)
      (lane_inbound (lane @ [InboundWork cv prompt event])) sent (arrived @ [k])"
    using in_order_arrive [OF d(1), of k] k(1) by simp
  show "awaited pd ready (lane @ [InboundWork cv prompt event]) tasks"
    using d(2) by (auto simp: awaited_def acks_last_append split: option.splits)
  show "of_session s pd (lane @ [InboundWork cv prompt event])" using d(3) by (simp add: of_session_def)
  show "distinct (arrived @ [k])" using d(4) k(2) by simp
  show "j \<in> set (arrived @ [k]) \<and> (\<exists>n. c j = Some (False, s, n))" if "j \<in> pending_keys pd" for j using d(5) [OF that] by simp
  show "c j = None \<and> j \<notin> settled" if "j \<in> set (lane_inbound (lane @ [InboundWork cv prompt event]))" for j
    using that d(6) [of j] k by auto
  show "j \<in> set (lane_inbound (lane @ [InboundWork cv prompt event]))
      \<or> j \<in> snd ` set (lane_queued (lane @ [InboundWork cv prompt event]) @ ready @ behind pd) \<or> j \<in> pending_keys pd \<or> j \<in> settled"
    if "j \<in> set (arrived @ [k])" for j
    using that d(7) [of j] k(1) by auto
qed

lemma session_pop:
  assumes ok: "session_ok c next pd (ticket i # ready) lane tasks sent arrived settled s" and i: "qi_session i = s"
  shows "session_ok c next pd ready (lane @ [QueuedWork i]) tasks sent arrived settled s"
proof (rule session_okI)
  note d = session_okD [OF ok]
  show "in_order c next s (lane_queued (lane @ [QueuedWork i]) @ ready) (behind pd) (lane_inbound (lane @ [QueuedWork i])) sent arrived"
    using d(1) by simp
  show "awaited pd ready (lane @ [QueuedWork i]) tasks"
    using d(2) by (auto simp: awaited_def split: option.splits)
  show "of_session s pd (lane @ [QueuedWork i])" using d(3) i by (simp add: of_session_def)
  show "distinct arrived" by (rule d(4))
  show "j \<in> set arrived \<and> (\<exists>n. c j = Some (False, s, n))" if "j \<in> pending_keys pd" for j using d(5) [OF that] .
  show "c j = None \<and> j \<notin> settled" if "j \<in> set (lane_inbound (lane @ [QueuedWork i]))" for j using that d(6) [of j] by auto
  show "j \<in> set (lane_inbound (lane @ [QueuedWork i])) \<or> j \<in> snd ` set (lane_queued (lane @ [QueuedWork i]) @ ready @ behind pd)
      \<or> j \<in> pending_keys pd \<or> j \<in> settled" if "j \<in> set arrived" for j
    using d(7) [OF that] by auto
qed

lemma session_answer:
  assumes ok: "session_ok c next pd [] lane tasks sent arrived settled s" and n: "n \<in> tasks"
  shows "session_ok c next pd [] (lane @ [AckWork n]) (tasks - {n}) sent arrived settled s"
proof (rule session_okI)
  note d = session_okD [OF ok]
  show "in_order c next s (lane_queued (lane @ [AckWork n]) @ []) (behind pd) (lane_inbound (lane @ [AckWork n])) sent arrived"
    using d(1) by simp
  show "awaited pd [] (lane @ [AckWork n]) (tasks - {n})"
    using d(2) n by (auto simp: awaited_def acks_last_append split: option.splits)
  show "of_session s pd (lane @ [AckWork n])" using d(3) by (simp add: of_session_def)
  show "distinct arrived" by (rule d(4))
  show "j \<in> set arrived \<and> (\<exists>n. c j = Some (False, s, n))" if "j \<in> pending_keys pd" for j using d(5) [OF that] .
  show "c j = None \<and> j \<notin> settled" if "j \<in> set (lane_inbound (lane @ [AckWork n]))" for j using that d(6) [of j] by auto
  show "j \<in> set (lane_inbound (lane @ [AckWork n])) \<or> j \<in> snd ` set (lane_queued (lane @ [AckWork n]) @ [] @ behind pd)
      \<or> j \<in> pending_keys pd \<or> j \<in> settled" if "j \<in> set arrived" for j
    using d(7) [OF that] by auto
qed

text \<open>An inbound input is taken from the lane: settled at once, perhaps after it was sent; or started; or it waits.\<close>

lemma awaited_tl:
  "awaited pd ready (InboundWork cv prompt event # rest) tasks = awaited pd ready rest tasks"
  "of_session s pd (InboundWork cv prompt event # rest) = of_session s pd rest"
  by (simp_all add: awaited_def of_session_def split: option.split)

lemma session_inbound_settled:
  assumes ok: "session_ok c next pd ready (InboundWork cv prompt event # rest) tasks sent arrived settled s"
    and k: "k = (cr_channel cv, event)"
    and sent: "sent' = sent \<or> sent' = sent @ [k] \<and> lane_queued rest @ ready = [] \<and> behind pd = []"
  shows "session_ok c next pd ready rest tasks sent' arrived (insert k settled) s"
proof (rule session_okI)
  note d = session_okD [OF ok]
  show "in_order c next s (lane_queued rest @ ready) (behind pd) (lane_inbound rest) sent' arrived"
    using sent
  proof
    assume same: "sent' = sent"
    show ?thesis unfolding same by (rule in_order_mono [OF d(1)]) (use d(1) in \<open>auto simp: in_order_def\<close>)
  next
    assume "sent' = sent @ [k] \<and> lane_queued rest @ ready = [] \<and> behind pd = []"
    then show ?thesis using d(1) k in_order_sent_inbound [of c "next" s k "lane_inbound rest" sent arrived c "next"] by simp
  qed
  show "awaited pd ready rest tasks" "of_session s pd rest" using d(2,3) by (simp_all add: awaited_tl)
  show "distinct arrived" by (rule d(4))
  show "j \<in> set arrived \<and> (\<exists>n. c j = Some (False, s, n))" if "j \<in> pending_keys pd" for j using d(5) [OF that] .
  show "c j = None \<and> j \<notin> insert k settled" if "j \<in> set (lane_inbound rest)" for j
    using that d(6) [of j] d(9) k by auto
  show "j \<in> set (lane_inbound rest) \<or> j \<in> snd ` set (lane_queued rest @ ready @ behind pd) \<or> j \<in> pending_keys pd
      \<or> j \<in> insert k settled" if "j \<in> set arrived" for j
    using d(7) [OF that] k by auto
qed

lemma session_inbound_started:
  assumes ok: "session_ok c next None ready (InboundWork cv prompt event # rest) tasks sent arrived settled s"
    and k: "k = (cr_channel cv, event)" and none: "lane_queued rest @ ready = []"
    and d': "pd_queued d = []" "input_key (pd_input d) = k"
  shows "session_ok (c(k \<mapsto> (False, s, n))) next' (Some d) ready rest {pd_id d} (sent @ [k]) arrived settled s"
proof (rule session_okI)
  note d = session_okD [OF ok]
  have beh: "behind (Some d) = []" using d'(1) by (simp add: behind_def)
  have new: "k \<notin> set (lane_inbound rest)" using d(9) k by auto
  show "in_order (c(k \<mapsto> (False, s, n))) next' s (lane_queued rest @ ready) (behind (Some d)) (lane_inbound rest) (sent @ [k]) arrived"
    using d(1) k none in_order_sent_inbound [of c "next" s k "lane_inbound rest" sent arrived "c(k \<mapsto> (False, s, n))" next']
    by (simp add: behind_def d'(1))
  show "awaited (Some d) ready rest {pd_id d}" using d(2) by (simp add: awaited_def)
  show "of_session s (Some d) rest" using d(3) d'(1) by (simp add: of_session_def)
  show "distinct arrived" by (rule d(4))
  show "j \<in> set arrived \<and> (\<exists>m. (c(k \<mapsto> (False, s, n))) j = Some (False, s, m))" if "j \<in> pending_keys (Some d)" for j
    using that d(6) [of k] k d'(2) by (simp add: pending_keys_def)
  show "(c(k \<mapsto> (False, s, n))) j = None \<and> j \<notin> settled" if "j \<in> set (lane_inbound rest)" for j
    using that d(6) [of j] new by auto
  show "j \<in> set (lane_inbound rest) \<or> j \<in> snd ` set (lane_queued rest @ ready @ behind (Some d)) \<or> j \<in> pending_keys (Some d) \<or> j \<in> settled"
    if "j \<in> set arrived" for j
    using d(7) [OF that] k none d'(2) by (auto simp: pending_keys_def behind_def)
qed

lemma session_inbound_waits:
  assumes ok: "session_ok c next pd ready (InboundWork cv prompt event # rest) tasks sent arrived settled s"
    and k: "k = (cr_channel cv, event)"
    and new: "pd = None \<and> pd' = None \<and> ready' = ready @ [(next, k)]
      \<or> ready' = ready \<and> (\<exists>d d'. pd = Some d \<and> pd' = Some d' \<and> pd_id d' = pd_id d \<and> pd_input d' = pd_input d
          \<and> list_all (\<lambda>i. qi_session i = s) (pd_queued d')
          \<and> ascending (behind pd') \<and> set (behind pd') = insert (next, k) (set (behind pd)))"
  shows "session_ok (c(k \<mapsto> (True, s, next))) (next + 1) pd' ready' rest tasks sent arrived settled s"
proof (rule session_okI)
  note d = session_okD [OF ok]
  let ?c = "c(k \<mapsto> (True, s, next))"
  have fresh: "snd x \<noteq> k" "fst x < next" if "x \<in> set (lane_queued rest @ ready @ behind pd)" for x
    using d(8) [of x] d(6) [of k] that k by auto
  have asc: "ascending (lane_queued rest @ ready)" "ascending (behind pd)" "set (lane_queued rest @ ready) \<inter> set (behind pd) = {}"
    using d(1) by (auto simp: in_order_def)
  have below: "\<forall>x \<in> set (lane_queued rest @ ready). fst x < next"
  proof
    fix x assume "x \<in> set (lane_queued rest @ ready)"
    then have "x \<in> set (lane_queued rest @ ready @ behind pd)" by auto
    then show "fst x < next" by (rule fresh(2))
  qed
  have sets: "ascending (lane_queued rest @ ready') \<and> ascending (behind pd')
      \<and> set (lane_queued rest @ ready') \<inter> set (behind pd') = {}
      \<and> set (lane_queued rest @ ready') \<union> set (behind pd') = insert (next, k) (set (lane_queued rest @ ready) \<union> set (behind pd))"
    using new
  proof
    assume n: "pd = None \<and> pd' = None \<and> ready' = ready @ [(next, k)]"
    then have "ascending ((lane_queued rest @ ready) @ [(next, k)])"
      by (intro ascending_snoc asc(1)) (simp add: below)
    then show ?thesis using n by (auto simp: behind_def)
  next
    assume n: "ready' = ready \<and> (\<exists>d d'. pd = Some d \<and> pd' = Some d' \<and> pd_id d' = pd_id d \<and> pd_input d' = pd_input d
          \<and> list_all (\<lambda>i. qi_session i = s) (pd_queued d')
          \<and> ascending (behind pd') \<and> set (behind pd') = insert (next, k) (set (behind pd)))"
    have "(next, k) \<notin> set (lane_queued rest @ ready)" using fresh(1) [of "(next, k)"] by auto
    then show ?thesis using n asc by auto
  qed
  show "in_order ?c (next + 1) s (lane_queued rest @ ready') (behind pd') (lane_inbound rest) sent arrived"
  proof (rule in_order_wait)
    show "in_order c next s (lane_queued rest @ ready) (behind pd) (k # lane_inbound rest) sent arrived" using d(1) k by simp
  qed (use sets fresh(1) in auto)
  show "awaited pd' ready' rest tasks" using d(2) new by (auto simp: awaited_tl awaited_def split: option.splits)
  show "of_session s pd' rest" using d(3) new by (auto simp: awaited_tl of_session_def)
  show "distinct arrived" by (rule d(4))
  have same: "pending_keys pd' = pending_keys pd" using new by (auto simp: pending_keys_def)
  show "j \<in> set arrived \<and> (\<exists>m. ?c j = Some (False, s, m))" if "j \<in> pending_keys pd'" for j
  proof -
    have "j \<noteq> k" using d(5) [of j] d(6) [of k] that same k by auto
    then show ?thesis using d(5) [of j] that same by simp
  qed
  show "?c j = None \<and> j \<notin> settled" if "j \<in> set (lane_inbound rest)" for j
    using that d(6) [of j] d(9) k by auto
  show "j \<in> set (lane_inbound rest) \<or> j \<in> snd ` set (lane_queued rest @ ready' @ behind pd') \<or> j \<in> pending_keys pd' \<or> j \<in> settled"
    if "j \<in> set arrived" for j
  proof -
    have all: "set (lane_queued rest @ ready' @ behind pd') = insert (next, k) (set (lane_queued rest @ ready @ behind pd))"
      using sets by auto
    show ?thesis unfolding all same using d(7) [OF that] k by auto
  qed
qed

text \<open>A waiting input is taken from the lane: settled, started, or put behind a pending one.\<close>

lemma awaited_queued:
  "awaited pd ready (QueuedWork i # rest) tasks \<Longrightarrow> awaited pd ready rest tasks"
  "of_session s pd (QueuedWork i # rest) \<longleftrightarrow> qi_session i = s \<and> of_session s pd rest"
  by (auto simp: awaited_def of_session_def split: option.splits)

lemma session_queued_settled:
  assumes ok: "session_ok c next pd ready (QueuedWork i # rest) tasks sent arrived settled s"
    and k: "k = input_key i" and sent: "sent' = sent \<or> sent' = sent @ [k] \<and> behind pd = []"
  shows "session_ok (c(k := None)) next pd ready rest tasks sent' arrived (insert k settled) s"
proof (rule session_okI)
  note d = session_okD [OF ok]
  let ?c = "c(k := None)"
  have asc: "ascending (lane_queued rest @ ready)" "\<forall>x \<in> set (lane_queued rest @ ready). qi_sequence i < fst x"
    "ticket i \<notin> set (behind pd)"
    using d(1) by (auto simp: in_order_def ascending_Cons ticket_def)
  have own: "c k = Some (True, s, qi_sequence i)" using d(8) [of "ticket i"] k by (simp add: ticket_def)
  have kept: "fst x < next \<and> ?c (snd x) = Some (True, s, fst x)" if "x \<in> set (lane_queued rest @ ready) \<union> set (behind pd)" for x
  proof -
    have x: "x \<in> set (lane_queued (QueuedWork i # rest) @ ready @ behind pd)" using that by auto
    have "snd x \<noteq> k"
    proof
      assume "snd x = k"
      then have "x = ticket i" using d(8) [OF x] own k by (cases x) (auto simp: ticket_def)
      then show False using that asc(2,3) by (fastforce simp: ticket_def)
    qed
    then show ?thesis using d(8) [OF x] by simp
  qed
  show "in_order ?c next s (lane_queued rest @ ready) (behind pd) (lane_inbound rest) sent' arrived"
    using sent
  proof
    assume same: "sent' = sent"
    show ?thesis unfolding same
      by (rule in_order_mono [OF d(1)]) (use d(1) asc(1) kept in \<open>auto simp: in_order_def\<close>)
  next
    assume sent': "sent' = sent @ [k] \<and> behind pd = []"
    have "in_order c next s (ticket i # lane_queued rest @ ready) [] (lane_inbound rest) sent arrived" using d(1) sent' by simp
    from in_order_sent [OF this, of "next" ?c] show ?thesis using kept sent' k by (simp add: ticket_def)
  qed
  show "awaited pd ready rest tasks" "of_session s pd rest" using d(2,3) awaited_queued by blast+
  show "distinct arrived" by (rule d(4))
  show "j \<in> set arrived \<and> (\<exists>n. ?c j = Some (False, s, n))" if "j \<in> pending_keys pd" for j
    using d(5) [OF that] own by auto
  show "?c j = None \<and> j \<notin> insert k settled" if "j \<in> set (lane_inbound rest)" for j
    using that d(6) [of j] own by auto
  show "j \<in> set (lane_inbound rest) \<or> j \<in> snd ` set (lane_queued rest @ ready @ behind pd) \<or> j \<in> pending_keys pd \<or> j \<in> insert k settled"
    if "j \<in> set arrived" for j
    using d(7) [OF that] k by (auto simp: ticket_def)
qed

lemma session_queued_started:
  assumes ok: "session_ok c next None ready (QueuedWork i # rest) tasks sent arrived settled s"
    and k: "k = input_key i" and d': "pd_queued d = []" "input_key (pd_input d) = k"
  shows "session_ok (c(k \<mapsto> (False, s, n))) (next + 1) (Some d) ready rest {pd_id d} (sent @ [k]) arrived settled s"
proof (rule session_okI)
  note d = session_okD [OF ok]
  let ?c = "c(k \<mapsto> (False, s, n))"
  have asc: "ascending (lane_queued rest @ ready)" "\<forall>x \<in> set (lane_queued rest @ ready). qi_sequence i < fst x"
    using d(1) by (auto simp: in_order_def ascending_Cons ticket_def)
  have own: "c k = Some (True, s, qi_sequence i)" using d(8) [of "ticket i"] k by (simp add: ticket_def)
  have kept: "fst x < next + 1 \<and> ?c (snd x) = Some (True, s, fst x)" if "x \<in> set (lane_queued rest @ ready)" for x
  proof -
    have x: "x \<in> set (lane_queued (QueuedWork i # rest) @ ready @ behind None)" using that by auto
    have "snd x \<noteq> k"
    proof
      assume "snd x = k"
      then have "fst x = qi_sequence i" using d(8) [OF x] own by auto
      then show False using that asc(2) by fastforce
    qed
    then show ?thesis using d(8) [OF x] by simp
  qed
  have "in_order c next s (ticket i # lane_queued rest @ ready) [] (lane_inbound rest) sent arrived"
    using d(1) by (simp add: behind_def)
  from in_order_sent [OF this, of "next + 1" ?c]
  show "in_order ?c (next + 1) s (lane_queued rest @ ready) (behind (Some d)) (lane_inbound rest) (sent @ [k]) arrived"
    using kept k by (simp add: ticket_def behind_def d'(1))
  show "awaited (Some d) ready rest {pd_id d}" using d(2) by (simp add: awaited_def)
  show "of_session s (Some d) rest" using d(3) d'(1) by (simp add: of_session_def)
  show "distinct arrived" by (rule d(4))
  show "j \<in> set arrived \<and> (\<exists>m. ?c j = Some (False, s, m))" if "j \<in> pending_keys (Some d)" for j
    using that d(8) [of "ticket i"] k d'(2) by (simp add: pending_keys_def ticket_def)
  show "?c j = None \<and> j \<notin> settled" if "j \<in> set (lane_inbound rest)" for j
    using that d(6) [of j] own by auto
  show "j \<in> set (lane_inbound rest) \<or> j \<in> snd ` set (lane_queued rest @ ready @ behind (Some d)) \<or> j \<in> pending_keys (Some d) \<or> j \<in> settled"
    if "j \<in> set arrived" for j
    using d(7) [OF that] k d'(2) by (auto simp: pending_keys_def behind_def ticket_def)
qed

lemma session_queued_waits:
  assumes ok: "session_ok c next (Some d) ready (QueuedWork i # rest) tasks sent arrived settled s"
    and d': "pd_id d' = pd_id d" "pd_input d' = pd_input d" "list_all (\<lambda>i. qi_session i = s) (pd_queued d')"
      "ascending (behind (Some d'))" "set (behind (Some d')) = insert (ticket i) (set (behind (Some d)))"
  shows "session_ok c next (Some d') ready rest tasks sent arrived settled s"
proof (rule session_okI)
  note d = session_okD [OF ok]
  have asc: "ascending (lane_queued rest @ ready)" "\<forall>x \<in> set (lane_queued rest @ ready). qi_sequence i < fst x"
    using d(1) by (auto simp: in_order_def ascending_Cons ticket_def)
  then have "ticket i \<notin> set (lane_queued rest @ ready)" by (fastforce simp: ticket_def)
  then show "in_order c next s (lane_queued rest @ ready) (behind (Some d')) (lane_inbound rest) sent arrived"
    using d(1) d'(4,5) asc(1) by (intro in_order_mono [OF d(1)]) (auto simp: in_order_def)
  show "awaited (Some d') ready rest tasks" using awaited_queued(1) [OF d(2)] d'(1) by (simp add: awaited_def)
  show "of_session s (Some d') rest" using d(3) d'(3) by (simp add: of_session_def)
  show "distinct arrived" by (rule d(4))
  have same: "pending_keys (Some d') = pending_keys (Some d)" using d'(2) by (simp add: pending_keys_def)
  show "j \<in> set arrived \<and> (\<exists>m. c j = Some (False, s, m))" if "j \<in> pending_keys (Some d')" for j
    using d(5) [of j] that same by simp
  show "c j = None \<and> j \<notin> settled" if "j \<in> set (lane_inbound rest)" for j
    using that d(6) [of j] by auto
  show "j \<in> set (lane_inbound rest) \<or> j \<in> snd ` set (lane_queued rest @ ready @ behind (Some d')) \<or> j \<in> pending_keys (Some d') \<or> j \<in> settled"
    if "j \<in> set arrived" for j
  proof -
    have all: "set (lane_queued rest @ ready @ behind (Some d')) = set (lane_queued (QueuedWork i # rest) @ ready @ behind (Some d))"
      using d'(5) by auto
    show ?thesis unfolding all same using d(7) [OF that] by simp
  qed
qed

text \<open>An answer: nothing else waits in the lane, and the followers become ready or are settled.\<close>

lemma session_acknowledged:
  assumes ok: "session_ok c next pd ready (AckWork n # rest) tasks sent arrived settled s"
  obtains d where "pd = Some d" "pd_id d = n" "ready = []" "lane_queued rest = []"
    "\<And>gone ready'. gone = insert (input_key (pd_input d)) (if ready' = [] then snd ` set (behind pd) else {}) \<Longrightarrow>
       ready' = [] \<or> ready' = behind pd \<Longrightarrow>
       session_ok (\<lambda>k. if k \<in> gone then None else c k) next None ready' rest tasks sent arrived (settled \<union> gone) s"
proof -
  note d = session_okD [OF ok]
  obtain p where p: "pd = Some p" "pd_id p = n" "ready = []" "lane_queued rest = []" "tasks = {}" "lane_acks rest = []"
    using d(2) by (cases pd) (auto simp: awaited_def)
  have waits: "lane_queued (AckWork n # rest) @ ready = []" using p by simp
  have inb: "k \<notin> insert (input_key (pd_input p)) (snd ` set (behind pd))" if "k \<in> set (lane_inbound rest)" for k
  proof
    assume "k \<in> insert (input_key (pd_input p)) (snd ` set (behind pd))"
    then consider "k \<in> pending_keys pd" | x where "x \<in> set (behind pd)" "k = snd x"
      using p(1) by (auto simp: pending_keys_def)
    then show False
    proof cases
      case (2 x)
      then have "x \<in> set (lane_queued (AckWork n # rest) @ ready @ behind pd)" by simp
      then show False using d(8) [of x] d(6) [of k] that 2 by simp
    qed (use d(5) [of k] d(6) [of k] that in auto)
  qed
  have own: "c (input_key (pd_input p)) \<noteq> Some (True, s, m)" for m
    using d(5) [of "input_key (pd_input p)"] p(1) by (auto simp: pending_keys_def)
  have "session_ok (\<lambda>k. if k \<in> gone then None else c k) next None ready' rest tasks sent arrived (settled \<union> gone) s"
    if gone: "gone = insert (input_key (pd_input p)) (if ready' = [] then snd ` set (behind pd) else {})"
      and r: "ready' = [] \<or> ready' = behind pd" for gone ready'
  proof (rule session_okI)
    let ?c = "\<lambda>k. if k \<in> gone then None else c k"
    have asc: "ascending ready'" using r d(1) by (auto simp: in_order_def)
    have kept: "fst x < next \<and> ?c (snd x) = Some (True, s, fst x)" if x: "x \<in> set ready'" for x
    proof -
      have x': "x \<in> set (lane_queued (AckWork n # rest) @ ready @ behind pd)" using x r by auto
      have "snd x \<noteq> input_key (pd_input p)" using d(8) [OF x'] own by auto
      then have "snd x \<notin> gone" using gone x by auto
      then show ?thesis using d(8) [OF x'] by simp
    qed
    show "in_order ?c next s (lane_queued rest @ ready') (behind None) (lane_inbound rest) sent arrived"
      by (rule in_order_mono [OF d(1)]) (use r asc kept p in \<open>auto simp: behind_def\<close>)
    show "awaited None ready' rest tasks" using p by (simp add: awaited_def)
    show "of_session s None rest" using d(3) by (simp add: of_session_def)
    show "distinct arrived" by (rule d(4))
    show "j \<in> set arrived \<and> (\<exists>m. ?c j = Some (False, s, m))" if "j \<in> pending_keys None" for j
      using that by (simp add: pending_keys_def)
    show "?c j = None \<and> j \<notin> settled \<union> gone" if "j \<in> set (lane_inbound rest)" for j
      using that d(6) [of j] inb [OF that] gone by (auto split: if_splits)
    show "j \<in> set (lane_inbound rest) \<or> j \<in> snd ` set (lane_queued rest @ ready' @ behind None) \<or> j \<in> pending_keys None
        \<or> j \<in> settled \<union> gone" if "j \<in> set arrived" for j
      using d(7) [OF that] p gone r by (auto simp: pending_keys_def behind_def)
  qed
  then show ?thesis using that p by blast
qed

end
