(* ===== verification/Prompts_Steps.thy ===== *)
theory Prompts_Steps
  imports Prompts_Laws
begin

text \<open>
  The steps of the input queue against the invariant of \<open>Prompts_Laws\<close>: what each operation does to the owned inputs,
  the pending sends and the ready inputs, and the properties of every reachable queue.
\<close>

section \<open>What the operations change\<close>

definition number_of :: "queued_input \<Rightarrow> bool \<times> string \<times> nat" where
  "number_of i = (qi_queued i, qi_session i, qi_sequence i)"

lemma core_alt: "core p k = map_option number_of (map_of (pp_owned p) k)"
  by (simp add: core_def number_of_def [abs_def])

lemma core_forget [simp]: "core (forget_input k p) = (core p)(k := None)"
  by (rule ext) (simp add: core_alt forget_input_def delete_conv')

lemma core_own: "core (p\<lparr>pp_owned := AList.update k i (pp_owned p)\<rparr>) = (core p)(k \<mapsto> number_of i)"
  by (rule ext) (simp add: core_alt update_conv')

lemma core_other [simp]:
  "core (p\<lparr>pp_pending := x\<rparr>) = core p" "core (p\<lparr>pp_ready := r\<rparr>) = core p" "core (p\<lparr>pp_next_id := n\<rparr>) = core p"
  "core (p\<lparr>pp_closed := b\<rparr>) = core p"
  by (rule ext, simp add: core_alt)+

lemma core_change [simp]: "core (change_pending s f p) = core p"
  by (simp add: change_pending_def split: option.split)

lemma core_cancel_matching [simp]: "core (cancel_matching f p) = core p"
proof
  fix k
  show "core (cancel_matching f p) k = core p k"
    by (cases "map_of (pp_owned p) k") (simp_all add: core_alt cancel_matching_def map_of_map number_of_def)
qed

lemma pending_change: "pending_of (change_pending s f p) = (pending_of p)(s := map_option f (pending_of p s))"
  by (rule ext) (simp add: change_pending_def pending_of_def update_conv' split: option.split)

lemma pending_other [simp]:
  "pending_of (p\<lparr>pp_owned := x\<rparr>) = pending_of p" "pending_of (p\<lparr>pp_ready := r\<rparr>) = pending_of p"
  "pending_of (p\<lparr>pp_next_id := n\<rparr>) = pending_of p" "pending_of (p\<lparr>pp_closed := b\<rparr>) = pending_of p"
  "pending_of (forget_input k p) = pending_of p" "pending_of (cancel_matching f p) = pending_of p"
  by (rule ext, simp add: pending_of_def forget_input_def cancel_matching_def)+

lemma change_other [simp]:
  "pp_ready (change_pending s f p) = pp_ready p" "pp_next_id (change_pending s f p) = pp_next_id p"
  by (simp_all add: change_pending_def split: option.split)

lemma forget_other [simp]:
  "pp_ready (forget_input k p) = pp_ready p" "pp_next_id (forget_input k p) = pp_next_id p"
  "pp_pending (forget_input k p) = pp_pending p"
  by (simp_all add: forget_input_def)

lemma cancel_other [simp]:
  "pp_ready (cancel_matching f p) = pp_ready p" "pp_next_id (cancel_matching f p) = pp_next_id p"
  "pp_pending (cancel_matching f p) = pp_pending p"
  by (simp_all add: cancel_matching_def)

lemma change_distinct: "distinct (map fst (pp_pending p)) \<Longrightarrow> distinct (map fst (pp_pending (change_pending s f p)))"
  by (simp add: change_pending_def distinct_update split: option.split)

lemma change_lengths [simp]:
  "length (pp_pending (change_pending s f p)) = length (pp_pending p)" "pp_owned (change_pending s f p) = pp_owned p"
proof -
  have "s \<in> set (map fst (pp_pending p))" if "pending_of p s = Some d" for d
    using map_of_SomeD [OF that [unfolded pending_of_def]] by force
  then have "length (map fst (AList.update s (f d) (pp_pending p))) = length (map fst (pp_pending p))" if "pending_of p s = Some d" for d
    using that by (simp only: update_keys) simp
  then show "length (pp_pending (change_pending s f p)) = length (pp_pending p)" by (simp add: change_pending_def split: option.split)
qed (simp add: change_pending_def split: option.split)

lemma ready_of_simps [simp]:
  "ready_of s (p\<lparr>pp_ready := pp_ready p' @ is\<rparr>) = ready_of s p' @ map ticket (filter (\<lambda>i. qi_session i = s) is)"
  by (simp add: ready_of_def)

lemma ready_of_cong: "pp_ready p' = pp_ready p \<Longrightarrow> ready_of s p' = ready_of s p"
  by (simp add: ready_of_def)

lemma no_waiting:
  assumes "waiting_count s p = 0"
  shows "core p k \<noteq> Some (True, s, n)"
proof
  assume "core p k = Some (True, s, n)"
  then obtain i where i: "map_of (pp_owned p) k = Some i" "qi_queued i" "qi_session i = s" by (auto simp: core_def)
  then have "(k, i) \<in> set (filter (\<lambda>(_, i). qi_queued i \<and> qi_session i = s) (pp_owned p))" by (auto dest: map_of_SomeD)
  then show False using assms by (auto simp: waiting_count_def filter_empty_conv)
qed

section \<open>What a send does\<close>

text \<open>\<open>waits_after\<close>: the input is put behind the pending one of its session, or becomes ready.\<close>

definition waits_after :: "prompts \<Rightarrow> string \<Rightarrow> input_id \<Rightarrow> nat \<Rightarrow> queued_input \<Rightarrow> prompts \<Rightarrow> bool" where
  "waits_after p s k n i p' \<longleftrightarrow>
     input_key i = k \<and> qi_session i = s \<and> qi_sequence i = n \<and> core p' = (core p)(k \<mapsto> (True, s, n))
     \<and> (\<forall>t. t \<noteq> s \<longrightarrow> pending_of p' t = pending_of p t)
     \<and> (distinct (map fst (pp_pending p)) \<longrightarrow> distinct (map fst (pp_pending p')))
     \<and> (distinct (map fst (pp_owned p)) \<longrightarrow> distinct (map fst (pp_owned p')))
     \<and> length (pp_pending p') = length (pp_pending p) \<and> (core p k = None \<longrightarrow> waiting_count s p < max_queued)
     \<and> ((pending_of p s = None \<and> pending_of p' s = None \<and> pp_ready p' = pp_ready p @ [i])
        \<or> (\<exists>d. pending_of p s = Some d \<and> pending_of p' s = Some (d\<lparr>pd_queued := insert_waiting i (pd_queued d)\<rparr>)
             \<and> pp_ready p' = pp_ready p))"

lemma queue_waiting_waits:
  assumes "queue_waiting w c s prompt None event from_queue p = Queued p'"
    and n: "(n, n') = (case map_of (pp_owned p) (cr_channel c, event) of
        Some j \<Rightarrow> (qi_sequence j, pp_next_id p) | None \<Rightarrow> (pp_next_id p, pp_next_id p + 1))"
  shows "\<exists>i. waits_after p s (cr_channel c, event) n i p'" "pp_next_id p' = n'"
    "from_queue \<Longrightarrow> pending_of p s \<noteq> None"
proof -
  let ?k = "(cr_channel c, event)"
  define i where "i = \<lparr>qi_session = s, qi_conversation = c, qi_prompt = prompt, qi_event = event, qi_epoch = w_epoch w,
      qi_generation = w_generation w, qi_queued = True, qi_cancelled = False, qi_sequence = n, qi_reattachment = None\<rparr>"
  define q where "q = p\<lparr>pp_next_id := n', pp_owned := AList.update ?k i (pp_owned p)\<rparr>"
  have p': "p' = (if pending_of q s \<noteq> None
      then change_pending s (\<lambda>pd. pd\<lparr>pd_queued := insert_waiting i (pd_queued pd)\<rparr>) q else q\<lparr>pp_ready := pp_ready q @ [i]\<rparr>)"
    and "\<not> (pending_of p s = None \<and> from_queue)" and few: "core p ?k = None \<Longrightarrow> waiting_count s p < max_queued"
    using assms(1) n
    by (auto simp: queue_waiting_def Let_def q_def i_def core_def split: option.splits if_splits)
  show "pending_of p s \<noteq> None" if from_queue using \<open>\<not> (pending_of p s = None \<and> from_queue)\<close> that by simp
  have q: "core q = (core p)(?k \<mapsto> (True, s, n))" "pending_of q = pending_of p" "pp_ready q = pp_ready p" "pp_pending q = pp_pending p"
    "distinct (map fst (pp_owned p)) \<longrightarrow> distinct (map fst (pp_owned q))"
    using core_own [of ?k i "p\<lparr>pp_next_id := n'\<rparr>"] by (simp_all add: q_def number_of_def i_def distinct_update)
  show "pp_next_id p' = n'" by (simp add: p' q_def)
  have "waits_after p s ?k n i p'"
    unfolding waits_after_def p'
    using q few by (auto simp: i_def input_key_def pending_change intro: change_distinct)
  then show "\<exists>i. waits_after p s ?k n i p'" by blast
qed

text \<open>\<open>starts_after\<close>: the input becomes the pending one of its session.\<close>

definition starts_after :: "prompts \<Rightarrow> string \<Rightarrow> input_id \<Rightarrow> pending \<Rightarrow> prompts \<Rightarrow> bool" where
  "starts_after p s k d p' \<longleftrightarrow>
     pd_queued d = [] \<and> input_key (pd_input d) = k \<and> pp_next_id p' = pp_next_id p + 1 \<and> pp_ready p' = pp_ready p
     \<and> (\<exists>n. core p' = (core p)(k \<mapsto> (False, s, n))) \<and> pending_of p s = None \<and> pending_of p' = (pending_of p)(s \<mapsto> d)
     \<and> (distinct (map fst (pp_pending p)) \<longrightarrow> distinct (map fst (pp_pending p')))
     \<and> (distinct (map fst (pp_owned p)) \<longrightarrow> distinct (map fst (pp_owned p')))
     \<and> length (pp_pending p') \<le> max_pending"

lemma length_update_le: "length (AList.update k v xs) \<le> Suc (length xs)"
  by (induction xs) auto

lemma start_pending_starts:
  assumes "start_pending cards i p = Some p'" "\<not> qi_queued i"
  shows "\<exists>d. starts_after p (qi_session i) (input_key i) d p'"
proof -
  let ?d = "\<lparr>pd_id = pp_next_id p, pd_input = i, pd_observed = None, pd_stop = False, pd_stop_applied = False,
           pd_valid = True, pd_queued = []\<rparr>"
  have p': "p' = p\<lparr>pp_next_id := pp_next_id p + 1, pp_owned := AList.update (input_key i) i (pp_owned p),
        pp_pending := AList.update (qi_session i) ?d (pp_pending p)\<rparr>" and none: "pending_of p (qi_session i) = None" and few: "length (pp_pending p) < max_pending"
    using assms(1) by (auto simp: start_pending_def split: if_splits)
  have "core p' = (core p)(input_key i \<mapsto> (False, qi_session i, qi_sequence i))"
    using core_own [of "input_key i" i "p\<lparr>pp_next_id := pp_next_id p + 1\<rparr>"] assms(2) by (simp add: p' number_of_def core_def)
  moreover have "pending_of p' = (pending_of p)(qi_session i \<mapsto> ?d)"
    by (rule ext) (simp add: p' pending_of_def update_conv')
  ultimately have "starts_after p (qi_session i) (input_key i) ?d p'"
    using none le_trans [OF length_update_le Suc_leI [OF few]] by (auto simp: starts_after_def p' distinct_update)
  then show ?thesis by blast
qed

lemma send_prompt_cases:
  assumes "send_prompt w c s prompt event from_queue p = (r, sent, p')"
  obtains (kept) "p' = p" "\<not> sent" "r \<noteq> SendDeferred"
  | (waits) "r = SendDeferred" "\<not> sent" "queue_waiting w c s prompt None event from_queue p = Queued p'"
  | (direct) "p' = p" "sent" "r \<noteq> SendDeferred" "pending_of p s = None" "from_queue \<or> waiting_count s p = 0"
  | (started) d where "r = SendDeferred" "sent" "starts_after p s (cr_channel c, event) d p'" "from_queue \<or> waiting_count s p = 0"
proof -
  consider (locked) "\<not> w_writable w" | (refused) "w_writable w" "queue_waiting w c s prompt None event from_queue p = Refused"
    | (queued) p2 where "w_writable w" "queue_waiting w c s prompt None event from_queue p = Queued p2"
    | (free) "w_writable w" "queue_waiting w c s prompt None event from_queue p = NotQueued"
    by (cases "queue_waiting w c s prompt None event from_queue p") auto
  then show ?thesis
  proof cases
    case free
    have here: "pending_of p s = None" "from_queue \<or> waiting_count s p = 0"
      using free(2) by (auto simp: queue_waiting_def Let_def split: if_splits option.splits)
    have out: "outcome_of x \<noteq> SendDeferred" for x by (cases x) simp_all
    define i where "i = \<lparr>qi_session = s, qi_conversation = c, qi_prompt = prompt, qi_event = event, qi_epoch = w_epoch w,
         qi_generation = w_generation w, qi_queued = False, qi_cancelled = False, qi_sequence = 0, qi_reattachment = None\<rparr>"
    have eq: "(r, sent, p') = (if w_active_turn w \<or> \<not> w_slow w then (outcome_of (w_result w), True, p)
        else case start_pending (w_cards w) i p of Some q \<Rightarrow> (SendDeferred, True, q) | None \<Rightarrow> (outcome_of (w_result w), True, p))"
      unfolding assms [symmetric] send_prompt_def Let_def i_def using free by simp
    show ?thesis
    proof (cases "w_active_turn w \<or> \<not> w_slow w \<or> start_pending (w_cards w) i p = None")
      case True
      then have "r = outcome_of (w_result w)" "sent" "p' = p" using eq by (auto split: if_splits)
      then show ?thesis using direct here out by simp
    next
      case False
      then obtain p2 where p2: "start_pending (w_cards w) i p = Some p2" by blast
      then have "r = SendDeferred" "sent" "p' = p2" using eq False by auto
      then show ?thesis using started here(2) start_pending_starts [OF p2] by (auto simp: i_def input_key_def)
    qed
  qed (use assms in \<open>auto simp: send_prompt_def intro: kept waits\<close>)
qed

section \<open>Every step keeps the invariant\<close>

lemma sys_ok_idle: "sys_ok idle_system"
  by (auto simp: sys_ok_def sys_session_def session_ok_def in_order_def awaited_def of_session_def idle_system_def no_prompts_def
      core_def pending_of_def ready_of_def behind_def pending_keys_def intro!: exI [of _ "[]"])

lemma sys_okD:
  assumes "sys_ok y"
  shows "sys_session y s" "distinct (map fst (pp_pending (sy_prompts y)))" "distinct (map fst (sy_settled y))"
    "k \<in> set (sy_arrived y s) \<Longrightarrow> k \<in> set (sy_arrived y t) \<Longrightarrow> t = s"
    "core (sy_prompts y) k = Some (q, t, n) \<Longrightarrow> k \<in> set (sy_arrived y t)"
    "k \<in> fst ` set (sy_settled y) \<Longrightarrow> core (sy_prompts y) k = None"
    "k \<in> fst ` set (sy_settled y) \<Longrightarrow> \<exists>t. k \<in> set (sy_arrived y t)"
proof -
  show "sys_session y s" "distinct (map fst (pp_pending (sy_prompts y)))" "distinct (map fst (sy_settled y))"
    using assms by (simp_all add: sys_ok_def)
  have "s \<noteq> t \<longrightarrow> set (sy_arrived y s) \<inter> set (sy_arrived y t) = {}" using assms unfolding sys_ok_def by meson
  then show "k \<in> set (sy_arrived y s) \<Longrightarrow> k \<in> set (sy_arrived y t) \<Longrightarrow> t = s" by blast
  show "core (sy_prompts y) k = Some (q, t, n) \<Longrightarrow> k \<in> set (sy_arrived y t)" using assms unfolding sys_ok_def by meson
  have settled: "\<forall>k \<in> fst ` set (sy_settled y). core (sy_prompts y) k = None \<and> (\<exists>t. k \<in> set (sy_arrived y t))"
    using assms unfolding sys_ok_def by (elim conjE)
  show "core (sy_prompts y) k = None" if "k \<in> fst ` set (sy_settled y)" using bspec [OF settled that] by (rule conjunct1)
  show "\<exists>t. k \<in> set (sy_arrived y t)" if "k \<in> fst ` set (sy_settled y)" using bspec [OF settled that] by (rule conjunct2)
qed

text \<open>A step of the session \<open>s\<close> that changes at most the owner of one of its inputs, or settles it.\<close>

lemma sys_ok_key:
  assumes ok: "sys_ok y" and s: "sys_session y' s" and arr: "sy_arrived y' = sy_arrived y"
    and lanes: "\<And>t. t \<noteq> s \<Longrightarrow> sy_lane y' t = sy_lane y t \<and> sy_tasks y' t = sy_tasks y t \<and> sy_sent y' t = sy_sent y t"
    and views: "\<And>t. t \<noteq> s \<Longrightarrow> pending_of (sy_prompts y') t = pending_of (sy_prompts y) t
        \<and> ready_of t (sy_prompts y') = ready_of t (sy_prompts y)"
    and numbers: "pp_next_id (sy_prompts y) \<le> pp_next_id (sy_prompts y')"
    and gone: "gone \<subseteq> set (sy_arrived y s)" "gone \<inter> fst ` set (sy_settled y) = {}"
    and cores: "\<And>k. k \<notin> gone \<Longrightarrow> core (sy_prompts y') k = core (sy_prompts y) k"
      "\<And>k q t n. k \<in> gone \<Longrightarrow> core (sy_prompts y') k = Some (q, t, n) \<Longrightarrow> t = s"
    and new: "sy_settled y' = sy_settled y @ new" "fst ` set new \<subseteq> gone" "distinct (map fst new)"
      "\<And>k. k \<in> fst ` set new \<Longrightarrow> core (sy_prompts y') k = None"
    and pending: "distinct (map fst (pp_pending (sy_prompts y')))"
  shows "sys_ok y'"
proof (rule sys_ok_step [OF ok s])
  show "pending_of (sy_prompts y') t = pending_of (sy_prompts y) t \<and> ready_of t (sy_prompts y') = ready_of t (sy_prompts y)"
    if "t \<noteq> s" for t by (rule views [OF that])
  show "pp_next_id (sy_prompts y) \<le> pp_next_id (sy_prompts y')" by (rule numbers)
  show "distinct (map fst (pp_pending (sy_prompts y')))" by (rule pending)
  show "sy_lane y' t = sy_lane y t \<and> sy_tasks y' t = sy_tasks y t \<and> sy_sent y' t = sy_sent y t \<and> sy_arrived y' t = sy_arrived y t"
    if "t \<noteq> s" for t
    using lanes [OF that] arr by simp
  show "set (sy_arrived y s) \<subseteq> set (sy_arrived y' s)" by (simp add: arr)
  show "k \<notin> set (sy_arrived y t)" if "k \<in> set (sy_arrived y' s)" "k \<notin> set (sy_arrived y s)" for k t using that arr by simp
  show "core (sy_prompts y') k = core (sy_prompts y) k" if "k \<notin> set (sy_arrived y' s)" for k
    using that gone(1) cores(1) [of k] arr by auto
  show "t = s" if k: "k \<in> set (sy_arrived y' s)" and c: "core (sy_prompts y') k = Some (q, t, n)" for k q t n
  proof (cases "k \<in> gone")
    case False
    then have "k \<in> set (sy_arrived y t)" using sys_okD(5) [OF ok, of k q t n] c cores(1) [OF False] by simp
    then show ?thesis using sys_okD(4) [OF ok, of k s t] k arr by simp
  qed (rule cores(2) [OF _ c])
  show "fst ` set (sy_settled y) \<subseteq> fst ` set (sy_settled y')" using new(1) by auto
  show "fst ` set (sy_settled y') \<subseteq> fst ` set (sy_settled y) \<union> set (sy_arrived y' s)" using new(1,2) gone(1) arr by auto
  have apart: "fst ` set new \<inter> fst ` set (sy_settled y) = {}" using new(2) gone(2) by blast
  have "distinct (map fst (sy_settled y))" using ok by (simp add: sys_ok_def)
  then show "distinct (map fst (sy_settled y'))" using new(1,3) apart by (auto simp: image_Int)
  show "core (sy_prompts y') k = None" if k: "k \<in> fst ` set (sy_settled y')" for k
  proof (cases "k \<in> fst ` set new")
    case False
    then have old: "k \<in> fst ` set (sy_settled y)" using k new(1) by auto
    then have "k \<notin> gone" using gone(2) by blast
    then show ?thesis using sys_okD(6) [OF ok old] cores(1) by simp
  qed (rule new(4))
qed

lemma sys_ok_arrive:
  assumes ok: "sys_ok y" and fresh: "\<forall>t. (cr_channel c, event) \<notin> set (sy_arrived y t)"
  shows "sys_ok (y\<lparr>sy_lane := (sy_lane y)(s := sy_lane y s @ [InboundWork c prompt event]),
                   sy_arrived := (sy_arrived y)(s := sy_arrived y s @ [(cr_channel c, event)])\<rparr>)" (is "sys_ok ?y")
proof (rule sys_ok_step [OF ok, of _ s])
  let ?k = "(cr_channel c, event)"
  have none: "core (sy_prompts y) ?k = None"
  proof (rule ccontr)
    assume "core (sy_prompts y) ?k \<noteq> None"
    then obtain q t n where "core (sy_prompts y) ?k = Some (q, t, n)" by (metis option.exhaust prod_cases3)
    then show False using sys_okD(5) [OF ok] fresh by blast
  qed
  have unsettled: "?k \<notin> fst ` set (sy_settled y)" using sys_okD(7) [OF ok, of ?k] fresh by blast
  have "sys_session y s" using ok by (simp add: sys_ok_def)
  then show "sys_session ?y s"
    using session_arrive [of "core (sy_prompts y)" _ _ _ _ _ _ _ _ s ?k c event prompt] none unsettled fresh
    by (simp add: sys_session_def)
  show "t = s" if "k \<in> set (sy_arrived ?y s)" "core (sy_prompts ?y) k = Some (q, t, n)" for k q t n
  proof -
    have "k \<noteq> ?k" using that(2) none by auto
    then have "k \<in> set (sy_arrived y s)" "k \<in> set (sy_arrived y t)" using that sys_okD(5) [OF ok, of k q t n] by auto
    then show ?thesis by (rule sys_okD(4) [OF ok])
  qed
  have settled: "core (sy_prompts y) k = None" if "k \<in> fst ` set (sy_settled y)" for k
    by (rule sys_okD(6) [OF ok that])
  show "core (sy_prompts ?y) k = None" if "k \<in> fst ` set (sy_settled ?y)" for k using that settled [of k] by simp
  show "distinct (map fst (sy_settled ?y))" "distinct (map fst (pp_pending (sy_prompts ?y)))" using ok by (simp_all add: sys_ok_def)
qed (use fresh in \<open>auto simp: ready_of_def\<close>)

lemma sys_ok_pop:
  assumes ok: "sys_ok y" and r: "pp_ready (sy_prompts y) = i # rest"
  shows "sys_ok (y\<lparr>sy_prompts := (sy_prompts y)\<lparr>pp_ready := rest\<rparr>,
                   sy_lane := (sy_lane y)(qi_session i := sy_lane y (qi_session i) @ [QueuedWork i])\<rparr>)" (is "sys_ok ?y")
proof (rule sys_ok_key [OF ok, of _ "qi_session i" "{}" "[]"])
  have ready: "ready_of (qi_session i) (sy_prompts y) = ticket i # ready_of (qi_session i) (sy_prompts ?y)"
    using r by (simp add: ready_of_def)
  have "sys_session y (qi_session i)" using ok by (simp add: sys_ok_def)
  then show "sys_session ?y (qi_session i)"
    using session_pop [OF _ refl] ready by (simp add: sys_session_def)
qed (use ok r in \<open>auto simp: sys_ok_def ready_of_def\<close>)

lemma sys_ok_answer:
  assumes ok: "sys_ok y" and r: "pp_ready (sy_prompts y) = []" and n: "n \<in> sy_tasks y s"
  shows "sys_ok (y\<lparr>sy_tasks := (sy_tasks y)(s := sy_tasks y s - {n}),
                   sy_lane := (sy_lane y)(s := sy_lane y s @ [AckWork n])\<rparr>)" (is "sys_ok ?y")
proof (rule sys_ok_key [OF ok, of _ s "{}" "[]"])
  have ready: "ready_of s (sy_prompts y) = []" using r by (simp add: ready_of_def)
  have "sys_session y s" using ok by (simp add: sys_ok_def)
  then show "sys_session ?y s"
    using session_answer [OF _ n] ready by (simp add: sys_session_def)
qed (use ok in \<open>auto simp: sys_ok_def\<close>)

text \<open>Cancelling, invalidating, stopping, adopting a turn and closing change only flags.\<close>

definition pending_view :: "pending \<Rightarrow> nat \<times> queued_input \<times> queued_input list" where
  "pending_view d = (pd_id d, pd_input d, pd_queued d)"

definition flags_only :: "prompts \<Rightarrow> prompts \<Rightarrow> bool" where
  "flags_only p p' \<longleftrightarrow> core p' = core p \<and> pp_next_id p' = pp_next_id p \<and> pp_ready p' = pp_ready p
     \<and> (distinct (map fst (pp_pending p)) \<longrightarrow> distinct (map fst (pp_pending p')))
     \<and> (\<forall>t. map_option pending_view (pending_of p' t) = map_option pending_view (pending_of p t))"

lemma flags_only_change:
  assumes "core p' = core p" "pp_next_id p' = pp_next_id p" "pp_ready p' = pp_ready p" "pp_pending p' = pp_pending p"
    "\<And>d. pending_view (f d) = pending_view d"
  shows "flags_only p p'" "flags_only p (change_pending s f p')"
proof -
  have same: "pending_of p' = pending_of p" by (rule ext) (simp add: pending_of_def assms)
  then show "flags_only p p'" using assms by (simp add: flags_only_def)
  show "flags_only p (change_pending s f p')"
    using assms same change_distinct [of p' s f]
    by (simp add: flags_only_def pending_change option.map_comp comp_def)
qed

lemma control_flags:
  assumes "p' \<in> {cancel_conversation c p, invalidate s p, snd (request_stop s p), snd (take_stop s p), adopt_turn w s turn p,
      abort_prompts p}"
  shows "flags_only p p'"
proof -
  note change = flags_only_change [of _ p]
  have same: "flags_only p p" by (simp add: flags_only_def)
  have "flags_only p (cancel_conversation c p)" unfolding cancel_conversation_def
    by (rule change(1) [where f = id]) simp_all
  moreover have "flags_only p (invalidate s p)" unfolding invalidate_def
    by (rule change(2)) (simp_all add: pending_view_def)
  moreover have "flags_only p (snd (request_stop s p))" unfolding request_stop_def Let_def snd_conv
    by (rule change(2)) (simp_all add: pending_view_def)
  moreover have "flags_only p (snd (take_stop s p))"
  proof -
    have "flags_only p (change_pending s (\<lambda>pd. pd\<lparr>pd_stop_applied := True\<rparr>) p)"
      by (rule change(2)) (simp_all add: pending_view_def)
    then show ?thesis using same by (simp add: take_stop_def split: option.split)
  qed
  moreover have "flags_only p (adopt_turn w s turn p)"
  proof -
    have "flags_only p (change_pending s (\<lambda>pd. pd\<lparr>pd_observed := Some turn\<rparr>) p)"
      by (rule change(2)) (simp_all add: pending_view_def)
    then show ?thesis using same by (simp add: adopt_turn_def split: option.split)
  qed
  moreover have "flags_only p (abort_prompts p)" unfolding abort_prompts_def
    by (rule change(1) [where f = id]) simp_all
  ultimately show ?thesis using assms by blast
qed

lemma session_flags:
  assumes "map_option pending_view pd' = map_option pending_view pd"
  shows "session_ok c next pd' ready lane tasks sent arrived settled s = session_ok c next pd ready lane tasks sent arrived settled s"
proof -
  consider "pd = None" "pd' = None" | d d' where "pd = Some d" "pd' = Some d'" "pending_view d' = pending_view d"
    using assms by (cases pd; cases pd') auto
  then have "behind pd' = behind pd \<and> pending_keys pd' = pending_keys pd
      \<and> awaited pd' ready lane tasks = awaited pd ready lane tasks \<and> of_session s pd' lane = of_session s pd lane"
    by cases (simp_all add: pending_view_def behind_def pending_keys_def awaited_def of_session_def)
  then show ?thesis by (simp add: session_ok_def)
qed

lemma sys_ok_flags:
  assumes ok: "sys_ok y" and f: "flags_only (sy_prompts y) p'"
  shows "sys_ok (y\<lparr>sy_prompts := p'\<rparr>)"
proof -
  have "\<forall>t. sys_session (y\<lparr>sy_prompts := p'\<rparr>) t"
  proof
    fix t
    show "sys_session (y\<lparr>sy_prompts := p'\<rparr>) t"
    using sys_okD(1) [OF ok, of t] f session_flags [of "pending_of p' t" "pending_of (sy_prompts y) t"]
    by (simp add: sys_session_def flags_only_def ready_of_cong [of p' "sy_prompts y"])
  qed
  moreover have "core p' = core (sy_prompts y)" "distinct (map fst (pp_pending p'))"
    using f sys_okD(2) [OF ok] by (simp_all add: flags_only_def)
  ultimately show ?thesis using ok unfolding sys_ok_def by (simp del: split_paired_All)
qed

text \<open>The front of a lane is taken: what the operation changes at its input, and in its session.\<close>

lemma sys_ok_ran:
  assumes ok: "sys_ok y"
    and k: "k \<in> set (sy_arrived y s)" "k \<notin> fst ` set (sy_settled y)"
    and cores: "core p' = (core (sy_prompts y))(k := v)" "\<And>q t n. v = Some (q, t, n) \<Longrightarrow> t = s"
    and new: "settled = [] \<or> (\<exists>x. settled = [(k, x)]) \<and> v = None"
    and numbers: "pp_next_id (sy_prompts y) \<le> pp_next_id p'"
    and views: "\<And>t. t \<noteq> s \<Longrightarrow> pending_of p' t = pending_of (sy_prompts y) t \<and> ready_of t p' = ready_of t (sy_prompts y)"
    and pending: "distinct (map fst (pp_pending p'))"
    and session: "session_ok (core p') (pp_next_id p') (pending_of p' s) (ready_of s p') rest
        (sy_tasks y s \<union> started s (sy_prompts y) p') (if sent then sy_sent y s @ [k] else sy_sent y s) (sy_arrived y s)
        (fst ` set (sy_settled y @ settled)) s"
  shows "sys_ok (ran s rest k (settled, sent, p') y)" (is "sys_ok ?y")
proof (rule sys_ok_key [OF ok, of _ s "{k}" settled])
  show "sys_session ?y s" using session by (cases sent) (simp_all add: sys_session_def ran_def image_Un)
  show "{k} \<inter> fst ` set (sy_settled y) = {}" using k(2) by simp
  show "core (sy_prompts ?y) j = core (sy_prompts y) j" if "j \<notin> {k}" for j using that cores(1) by (simp add: ran_def)
  show "t = s" if "j \<in> {k}" "core (sy_prompts ?y) j = Some (q, t, n)" for j q t n
    using that cores(2) [of q t n] by (simp add: ran_def cores(1))
  show "fst ` set settled \<subseteq> {k}" "distinct (map fst settled)" using new by auto
  show "core (sy_prompts ?y) j = None" if "j \<in> fst ` set settled" for j using that new by (auto simp: ran_def cores(1))
qed (use k numbers views pending in \<open>auto simp: ran_def\<close>)

lemma waits_session:
  assumes w: "waits_after p s k n i p'" and t: "t \<noteq> s"
  shows "pending_of p' t = pending_of p t" "ready_of t p' = ready_of t p"
proof -
  show "pending_of p' t = pending_of p t" using w t by (simp add: waits_after_def)
  have "qi_session i = s" "pp_ready p' = pp_ready p @ [i] \<or> pp_ready p' = pp_ready p" using w by (auto simp: waits_after_def)
  then show "ready_of t p' = ready_of t p" using t by (auto simp: ready_of_def)
qed

lemma starts_session:
  assumes "starts_after p s k d p'"
  shows "t \<noteq> s \<Longrightarrow> pending_of p' t = pending_of p t" "ready_of t p' = ready_of t p" "started s p p' = {pd_id d}"
    "pending_of p' s = Some d"
  using assms by (auto simp: starts_after_def ready_of_def started_def)

lemma nothing_waits:
  assumes ok: "session_ok (core p) next pd ready lane tasks sent arrived settled s" and "waiting_count s p = 0"
  shows "lane_queued lane @ ready @ behind pd = []"
proof (rule ccontr)
  assume "lane_queued lane @ ready @ behind pd \<noteq> []"
  then obtain x where "x \<in> set (lane_queued lane @ ready @ behind pd)" by (meson last_in_set)
  then show False using session_okD(8) [OF ok] no_waiting [OF assms(2)] by blast
qed

lemma settle_key: "settle k r = [] \<and> r = SendDeferred \<or> (\<exists>x. settle k r = [(k, x)]) \<and> r \<noteq> SendDeferred"
  by (cases r) (simp_all add: settle_def)

lemma waiting_behind:
  assumes "ascending (behind (Some d))" "\<And>x. x \<in> set (behind (Some d)) \<Longrightarrow> fst x \<noteq> qi_sequence i"
  shows "ascending (behind (Some (d\<lparr>pd_queued := insert_waiting i (pd_queued d)\<rparr>)))"
    "set (behind (Some (d\<lparr>pd_queued := insert_waiting i (pd_queued d)\<rparr>))) = insert (ticket i) (set (behind (Some d)))"
    "set (insert_waiting i (pd_queued d)) = insert i (set (pd_queued d))"
proof -
  have "ascending (map ticket (insert_waiting i (pd_queued d))) \<and> set (insert_waiting i (pd_queued d)) = insert i (set (pd_queued d))"
    by (rule insert_waiting_ticket) (use assms(1) assms(2) [of "ticket _"] in \<open>auto simp: behind_def ticket_def\<close>)
  then show "ascending (behind (Some (d\<lparr>pd_queued := insert_waiting i (pd_queued d)\<rparr>)))"
    "set (behind (Some (d\<lparr>pd_queued := insert_waiting i (pd_queued d)\<rparr>))) = insert (ticket i) (set (behind (Some d)))"
    "set (insert_waiting i (pd_queued d)) = insert i (set (pd_queued d))"
    by (simp_all add: behind_def)
qed

lemma sys_ok_inbound:
  assumes ok: "sys_ok y" and lane: "sy_lane y s = InboundWork c prompt event # rest"
  shows "sys_ok (ran s rest (cr_channel c, event) (handle_prompt w c s prompt event (sy_prompts y)) y)"
proof -
  let ?p = "sy_prompts y" and ?k = "(cr_channel c, event)" and ?old = "fst ` set (sy_settled y)"
  have so: "session_ok (core ?p) (pp_next_id ?p) (pending_of ?p s) (ready_of s ?p) (InboundWork c prompt event # rest)
      (sy_tasks y s) (sy_sent y s) (sy_arrived y s) ?old s"
    using sys_okD(1) [OF ok, of s] lane by (simp add: sys_session_def)
  have k: "?k \<in> set (sy_arrived y s)" "?k \<notin> ?old" "core ?p ?k = None" using session_okD(6) [OF so, of ?k] by simp_all
  have pend: "distinct (map fst (pp_pending ?p))" by (rule sys_okD(2) [OF ok])
  obtain r sent p' where send: "send_prompt w c s prompt event False ?p = (r, sent, p')" by (metis prod_cases3)
  then have handle: "handle_prompt w c s prompt event ?p = (settle ?k r, sent, p')" by (simp add: handle_prompt_def)
  note none = nothing_waits [OF so, simplified]
  from send show ?thesis
    unfolding handle
  proof (cases rule: send_prompt_cases)
    case kept
    then obtain x where x: "settle ?k r = [(?k, x)]" using settle_key by metis
    have "session_ok (core ?p) (pp_next_id ?p) (pending_of ?p s) (ready_of s ?p) rest (sy_tasks y s) (sy_sent y s) (sy_arrived y s)
        (insert ?k ?old) s"
      by (rule session_inbound_settled [OF so refl]) simp
    then show "sys_ok (ran s rest ?k (settle ?k r, sent, p') y)"
      using kept k pend by (intro sys_ok_ran [where v = None] ok) (auto simp: x started_def fun_upd_idem)
  next
    case direct
    then obtain x where x: "settle ?k r = [(?k, x)]" using settle_key by metis
    have "session_ok (core ?p) (pp_next_id ?p) (pending_of ?p s) (ready_of s ?p) rest (sy_tasks y s) (sy_sent y s @ [?k]) (sy_arrived y s)
        (insert ?k ?old) s"
      by (rule session_inbound_settled [OF so refl]) (use none direct in auto)
    then show "sys_ok (ran s rest ?k (settle ?k r, sent, p') y)"
      using direct k pend by (intro sys_ok_ran [where v = None] ok) (auto simp: x started_def fun_upd_idem)
  next
    case (started d)
    note st = starts_session [OF started(3)]
    obtain n where core: "core p' = (core ?p)(?k \<mapsto> (False, s, n))" and next_id: "pp_next_id p' = pp_next_id ?p + 1"
      and d: "pd_queued d = []" "input_key (pd_input d) = ?k" "pending_of ?p s = None" and pend': "distinct (map fst (pp_pending p'))"
      using started(3) pend by (auto simp: starts_after_def)
    have idle: "sy_tasks y s = {}" using session_okD(2) [OF so] d(3) by (simp add: awaited_def)
    have "session_ok ((core ?p)(?k \<mapsto> (False, s, n))) (pp_next_id p') (Some d) (ready_of s ?p) rest {pd_id d} (sy_sent y s @ [?k])
        (sy_arrived y s) ?old s"
      by (rule session_inbound_started [OF so [unfolded d(3)] refl _ d(1,2)]) (use none started in auto)
    then show "sys_ok (ran s rest ?k (settle ?k r, sent, p') y)"
      using started k pend' st core next_id idle
      by (intro sys_ok_ran [where v = "Some (False, s, n)"] ok) (auto simp: settle_def)
  next
    case waits
    have fresh: "map_of (pp_owned ?p) ?k = None" using k(3) by (simp add: core_def)
    have "(pp_next_id ?p, pp_next_id ?p + 1) = (case map_of (pp_owned ?p) ?k of
        Some j \<Rightarrow> (qi_sequence j, pp_next_id ?p) | None \<Rightarrow> (pp_next_id ?p, pp_next_id ?p + 1))" by (simp add: fresh)
    note q = queue_waiting_waits [OF waits(3) this]
    obtain i where w: "waits_after ?p s ?k (pp_next_id ?p) i p'" using q(1) by blast
    then have i: "ticket i = (pp_next_id ?p, ?k)" "qi_session i = s" "core p' = (core ?p)(?k \<mapsto> (True, s, pp_next_id ?p))"
      "distinct (map fst (pp_pending p'))"
      using pend by (auto simp: waits_after_def ticket_def)
    have "pending_of ?p s = None \<and> pending_of p' s = None \<and> ready_of s p' = ready_of s ?p @ [(pp_next_id ?p, ?k)]
      \<or> ready_of s p' = ready_of s ?p \<and> (\<exists>d d'. pending_of ?p s = Some d \<and> pending_of p' s = Some d' \<and> pd_id d' = pd_id d
          \<and> pd_input d' = pd_input d \<and> list_all (\<lambda>i. qi_session i = s) (pd_queued d')
          \<and> ascending (behind (pending_of p' s))
          \<and> set (behind (pending_of p' s)) = insert (pp_next_id ?p, ?k) (set (behind (pending_of ?p s))))"
    proof (cases "pending_of ?p s")
      case None
      then show ?thesis using w i by (auto simp: waits_after_def ready_of_def)
    next
      case (Some d)
      have sorted: "ascending (behind (Some d))" using session_okD(1) [OF so] Some by (simp add: in_order_def)
      have new: "fst x \<noteq> qi_sequence i" if "x \<in> set (behind (Some d))" for x
        using session_okD(8) [OF so, of x] that Some i(1) by (auto simp: ticket_def)
      have all: "list_all (\<lambda>i. qi_session i = s) (pd_queued d)" using session_okD(3) [OF so] Some by (simp add: of_session_def)
      show ?thesis using w i Some waiting_behind [OF sorted new] all
        by (auto simp: waits_after_def ready_of_def list_all_iff)
    qed
    from session_inbound_waits [OF so refl this]
    show "sys_ok (ran s rest ?k (settle ?k r, sent, p') y)"
      using waits(1,2) k i q(2) waits_session [OF w] w
      by (intro sys_ok_ran [where v = "Some (True, s, pp_next_id ?p)"] ok) (auto simp: settle_def started_def waits_after_def)
  qed
qed

lemma apply_queued_cases:
  obtains (finished) x sent where "apply_queued_input w i p = ([(input_key i, x)], sent, forget_input (input_key i) p)"
      "sent \<Longrightarrow> pending_of p (qi_session i) = None"
  | (started) d p' where "apply_queued_input w i p = ([], True, p')" "starts_after p (qi_session i) (input_key i) d p'"
  | (waits) p' where "apply_queued_input w i p = ([], False, p')"
      "queue_waiting w (qi_conversation i) (qi_session i) (qi_prompt i) None (qi_event i) True p = Queued p'"
proof -
  let ?cancel = "pp_closed p \<or> (case map_of (pp_owned p) (input_key i) of None \<Rightarrow> True | Some own \<Rightarrow> qi_cancelled own)
      \<or> \<not> is_current w i"
  show ?thesis
  proof (cases ?cancel)
    case True
    then have "apply_queued_input w i p = ([(input_key i, Completed)], False, forget_input (input_key i) p)"
      by (auto simp: apply_queued_input_def cancel_queued_input_def Let_def)
    then show ?thesis by (rule finished) simp
  next
    case False
    obtain r sent p' where send:
      "send_prompt w (qi_conversation i) (qi_session i) (qi_prompt i) (qi_event i) True p = (r, sent, p')" by (metis prod_cases3)
    then have eq: "apply_queued_input w i p
        = (settle (input_key i) r, sent, if r = SendDeferred then p' else forget_input (input_key i) p')"
      using False by (auto simp: apply_queued_input_def Let_def)
    have out: "\<exists>x. settle (input_key i) r = [(input_key i, x)]" if "r \<noteq> SendDeferred" using settle_key that by metis
    from send show ?thesis
    proof (cases rule: send_prompt_cases)
      case kept
      then show ?thesis using out eq finished by auto
    next
      case waits
      then show ?thesis using eq that(3) by (simp add: settle_def)
    next
      case direct
      then show ?thesis using out eq finished by auto
    next
      case (started d)
      then show ?thesis using eq that(2) [of p' d] by (simp add: settle_def input_key_def)
    qed
  qed
qed

lemma sys_ok_waiting:
  assumes ok: "sys_ok y" and lane: "sy_lane y s = QueuedWork i # rest"
  shows "sys_ok (ran s rest (input_key i) (apply_queued_input w i (sy_prompts y)) y)"
proof -
  let ?p = "sy_prompts y" and ?k = "input_key i" and ?old = "fst ` set (sy_settled y)"
  have so: "session_ok (core ?p) (pp_next_id ?p) (pending_of ?p s) (ready_of s ?p) (QueuedWork i # rest)
      (sy_tasks y s) (sy_sent y s) (sy_arrived y s) ?old s"
    using sys_okD(1) [OF ok, of s] lane by (simp add: sys_session_def)
  have s: "qi_session i = s" using session_okD(3) [OF so] by (simp add: of_session_def)
  have k: "?k \<in> set (sy_arrived y s)" "core ?p ?k = Some (True, s, qi_sequence i)"
    using session_okD(8) [OF so, of "ticket i"] by (simp_all add: ticket_def)
  then have unsettled: "?k \<notin> ?old" using sys_okD(6) [OF ok, of ?k] by auto
  have pend: "distinct (map fst (pp_pending ?p))" by (rule sys_okD(2) [OF ok])
  show ?thesis
  proof (cases rule: apply_queued_cases [of w i ?p])
    case (finished x sent)
    have "sent \<longrightarrow> behind (pending_of ?p s) = []" using finished(2) s by (auto simp: behind_def)
    then have "session_ok ((core ?p)(?k := None)) (pp_next_id ?p) (pending_of ?p s) (ready_of s ?p) rest (sy_tasks y s)
        (if sent then sy_sent y s @ [?k] else sy_sent y s) (sy_arrived y s) (insert ?k ?old) s"
      by (intro session_queued_settled [OF so refl]) auto
    then show ?thesis
      unfolding finished(1) using k unsettled pend
      by (intro sys_ok_ran [where v = None] ok) (auto simp: started_def ready_of_def split: option.splits)
  next
    case (started d p')
    note st = starts_session [OF started(2) [unfolded s]]
    obtain n where core: "core p' = (core ?p)(?k \<mapsto> (False, s, n))" and next_id: "pp_next_id p' = pp_next_id ?p + 1"
      and d: "pd_queued d = []" "input_key (pd_input d) = ?k" "pending_of ?p s = None" and pend': "distinct (map fst (pp_pending p'))"
      using started(2) s pend by (auto simp: starts_after_def)
    have idle: "sy_tasks y s = {}" using session_okD(2) [OF so] d(3) by (simp add: awaited_def)
    have "session_ok ((core ?p)(?k \<mapsto> (False, s, n))) (pp_next_id ?p + 1) (Some d) (ready_of s ?p) rest {pd_id d}
        (sy_sent y s @ [?k]) (sy_arrived y s) ?old s"
      by (rule session_queued_started [OF so [unfolded d(3)] refl d(1,2)])
    then show ?thesis
      unfolding started(1) using k unsettled pend' st core next_id idle
      by (intro sys_ok_ran [where v = "Some (False, s, n)"] ok) auto
  next
    case (waits p')
    obtain j where j: "map_of (pp_owned ?p) ?k = Some j" "qi_sequence j = qi_sequence i"
      using k(2) by (auto simp: core_def)
    have "(qi_sequence i, pp_next_id ?p) = (case map_of (pp_owned ?p) (cr_channel (qi_conversation i), qi_event i) of
        Some j \<Rightarrow> (qi_sequence j, pp_next_id ?p) | None \<Rightarrow> (pp_next_id ?p, pp_next_id ?p + 1))"
      using j by (simp add: input_key_def)
    note q = queue_waiting_waits [OF waits(2) [unfolded s] this, folded input_key_def]
    obtain i' where w: "waits_after ?p s ?k (qi_sequence i) i' p'" using q(1) by blast
    obtain d where d: "pending_of ?p s = Some d" using q(3) by blast
    have i: "ticket i' = ticket i" "qi_session i' = s" "core p' = core ?p"
      "distinct (map fst (pp_pending p'))" "ready_of s p' = ready_of s ?p"
      "pending_of p' s = Some (d\<lparr>pd_queued := insert_waiting i' (pd_queued d)\<rparr>)"
      using w pend d k(2) by (auto simp: waits_after_def ticket_def fun_upd_idem ready_of_def)
    have sorted: "ascending (behind (Some d))" using session_okD(1) [OF so] d by (simp add: in_order_def)
    have new: "fst x \<noteq> qi_sequence i'" if x: "x \<in> set (behind (Some d))" for x
    proof
      assume same: "fst x = qi_sequence i'"
      have "ticket i \<notin> set (behind (Some d))" using session_okD(1) [OF so] d by (auto simp: in_order_def)
      then have "x \<noteq> ticket i" using x by blast
      obtain order where o: "ascending order" "set order = set (lane_queued (QueuedWork i # rest) @ ready_of s ?p) \<union> set (behind (Some d))"
        using session_okD(1) [OF so] d by (auto simp: in_order_def)
      then have "x \<in> set order" "ticket i \<in> set order" using x by auto
      moreover have "fst x = fst (ticket i)" using same i(1) by (simp add: ticket_def)
      ultimately show False using o(1) \<open>x \<noteq> ticket i\<close> unfolding ascending_def
        by (metis in_set_conv_nth linorder_neqE_nat nat_less_le sorted_wrt_iff_nth_less)
    qed
    have all: "list_all (\<lambda>i. qi_session i = s) (pd_queued d)" using session_okD(3) [OF so] d by (simp add: of_session_def)
    have "session_ok (core ?p) (pp_next_id ?p) (pending_of p' s) (ready_of s ?p) rest (sy_tasks y s) (sy_sent y s) (sy_arrived y s) ?old s"
      unfolding i(6)
      by (rule session_queued_waits [OF so [unfolded d]])
        (use waiting_behind [OF sorted new] all i in \<open>auto simp: list_all_iff\<close>)
    then show ?thesis
      unfolding waits(1) using k unsettled i q(2) d waits_session [OF w]
      by (intro sys_ok_ran [where v = "core ?p ?k"] ok) (auto simp: started_def)
  qed
qed

lemma fold_forget:
  "core (fold (\<lambda>i. forget_input (input_key i)) qs p) = (\<lambda>k. if k \<in> input_key ` set qs then None else core p k)"
  "pp_ready (fold (\<lambda>i. forget_input (input_key i)) qs p) = pp_ready p"
  "pp_pending (fold (\<lambda>i. forget_input (input_key i)) qs p) = pp_pending p"
  "pp_next_id (fold (\<lambda>i. forget_input (input_key i)) qs p) = pp_next_id p"
  by (induction qs arbitrary: p) (simp_all add: fun_eq_iff)

lemma acknowledge_known:
  assumes "pending_of p s = Some d" "acknowledge w s (pd_id d) p = (settled, p')"
  obtains x transferred cancelled where
    "transferred = pd_queued d \<and> cancelled = [] \<or> transferred = [] \<and> cancelled = pd_queued d"
    "settled = (input_key (pd_input d), x) # map (\<lambda>i. (input_key i, Completed)) cancelled"
    "core p' = (\<lambda>k. if k \<in> insert (input_key (pd_input d)) (input_key ` set cancelled) then None else core p k)"
    "pp_ready p' = pp_ready p @ transferred" "pp_pending p' = AList.delete s (pp_pending p)" "pp_next_id p' = pp_next_id p"
proof -
  have "outcome_of (w_result w) \<noteq> SendDeferred" by (cases "w_result w") simp_all
  then obtain x where x: "settle (input_key (pd_input d)) (outcome_of (w_result w)) = [(input_key (pd_input d), x)]"
    using settle_key by metis
  define transfers where "transfers \<longleftrightarrow> w_result w = AgentOk \<and> pd_valid d \<and> is_current w (pd_input d) \<and> \<not> pd_stop d"
  show ?thesis
  proof (cases transfers)
    case True
    show ?thesis
      by (rule that [of "pd_queued d" "[]" x])
        (use assms True x in \<open>auto simp: acknowledge_def Let_def transfers_def fun_eq_iff\<close>)
  next
    case False
    show ?thesis
      by (rule that [of "[]" "pd_queued d" x])
        (use assms False x in \<open>auto simp: acknowledge_def Let_def transfers_def fun_eq_iff fold_forget split: if_splits\<close>)
  qed
qed

lemma waiting_keys_distinct:
  assumes "ascending xs" "\<forall>x \<in> set xs. c (snd x) = Some (True, s, fst x)"
  shows "distinct (map snd xs)"
  using assms
proof (induction xs)
  case (Cons x xs)
  have "snd y \<noteq> snd x" if "y \<in> set xs" for y
  proof
    assume "snd y = snd x"
    then have "fst y = fst x" using Cons.prems(2) that by (metis list.set_intros option.inject prod.inject)
    then show False using Cons.prems(1) that by (auto simp: ascending_Cons)
  qed
  then have "snd x \<notin> snd ` set xs" by (metis imageE)
  then show ?case using Cons by (simp add: ascending_Cons)
qed simp

lemma sys_ok_acknowledged:
  assumes ok: "sys_ok y" and lane: "sy_lane y s = AckWork ident # rest"
    and ack: "acknowledge w s ident (sy_prompts y) = (settled, p')"
  shows "sys_ok (y\<lparr>sy_prompts := p', sy_lane := (sy_lane y)(s := rest), sy_settled := sy_settled y @ settled\<rparr>)" (is "sys_ok ?y")
proof -
  let ?p = "sy_prompts y" and ?old = "fst ` set (sy_settled y)"
  have so: "session_ok (core ?p) (pp_next_id ?p) (pending_of ?p s) (ready_of s ?p) (AckWork ident # rest)
      (sy_tasks y s) (sy_sent y s) (sy_arrived y s) ?old s"
    using sys_okD(1) [OF ok, of s] lane by (simp add: sys_session_def)
  obtain d where d: "pending_of ?p s = Some d" "pd_id d = ident" "ready_of s ?p = []" "lane_queued rest = []"
    and step: "\<And>gone ready'. gone = insert (input_key (pd_input d)) (if ready' = [] then snd ` set (behind (pending_of ?p s)) else {}) \<Longrightarrow>
       ready' = [] \<or> ready' = behind (pending_of ?p s) \<Longrightarrow>
       session_ok (\<lambda>k. if k \<in> gone then None else core ?p k) (pp_next_id ?p) None ready' rest (sy_tasks y s) (sy_sent y s) (sy_arrived y s)
         (?old \<union> gone) s"
    by (rule session_acknowledged [OF so]) blast
  obtain x transferred cancelled where
    parts: "transferred = pd_queued d \<and> cancelled = [] \<or> transferred = [] \<and> cancelled = pd_queued d"
    and p': "settled = (input_key (pd_input d), x) # map (\<lambda>i. (input_key i, Completed)) cancelled"
      "core p' = (\<lambda>k. if k \<in> insert (input_key (pd_input d)) (input_key ` set cancelled) then None else core ?p k)"
      "pp_ready p' = pp_ready ?p @ transferred" "pp_pending p' = AList.delete s (pp_pending ?p)" "pp_next_id p' = pp_next_id ?p"
    by (rule acknowledge_known [OF d(1) ack [folded d(2)]])
  define gone where "gone = insert (input_key (pd_input d)) (input_key ` set cancelled)"
  have queued: "\<forall>i \<in> set (pd_queued d). qi_session i = s" using session_okD(3) [OF so] d(1) by (simp add: of_session_def list_all_iff)
  have pending': "pending_of p' = (pending_of ?p)(s := None)" by (rule ext) (simp add: pending_of_def p'(4) delete_conv')
  have ready': "ready_of t p' = ready_of t ?p @ (if t = s then map ticket transferred else [])" for t
    using queued parts by (auto simp: ready_of_def p'(3) filter_empty_conv filter_id_conv)
  have tickets: "x \<in> set (behind (pending_of ?p s)) \<Longrightarrow> core ?p (snd x) = Some (True, s, fst x) \<and> snd x \<in> set (sy_arrived y s)" for x
    using session_okD(8) [OF so, of x] by simp
  have followers: "core ?p (input_key i) = Some (True, s, qi_sequence i) \<and> input_key i \<in> set (sy_arrived y s)" if "i \<in> set cancelled" for i
    using tickets [of "ticket i"] that parts d(1) by (auto simp: behind_def ticket_def)
  have own: "input_key (pd_input d) \<in> set (sy_arrived y s)" "\<exists>n. core ?p (input_key (pd_input d)) = Some (False, s, n)"
    using session_okD(5) [OF so, of "input_key (pd_input d)"] d(1) by (simp_all add: pending_keys_def)
  have known: "k \<in> set (sy_arrived y s) \<and> core ?p k \<noteq> None" if k: "k \<in> gone" for k
  proof (cases "k = input_key (pd_input d)")
    case False
    then obtain i where "i \<in> set cancelled" "k = input_key i" using k by (auto simp: gone_def)
    then show ?thesis using followers by simp
  qed (use own in auto)
  have asc: "ascending (behind (pending_of ?p s))" using session_okD(1) [OF so] by (simp add: in_order_def)
  have "distinct (map snd (behind (pending_of ?p s)))" by (rule waiting_keys_distinct [OF asc, of "core ?p" s]) (simp add: tickets)
  then have keys: "distinct (map input_key cancelled)" using parts d(1) by (auto simp: behind_def ticket_def comp_def)
  have other: "input_key (pd_input d) \<notin> input_key ` set cancelled"
  proof
    assume "input_key (pd_input d) \<in> input_key ` set cancelled"
    then show False using own(2) followers by fastforce
  qed
  have session: "sys_session ?y s"
  proof -
    have "gone = insert (input_key (pd_input d)) (if map ticket transferred = [] then snd ` set (behind (pending_of ?p s)) else {})"
      using parts d(1) by (auto simp: gone_def behind_def ticket_def image_image)
    from step [OF this] have "session_ok (\<lambda>k. if k \<in> gone then None else core ?p k) (pp_next_id ?p) None (map ticket transferred) rest
        (sy_tasks y s) (sy_sent y s) (sy_arrived y s) (?old \<union> gone) s"
      using parts d(1) by (auto simp: behind_def)
    moreover have "fst ` set (sy_settled y @ settled) = ?old \<union> gone" using p'(1) by (auto simp: gone_def image_Un image_image)
    ultimately show ?thesis using p' pending' ready' d(3) by (simp add: sys_session_def gone_def)
  qed
  show ?thesis
  proof (rule sys_ok_key [OF ok session, of gone settled])
    show "gone \<subseteq> set (sy_arrived y s)" using known by blast
    show "gone \<inter> ?old = {}" using known sys_okD(6) [OF ok] by blast
    show "core (sy_prompts ?y) k = core ?p k" if "k \<notin> gone" for k using that p'(2) by (simp add: gone_def)
    show "t = s" if "k \<in> gone" "core (sy_prompts ?y) k = Some (q, t, n)" for k q t n
      using that p'(2) by (simp add: gone_def)
    show "fst ` set settled \<subseteq> gone" using p'(1) by (auto simp: gone_def)
    show "distinct (map fst settled)" using p'(1) keys other by (simp add: comp_def)
    show "core (sy_prompts ?y) k = None" if "k \<in> fst ` set settled" for k using that p'(1,2) by auto
    show "distinct (map fst (pp_pending (sy_prompts ?y)))" using sys_okD(2) [OF ok] p'(4) by (simp add: distinct_delete)
  qed (use pending' ready' p'(5) in auto)
qed

lemma prompt_step_ok: "prompt_step y y' \<Longrightarrow> sys_ok y \<Longrightarrow> sys_ok y'"
  by (induction rule: prompt_step.induct)
    (auto intro: sys_ok_arrive sys_ok_pop sys_ok_answer sys_ok_inbound sys_ok_waiting sys_ok_acknowledged sys_ok_flags control_flags)

end
