(* ===== verification/Prompts_Order.thy ===== *)
theory Prompts_Order
  imports Prompts_Steps
begin

text \<open>
  What holds of every reachable input queue: its limits, the order of the sends, and that an input is settled once.
\<close>

section \<open>The limits\<close>

definition waiting_keys :: "string \<Rightarrow> prompts \<Rightarrow> input_id set" where
  "waiting_keys s p = {k. \<exists>n. core p k = Some (True, s, n)}"

definition limited :: "prompts \<Rightarrow> bool" where
  "limited p \<longleftrightarrow> length (pp_pending p) \<le> max_pending \<and> distinct (map fst (pp_owned p))
     \<and> (\<forall>s. waiting_count s p \<le> max_queued)"

lemma waiting_keys_eq:
  assumes "distinct (map fst (pp_owned p))"
  shows "waiting_keys s p = fst ` set (filter (\<lambda>(_, i). qi_queued i \<and> qi_session i = s) (pp_owned p))"
proof -
  have "k \<in> waiting_keys s p \<longleftrightarrow> (\<exists>i. (k, i) \<in> set (pp_owned p) \<and> qi_queued i \<and> qi_session i = s)" for k
    using map_of_eq_Some_iff [OF assms] by (auto simp: waiting_keys_def core_def)
  then show ?thesis by (auto simp: set_eq_iff image_iff simp del: split_paired_All) 
qed

lemma waiting_count_card:
  assumes "distinct (map fst (pp_owned p))"
  shows "waiting_count s p = card (waiting_keys s p)" "finite (waiting_keys s p)"
proof -
  let ?xs = "filter (\<lambda>(_, i). qi_queued i \<and> qi_session i = s) (pp_owned p)"
  have "distinct (map fst ?xs)" using assms by (rule distinct_map_filter)
  then have "card (set (map fst ?xs)) = length (map fst ?xs)" by (rule distinct_card)
  then show "waiting_count s p = card (waiting_keys s p)" using waiting_keys_eq [OF assms] by (simp add: waiting_count_def)
  show "finite (waiting_keys s p)" using waiting_keys_eq [OF assms] by simp
qed

lemma limitedI:
  assumes "limited p" "length (pp_pending p') \<le> max_pending" "distinct (map fst (pp_owned p'))"
    and "\<And>s. waiting_keys s p' \<subseteq> waiting_keys s p"
  shows "limited p'"
proof -
  have d: "distinct (map fst (pp_owned p))" using assms(1) by (simp add: limited_def)
  have "waiting_count s p' \<le> max_queued" for s
  proof -
    have "card (waiting_keys s p') \<le> card (waiting_keys s p)" by (rule card_mono [OF waiting_count_card(2) [OF d] assms(4)])
    moreover have "waiting_count s p \<le> max_queued" using assms(1) by (simp add: limited_def)
    ultimately show ?thesis by (simp add: waiting_count_card(1) [OF d] waiting_count_card(1) [OF assms(3)])
  qed
  then show ?thesis using assms(2,3) by (simp add: limited_def)
qed

lemma limited_same:
  assumes "limited p" "length (pp_pending p') \<le> max_pending" "distinct (map fst (pp_owned p'))" "core p' = core p"
  shows "limited p'"
  by (rule limitedI [OF assms(1-3)]) (simp add: waiting_keys_def assms(4))

lemma limited_forget:
  assumes "limited p"
  shows "limited (forget_input k p)"
proof (rule limitedI [OF assms])
  show "length (pp_pending (forget_input k p)) \<le> max_pending" using assms by (simp add: limited_def)
  show "distinct (map fst (pp_owned (forget_input k p)))" using assms by (simp add: limited_def forget_input_def distinct_delete)
  show "waiting_keys s (forget_input k p) \<subseteq> waiting_keys s p" for s by (auto simp: waiting_keys_def split: if_splits)
qed

lemma limited_starts:
  assumes l: "limited p" and st: "starts_after p s k d p'"
  shows "limited p'"
proof (rule limitedI [OF l])
  obtain n where "core p' = (core p)(k \<mapsto> (False, s, n))" using st by (auto simp: starts_after_def)
  then show "waiting_keys t p' \<subseteq> waiting_keys t p" for t by (auto simp: waiting_keys_def split: if_splits)
qed (use l st in \<open>simp_all add: limited_def starts_after_def\<close>)

lemma limited_waits:
  assumes l: "limited p" and w: "waits_after p s k n i p'" and k: "core p k = None \<or> core p k = Some (True, s, n)"
  shows "limited p'"
proof -
  have d: "distinct (map fst (pp_owned p))" "distinct (map fst (pp_owned p'))" "length (pp_pending p') \<le> max_pending"
    and c: "core p' = (core p)(k \<mapsto> (True, s, n))"
    using l w by (simp_all add: limited_def waits_after_def)
  show ?thesis
  proof (cases "core p k = None")
    case False
    from k have "core p k = Some (True, s, n)"
    proof
      assume "core p k = None"
      with False show ?thesis by (rule notE)
    qed
    then have "core p' = core p" unfolding c by (rule fun_upd_idem)
    then show ?thesis by (rule limited_same [OF l d(3,2)])
  next
    case True
    have keys: "waiting_keys t p' = (if t = s then insert k (waiting_keys t p) else waiting_keys t p)" for t
      using True by (auto simp: waiting_keys_def c)
    have fin: "finite (waiting_keys s p)" and few: "card (waiting_keys s p) < max_queued"
      using w True waiting_count_card [OF d(1)] by (simp_all add: waits_after_def)
    have "waiting_count t p' \<le> max_queued" for t
    proof (cases "t = s")
      case True
      then show ?thesis using fin few keys waiting_count_card(1) [OF d(2)] by (simp add: card_insert_if)
    next
      case False
      then have "waiting_count t p' = waiting_count t p"
        using keys waiting_count_card(1) [OF d(1)] waiting_count_card(1) [OF d(2)] by simp
      then show ?thesis using l by (simp add: limited_def)
    qed
    then show ?thesis using d(2,3) by (simp add: limited_def)
  qed
qed

lemma limited_control:
  assumes l: "limited p" and p': "p' \<in> {cancel_conversation c p, invalidate s p, snd (request_stop s p), snd (take_stop s p),
      adopt_turn w s turn p, abort_prompts p}"
  shows "limited p'"
proof (rule limited_same [OF l])
  have cancel: "map fst (pp_owned (cancel_matching f p)) = map fst (pp_owned p)" for f
    by (simp add: cancel_matching_def comp_def case_prod_beta)
  have "length (pp_pending p') = length (pp_pending p) \<and> map fst (pp_owned p') = map fst (pp_owned p)"
    using p' by (auto simp: cancel_conversation_def invalidate_def request_stop_def take_stop_def adopt_turn_def abort_prompts_def
        cancel Let_def split: option.split)
  then show "length (pp_pending p') \<le> max_pending" "distinct (map fst (pp_owned p'))" using l by (simp_all add: limited_def)
  show "core p' = core p" using control_flags [OF p'] by (simp add: flags_only_def)
qed

lemma limited_inbound:
  assumes l: "limited p" and k: "core p (cr_channel c, event) = None"
    and h: "handle_prompt w c s prompt event p = (settled, sent, p')"
  shows "limited p'"
proof -
  obtain r where "send_prompt w c s prompt event False p = (r, sent, p')"
    using h by (auto simp: handle_prompt_def split: prod.splits)
  then show ?thesis
  proof (cases rule: send_prompt_cases)
    case (started d)
    then show ?thesis using limited_starts [OF l] by blast
  next
    case waits
    obtain n n' where n: "(n, n') = (case map_of (pp_owned p) (cr_channel c, event) of
        Some j \<Rightarrow> (qi_sequence j, pp_next_id p) | None \<Rightarrow> (pp_next_id p, pp_next_id p + 1))" by (metis prod.exhaust)
    then show ?thesis using queue_waiting_waits(1) [OF waits(3) n] limited_waits [OF l] k by blast
  qed (use l in simp_all)
qed

lemma limited_queued:
  assumes l: "limited p" and k: "core p (input_key i) = Some (True, qi_session i, qi_sequence i)"
    and h: "apply_queued_input w i p = (settled, sent, p')"
  shows "limited p'"
proof (cases rule: apply_queued_cases [of w i p])
  case (finished x sent)
  then show ?thesis using h limited_forget [OF l] by simp
next
  case (started d p2)
  then show ?thesis using h limited_starts [OF l] by simp
next
  case (waits p2)
  obtain n' where n: "(qi_sequence i, n') = (case map_of (pp_owned p) (cr_channel (qi_conversation i), qi_event i) of
      Some j \<Rightarrow> (qi_sequence j, pp_next_id p) | None \<Rightarrow> (pp_next_id p, pp_next_id p + 1))"
    using k by (auto simp: core_def input_key_def)
  obtain i' where "waits_after p (qi_session i) (input_key i) (qi_sequence i) i' p2"
    using queue_waiting_waits(1) [OF waits(2) n] by (auto simp: input_key_def)
  then have "limited p2" using limited_waits [OF l] k by blast
  then show ?thesis using h waits(1) by simp
qed

lemma limited_acknowledge:
  assumes l: "limited p" and a: "acknowledge w s ident p = (settled, p')"
  shows "limited p'"
proof -
  have fold: "limited (fold (\<lambda>i. forget_input (input_key i)) qs q)" if "limited q" for qs q
    using that by (induction qs arbitrary: q) (simp_all add: limited_forget)
  have removed: "limited (p\<lparr>pp_pending := AList.delete s (pp_pending p)\<rparr>)"
    by (rule limited_same [OF l]) (use l in \<open>auto simp: limited_def intro: le_trans [OF length_delete_le]\<close>)
  have ready: "limited (q\<lparr>pp_ready := r\<rparr>)" if "limited q" for q r
    by (rule limited_same [OF that]) (use that in \<open>simp_all add: limited_def\<close>)
  show ?thesis
  proof (cases "pending_of p s")
    case (Some d)
    let ?q = "p\<lparr>pp_pending := AList.delete s (pp_pending p)\<rparr>" and ?k = "input_key (pd_input d)"
    have "p' \<in> {p, forget_input ?k (?q\<lparr>pp_ready := pp_ready p @ pd_queued d\<rparr>),
        fold (\<lambda>i. forget_input (input_key i)) (pd_queued d) (forget_input ?k ?q)}"
      using a Some by (auto simp: acknowledge_def Let_def split: if_splits)
    moreover have "limited (forget_input ?k (?q\<lparr>pp_ready := pp_ready p @ pd_queued d\<rparr>))"
      by (intro limited_forget ready removed)
    moreover have "limited (fold (\<lambda>i. forget_input (input_key i)) (pd_queued d) (forget_input ?k ?q))"
      by (intro fold limited_forget removed)
    ultimately show ?thesis using l by blast
  qed (use a l in \<open>simp add: acknowledge_def\<close>)
qed

lemma prompt_step_limited:
  assumes "prompt_step y y'" "sys_ok y" "limited (sy_prompts y)"
  shows "limited (sy_prompts y')"
  using assms
proof (induction rule: prompt_step.induct)
  case (Pop y i rest)
  then show ?case by (intro limited_same [OF Pop.prems(2)]) (simp_all add: limited_def)
next
  case (Inbound y s c prompt event rest w)
  have "core (sy_prompts y) (cr_channel c, event) = None"
    using session_okD(6) [OF sys_okD(1) [OF Inbound.prems(1), of s, unfolded sys_session_def], of "(cr_channel c, event)"]
      Inbound.hyps by simp
  then show ?case using limited_inbound [OF Inbound.prems(2)]
    by (cases "handle_prompt w c s prompt event (sy_prompts y)") (simp add: ran_def)
next
  case (Waiting y s i rest w)
  note so = sys_okD(1) [OF Waiting.prems(1), of s, unfolded sys_session_def]
  have "qi_session i = s" using session_okD(3) [OF so] Waiting.hyps by (simp add: of_session_def)
  then have "core (sy_prompts y) (input_key i) = Some (True, qi_session i, qi_sequence i)"
    using session_okD(8) [OF so, of "ticket i"] Waiting.hyps by (simp add: ticket_def)
  then show ?case using limited_queued [OF Waiting.prems(2)]
    by (cases "apply_queued_input w i (sy_prompts y)") (simp add: ran_def)
next
  case (Acknowledged y s ident rest w settled p')
  then show ?case using limited_acknowledge by simp
next
  case (Control p' c y s w turn)
  then show ?case using limited_control [OF Control.prems(2) Control.hyps] by simp
qed simp_all

lemma prompts_reachable_induct:
  assumes "prompts_reachable y"
  shows "sys_ok y \<and> limited (sy_prompts y)"
proof -
  have "prompt_step\<^sup>*\<^sup>* idle_system y" using assms by (simp add: prompts_reachable_def)
  then show ?thesis
  proof (induction rule: rtranclp_induct)
    case base
    show ?case by (simp add: sys_ok_idle)
      (simp add: limited_def idle_system_def no_prompts_def waiting_count_def)
  next
    case (step y z)
    then show ?case using prompt_step_limited prompt_step_ok by blast
  qed
qed

lemma prompts_within_limits:
  assumes "prompts_reachable y"
  shows "length (pp_pending (sy_prompts y)) \<le> max_pending \<and> waiting_count s (sy_prompts y) \<le> max_queued"
  using prompts_reachable_induct [OF assms] by (simp add: limited_def)

section \<open>A run\<close>

text \<open>Two inputs: the first is slow to be confirmed, the second waits behind it and is sent after the answer.\<close>

definition demo_conversation :: conversation_ref where
  "demo_conversation = \<lparr>cr_channel = Slack, cr_id = ''c''\<rparr>"

definition demo_world :: "bool \<Rightarrow> world" where
  "demo_world slow = \<lparr>w_epoch = 1, w_generation = 1, w_cards = 0, w_receipts_full = False, w_writable = True,
     w_active_turn = False, w_slow = slow, w_result = AgentOk, w_bound = Some ''s''\<rparr>"

fun lane_step :: "world \<Rightarrow> string \<Rightarrow> system \<Rightarrow> system" where
  "lane_step w s y =
     (case sy_lane y s of
        InboundWork c prompt event # rest \<Rightarrow> ran s rest (cr_channel c, event) (handle_prompt w c s prompt event (sy_prompts y)) y
      | QueuedWork i # rest \<Rightarrow> ran s rest (input_key i) (apply_queued_input w i (sy_prompts y)) y
      | AckWork ident # rest \<Rightarrow> (let (settled, p') = acknowledge w s ident (sy_prompts y) in
          y\<lparr>sy_prompts := p', sy_lane := (sy_lane y)(s := rest), sy_settled := sy_settled y @ settled\<rparr>)
      | [] \<Rightarrow> y)"

lemma lane_step_reachable:
  assumes "prompts_reachable y"
  shows "prompts_reachable (lane_step w s y)"
proof (cases "sy_lane y s")
  case (Cons a rest)
  have "prompt_step y (lane_step w s y)"
  proof (cases a)
    case (InboundWork c prompt event)
    then show ?thesis using Cons Inbound by simp
  next
    case (QueuedWork i)
    then show ?thesis using Cons Waiting by simp
  next
    case (AckWork ident)
    obtain settled p' where "acknowledge w s ident (sy_prompts y) = (settled, p')" by (metis prod.exhaust)
    then show ?thesis using Cons AckWork Acknowledged by simp
  qed
  then show ?thesis using assms unfolding prompts_reachable_def by (rule rtranclp.rtrancl_into_rtrancl [rotated])
qed (use assms in simp)

lemma prompts_reachable_step: "prompts_reachable y \<Longrightarrow> prompt_step y y' \<Longrightarrow> prompts_reachable y'"
  unfolding prompts_reachable_def by (rule rtranclp.rtrancl_into_rtrancl)

definition arrive_step :: "string \<Rightarrow> conversation_ref \<Rightarrow> string \<Rightarrow> string \<Rightarrow> system \<Rightarrow> system" where
  "arrive_step s c prompt event y = y\<lparr>sy_lane := (sy_lane y)(s := sy_lane y s @ [InboundWork c prompt event]),
     sy_arrived := (sy_arrived y)(s := sy_arrived y s @ [(cr_channel c, event)])\<rparr>"

definition pop_step :: "system \<Rightarrow> system" where
  "pop_step y = (case pp_ready (sy_prompts y) of [] \<Rightarrow> y
     | i # rest \<Rightarrow> y\<lparr>sy_prompts := (sy_prompts y)\<lparr>pp_ready := rest\<rparr>,
         sy_lane := (sy_lane y)(qi_session i := sy_lane y (qi_session i) @ [QueuedWork i])\<rparr>)"

definition answer_step :: "string \<Rightarrow> nat \<Rightarrow> system \<Rightarrow> system" where
  "answer_step s ident y = (if pp_ready (sy_prompts y) = [] \<and> ident \<in> sy_tasks y s
     then y\<lparr>sy_tasks := (sy_tasks y)(s := sy_tasks y s - {ident}), sy_lane := (sy_lane y)(s := sy_lane y s @ [AckWork ident])\<rparr>
     else y)"

lemma arrive_step_reachable:
  "prompts_reachable y \<Longrightarrow> \<forall>t. (cr_channel c, event) \<notin> set (sy_arrived y t) \<Longrightarrow> prompts_reachable (arrive_step s c prompt event y)"
  unfolding arrive_step_def by (rule prompts_reachable_step [OF _ Arrive])

lemma pop_step_reachable: "prompts_reachable y \<Longrightarrow> prompts_reachable (pop_step y)"
  using prompts_reachable_step [OF _ Pop] by (cases "pp_ready (sy_prompts y)") (simp_all add: pop_step_def)

lemma answer_step_reachable: "prompts_reachable y \<Longrightarrow> prompts_reachable (answer_step s ident y)"
  using prompts_reachable_step [OF _ Answer] by (simp add: answer_step_def)

lemma lane_step_arrived: "sy_arrived (lane_step w s y) = sy_arrived y"
  by (simp add: ran_def split: list.split work.split prod.split)

definition demo_waiting :: system where
  "demo_waiting =
     (let first = lane_step (demo_world True) ''s'' (arrive_step ''s'' demo_conversation ''p1'' ''e1'' idle_system)
      in lane_step (demo_world True) ''s'' (arrive_step ''s'' demo_conversation ''p2'' ''e2'' first))"

definition demo_sent :: system where
  "demo_sent = lane_step (demo_world False) ''s'' (pop_step (lane_step (demo_world True) ''s'' (answer_step ''s'' 0 demo_waiting)))"

lemma demo_reachable: "prompts_reachable demo_waiting" "prompts_reachable demo_sent"
proof -
  have idle: "prompts_reachable idle_system" by (simp add: prompts_reachable_def)
  then show waiting: "prompts_reachable demo_waiting"
    unfolding demo_waiting_def Let_def
    by (intro lane_step_reachable arrive_step_reachable)
      (simp_all add: lane_step_arrived arrive_step_def idle_system_def demo_conversation_def del: lane_step.simps)
  then show "prompts_reachable demo_sent"
    unfolding demo_sent_def by (intro lane_step_reachable pop_step_reachable answer_step_reachable)
qed

lemma demo_values:
  "pp_ready (sy_prompts demo_waiting) = []" "map_option (\<lambda>d. map qi_event (pd_queued d)) (pending_of (sy_prompts demo_waiting) ''s'') = Some [''e2'']"
  "sy_sent demo_waiting ''s'' = [(Slack, ''e1'')]"
  "sy_sent demo_sent ''s'' = [(Slack, ''e1''), (Slack, ''e2'')]"
  "sy_settled demo_sent = [((Slack, ''e1''), Completed), ((Slack, ''e2''), Completed)]"
  by code_simp+

section \<open>Properties\<close>

text \<open>
  C20: Inputs reach an agent in the order of their arrival, and none twice: the inputs that were sent to a session,
  followed by those that still stand in its lane, are a subsequence of the inputs that arrived for the session, whatever
  is cancelled, stopped, slow, refused or unconfirmed meanwhile.
\<close>

theorem prompts_sent_in_order:
  assumes "prompts_reachable y"
  shows "subseq (sy_sent y s @ lane_inbound (sy_lane y s)) (sy_arrived y s)
    \<and> distinct (sy_sent y s @ lane_inbound (sy_lane y s))"
proof -
  have "sys_session y s" using prompts_reachable_induct [OF assms] by (simp add: sys_okD(1))
  then have so: "session_ok (core (sy_prompts y)) (pp_next_id (sy_prompts y)) (pending_of (sy_prompts y) s) (ready_of s (sy_prompts y))
      (sy_lane y s) (sy_tasks y s) (sy_sent y s) (sy_arrived y s) (fst ` set (sy_settled y)) s" by (simp add: sys_session_def)
  have "subseq (sy_sent y s @ lane_inbound (sy_lane y s)) (sy_arrived y s)"
    using session_okD(1) [OF so] unfolding in_order_def
    by (metis list_emb_append2 subseq_order.order_refl subseq_order.trans list_emb_append_mono)
  then show ?thesis using distinct_subseq session_okD(4) [OF so] by blast
qed

theorem prompts_sent_in_order_witness:
  "sy_sent demo_sent ''s'' = [(Slack, ''e1''), (Slack, ''e2'')]
    \<and> subseq (sy_sent demo_sent ''s'' @ lane_inbound (sy_lane demo_sent ''s'')) (sy_arrived demo_sent ''s'')"
  using prompts_sent_in_order [OF demo_reachable(2), of "''s''"] demo_values(4) by blast

text \<open>
  C27: No input is forgotten and none is settled twice: a settled input is neither owned nor in a lane, and an input that
  arrived for a session is settled, or stands in its lane, is ready, waits behind its pending send, or is that pending
  send.
\<close>

theorem prompts_settled_once:
  assumes "prompts_reachable y"
  shows "distinct (map fst (sy_settled y))
    \<and> fst ` set (sy_settled y) \<inter> (set (lane_inbound (sy_lane y s)) \<union> fst ` set (pp_owned (sy_prompts y))) = {}
    \<and> set (sy_arrived y s) \<subseteq> fst ` set (sy_settled y) \<union> set (lane_inbound (sy_lane y s))
        \<union> snd ` set (lane_queued (sy_lane y s) @ ready_of s (sy_prompts y) @ behind (pending_of (sy_prompts y) s))
        \<union> pending_keys (pending_of (sy_prompts y) s)"
proof -
  have ok: "sys_ok y" using prompts_reachable_induct [OF assms] by simp
  have so: "session_ok (core (sy_prompts y)) (pp_next_id (sy_prompts y)) (pending_of (sy_prompts y) s) (ready_of s (sy_prompts y))
      (sy_lane y s) (sy_tasks y s) (sy_sent y s) (sy_arrived y s) (fst ` set (sy_settled y)) s"
    using sys_okD(1) [OF ok, of s] by (simp add: sys_session_def)
  have unowned: "k \<notin> fst ` set (pp_owned (sy_prompts y))" if "k \<in> fst ` set (sy_settled y)" for k
    using sys_okD(6) [OF ok that] by (simp add: core_def map_of_eq_None_iff)
  have unqueued: "k \<notin> set (lane_inbound (sy_lane y s))" if "k \<in> fst ` set (sy_settled y)" for k
    using session_okD(6) [OF so] that by blast
  show ?thesis
  proof (intro conjI subsetI)
    show "fst ` set (sy_settled y) \<inter> (set (lane_inbound (sy_lane y s)) \<union> fst ` set (pp_owned (sy_prompts y))) = {}"
      using unowned unqueued by blast
  qed (use sys_okD(3) [OF ok] session_okD(7) [OF so] in auto)
qed

theorem prompts_settled_once_witness:
  "sy_settled demo_sent = [((Slack, ''e1''), Completed), ((Slack, ''e2''), Completed)]
    \<and> fst ` set (sy_settled demo_waiting) \<inter> (set (lane_inbound (sy_lane demo_waiting ''s''))
        \<union> fst ` set (pp_owned (sy_prompts demo_waiting))) = {}"
  using prompts_settled_once [OF demo_reachable(1), of "''s''"] demo_values(5) by blast

end
