(* ===== verification/Commands.thy ===== *)
theory Commands
  imports Naming "HOL-Library.Code_Target_Nat"
begin

text \<open>
  The slash commands of the chat channels (\<open>agentix-core/src/command.rs\<close>, the session commands of
  \<open>agentix-domain/src/agent.rs\<close>), and a printer that the parser inverts.
\<close>

section \<open>Commands\<close>

datatype goal_command = GoalShow | GoalSet string | GoalPause | GoalResume | GoalClear

datatype session_command =
    SessionNew
  | SessionCompact
  | SessionFork
  | SessionFast "bool option"
  | SessionClear "string option"
  | SessionExit
  | SessionDiff
  | SessionRename "string option"
  | SessionModel "string option"
  | SessionReasoning "string option"
  | SessionSkills
  | SessionPlan bool "string option"
  | SessionGoal goal_command
  | SessionReview
  | SessionStatus
  | SessionMcp

datatype multiplexer_kind = Rmux | Tmux | Rex

datatype agent_command =
    Help
  | Dashboard
  | Board
  | Jobs
  | Issues "issue_status option" "string option"
  | Issue string
  | IssueNew string
  | Milestones
  | Tasks "string option"
  | Task string
  | Sessions
  | SessionsBackend string
  | Multiplexer multiplexer_kind "string option"
  | Attach string
  | Current
  | Last
  | Detach
  | Stop
  | Queue
  | QueueControl string
  | Steer string
  | Cancel
  | HistoryRecent
  | HistoryOlder
  | HistoryNewer
  | Session session_command

datatype parsed_input = Command agent_command | Prompt string

datatype input_parse_error =
    EmptyInput
  | MissingArgument string
  | UnknownCommand string
  | InvalidHistoryDirection string
  | InvalidPlanMode string
  | InvalidFastMode string
  | InvalidIssueStatus

section \<open>Words\<close>

text \<open>\<open>split_whitespace\<close>, \<open>trim\<close> and \<open>join(" ")\<close> on strings.\<close>

definition words :: "string \<Rightarrow> string list" where
  "words s = map of_chars (split_whitespace (chars s))"

definition trim_chars :: "code_points \<Rightarrow> code_points" where
  "trim_chars cs = rev (dropWhile is_whitespace (rev (dropWhile is_whitespace cs)))"

definition trim :: "string \<Rightarrow> string" where
  "trim s = of_chars (trim_chars (chars s))"

fun unwords :: "string list \<Rightarrow> string" where
  "unwords [] = []"
| "unwords [w] = w"
| "unwords (w # ws) = w @ '' '' @ unwords ws"

definition optional_remainder :: "string list \<Rightarrow> string option" where
  "optional_remainder parts = (let value = unwords parts in if value = [] then None else Some value)"

definition first_word :: "string list \<Rightarrow> string option" where
  "first_word parts = (case parts of [] \<Rightarrow> None | w # _ \<Rightarrow> Some w)"

section \<open>The parser\<close>

definition upper_ascii :: "string \<Rightarrow> string" where
  "upper_ascii s = map (\<lambda>c. char_of (ascii_upper (byte c))) s"

definition issue_filter :: "string \<Rightarrow> issue_status option option" where
  "issue_filter w =
     (let u = upper_ascii w in
      if u = ''ALL'' then Some None
      else map_option Some (find (\<lambda>st. issue_status_text st = u) issue_status_all))"

definition issue_milestone :: "issue_status option \<Rightarrow> string list \<Rightarrow> input_parse_error + agent_command" where
  "issue_milestone status parts =
     (case parts of
        [] \<Rightarrow> Inr (Issues status None)
      | [flag, m] \<Rightarrow> if flag = ''--milestone'' then Inr (Issues status (Some m)) else Inl InvalidIssueStatus
      | _ \<Rightarrow> Inl InvalidIssueStatus)"

definition parse_issues :: "string list \<Rightarrow> input_parse_error + agent_command" where
  "parse_issues parts =
     (case parts of
        [] \<Rightarrow> issue_milestone None []
      | w # rest \<Rightarrow>
          if w = ''--milestone'' then issue_milestone None parts
          else case issue_filter w of None \<Rightarrow> Inl InvalidIssueStatus | Some status \<Rightarrow> issue_milestone status rest)"

definition parse_plan :: "string \<Rightarrow> agent_command" where
  "parse_plan argument =
     (if argument \<in> {'''', ''on'', ''plan''} then Session (SessionPlan True None)
      else if argument \<in> {''off'', ''default''} then Session (SessionPlan False None)
      else Session (SessionPlan True (Some argument)))"

definition parse_goal :: "string \<Rightarrow> agent_command" where
  "parse_goal argument =
     Session (SessionGoal
       (if argument = '''' then GoalShow
        else if argument = ''pause'' then GoalPause
        else if argument = ''resume'' then GoalResume
        else if argument = ''clear'' then GoalClear
        else GoalSet argument))"

definition issue_usage :: string where
  "issue_usage = ''/issue <id> or /issue new -title \"Title\" [-type <type>] [description]''"

definition parse_issue :: "string \<Rightarrow> input_parse_error + agent_command" where
  "parse_issue argument =
     (if argument = ''new'' \<or> argument = '''' then Inl (MissingArgument issue_usage)
      else case strip_prefix ''new'' argument of
        Some tail \<Rightarrow>
          (case chars tail of
             c # _ \<Rightarrow>
               if is_whitespace c then Inr (IssueNew (trim tail))
               else if length (words argument) = 1 then Inr (Issue argument) else Inl (MissingArgument issue_usage)
           | [] \<Rightarrow> if length (words argument) = 1 then Inr (Issue argument) else Inl (MissingArgument issue_usage))
      | None \<Rightarrow> if length (words argument) = 1 then Inr (Issue argument) else Inl (MissingArgument issue_usage))"

definition required_word :: "string \<Rightarrow> (string \<Rightarrow> agent_command) \<Rightarrow> string list \<Rightarrow> input_parse_error + agent_command" where
  "required_word usage f parts = (case parts of [] \<Rightarrow> Inl (MissingArgument usage) | w # _ \<Rightarrow> Inr (f w))"

definition parse_fast :: "string list \<Rightarrow> input_parse_error + agent_command" where
  "parse_fast parts =
     (case first_word parts of
        None \<Rightarrow> Inr (Session (SessionFast None))
      | Some w \<Rightarrow>
          if w = ''on'' then Inr (Session (SessionFast (Some True)))
          else if w = ''off'' then Inr (Session (SessionFast (Some False)))
          else Inl (InvalidFastMode w))"

definition parse_history :: "string list \<Rightarrow> input_parse_error + agent_command" where
  "parse_history parts =
     (case first_word parts of
        None \<Rightarrow> Inr HistoryRecent
      | Some w \<Rightarrow>
          if w = ''recent'' then Inr HistoryRecent
          else if w = ''older'' then Inr HistoryOlder
          else if w = ''newer'' then Inr HistoryNewer
          else Inl (InvalidHistoryDirection w))"

definition parse_queue :: "string list \<Rightarrow> input_parse_error + agent_command" where
  "parse_queue parts =
     (case first_word parts of
        None \<Rightarrow> Inr Queue
      | Some w \<Rightarrow>
          if w \<in> {''resume'', ''clear''} then Inr (QueueControl w) else Inl (UnknownCommand (''/queue '' @ w)))"

text \<open>The table of \<open>parse_input\<close>: the command word, the whole trimmed input after it, and the words after it.\<close>

definition parse_command :: "string \<Rightarrow> string \<Rightarrow> string \<Rightarrow> string list \<Rightarrow> input_parse_error + agent_command" where
  "parse_command raw command argument parts =
     (if command = ''/help'' then Inr Help
      else if command = ''/dashboard'' then Inr Dashboard
      else if command = ''/board'' then Inr Board
      else if command = ''/jobs'' then Inr Jobs
      else if command = ''/issues'' then parse_issues parts
      else if command = ''/milestones'' \<and> parts = [] then Inr Milestones
      else if command = ''/issue'' then parse_issue argument
      else if command = ''/tasks'' then Inr (Tasks (first_word parts))
      else if command = ''/task'' then required_word ''/task <id>'' Task parts
      else if command = ''/sessions'' then Inr (case first_word parts of None \<Rightarrow> Sessions | Some kind \<Rightarrow> SessionsBackend kind)
      else if command = ''/rmux'' then Inr (Multiplexer Rmux (first_word parts))
      else if command = ''/tmux'' then Inr (Multiplexer Tmux (first_word parts))
      else if command = ''/rex'' then Inr (Multiplexer Rex (first_word parts))
      else if command = ''/attach'' then required_word ''/attach <thread-id>'' Attach parts
      else if command = ''/current'' then Inr Current
      else if command = ''/last'' then Inr Last
      else if command = ''/detach'' then Inr Detach
      else if command = ''/stop'' then Inr Stop
      else if command = ''/steer'' then
        (case optional_remainder parts of None \<Rightarrow> Inl (MissingArgument ''/steer <text>'') | Some t \<Rightarrow> Inr (Steer t))
      else if command = ''/queue'' then parse_queue parts
      else if command = ''/cancel'' then Inr Cancel
      else if command = ''/new'' \<and> parts = [] then Inr (Session SessionNew)
      else if command = ''/compact'' then Inr (Session SessionCompact)
      else if command = ''/fork'' then Inr (Session SessionFork)
      else if command = ''/fast'' then parse_fast parts
      else if command = ''/clear'' then Inr (Session (SessionClear (optional_remainder parts)))
      else if command = ''/exit'' then Inr (Session SessionExit)
      else if command = ''/diff'' then Inr (Session SessionDiff)
      else if command = ''/rename'' then Inr (Session (SessionRename (optional_remainder parts)))
      else if command = ''/model'' then Inr (Session (SessionModel (first_word parts)))
      else if command = ''/reasoning'' then Inr (Session (SessionReasoning (first_word parts)))
      else if command = ''/skills'' then Inr (Session SessionSkills)
      else if command = ''/plan'' then Inr (parse_plan (unwords parts))
      else if command = ''/goal'' then Inr (parse_goal (unwords parts))
      else if command = ''/review'' then Inr (Session SessionReview)
      else if command = ''/status'' then Inr (Session SessionStatus)
      else if command = ''/mcp'' then Inr (Session SessionMcp)
      else if command = ''/history'' then parse_history parts
      else Inl (UnknownCommand raw))"

text \<open>The rows of the table.\<close>

lemma parse_rows:
  "parse_command raw ''/help'' argument parts = Inr Help"
  "parse_command raw ''/dashboard'' argument parts = Inr Dashboard"
  "parse_command raw ''/board'' argument parts = Inr Board"
  "parse_command raw ''/jobs'' argument parts = Inr Jobs"
  "parse_command raw ''/issues'' argument parts = parse_issues parts"
  "parse_command raw ''/milestones'' argument [] = Inr Milestones"
  "parse_command raw ''/issue'' argument parts = parse_issue argument"
  "parse_command raw ''/tasks'' argument parts = Inr (Tasks (first_word parts))"
  "parse_command raw ''/task'' argument parts = required_word ''/task <id>'' Task parts"
  "parse_command raw ''/sessions'' argument parts = Inr (case first_word parts of None \<Rightarrow> Sessions | Some kind \<Rightarrow> SessionsBackend kind)"
  "parse_command raw ''/rmux'' argument parts = Inr (Multiplexer Rmux (first_word parts))"
  "parse_command raw ''/tmux'' argument parts = Inr (Multiplexer Tmux (first_word parts))"
  "parse_command raw ''/rex'' argument parts = Inr (Multiplexer Rex (first_word parts))"
  "parse_command raw ''/attach'' argument parts = required_word ''/attach <thread-id>'' Attach parts"
  "parse_command raw ''/current'' argument parts = Inr Current"
  "parse_command raw ''/last'' argument parts = Inr Last"
  "parse_command raw ''/detach'' argument parts = Inr Detach"
  "parse_command raw ''/stop'' argument parts = Inr Stop"
  "parse_command raw ''/steer'' argument parts = (case optional_remainder parts of None \<Rightarrow> Inl (MissingArgument ''/steer <text>'') | Some t \<Rightarrow> Inr (Steer t))"
  "parse_command raw ''/queue'' argument parts = parse_queue parts"
  "parse_command raw ''/cancel'' argument parts = Inr Cancel"
  "parse_command raw ''/new'' argument [] = Inr (Session SessionNew)"
  "parse_command raw ''/compact'' argument parts = Inr (Session SessionCompact)"
  "parse_command raw ''/fork'' argument parts = Inr (Session SessionFork)"
  "parse_command raw ''/fast'' argument parts = parse_fast parts"
  "parse_command raw ''/clear'' argument parts = Inr (Session (SessionClear (optional_remainder parts)))"
  "parse_command raw ''/exit'' argument parts = Inr (Session SessionExit)"
  "parse_command raw ''/diff'' argument parts = Inr (Session SessionDiff)"
  "parse_command raw ''/rename'' argument parts = Inr (Session (SessionRename (optional_remainder parts)))"
  "parse_command raw ''/model'' argument parts = Inr (Session (SessionModel (first_word parts)))"
  "parse_command raw ''/reasoning'' argument parts = Inr (Session (SessionReasoning (first_word parts)))"
  "parse_command raw ''/skills'' argument parts = Inr (Session SessionSkills)"
  "parse_command raw ''/plan'' argument parts = Inr (parse_plan (unwords parts))"
  "parse_command raw ''/goal'' argument parts = Inr (parse_goal (unwords parts))"
  "parse_command raw ''/review'' argument parts = Inr (Session SessionReview)"
  "parse_command raw ''/status'' argument parts = Inr (Session SessionStatus)"
  "parse_command raw ''/mcp'' argument parts = Inr (Session SessionMcp)"
  "parse_command raw ''/history'' argument parts = parse_history parts"
  by (simp_all add: parse_command_def)

text \<open>A command may carry the name of the bot: \<open>/help@bot\<close>.\<close>

definition command_name :: "string \<Rightarrow> string" where
  "command_name raw = (case split_once ''@'' raw of Some (name, _) \<Rightarrow> name | None \<Rightarrow> raw)"

definition parse_input :: "string \<Rightarrow> input_parse_error + parsed_input" where
  "parse_input s =
     (let input = trim s in
      if input = [] then Inl EmptyInput
      else if \<not> starts_with input ''/'' then Inr (Prompt input)
      else case words input of
        [] \<Rightarrow> Inl EmptyInput
      | raw # parts \<Rightarrow>
          map_sum id Command (parse_command raw (command_name raw) (trim (drop (length raw) input)) parts))"

section \<open>Words of a text\<close>

definition plain_word :: "code_points \<Rightarrow> bool" where
  "plain_word cs \<longleftrightarrow> cs \<noteq> [] \<and> list_all (\<lambda>c. c < 1114112 \<and> \<not> is_whitespace c) cs"

definition is_word :: "string \<Rightarrow> bool" where
  "is_word w \<longleftrightarrow> plain_word (chars w) \<and> of_chars (chars w) = w"

text \<open>Words with single spaces between them, and a text without white space at its ends.\<close>

definition is_phrase :: "string \<Rightarrow> bool" where
  "is_phrase t \<longleftrightarrow> (let ws = split_whitespace (chars t) in
     ws \<noteq> [] \<and> list_all plain_word ws \<and> of_chars (join_space ws) = t)"

definition is_trimmed :: "string \<Rightarrow> bool" where
  "is_trimmed t \<longleftrightarrow> (let cs = chars t in cs \<noteq> [] \<and> list_all (\<lambda>c. c < 1114112) cs
     \<and> \<not> is_whitespace (hd cs) \<and> \<not> is_whitespace (last cs) \<and> of_chars cs = t)"

lemma split_whitespace_word:
  assumes "plain_word w"
  shows "split_whitespace w = [w]"
proof -
  obtain c r where w: "w = c # r" "\<not> is_whitespace c" "\<forall>x \<in> set r. \<not> is_whitespace x"
    using assms by (cases w) (auto simp: plain_word_def list_all_iff)
  have rest: "takeWhile (\<lambda>x. \<not> is_whitespace x) r = r" "dropWhile (\<lambda>x. \<not> is_whitespace x) r = []" using w(3) by simp_all
  show ?thesis by (simp add: w(1,2) rest split_whitespace.simps [of "c # _"] split_whitespace.simps [of "[]"])
qed

lemma split_whitespace_append:
  assumes "plain_word w"
  shows "split_whitespace (w @ 32 # cs) = w # split_whitespace cs"
proof -
  obtain c r where w: "w = c # r" "\<not> is_whitespace c" "\<forall>x \<in> set r. \<not> is_whitespace x"
    using assms by (cases w) (auto simp: plain_word_def list_all_iff)
  have space: "split_whitespace (32 # cs) = split_whitespace cs"
    by (simp add: split_whitespace.simps [of "32 # cs"] split_whitespace.simps [of cs] is_whitespace_def)
  have "takeWhile (\<lambda>x. \<not> is_whitespace x) (r @ 32 # cs) = r" "dropWhile (\<lambda>x. \<not> is_whitespace x) (r @ 32 # cs) = 32 # cs"
    using w(3) by (simp_all add: is_whitespace_def takeWhile_append dropWhile_append)
  then show ?thesis using w(1,2) space by (simp add: split_whitespace.simps [of "c # _"])
qed

lemma split_whitespace_join: "list_all plain_word ws \<Longrightarrow> split_whitespace (join_space ws) = ws"
  by (induction ws rule: join_space.induct)
    (simp_all add: split_whitespace_word split_whitespace_append split_whitespace.simps [of "[]"])

lemma join_space_valid: "list_all plain_word ws \<Longrightarrow> list_all (\<lambda>c. c < 1114112) (join_space ws)"
  by (induction ws rule: join_space.induct) (auto simp: plain_word_def list_all_iff)

lemma utf8_space: "utf8 32 = '' ''"
  by code_simp

lemma unwords_of_chars: "unwords (map of_chars ws) = of_chars (join_space ws)"
  by (induction ws rule: join_space.induct) (simp_all add: of_chars_def utf8_space)

lemma phrase_words:
  assumes "is_phrase t"
  shows "unwords (words t) = t" "words t \<noteq> []" "t \<noteq> []"
proof -
  let ?ws = "split_whitespace (chars t)"
  have ws: "?ws \<noteq> []" "list_all plain_word ?ws" "of_chars (join_space ?ws) = t" using assms by (auto simp: is_phrase_def Let_def)
  then show "unwords (words t) = t" "words t \<noteq> []" by (simp_all add: words_def unwords_of_chars)
  show "t \<noteq> []" using ws(1) by (auto simp: split_whitespace.simps [of "[]"])
qed

lemma word_words: "is_word w \<Longrightarrow> words w = [w]"
  by (simp add: is_word_def words_def split_whitespace_word)

lemma join_space_ends:
  assumes "list_all plain_word ws" "ws \<noteq> []"
  shows "join_space ws \<noteq> []" "\<not> is_whitespace (hd (join_space ws))" "\<not> is_whitespace (last (join_space ws))"
  using assms
  by (induction ws rule: join_space.induct) (auto simp: plain_word_def list_all_iff neq_Nil_conv)

lemma phrase_trimmed:
  assumes "is_phrase t"
  shows "is_trimmed t"
proof -
  let ?ws = "split_whitespace (chars t)"
  have ws: "?ws \<noteq> []" "list_all plain_word ?ws" "of_chars (join_space ?ws) = t" using assms by (auto simp: is_phrase_def Let_def)
  have "chars t = join_space ?ws" using chars_of_chars [OF join_space_valid [OF ws(2)]] ws(3) by simp
  then show ?thesis
    unfolding is_trimmed_def Let_def using join_space_ends [OF ws(2,1)] join_space_valid [OF ws(2)] ws(3) by metis
qed

lemma word_phrase: "is_word w \<Longrightarrow> is_phrase w"
  by (simp add: is_word_def is_phrase_def split_whitespace_word)

section \<open>The printer\<close>

text \<open>A command as a user types it; the session commands have the names of \<open>SessionCommand::name\<close>.\<close>

fun session_command_name :: "session_command \<Rightarrow> string" where
  "session_command_name SessionNew = ''new''"
| "session_command_name SessionCompact = ''compact''"
| "session_command_name SessionFork = ''fork''"
| "session_command_name (SessionFast _) = ''fast''"
| "session_command_name (SessionClear _) = ''clear''"
| "session_command_name SessionExit = ''exit''"
| "session_command_name SessionDiff = ''diff''"
| "session_command_name (SessionRename _) = ''rename''"
| "session_command_name (SessionModel _) = ''model''"
| "session_command_name (SessionReasoning _) = ''reasoning''"
| "session_command_name SessionSkills = ''skills''"
| "session_command_name (SessionPlan _ _) = ''plan''"
| "session_command_name (SessionGoal _) = ''goal''"
| "session_command_name SessionReview = ''review''"
| "session_command_name SessionStatus = ''status''"
| "session_command_name SessionMcp = ''mcp''"

fun session_argument :: "session_command \<Rightarrow> string option" where
  "session_argument (SessionFast (Some b)) = Some (if b then ''on'' else ''off'')"
| "session_argument (SessionClear t) = t"
| "session_argument (SessionRename t) = t"
| "session_argument (SessionModel t) = t"
| "session_argument (SessionReasoning t) = t"
| "session_argument (SessionPlan enabled prompt) = (if enabled then prompt else Some ''off'')"
| "session_argument (SessionGoal (GoalSet t)) = Some t"
| "session_argument (SessionGoal GoalPause) = Some ''pause''"
| "session_argument (SessionGoal GoalResume) = Some ''resume''"
| "session_argument (SessionGoal GoalClear) = Some ''clear''"
| "session_argument _ = None"

fun print_parts :: "agent_command \<Rightarrow> string \<times> string option" where
  "print_parts Help = (''/help'', None)"
| "print_parts Dashboard = (''/dashboard'', None)"
| "print_parts Board = (''/board'', None)"
| "print_parts Jobs = (''/jobs'', None)"
| "print_parts (Issues status milestone) = (''/issues'',
     (case (status, milestone) of
        (None, None) \<Rightarrow> None
      | (Some st, None) \<Rightarrow> Some (issue_status_text st)
      | (None, Some m) \<Rightarrow> Some (''--milestone '' @ m)
      | (Some st, Some m) \<Rightarrow> Some (issue_status_text st @ '' --milestone '' @ m)))"
| "print_parts (Issue i) = (''/issue'', Some i)"
| "print_parts (IssueNew t) = (''/issue'', Some (''new '' @ t))"
| "print_parts Milestones = (''/milestones'', None)"
| "print_parts (Tasks j) = (''/tasks'', j)"
| "print_parts (Task i) = (''/task'', Some i)"
| "print_parts Sessions = (''/sessions'', None)"
| "print_parts (SessionsBackend k) = (''/sessions'', Some k)"
| "print_parts (Multiplexer k b) = (case k of Rmux \<Rightarrow> ''/rmux'' | Tmux \<Rightarrow> ''/tmux'' | Rex \<Rightarrow> ''/rex'', b)"
| "print_parts (Attach i) = (''/attach'', Some i)"
| "print_parts Current = (''/current'', None)"
| "print_parts Last = (''/last'', None)"
| "print_parts Detach = (''/detach'', None)"
| "print_parts Stop = (''/stop'', None)"
| "print_parts Queue = (''/queue'', None)"
| "print_parts (QueueControl a) = (''/queue'', Some a)"
| "print_parts (Steer t) = (''/steer'', Some t)"
| "print_parts Cancel = (''/cancel'', None)"
| "print_parts HistoryRecent = (''/history'', None)"
| "print_parts HistoryOlder = (''/history'', Some ''older'')"
| "print_parts HistoryNewer = (''/history'', Some ''newer'')"
| "print_parts (Session c) = (''/'' @ session_command_name c, session_argument c)"

definition print_command :: "agent_command \<Rightarrow> string" where
  "print_command c = (case print_parts c of (name, None) \<Rightarrow> name | (name, Some a) \<Rightarrow> name @ '' '' @ a)"

definition if_given :: "('a \<Rightarrow> bool) \<Rightarrow> 'a option \<Rightarrow> bool" where
  "if_given f x = (case x of None \<Rightarrow> True | Some y \<Rightarrow> f y)"

lemma if_given_simps [simp]: "if_given f None" "if_given f (Some y) = f y"
  by (simp_all add: if_given_def)

text \<open>The commands that can be typed: words and phrases as arguments, none of them a keyword of its command.\<close>

fun typeable_session :: "session_command \<Rightarrow> bool" where
  "typeable_session (SessionClear t) = if_given is_phrase t"
| "typeable_session (SessionRename t) = if_given is_phrase t"
| "typeable_session (SessionModel t) = if_given is_word t"
| "typeable_session (SessionReasoning t) = if_given is_word t"
| "typeable_session (SessionPlan enabled prompt) =
     (if enabled then if_given (\<lambda>t. is_phrase t \<and> t \<notin> {''on'', ''plan'', ''off'', ''default''}) prompt else prompt = None)"
| "typeable_session (SessionGoal (GoalSet t)) = (is_phrase t \<and> t \<notin> {''pause'', ''resume'', ''clear''})"
| "typeable_session _ = True"

fun typeable :: "agent_command \<Rightarrow> bool" where
  "typeable (Issues _ m) = if_given is_word m"
| "typeable (Issue i) = (is_word i \<and> i \<noteq> ''new'')"
| "typeable (IssueNew t) = is_trimmed t"
| "typeable (Tasks j) = if_given is_word j"
| "typeable (Task i) = is_word i"
| "typeable (SessionsBackend k) = is_word k"
| "typeable (Multiplexer _ b) = if_given is_word b"
| "typeable (Attach i) = is_word i"
| "typeable (QueueControl a) = (a \<in> {''resume'', ''clear''})"
| "typeable (Steer t) = is_phrase t"
| "typeable (Session c) = typeable_session c"
| "typeable _ = True"

section \<open>Parsing what was printed\<close>

definition ascii_word :: "string \<Rightarrow> bool" where
  "ascii_word w \<longleftrightarrow> w \<noteq> [] \<and> list_all (\<lambda>c. byte c < 128 \<and> \<not> is_whitespace (byte c)) w"

lemma chars_ascii_append: "list_all (\<lambda>c. byte c < 128) s \<Longrightarrow> chars (s @ t) = map byte s @ chars t"
  by (induction s) (simp_all add: chars.simps [of "_ # _"] next_char_def)

lemma of_chars_ascii: "list_all (\<lambda>c. byte c < 128) s \<Longrightarrow> of_chars (map byte s) = s"
  by (induction s) (simp_all add: of_chars_def utf8_def byte_def)

lemma ascii_word_chars:
  assumes "ascii_word w"
  shows "list_all (\<lambda>c. byte c < 128) w" "chars w = map byte w" "plain_word (map byte w)"
  using assms chars_ascii [of w] by (auto simp: ascii_word_def plain_word_def list_all_iff)

lemma ascii_word_words: "ascii_word w \<Longrightarrow> words w = [w]"
  using ascii_word_chars [of w] by (simp add: words_def split_whitespace_word of_chars_ascii)

lemma byte_space [simp]: "byte (CHR '' '') = 32"
  by (simp add: byte_def)

lemma words_argument:
  assumes "ascii_word w"
  shows "words (w @ '' '' @ t) = w # words t"
proof -
  have "chars (w @ '' '' @ t) = map byte w @ 32 # chars t"
    using chars_ascii_append [of "w @ '' ''" t] ascii_word_chars(1) [OF assms] by simp
  then show ?thesis
    using split_whitespace_append [OF ascii_word_chars(3) [OF assms]] of_chars_ascii [OF ascii_word_chars(1) [OF assms]]
    by (simp add: words_def)
qed

lemma trim_chars_id:
  assumes "cs \<noteq> []" "\<not> is_whitespace (hd cs)" "\<not> is_whitespace (last cs)"
  shows "trim_chars cs = cs"
proof -
  have "dropWhile is_whitespace cs = cs" "dropWhile is_whitespace (rev cs) = rev cs"
    unfolding dropWhile_eq_self_iff using assms by (simp_all add: hd_rev)
  then show ?thesis by (simp add: trim_chars_def)
qed

lemma trim_trimmed: "is_trimmed t \<Longrightarrow> trim t = t"
  by (simp add: is_trimmed_def Let_def trim_def trim_chars_id)

lemma trim_space: "trim ('' '' @ t) = trim t"
proof -
  have "chars ('' '' @ t) = 32 # chars t" using chars_ascii_append [of "'' ''" t] by simp
  then show ?thesis by (simp add: trim_def trim_chars_def is_whitespace_def)
qed

lemma trim_argument:
  assumes "ascii_word w" "is_trimmed t"
  shows "trim (w @ '' '' @ t) = w @ '' '' @ t"
proof -
  have cs: "chars (w @ '' '' @ t) = map byte w @ 32 # chars t"
    using chars_ascii_append [of "w @ '' ''" t] ascii_word_chars(1) [OF assms(1)] by simp
  have t: "chars t \<noteq> []" "\<not> is_whitespace (last (chars t))" "of_chars (chars t) = t" using assms(2) by (auto simp: is_trimmed_def Let_def)
  have "\<not> is_whitespace (hd (map byte w @ 32 # chars t))" using assms(1) by (cases w) (auto simp: ascii_word_def)
  then have "trim_chars (chars (w @ '' '' @ t)) = chars (w @ '' '' @ t)" using t unfolding cs by (intro trim_chars_id) simp_all
  moreover have "of_chars (chars (w @ '' '' @ t)) = w @ '' '' @ t"
    using t(3) of_chars_ascii [OF ascii_word_chars(1) [OF assms(1)]] unfolding cs by (simp add: of_chars_def utf8_space)
  ultimately show ?thesis by (simp add: trim_def)
qed

lemma trim_word: "ascii_word w \<Longrightarrow> trim w = w"
proof -
  assume w: "ascii_word w"
  then have "trim_chars (map byte w) = map byte w"
    by (intro trim_chars_id) (auto simp: ascii_word_def list_all_iff last_map hd_map)
  then show ?thesis using ascii_word_chars [OF w] by (simp add: trim_def of_chars_ascii)
qed

lemma trimmed_argument:
  assumes "ascii_word w" "is_trimmed t"
  shows "is_trimmed (w @ '' '' @ t)"
proof -
  have cs: "chars (w @ '' '' @ t) = map byte w @ 32 # chars t"
    using chars_ascii_append [of "w @ '' ''" t] ascii_word_chars(1) [OF assms(1)] by simp
  have t: "chars t \<noteq> []" "\<not> is_whitespace (last (chars t))" "of_chars (chars t) = t" "list_all (\<lambda>c. c < 1114112) (chars t)"
    using assms(2) by (auto simp: is_trimmed_def Let_def)
  have w: "list_all (\<lambda>c. c < 1114112) (map byte w)" "\<not> is_whitespace (hd (map byte w @ 32 # chars t))"
    using assms(1) by (auto simp: ascii_word_def list_all_iff hd_append hd_map)
  have "of_chars (map byte w @ 32 # chars t) = w @ '' '' @ t"
    using t(3) of_chars_ascii [OF ascii_word_chars(1) [OF assms(1)]] by (simp add: of_chars_def utf8_space)
  then show ?thesis using t w unfolding is_trimmed_def Let_def cs by simp
qed

lemma trimmed_word:
  assumes "ascii_word w"
  shows "is_trimmed w"
  using assms ascii_word_chars [OF assms] of_chars_ascii [of w]
  by (auto simp: is_trimmed_def Let_def plain_word_def list_all_iff ascii_word_def hd_map last_map)

definition command_word :: "string \<Rightarrow> bool" where
  "command_word w \<longleftrightarrow> ascii_word w \<and> hd w = CHR ''/'' \<and> CHR ''@'' \<notin> set w"

lemma split_once_None: "c \<notin> set s \<Longrightarrow> split_once [c] s = None"
  by (induction s) (auto simp: split_once.simps [of _ "[]"] split_once.simps [of _ "_ # _"] strip_prefix_def starts_with_def)

lemma command_word_facts:
  assumes "command_word w"
  shows "command_name w = w" "starts_with (w @ t) ''/''" "w \<noteq> []" "ascii_word w"
  using assms split_once_None [of "CHR ''@''" w]
  by (cases w; simp add: command_word_def command_name_def starts_with_def ascii_word_def)+

lemma parse_printed:
  assumes "command_word w"
  shows "parse_input w = map_sum id Command (parse_command w w [] [])"
    "is_trimmed a \<Longrightarrow> parse_input (w @ '' '' @ a) = map_sum id Command (parse_command w w a (words a))"
proof -
  note f = command_word_facts [OF assms]
  have "trim [] = []" by (simp add: trim_def trim_chars_def of_chars_def)
  then show "parse_input w = map_sum id Command (parse_command w w [] [])"
    using f(1,3) f(2) [of "[]"] by (simp add: parse_input_def trim_word [OF f(4)] ascii_word_words [OF f(4)])
  assume a: "is_trimmed a"
  have "trim (drop (length w) (w @ '' '' @ a)) = a" using trim_space [of a] trim_trimmed [OF a] by simp
  then show "parse_input (w @ '' '' @ a) = map_sum id Command (parse_command w w a (words a))"
    unfolding parse_input_def Let_def trim_argument [OF f(4) a] words_argument [OF f(4)]
    using f(1-3) by simp
qed

lemma print_name: "command_word (fst (print_parts c))"
proof (cases c)
  case (Session x)
  then show ?thesis by (cases x) (simp_all add: command_word_def ascii_word_def byte_def is_whitespace_def)
next
  case (Multiplexer k b)
  then show ?thesis by (cases k) (simp_all add: command_word_def ascii_word_def byte_def is_whitespace_def)
qed (simp_all add: command_word_def ascii_word_def byte_def is_whitespace_def)

lemma typed_argument_trimmed:
  assumes "typeable c" "print_parts c = (n, Some a)"
  shows "is_trimmed a"
proof (cases c)
  case (Issues st m)
  have status: "ascii_word (issue_status_text x)" for x
    by (cases x) (simp_all add: ascii_word_def byte_def is_whitespace_def)
  have flag: "ascii_word ''--milestone''" by (simp add: ascii_word_def byte_def is_whitespace_def)
  have m: "is_trimmed x" if "m = Some x" for x using assms(1) Issues that word_phrase phrase_trimmed by auto
  show ?thesis
    using assms(2) Issues m trimmed_word [OF status] trimmed_argument [OF flag m] trimmed_argument [OF status trimmed_argument [OF flag m]]
    by (auto split: option.splits)
next
  case (IssueNew t)
  have "ascii_word ''new''" by (simp add: ascii_word_def byte_def is_whitespace_def)
  from trimmed_argument [OF this] show ?thesis using assms IssueNew by auto
next
  case (Session x)
  have keyword: "is_trimmed ''on''" "is_trimmed ''off''" "is_trimmed ''pause''" "is_trimmed ''resume''" "is_trimmed ''clear''"
    by (rule trimmed_word, simp add: ascii_word_def byte_def is_whitespace_def)+
  show ?thesis
  proof (cases x)
    case (SessionFast b)
    then show ?thesis using assms Session keyword by (cases b) (simp_all split: if_splits)
  next
    case (SessionGoal g)
    then show ?thesis using assms Session keyword phrase_trimmed by (cases g) auto
  qed (use assms Session keyword phrase_trimmed word_phrase in \<open>auto split: if_splits\<close>)
next
  case (QueueControl w)
  then show ?thesis using assms by (auto intro!: trimmed_word simp: ascii_word_def byte_def is_whitespace_def)
next
  case HistoryOlder
  then show ?thesis using assms by (auto intro!: trimmed_word simp: ascii_word_def byte_def is_whitespace_def)
next
  case HistoryNewer
  then show ?thesis using assms by (auto intro!: trimmed_word simp: ascii_word_def byte_def is_whitespace_def)
qed (use assms phrase_trimmed word_phrase in auto)

lemma upper_ascii_id: "list_all (\<lambda>c. byte c < 97) w \<Longrightarrow> upper_ascii w = w"
  by (induction w) (simp_all add: upper_ascii_def ascii_upper_def byte_def)

lemma issue_filter_status: "issue_filter (issue_status_text st) = Some (Some st)" "issue_status_text st \<noteq> ''--milestone''"
proof -
  have "upper_ascii (issue_status_text st) = issue_status_text st"
    by (rule upper_ascii_id) (cases st; simp add: byte_def)
  then show "issue_filter (issue_status_text st) = Some (Some st)"
    by (cases st) (simp_all add: issue_filter_def issue_status_all_def)
  show "issue_status_text st \<noteq> ''--milestone''" by (cases st) simp_all
qed

lemma parse_issue_word:
  assumes "is_word i" "i \<noteq> ''new''"
  shows "parse_issue i = Inr (Issue i)"
proof -
  have words: "words i = [i]" and i: "i \<noteq> []" using word_words [OF assms(1)] phrase_words(3) [OF word_phrase [OF assms(1)]] by simp_all
  have "\<not> is_whitespace c" if "strip_prefix ''new'' i = Some tail" "chars tail = c # cs" for tail c cs
  proof -
    have "chars i = map byte ''new'' @ c # cs"
      using that chars_ascii_append [of "''new''" tail] by (simp add: strip_prefix_eq_Some byte_def)
    then show ?thesis using assms(1) by (simp add: is_word_def plain_word_def)
  qed
  then show ?thesis using words i assms(2) by (auto simp: parse_issue_def split: option.split list.split)
qed

lemma parse_issue_new:
  assumes "is_trimmed t"
  shows "parse_issue (''new '' @ t) = Inr (IssueNew t)"
proof -
  have prefix: "strip_prefix ''new'' (''new '' @ t) = Some ('' '' @ t)" by (simp add: strip_prefix_def starts_with_def)
  have "chars ('' '' @ t) = 32 # chars t" using chars_ascii_append [of "'' ''" t] by simp
  moreover have "trim ('' '' @ t) = t" using trim_space trim_trimmed [OF assms] by simp
  ultimately show ?thesis
    unfolding parse_issue_def prefix by (simp add: is_whitespace_def)
qed

lemma parse_argument:
  assumes "typeable c" "print_parts c = (n, Some a)"
  shows "parse_command n n a (words a) = Inr c"
proof -
  have phrase: "unwords (words t) = t \<and> words t \<noteq> [] \<and> t \<noteq> [] \<and> optional_remainder (words t) = Some t" if "is_phrase t" for t
    using phrase_words [OF that] by (simp add: optional_remainder_def)
  have word: "words w = [w]" if "is_word w" for w using word_words [OF that] .
  have keyword: "words ''on'' = [''on'']" "words ''off'' = [''off'']" "words ''pause'' = [''pause'']" "words ''resume'' = [''resume'']"
      "words ''clear'' = [''clear'']" "words ''older'' = [''older'']" "words ''newer'' = [''newer'']"
    by (rule ascii_word_words, simp add: ascii_word_def byte_def is_whitespace_def)+
  show ?thesis
  proof (cases c)
    case (Issues st m)
    have status: "ascii_word (issue_status_text x)" for x
      by (cases x) (simp_all add: ascii_word_def byte_def is_whitespace_def)
    have flag: "ascii_word ''--milestone''" by (simp add: ascii_word_def byte_def is_whitespace_def)
    have m: "words x = [x]" if "m = Some x" for x using assms(1) Issues that word by simp
    show ?thesis
      using assms(2) Issues m words_argument [OF flag] words_argument [OF status] ascii_word_words [OF status] issue_filter_status
      by (auto simp: parse_rows parse_issues_def issue_milestone_def split: option.splits)
  next
    case (Issue i)
    then show ?thesis using assms parse_issue_word [of i] by (auto simp: parse_rows)
  next
    case (IssueNew t)
    then show ?thesis using assms parse_issue_new [of t] by (auto simp: parse_rows)
  next
    case (Multiplexer k b)
    then show ?thesis using assms word by (cases k) (auto simp: parse_rows first_word_def)
  next
    case (Session x)
    show ?thesis
    proof (cases x)
      case (SessionFast b)
      then show ?thesis using assms Session keyword
        by (cases b) (auto simp: parse_rows parse_fast_def first_word_def)
    next
      case (SessionGoal g)
      then show ?thesis using assms Session keyword phrase
        by (cases g) (auto simp: parse_rows parse_goal_def)
    next
      case (SessionPlan enabled prompt)
      then show ?thesis using assms Session keyword phrase
        by (cases prompt) (auto simp: parse_rows parse_plan_def split: if_splits)
    qed (use assms Session word phrase in \<open>auto simp: parse_rows first_word_def\<close>)
  qed (use assms word phrase keyword in \<open>auto simp: parse_rows first_word_def required_word_def parse_queue_def parse_history_def\<close>)
qed

lemma parse_no_argument:
  assumes "typeable c" "print_parts c = (n, None)"
  shows "parse_command n n [] [] = Inr c"
proof (cases c)
  case (Issues st m)
  then show ?thesis using assms by (auto simp: parse_rows parse_issues_def issue_milestone_def split: option.splits)
next
  case (Multiplexer k b)
  then show ?thesis using assms by (cases k) (auto simp: parse_rows first_word_def)
next
  case (Session x)
  show ?thesis
  proof (cases x)
    case (SessionFast b)
    then show ?thesis using assms Session by (cases b) (auto simp: parse_rows parse_fast_def first_word_def)
  next
    case (SessionGoal g)
    then show ?thesis using assms Session by (cases g) (auto simp: parse_rows parse_goal_def)
  qed (use assms Session in \<open>auto simp: parse_rows first_word_def optional_remainder_def parse_plan_def split: if_splits\<close>)
qed (use assms in \<open>auto simp: parse_rows first_word_def parse_queue_def parse_history_def\<close>)

section \<open>Property\<close>

text \<open>
  C22: The parser of the chat commands inverts the printer: every command whose arguments can be typed, in the form in
  which a user types it, is parsed to exactly this command; in particular no command shadows another.
\<close>

theorem command_roundtrip:
  assumes "typeable c"
  shows "parse_input (print_command c) = Inr (Command c)"
proof -
  obtain n a where parts: "print_parts c = (n, a)" by (metis prod.exhaust)
  have n: "command_word n" using print_name [of c] parts by simp
  show ?thesis
  proof (cases a)
    case None
    then show ?thesis
      using parse_printed(1) [OF n] parse_no_argument [OF assms] parts by (simp add: print_command_def)
  next
    case (Some t)
    have "print_parts c = (n, Some t)" using parts Some by simp
    from parse_argument [OF assms this] parse_printed(2) [OF n typed_argument_trimmed [OF assms this]]
    show ?thesis using parts Some by (simp add: print_command_def)
  qed
qed

theorem command_roundtrip_witness:
  "typeable (Issues (Some IssuePendingReview) (Some ''m1''))
    \<and> print_command (Issues (Some IssuePendingReview) (Some ''m1'')) = ''/issues PENDING_REVIEW --milestone m1''
    \<and> parse_input (print_command (Issues (Some IssuePendingReview) (Some ''m1''))) = Inr (Command (Issues (Some IssuePendingReview) (Some ''m1'')))"
proof -
  have t: "typeable (Issues (Some IssuePendingReview) (Some ''m1''))" by code_simp
  show ?thesis using t command_roundtrip [OF t] by (simp add: print_command_def)
qed

end
