(* ===== verification/Routing.thy ===== *)
theory Routing
  imports Dispatch_Laws Bindings Prompts Commands
begin

text \<open>
  The routing reservations of the engine (\<open>agentix-core/src/engine/dispatch.rs\<close>, the session names of
  \<open>agentix-domain/src/identity.rs\<close>): the resources that an operation holds while it runs, computed from the local
  bindings. Fields that routing does not read are left out of the actions and events.
\<close>

section \<open>Names of sessions\<close>

datatype agent_kind = Codex | Pi | Omp | Claude | OpenCode

fun agent_kind_text :: "agent_kind \<Rightarrow> string" where
  "agent_kind_text Claude = ''claude''"
| "agent_kind_text OpenCode = ''opencode''"
| "agent_kind_text Codex = ''codex''"
| "agent_kind_text Pi = ''pi''"
| "agent_kind_text Omp = ''omp''"

record session_key =
  sk_agent :: agent_kind
  sk_native :: string

definition encode_session :: "session_key \<Rightarrow> string" where
  "encode_session k = agent_kind_text (sk_agent k) @ '':'' @ sk_native k"

definition agent_of_text :: "string \<Rightarrow> agent_kind option" where
  "agent_of_text kind =
     (if kind = ''claude'' then Some Claude
      else if kind = ''opencode'' then Some OpenCode
      else if kind = ''codex'' then Some Codex
      else if kind = ''pi'' then Some Pi
      else if kind = ''omp'' \<or> kind = ''oh-my-pi'' then Some Omp
      else None)"

definition decode_session :: "string \<Rightarrow> session_key option" where
  "decode_session s =
     (case split_once '':'' s of
        None \<Rightarrow> None
      | Some (kind, native) \<Rightarrow>
          (case agent_of_text kind of
             None \<Rightarrow> None
           | Some agent \<Rightarrow> if native = [] then None else Some \<lparr>sk_agent = agent, sk_native = native\<rparr>))"

section \<open>Work\<close>

datatype directory_action = Preview | Browse string nat bool | SelectDirectory string | DirectoryInput | Confirm | CancelDirectory

datatype multiplexer_action =
    ShowRoot
  | ShowSession string
  | ShowWindow string string
  | ChooseAgent string
  | BeginCreate
  | Directory string directory_action

record interaction_key =
  ik_session :: string
  ik_request :: string

record issue_action =
  ia_command :: string
  ia_session :: "string option"

datatype ui_action =
    WorkspacePicker ui_action
  | TerminalInput string
  | TaskUi string
  | IssueUi issue_action
  | TaskBrowse
  | AttachUi string
  | AttachFromPicker string
  | QueueControlUi string
  | StopUi string
  | Resolve interaction_key
  | BeginInput interaction_key
  | SelectInput interaction_key
  | BeginCustomInput interaction_key
  | SubmitInput interaction_key
  | SessionCommandUi string session_command
  | MultiplexerUi "agent_kind option" multiplexer_action
  | MultiplexerLaunch "agent_kind option"

datatype workspace_mutation = OneBackend agent_kind | AllBackends

record action_route =
  ar_session :: "string option"
  ar_replace :: bool
  ar_workspace :: "workspace_mutation option"

definition no_route :: action_route where
  "no_route = \<lparr>ar_session = None, ar_replace = False, ar_workspace = None\<rparr>"

fun replaces_session :: "session_command \<Rightarrow> bool" where
  "replaces_session SessionFork = True"
| "replaces_session (SessionClear _) = True"
| "replaces_session _ = False"

definition session_route :: "string \<Rightarrow> action_route" where
  "session_route s = no_route\<lparr>ar_session := Some s\<rparr>"

definition workspace_route :: "agent_kind option \<Rightarrow> action_route" where
  "workspace_route backend = no_route\<lparr>ar_workspace := Some (case backend of None \<Rightarrow> AllBackends | Some k \<Rightarrow> OneBackend k)\<rparr>"

fun route_of_action :: "ui_action \<Rightarrow> action_route" where
  "route_of_action (WorkspacePicker action) = route_of_action action"
| "route_of_action (TerminalInput s) = session_route s"
| "route_of_action (AttachUi s) = session_route s"
| "route_of_action (AttachFromPicker s) = session_route s"
| "route_of_action (StopUi s) = session_route s"
| "route_of_action (QueueControlUi s) = session_route s"
| "route_of_action (SessionCommandUi s c) = (session_route s)\<lparr>ar_replace := replaces_session c\<rparr>"
| "route_of_action (Resolve i) = session_route (ik_session i)"
| "route_of_action (BeginInput i) = session_route (ik_session i)"
| "route_of_action (SelectInput i) = session_route (ik_session i)"
| "route_of_action (SubmitInput i) = session_route (ik_session i)"
| "route_of_action (BeginCustomInput i) = session_route (ik_session i)"
| "route_of_action (TaskUi s) = session_route s"
| "route_of_action (MultiplexerUi backend (Directory _ Confirm)) = workspace_route backend"
| "route_of_action (MultiplexerLaunch backend) = workspace_route backend"
| "route_of_action (IssueUi a) =
     no_route\<lparr>ar_session := ia_session a,
       ar_workspace := (if ia_command a = ''execute.workspace'' then Some AllBackends else None)\<rparr>"
| "route_of_action (MultiplexerUi _ _) = no_route"
| "route_of_action TaskBrowse = no_route"

datatype backend_event =
    Connected
  | Disconnected
  | SessionStatusChanged string
  | SessionExited string
  | SessionSwitchStarted string
  | SessionReplaced string string
  | SessionSwitchFailed string
  | SessionResumed string
  | QueueChanged string
  | TurnStarted string
  | UserMessage string
  | AgentMessageDelta string
  | ItemStarted string
  | ItemCompleted string
  | TurnCompleted string
  | InteractionRequested string
  | InteractionResolved string

fun event_session :: "backend_event \<Rightarrow> string option" where
  "event_session Connected = None"
| "event_session Disconnected = None"
| "event_session (SessionStatusChanged s) = Some s"
| "event_session (SessionExited s) = Some s"
| "event_session (SessionSwitchStarted s) = Some s"
| "event_session (SessionReplaced s _) = Some s"
| "event_session (SessionSwitchFailed s) = Some s"
| "event_session (SessionResumed s) = Some s"
| "event_session (QueueChanged s) = Some s"
| "event_session (TurnStarted s) = Some s"
| "event_session (UserMessage s) = Some s"
| "event_session (AgentMessageDelta s) = Some s"
| "event_session (ItemStarted s) = Some s"
| "event_session (ItemCompleted s) = Some s"
| "event_session (TurnCompleted s) = Some s"
| "event_session (InteractionRequested s) = Some s"
| "event_session (InteractionResolved s) = Some s"

datatype inbound_payload = InboundText string | TextEdited | InboundAction string

datatype engine_work =
    Inbound conversation_ref inbound_payload
  | Event backend_event
  | InputRecovered string conversation_ref
  | PromptAcknowledged string conversation_ref
  | CardDelivered string conversation_ref
  | QueuedInput string conversation_ref
  | Reattachment string conversation_ref
  | Working string string
  | Recover
  | TaskBoard
  | SessionSwitch conversation_ref

datatype engine_resource =
    ConversationResource conversation_ref
  | SessionResource string
  | BackendResource "agent_kind option"
  | TaskBoardResource

record engine_snapshot =
  es_bindings :: "(conversation_ref, string) binding_table"
  es_backends :: "agent_kind list"
  es_actions :: "string \<rightharpoonup> action_route"
  es_replies :: "conversation_ref \<rightharpoonup> string"

section \<open>Reservations\<close>

text \<open>A reservation is a pair of lists, the shared and the exclusive resources; reserving more appends to both.\<close>

type_synonym reservation = "engine_resource list \<times> engine_resource list"

definition both :: "reservation \<Rightarrow> reservation \<Rightarrow> reservation" where
  "both a b = (fst a @ fst b, snd a @ snd b)"

definition exclusively :: "engine_resource list \<Rightarrow> reservation" where
  "exclusively rs = ([], rs)"

definition reserve_backend :: "engine_snapshot \<Rightarrow> string option \<Rightarrow> engine_resource list" where
  "reserve_backend snap s =
     (case Option.bind s decode_session of
        Some key \<Rightarrow> [BackendResource (Some (sk_agent key))]
      | None \<Rightarrow> if es_backends snap = [] then [BackendResource None]
          else map (\<lambda>k. BackendResource (Some k)) (es_backends snap))"

definition session_aliases :: "engine_snapshot \<Rightarrow> string \<Rightarrow> string list" where
  "session_aliases snap s =
     (case decode_session s of
        Some key \<Rightarrow> [s, encode_session key]
      | None \<Rightarrow> s # map (\<lambda>k. encode_session \<lparr>sk_agent = k, sk_native = s\<rparr>) (es_backends snap))"

definition reserve_session :: "engine_snapshot \<Rightarrow> string \<Rightarrow> reservation" where
  "reserve_session snap s =
     (reserve_backend snap (Some s),
      concat (map (\<lambda>alias.
          (case route alias Critical (es_bindings snap) of Some (c, _) \<Rightarrow> [ConversationResource c] | None \<Rightarrow> [])
          @ [SessionResource alias]) (session_aliases snap s)))"

definition reserve_given :: "engine_snapshot \<Rightarrow> string option \<Rightarrow> reservation" where
  "reserve_given snap s = (case s of None \<Rightarrow> ([], []) | Some x \<Rightarrow> reserve_session snap x)"

definition current_session :: "engine_snapshot \<Rightarrow> conversation_ref \<Rightarrow> string option" where
  "current_session snap c = by_conversation (es_bindings snap) c"

text \<open>The route of an inbound message; \<open>None\<close> is an unknown token, which is reserved globally.\<close>

definition inbound_route :: "engine_snapshot \<Rightarrow> conversation_ref \<Rightarrow> inbound_payload \<Rightarrow> action_route option" where
  "inbound_route snap c payload =
     (case payload of
        InboundText text \<Rightarrow>
          Some (case parse_input text of
             Inr (Command (Attach s)) \<Rightarrow> session_route s
           | Inr (Command (Session command)) \<Rightarrow>
               no_route\<lparr>ar_session := current_session snap c, ar_replace := replaces_session command\<rparr>
           | _ \<Rightarrow> no_route)
      | InboundAction token \<Rightarrow> es_actions snap token
      | TextEdited \<Rightarrow> Some no_route)"

definition reserve_route :: "engine_snapshot \<Rightarrow> action_route \<Rightarrow> reservation" where
  "reserve_route snap r =
     both (reserve_given snap (ar_session r))
       (exclusively ((if ar_replace r then reserve_backend snap (ar_session r) else [])
          @ (case ar_workspace r of
               None \<Rightarrow> []
             | Some (OneBackend k) \<Rightarrow> [BackendResource (Some k)]
             | Some AllBackends \<Rightarrow> reserve_backend snap None)))"

definition access :: "reservation \<Rightarrow> engine_resource dispatch_scope" where
  "access r = Access (fst r) (snd r)"

fun work_scope :: "engine_snapshot \<Rightarrow> engine_work \<Rightarrow> engine_resource dispatch_scope" where
  "work_scope snap (SessionSwitch c) =
     access (both (exclusively [ConversationResource c])
       (both (reserve_given snap (current_session snap c)) (exclusively (reserve_backend snap (current_session snap c)))))"
| "work_scope snap Recover = Global"
| "work_scope snap TaskBoard = access (exclusively [TaskBoardResource])"
| "work_scope snap (Event e) =
     (case event_session e of
        None \<Rightarrow> Global
      | Some s \<Rightarrow> access (both (reserve_session snap s)
          (case e of SessionReplaced _ new \<Rightarrow> reserve_session snap new | _ \<Rightarrow> ([], []))))"
| "work_scope snap (Reattachment s c) =
     access (both (exclusively [ConversationResource c]) (both (reserve_session snap s) (reserve_given snap (current_session snap c))))"
| "work_scope snap (CardDelivered s c) = access (both (reserve_session snap s) (exclusively [ConversationResource c]))"
| "work_scope snap (PromptAcknowledged s c) = access (both (reserve_session snap s) (exclusively [ConversationResource c]))"
| "work_scope snap (QueuedInput s c) = access (both (reserve_session snap s) (exclusively [ConversationResource c]))"
| "work_scope snap (InputRecovered s c) = access (both (reserve_session snap s) (exclusively [ConversationResource c]))"
| "work_scope snap (Working s _) = access (reserve_session snap s)"
| "work_scope snap (Inbound c payload) =
     (case inbound_route snap c payload of
        None \<Rightarrow> Global
      | Some r \<Rightarrow> access (both (exclusively [ConversationResource c])
          (both (reserve_given snap (current_session snap c))
             (both (reserve_given snap (es_replies snap c)) (reserve_route snap r)))))"

section \<open>What an operation concerns\<close>

text \<open>
  The sessions that an operation touches, and those that it replaces by a new one. A name stands for the keys with this
  native identifier; two names stand for the same session when they share a key.
\<close>

definition given :: "'a option \<Rightarrow> 'a list" where
  "given x = (case x of None \<Rightarrow> [] | Some y \<Rightarrow> [y])"

fun work_sessions :: "engine_snapshot \<Rightarrow> engine_work \<Rightarrow> string list" where
  "work_sessions snap (Inbound c payload) =
     given (current_session snap c) @ given (es_replies snap c)
     @ (case inbound_route snap c payload of None \<Rightarrow> [] | Some r \<Rightarrow> given (ar_session r))"
| "work_sessions snap (Event e) = given (event_session e) @ (case e of SessionReplaced _ new \<Rightarrow> [new] | _ \<Rightarrow> [])"
| "work_sessions snap (InputRecovered s _) = [s]"
| "work_sessions snap (PromptAcknowledged s _) = [s]"
| "work_sessions snap (CardDelivered s _) = [s]"
| "work_sessions snap (QueuedInput s _) = [s]"
| "work_sessions snap (Reattachment s c) = s # given (current_session snap c)"
| "work_sessions snap (Working s _) = [s]"
| "work_sessions snap (SessionSwitch c) = given (current_session snap c)"
| "work_sessions snap _ = []"

definition replaced_sessions :: "engine_snapshot \<Rightarrow> engine_work \<Rightarrow> string list" where
  "replaced_sessions snap w =
     (case w of
        Inbound c payload \<Rightarrow>
          (case inbound_route snap c payload of
             None \<Rightarrow> []
           | Some r \<Rightarrow> if ar_replace r then given (ar_session r) else [])
      | SessionSwitch c \<Rightarrow> given (current_session snap c)
      | _ \<Rightarrow> [])"

definition session_keys :: "engine_snapshot \<Rightarrow> string \<Rightarrow> session_key list" where
  "session_keys snap s =
     (case decode_session s of Some k \<Rightarrow> [k] | None \<Rightarrow> map (\<lambda>k. \<lparr>sk_agent = k, sk_native = s\<rparr>) (es_backends snap))"

definition same_session :: "engine_snapshot \<Rightarrow> string \<Rightarrow> string \<Rightarrow> bool" where
  "same_session snap s t \<longleftrightarrow> s = t \<or> list_ex (\<lambda>k. k \<in> set (session_keys snap t)) (session_keys snap s)"

definition same_backend :: "engine_snapshot \<Rightarrow> string \<Rightarrow> string \<Rightarrow> bool" where
  "same_backend snap s t \<longleftrightarrow>
     s = t \<or> list_ex (\<lambda>k. sk_agent k \<in> set (map sk_agent (session_keys snap t))) (session_keys snap s)"

lemma both_sets [simp]: "set (fst (both a b)) = set (fst a) \<union> set (fst b)" "set (snd (both a b)) = set (snd a) \<union> set (snd b)"
  by (simp_all add: both_def)

lemma exclusively_sets [simp]: "fst (exclusively rs) = []" "snd (exclusively rs) = rs"
  by (simp_all add: exclusively_def)

lemma access_keys [simp]: "shared_keys (access r) = set (fst r)" "exclusive_keys (access r) = set (snd r)" "access r \<noteq> Global"
  by (simp_all add: access_def shared_keys_def exclusive_keys_def scope_access_def case_prod_beta)

text \<open>The aliases of a session are its name and the encoded forms of its keys.\<close>

lemma set_session_aliases: "set (session_aliases snap s) = insert s (encode_session ` set (session_keys snap s))"
  by (auto simp: session_aliases_def session_keys_def split: option.split)

lemma same_session_alias: "same_session snap s t \<Longrightarrow> set (session_aliases snap s) \<inter> set (session_aliases snap t) \<noteq> {}"
  by (auto simp: same_session_def set_session_aliases list_ex_iff)

lemma set_reserve_backend:
  "set (reserve_backend snap (Some s)) = (if session_keys snap s = [] then {BackendResource None}
     else (\<lambda>k. BackendResource (Some (sk_agent k))) ` set (session_keys snap s))"
  by (auto simp: reserve_backend_def session_keys_def image_image split: option.split)

lemma same_backend_resource:
  "same_backend snap s t \<Longrightarrow> set (reserve_backend snap (Some s)) \<inter> set (reserve_backend snap (Some t)) \<noteq> {}"
  by (auto simp: same_backend_def set_reserve_backend list_ex_iff)

lemma reserve_session_keys:
  "SessionResource ` set (session_aliases snap s) \<subseteq> set (snd (reserve_session snap s))"
  "fst (reserve_session snap s) = reserve_backend snap (Some s)"
  by (auto simp: reserve_session_def)

text \<open>\<open>holds r s\<close>: a reservation has all that \<open>reserve_session\<close> asks for.\<close>

definition holds :: "engine_snapshot \<Rightarrow> reservation \<Rightarrow> string \<Rightarrow> bool" where
  "holds snap r s \<longleftrightarrow> set (snd (reserve_session snap s)) \<subseteq> set (snd r) \<and> set (fst (reserve_session snap s)) \<subseteq> set (fst r)"

lemma holdsI [intro]:
  "holds snap (reserve_session snap s) s"
  "holds snap a s \<Longrightarrow> holds snap (both a b) s"
  "holds snap b s \<Longrightarrow> holds snap (both a b) s"
  "s \<in> set (given x) \<Longrightarrow> holds snap (reserve_given snap x) s"
  "s \<in> set (given (ar_session r)) \<Longrightarrow> holds snap (reserve_route snap r) s"
  by (auto simp: holds_def given_def reserve_given_def reserve_route_def split: option.splits)

definition held :: "engine_snapshot \<Rightarrow> engine_resource dispatch_scope \<Rightarrow> string \<Rightarrow> bool" where
  "held snap a s \<longleftrightarrow> set (snd (reserve_session snap s)) \<subseteq> exclusive_keys a \<and> set (fst (reserve_session snap s)) \<subseteq> shared_keys a"

lemma held_access [simp]: "held snap (access r) s \<longleftrightarrow> holds snap r s"
  by (simp add: held_def holds_def)

lemma touched_held:
  assumes "s \<in> set (work_sessions snap w)" "work_scope snap w \<noteq> Global"
  shows "held snap (work_scope snap w) s"
proof (cases w)
  case (Inbound c payload)
  then obtain r where r: "inbound_route snap c payload = Some r" using assms(2) by (auto split: option.splits)
  then consider "s \<in> set (given (current_session snap c))" | "s \<in> set (given (es_replies snap c))" | "s \<in> set (given (ar_session r))"
    using assms(1) Inbound by auto
  then show ?thesis using Inbound r by cases auto
next
  case (Event e)
  then obtain t where t: "event_session e = Some t" using assms(2) by (auto split: option.splits)
  show ?thesis
  proof (cases "s = t")
    case True
    then show ?thesis using Event t by auto
  next
    case False
    then obtain u where "e = SessionReplaced t s" using assms(1) Event t by (cases e) (auto simp: given_def)
    then show ?thesis using Event t by auto
  qed
next
  case (SessionSwitch c)
  then show ?thesis using assms(1) by auto
next
  case (Reattachment t c)
  then show ?thesis using assms(1) by auto
qed (use assms in \<open>auto simp: given_def\<close>)

lemma touched_reserved:
  assumes "s \<in> set (work_sessions snap w)" "work_scope snap w \<noteq> Global"
  shows "SessionResource ` set (session_aliases snap s) \<subseteq> exclusive_keys (work_scope snap w)"
    "set (reserve_backend snap (Some s)) \<subseteq> shared_keys (work_scope snap w)"
  using touched_held [OF assms] reserve_session_keys [of snap s] by (auto simp: held_def)

lemma replaced_reserved:
  assumes "s \<in> set (replaced_sessions snap w)" "work_scope snap w \<noteq> Global"
  shows "set (reserve_backend snap (Some s)) \<subseteq> exclusive_keys (work_scope snap w)"
  using assms
  by (cases w) (auto simp: replaced_sessions_def given_def reserve_route_def split: option.splits if_splits)

lemma conflicts_exclusive:
  assumes "x \<in> exclusive_keys a" "x \<in> shared_keys b \<union> exclusive_keys b"
  shows "conflicts a b"
proof (cases "a = Global \<or> b = Global")
  case False
  then have "scope_access a \<noteq> None" "scope_access b \<noteq> None" by (simp_all add: scope_access_None)
  then show ?thesis using assms unfolding conflicts_access [OF \<open>scope_access a \<noteq> None\<close> \<open>scope_access b \<noteq> None\<close>] by blast
qed auto

lemma same_session_conflicts:
  assumes "s \<in> set (work_sessions snap v)" "t \<in> set (work_sessions snap w)" "same_session snap s t"
  shows "conflicts (work_scope snap v) (work_scope snap w)"
proof (cases "work_scope snap v = Global \<or> work_scope snap w = Global")
  case False
  obtain x where "x \<in> set (session_aliases snap s)" "x \<in> set (session_aliases snap t)"
    using same_session_alias [OF assms(3)] by blast
  then have "SessionResource x \<in> exclusive_keys (work_scope snap v)" "SessionResource x \<in> exclusive_keys (work_scope snap w)"
    using False touched_reserved(1) [OF assms(1)] touched_reserved(1) [OF assms(2)] by blast+
  then show ?thesis by (intro conflicts_exclusive) auto
qed auto

lemma replaced_conflicts:
  assumes "s \<in> set (replaced_sessions snap v)" "t \<in> set (work_sessions snap w)" "same_backend snap s t"
  shows "conflicts (work_scope snap v) (work_scope snap w)"
proof (cases "work_scope snap v = Global \<or> work_scope snap w = Global")
  case False
  obtain x where "x \<in> set (reserve_backend snap (Some s))" "x \<in> set (reserve_backend snap (Some t))"
    using same_backend_resource [OF assms(3)] by blast
  then have "x \<in> exclusive_keys (work_scope snap v)" "x \<in> shared_keys (work_scope snap w)"
    using False replaced_reserved [OF assms(1)] touched_reserved(2) [OF assms(2)] by blast+
  then show ?thesis by (intro conflicts_exclusive) auto
qed auto

lemma split_once_char: "c \<notin> set a \<Longrightarrow> split_once [c] (a @ c # b) = Some (a, b)"
  by (induction a) (auto simp: split_once.simps [of _ "_ # _"] strip_prefix_def starts_with_def)

lemma decode_encode_session:
  assumes "sk_native k \<noteq> []"
  shows "decode_session (encode_session k) = Some k"
proof -
  have "CHR '':'' \<notin> set (agent_kind_text (sk_agent k))" "agent_of_text (agent_kind_text (sk_agent k)) = Some (sk_agent k)"
    by (cases "sk_agent k"; simp add: agent_of_text_def)+
  then show ?thesis using split_once_char assms by (simp add: decode_session_def encode_session_def)
qed

section \<open>A queue of the engine\<close>

definition demo_snapshot :: engine_snapshot where
  "demo_snapshot =
     \<lparr>es_bindings = snd (attach \<lparr>cr_channel = Slack, cr_id = ''c''\<rparr> ''x'' False empty_table), es_backends = [Codex],
      es_actions = Map.empty, es_replies = Map.empty\<rparr>"

text \<open>An answer for the session \<open>codex:x\<close> runs; a message for \<open>x\<close>, which is the same session, and other work wait.\<close>

definition demo_engine_queue :: "(engine_resource, engine_work) dispatch_queue" where
  "demo_engine_queue =
     \<lparr>dq_capacity = 8, dq_concurrency = 4, dq_next_id = 1,
      dq_pending = [(Inbound \<lparr>cr_channel = Slack, cr_id = ''c''\<rparr> (InboundText ''hello''), 0), (Working ''codex:y'' ''t'', 0)],
      dq_active = [(0, work_scope demo_snapshot (PromptAcknowledged ''codex:x'' \<lparr>cr_channel = Slack, cr_id = ''c''\<rparr>))],
      dq_started_at = [(0, 0)], dq_statistics = empty_statistics\<rparr>"

section \<open>Property\<close>

text \<open>
  C8: The work of one agent session starts in the order of its admission, by whichever of its names the session is
  called: when an operation starts, no operation that was admitted before it and still waits touches one of its
  sessions, and none of these replaces a session of one of its backends.
\<close>

theorem session_work_in_order:
  assumes "next_ready now (work_scope snap) q = Inr (Some d, q')" and "s \<in> set (work_sessions snap (dp_work d))"
  shows "\<exists>n < length (dq_pending q). dp_work d = fst (dq_pending q ! n)
    \<and> (\<forall>m < n. \<forall>t \<in> set (work_sessions snap (fst (dq_pending q ! m))). \<not> same_session snap t s)
    \<and> (\<forall>m < n. \<forall>t \<in> set (replaced_sessions snap (fst (dq_pending q ! m))). \<not> same_backend snap t s)"
proof -
  obtain n where n: "runnable_index (work_scope snap) q = Some n"
      "start_work now n (work_scope snap (fst (dq_pending q ! n))) q = (d, q')"
    using assms(1) by (rule next_ready_Some)
  note first = first_runnable_Some [OF n(1) [unfolded runnable_index_def]]
  have work: "dp_work d = fst (dq_pending q ! n)" using first start_work_fields [OF n(2)] by simp
  have free: "\<not> conflicts (work_scope snap (fst (dq_pending q ! m))) (work_scope snap (dp_work d))" if "m < n" for m
    using first work that by simp
  show ?thesis
    using first work free same_session_conflicts [OF _ assms(2)] replaced_conflicts [OF _ assms(2)]
    by (intro exI [of _ n]) blast
qed

theorem session_work_in_order_witness:
  "\<exists>d q'. next_ready 1 (work_scope demo_snapshot) demo_engine_queue = Inr (Some d, q') \<and> dp_work d = Working ''codex:y'' ''t''
     \<and> (\<exists>n < 2. dp_work d = fst (dq_pending demo_engine_queue ! n))"
proof -
  have "(case next_ready 1 (work_scope demo_snapshot) demo_engine_queue of
      Inr (Some d, _) \<Rightarrow> dp_work d = Working ''codex:y'' ''t'' | _ \<Rightarrow> False)" by code_simp
  then obtain d q' where d: "next_ready 1 (work_scope demo_snapshot) demo_engine_queue = Inr (Some d, q')"
      "dp_work d = Working ''codex:y'' ''t''"
    by (auto split: sum.splits prod.splits option.splits)
  have "''codex:y'' \<in> set (work_sessions demo_snapshot (dp_work d))" using d(2) by simp
  from session_work_in_order [OF d(1) this] obtain n where
    "n < length (dq_pending demo_engine_queue)" "dp_work d = fst (dq_pending demo_engine_queue ! n)" by blast
  moreover have "length (dq_pending demo_engine_queue) = 2" by (simp add: demo_engine_queue_def)
  ultimately show ?thesis using d by (intro exI [of _ d] exI [of _ q'] conjI exI [of _ n]) simp_all
qed

end
