(* ===== verification/Outbox.thy ===== *)
theory Outbox
  imports Prompts Views "HOL-Library.Multiset" "HOL-Library.Product_Lexorder"
begin

text \<open>
  Durable delivery of the gateway (\<open>agentix-storage/src/notification_outbox.rs\<close>, the inbound events of \<open>state.rs\<close>): the
  table of inbound events, and the outbox of notifications with its cursors and leases. Tables are lists of keyed rows;
  the random tokens are arguments; sequence numbers are unbounded.
\<close>

section \<open>Inbound events\<close>

datatype event_status = Processing | EventCompleted | Uncertain | EventFailed | Rejected

type_synonym event_table = "(input_id \<times> event_status) list"

definition claim_event :: "input_id \<Rightarrow> event_table \<Rightarrow> bool \<times> event_table" where
  "claim_event k t =
     (if map_of t k \<in> {None, Some EventFailed} then (True, AList.update k Processing t) else (False, t))"

definition fence_event :: "input_id \<Rightarrow> event_table \<Rightarrow> event_table" where
  "fence_event k t = (if map_of t k \<in> {None, Some Processing} then AList.update k Uncertain t else t)"

definition complete_event :: "input_id \<Rightarrow> event_table \<Rightarrow> event_table" where
  "complete_event k t = (if map_of t k \<noteq> None then AList.update k EventCompleted t else t)"

definition release_event :: "input_id \<Rightarrow> event_table \<Rightarrow> event_table" where
  "release_event k t = (if map_of t k = Some Processing then AList.update k EventFailed t else t)"

text \<open>A restarted daemon releases what was in flight.\<close>

definition restart_events :: "event_table \<Rightarrow> event_table" where
  "restart_events t = map (\<lambda>(k, s). (k, if s = Processing then EventFailed else s)) t"

definition record_event :: "input_id \<Rightarrow> event_table \<Rightarrow> bool \<times> event_table" where
  "record_event k t = (let (claimed, t') = claim_event k t in (claimed, if claimed then complete_event k t' else t'))"

section \<open>The outbox\<close>

record notification =
  nt_conversation :: conversation_ref
  nt_view :: outbound_view
  nt_attempts :: int
  nt_coalesced :: int
  nt_next :: int
  nt_lease :: int
  nt_token :: "string option"
  nt_error :: "string option"

type_synonym outbox_key = "string \<times> int"

record outbox =
  ox_events :: event_table
  ox_cursors :: "(string \<times> int) list"
  ox_rows :: "(outbox_key \<times> notification) list"

record task_notification =
  tn_consumer :: string
  tn_sequence :: int
  tn_conversation :: conversation_ref
  tn_view :: outbound_view
  tn_attempts :: int
  tn_token :: string

definition empty_outbox :: outbox where
  "empty_outbox = \<lparr>ox_events = [], ox_cursors = [], ox_rows = []\<rparr>"

definition new_notification :: "conversation_ref \<Rightarrow> outbound_view \<Rightarrow> notification" where
  "new_notification c v = \<lparr>nt_conversation = c, nt_view = v, nt_attempts = 0, nt_coalesced = 1, nt_next = 0, nt_lease = 0,
     nt_token = None, nt_error = None\<rparr>"

definition saturating_add :: "int \<Rightarrow> int \<Rightarrow> int" where
  "saturating_add a b = max (- (2 ^ 63)) (min (2 ^ 63 - 1) (a + b))"

definition update_row :: "outbox_key \<Rightarrow> (notification \<Rightarrow> notification) \<Rightarrow> (outbox_key \<times> notification) list
    \<Rightarrow> (outbox_key \<times> notification) list" where
  "update_row k f = map (\<lambda>(j, r). (j, if j = k then f r else r))"

definition busy_view :: "int \<Rightarrow> nat \<Rightarrow> outbound_view" where
  "busy_view refused limit = text_view ''Session busy''
     (decimal (nat refused) @ '' requests were not accepted because this conversation already has '' @ decimal limit
      @ '' unfinished requests. Accepted requests remain in order. Please resend rejected requests after the queue clears.'')"

text \<open>The latest row of a conversation that no worker holds.\<close>

definition latest_unleased :: "string \<Rightarrow> conversation_ref \<Rightarrow> outbox \<Rightarrow> (int \<times> notification) option" where
  "latest_unleased consumer c x =
     (case sort_key (\<lambda>(n, _). - n) (map (\<lambda>((_, n), r). (n, r))
        (filter (\<lambda>((u, _), r). u = consumer \<and> nt_conversation r = c \<and> nt_token r = None) (ox_rows x))) of
        [] \<Rightarrow> None | p # _ \<Rightarrow> Some p)"

definition next_cursor :: "string \<Rightarrow> outbox \<Rightarrow> int" where
  "next_cursor consumer x = (case map_of (ox_cursors x) consumer of None \<Rightarrow> 1 | Some n \<Rightarrow> n + 1)"

definition reject_overloaded :: "string \<Rightarrow> conversation_ref \<Rightarrow> string \<Rightarrow> nat \<Rightarrow> outbox \<Rightarrow> bool \<times> outbox" where
  "reject_overloaded consumer c event limit x =
     (let k = (cr_channel c, event) in
      if map_of (ox_events x) k \<notin> {None, Some EventFailed} then (False, x)
      else
        let x1 = x\<lparr>ox_events := AList.update k Rejected (ox_events x)\<rparr> in
        (True, case latest_unleased consumer c x1 of
           Some (n, r) \<Rightarrow>
             let refused = saturating_add (nt_coalesced r) 1 in
             x1\<lparr>ox_rows := update_row (consumer, n) (\<lambda>r. r\<lparr>nt_view := busy_view refused limit, nt_coalesced := refused\<rparr>) (ox_rows x1)\<rparr>
         | None \<Rightarrow>
             let n = next_cursor consumer x1 in
             x1\<lparr>ox_cursors := AList.update consumer n (ox_cursors x1),
                ox_rows := ((consumer, n), new_notification c (busy_view 1 limit)) # ox_rows x1\<rparr>))"

definition notification_cursor :: "string \<Rightarrow> int \<Rightarrow> outbox \<Rightarrow> int option \<times> outbox" where
  "notification_cursor consumer legacy x =
     (let x1 = (if map_of (ox_cursors x) consumer = None then x\<lparr>ox_cursors := AList.update consumer legacy (ox_cursors x)\<rparr> else x)
      in (map_of (ox_cursors x1) consumer, x1))"

definition stage_notification :: "string \<Rightarrow> int \<Rightarrow> (conversation_ref \<times> outbound_view) option \<Rightarrow> outbox \<Rightarrow> outbox result" where
  "stage_notification consumer n notification x =
     (case map_of (ox_cursors x) consumer of
        None \<Rightarrow> Inl (Failed ''notification consumer must be initialized before staging events'')
      | Some cursor \<Rightarrow>
          Inr (if n \<le> cursor then x
               else
                 let x1 = x\<lparr>ox_cursors := AList.update consumer n (ox_cursors x)\<rparr> in
                 (case notification of
                    None \<Rightarrow> x1
                  | Some (c, v) \<Rightarrow> x1\<lparr>ox_rows := ((consumer, n), new_notification c v) # ox_rows x1\<rparr>)))"

text \<open>The oldest outstanding notification of each conversation, when it is due and not leased.\<close>

definition oldest :: "string \<Rightarrow> int \<Rightarrow> notification \<Rightarrow> outbox \<Rightarrow> bool" where
  "oldest consumer n r x \<longleftrightarrow>
     \<not> list_ex (\<lambda>((u, m), r'). u = consumer \<and> nt_conversation r' = nt_conversation r \<and> m < n) (ox_rows x)"

definition claimable :: "string \<Rightarrow> int \<Rightarrow> outbox \<Rightarrow> int list" where
  "claimable consumer now x =
     map snd (sort (map (\<lambda>((_, n), r). (nt_next r, n))
       (filter (\<lambda>((u, n), r). u = consumer \<and> nt_next r \<le> now \<and> nt_lease r \<le> now \<and> oldest consumer n r x) (ox_rows x))))"

fun lease_each :: "string \<Rightarrow> int \<Rightarrow> (int \<times> string) list \<Rightarrow> (outbox_key \<times> notification) list
    \<Rightarrow> task_notification list \<times> (outbox_key \<times> notification) list" where
  "lease_each consumer until [] rows = ([], rows)"
| "lease_each consumer until ((n, token) # rest) rows =
     (let rows' = update_row (consumer, n) (\<lambda>r. r\<lparr>nt_attempts := nt_attempts r + 1, nt_lease := until, nt_token := Some token\<rparr>) rows;
          (ds, rows'') = lease_each consumer until rest rows'
      in ((case map_of rows' (consumer, n) of
             None \<Rightarrow> []
           | Some r \<Rightarrow> [\<lparr>tn_consumer = consumer, tn_sequence = n, tn_conversation = nt_conversation r, tn_view = nt_view r,
                         tn_attempts = nt_attempts r, tn_token = token\<rparr>]) @ ds, rows''))"

definition claim_notifications ::
  "string \<Rightarrow> int \<Rightarrow> int \<Rightarrow> nat \<Rightarrow> (int \<Rightarrow> string) \<Rightarrow> outbox \<Rightarrow> (task_notification list \<times> outbox) result" where
  "claim_notifications consumer now lease limit tokens x =
     (if lease \<le> 0 then Inl (Failed ''notification lease must be positive'')
      else let (ds, rows) = lease_each consumer (saturating_add now lease) (map (\<lambda>n. (n, tokens n)) (take limit (claimable consumer now x))) (ox_rows x)
           in Inr (ds, x\<lparr>ox_rows := rows\<rparr>))"

definition retry_delay :: "int \<Rightarrow> int" where
  "retry_delay attempts = 2 ^ nat (max 0 (min 8 (attempts - 1)))"

definition finish_notification :: "task_notification \<Rightarrow> int \<Rightarrow> string option \<Rightarrow> outbox \<Rightarrow> bool \<times> outbox" where
  "finish_notification d now error x =
     (let k = (tn_consumer d, tn_sequence d); held = (\<lambda>(j, r). j = k \<and> nt_token r = Some (tn_token d)) in
      (list_ex held (ox_rows x),
       x\<lparr>ox_rows := (case error of
            Some e \<Rightarrow> map (\<lambda>(j, r). (j, if held (j, r)
                then r\<lparr>nt_next := saturating_add now (retry_delay (tn_attempts d)), nt_lease := 0, nt_token := None,
                        nt_error := Some (of_chars (take 1024 (chars e)))\<rparr> else r)) (ox_rows x)
          | None \<Rightarrow> filter (\<lambda>p. \<not> held p) (ox_rows x))\<rparr>))"

section \<open>Lemmas on inbound events\<close>

lemma claim_event_iff: "fst (claim_event k t) \<longleftrightarrow> map_of t k = None \<or> map_of t k = Some EventFailed"
  by (simp add: claim_event_def)

text \<open>An input is claimed again only after it was released; a rejected or fenced one never.\<close>

lemma settled_event_stays:
  "\<not> fst (claim_event k (fence_event k (snd (claim_event k t))))"
  "\<not> fst (claim_event k (complete_event k (snd (claim_event k t))))"
  "fst (claim_event k t) \<Longrightarrow> fst (claim_event k (release_event k (snd (claim_event k t))))"
  "fst (reject_overloaded u c e l x) \<Longrightarrow> \<not> fst (claim_event (cr_channel c, e) (ox_events (snd (reject_overloaded u c e l x))))"
  by (auto simp: claim_event_def fence_event_def complete_event_def release_event_def reject_overloaded_def update_conv' Let_def
      split: option.split)

lemma settled_after_restart: "\<not> fst (claim_event k t) \<Longrightarrow> map_of t k \<noteq> Some Processing \<Longrightarrow> \<not> fst (claim_event k (restart_events t))"
  by (induction t) (auto simp: claim_event_def restart_events_def split: if_splits)

section \<open>Histories of the outbox\<close>

text \<open>A history keeps what was staged and what was delivered, each with its conversation, in order.\<close>

record outbox_history =
  oh_box :: outbox
  oh_staged :: "(outbox_key \<times> conversation_ref) list"
  oh_done :: "(outbox_key \<times> conversation_ref) list"

definition owners :: "outbox \<Rightarrow> (outbox_key \<times> conversation_ref) list" where
  "owners x = map (\<lambda>(k, r). (k, nt_conversation r)) (ox_rows x)"

definition added :: "outbox \<Rightarrow> outbox \<Rightarrow> (outbox_key \<times> conversation_ref) list" where
  "added x x' = filter (\<lambda>(k, _). k \<notin> fst ` set (ox_rows x)) (owners x')"

inductive outbox_step :: "outbox_history \<Rightarrow> outbox_history \<Rightarrow> bool" where
  Import: "outbox_step h (h\<lparr>oh_box := snd (notification_cursor u legacy (oh_box h))\<rparr>)"
| Stage: "stage_notification u n notification (oh_box h) = Inr x \<Longrightarrow>
    outbox_step h (h\<lparr>oh_box := x, oh_staged := oh_staged h @ added (oh_box h) x\<rparr>)"
| Reject: "reject_overloaded u c event limit (oh_box h) = (rejected, x) \<Longrightarrow>
    outbox_step h (h\<lparr>oh_box := x, oh_staged := oh_staged h @ added (oh_box h) x\<rparr>)"
| Claim: "claim_notifications u now lease limit tokens (oh_box h) = Inr (ds, x) \<Longrightarrow> outbox_step h (h\<lparr>oh_box := x\<rparr>)"
| Finish: "finish_notification d now error (oh_box h) = (ok, x) \<Longrightarrow>
    outbox_step h (h\<lparr>oh_box := x, oh_done := oh_done h @ filter (\<lambda>(k, _). k \<notin> fst ` set (ox_rows x)) (owners (oh_box h))\<rparr>)"
| Event: "outbox_step h (h\<lparr>oh_box := (oh_box h)\<lparr>ox_events := events\<rparr>\<rparr>)"

definition no_history :: outbox_history where
  "no_history = \<lparr>oh_box = empty_outbox, oh_staged = [], oh_done = []\<rparr>"

definition outbox_reachable :: "outbox_history \<Rightarrow> bool" where
  "outbox_reachable h \<longleftrightarrow> outbox_step\<^sup>*\<^sup>* no_history h"

end
