(* ===== verification/Outbox_Laws.thy ===== *)
theory Outbox_Laws
  imports Outbox "HOL-Library.Code_Target_Nat" "HOL-Library.Code_Target_Int"
begin

text \<open>
  The outbox delivers the notifications of one conversation in their order, each once, and loses none, whatever workers
  claim, fail, repeat or acknowledge late.
\<close>

section \<open>The invariant of the outbox\<close>

text \<open>Keys with conversations; \<open>first_of\<close>: no smaller sequence number of the same consumer and conversation.\<close>

type_synonym owned = "outbox_key \<times> conversation_ref"

definition row_owners :: "(outbox_key \<times> notification) list \<Rightarrow> owned list" where
  "row_owners rows = map (\<lambda>p. (fst p, nt_conversation (snd p))) rows"

definition leased :: "(outbox_key \<times> notification) list \<Rightarrow> outbox_key set" where
  "leased rows = fst ` {p \<in> set rows. nt_token (snd p) \<noteq> None}"

definition first_of :: "owned \<Rightarrow> owned list \<Rightarrow> bool" where
  "first_of p ps \<longleftrightarrow> (\<forall>p' \<in> set ps. fst (fst p') = fst (fst p) \<longrightarrow> snd p' = snd p \<longrightarrow> snd (fst p) \<le> snd (fst p'))"

definition below_cursor :: "(string \<times> int) list \<Rightarrow> outbox_key \<Rightarrow> bool" where
  "below_cursor cursors k \<longleftrightarrow> (\<exists>m. map_of cursors (fst k) = Some m \<and> snd k \<le> m)"

definition delivery_lane :: "string \<Rightarrow> conversation_ref \<Rightarrow> owned list \<Rightarrow> int list" where
  "delivery_lane u c ps = map (\<lambda>p. snd (fst p)) (filter (\<lambda>p. fst (fst p) = u \<and> snd p = c) ps)"

definition history_ok :: "outbox_history \<Rightarrow> bool" where
  "history_ok h \<longleftrightarrow>
     (let rows = ox_rows (oh_box h); ps = row_owners rows; cursors = ox_cursors (oh_box h) in
      distinct (map fst (oh_staged h)) \<and> mset (oh_staged h) = mset (oh_done h) + mset ps
      \<and> (\<forall>p \<in> set (oh_staged h). below_cursor cursors (fst p))
      \<and> (\<forall>p \<in> set ps. fst p \<in> leased rows \<longrightarrow> first_of p ps)
      \<and> (\<forall>u c. sorted_wrt (<) (delivery_lane u c (oh_done h))
           \<and> (\<forall>m \<in> set (delivery_lane u c (oh_done h)). \<forall>n \<in> set (delivery_lane u c ps). m < n)))"

lemma owners_eq: "owners x = row_owners (ox_rows x)"
  by (simp add: owners_def row_owners_def case_prod_beta)

lemma fst_row_owners: "fst ` set (row_owners rows) = fst ` set rows"
  by (simp add: row_owners_def image_image)

lemma row_owners_update:
  assumes "\<And>r. nt_conversation (f r) = nt_conversation r"
  shows "row_owners (update_row k f rows) = row_owners rows"
  using assms by (simp add: row_owners_def update_row_def case_prod_beta)

lemma leased_update: "leased (update_row k f rows) \<subseteq> insert k (leased rows)"
  by (auto simp: leased_def update_row_def image_iff split: if_splits)

lemma lease_each_kept:
  assumes "lease_each u until ns rows = (ds, rows')"
  shows "row_owners rows' = row_owners rows \<and> leased rows' \<subseteq> leased rows \<union> (\<lambda>n. (u, n)) ` fst ` set ns"
  using assms
proof (induction u until ns rows arbitrary: ds rows' rule: lease_each.induct)
  case (2 u until n token rest rows)
  let ?f = "\<lambda>r. r\<lparr>nt_attempts := nt_attempts r + 1, nt_lease := until, nt_token := Some token\<rparr>"
  obtain ds' where step: "lease_each u until rest (update_row (u, n) ?f rows) = (ds', rows')"
    using 2(2) by (auto simp: Let_def split: prod.splits)
  have "row_owners (update_row (u, n) ?f rows) = row_owners rows" by (rule row_owners_update) simp
  then show ?case using 2(1) [OF refl step] leased_update [of "(u, n)" ?f rows] by auto
qed simp

lemma oldest_first:
  assumes "((u, n), r) \<in> set (ox_rows x)" "oldest u n r x"
  shows "first_of ((u, n), nt_conversation r) (row_owners (ox_rows x))"
  using assms by (auto simp: oldest_def first_of_def row_owners_def list_ex_iff not_less)

lemma claimable_first:
  assumes "n \<in> set (claimable u now x)"
  obtains r where "((u, n), r) \<in> set (ox_rows x)" "first_of ((u, n), nt_conversation r) (row_owners (ox_rows x))"
  using assms oldest_first by (auto simp: claimable_def)

section \<open>Quiet steps, additions and deliveries\<close>

text \<open>A quiet step changes no key, moves cursors only forward, and leases only first rows.\<close>

definition quiet :: "outbox \<Rightarrow> outbox \<Rightarrow> bool" where
  "quiet x x' \<longleftrightarrow> row_owners (ox_rows x') = row_owners (ox_rows x)
     \<and> (\<forall>k. below_cursor (ox_cursors x) k \<longrightarrow> below_cursor (ox_cursors x') k)
     \<and> (\<forall>p \<in> set (row_owners (ox_rows x)). fst p \<in> leased (ox_rows x') \<longrightarrow> fst p \<in> leased (ox_rows x)
          \<or> first_of p (row_owners (ox_rows x)))"

lemma quiet_history:
  assumes "history_ok h" "quiet (oh_box h) x"
  shows "history_ok (h\<lparr>oh_box := x\<rparr>)"
  using assms unfolding history_ok_def quiet_def Let_def by auto

lemma below_cursor_update:
  assumes "below_cursor cursors k" "\<And>m. map_of cursors u = Some m \<Longrightarrow> m \<le> n"
  shows "below_cursor (AList.update u n cursors) k"
  using assms by (fastforce simp: below_cursor_def update_conv')

text \<open>A row is added with a number above the cursor of its consumer.\<close>

definition stages :: "outbox \<Rightarrow> string \<Rightarrow> int \<Rightarrow> conversation_ref \<Rightarrow> outbox \<Rightarrow> bool" where
  "stages x u n c x' \<longleftrightarrow> (\<exists>v. ox_rows x' = ((u, n), new_notification c v) # ox_rows x)
     \<and> ox_cursors x' = AList.update u n (ox_cursors x) \<and> (\<forall>m. map_of (ox_cursors x) u = Some m \<longrightarrow> m < n)"

lemma delivery_lane_Cons:
  "delivery_lane u c (p # ps) = (if fst (fst p) = u \<and> snd p = c then [snd (fst p)] else []) @ delivery_lane u c ps"
  by (simp add: delivery_lane_def)

lemma delivery_lane_append: "delivery_lane u c (ps @ qs) = delivery_lane u c ps @ delivery_lane u c qs"
  by (simp add: delivery_lane_def)

lemma set_delivery_lane: "m \<in> set (delivery_lane u c ps) \<longleftrightarrow> ((u, m), c) \<in> set ps"
  by (force simp: delivery_lane_def)

lemma stages_history:
  assumes ok: "history_ok h" and g: "stages (oh_box h) u n c x"
  shows "history_ok (h\<lparr>oh_box := x, oh_staged := oh_staged h @ [((u, n), c)]\<rparr>)"
proof -
  let ?x = "oh_box h" and ?ps = "row_owners (ox_rows (oh_box h))"
  obtain v where x: "ox_rows x = ((u, n), new_notification c v) # ox_rows ?x" "ox_cursors x = AList.update u n (ox_cursors ?x)"
    and above: "\<And>m. map_of (ox_cursors ?x) u = Some m \<Longrightarrow> m < n"
    using g by (auto simp: stages_def)
  have staged: "distinct (map fst (oh_staged h))" "mset (oh_staged h) = mset (oh_done h) + mset ?ps"
    "\<And>p. p \<in> set (oh_staged h) \<Longrightarrow> below_cursor (ox_cursors ?x) (fst p)"
    and first: "\<And>p. p \<in> set ?ps \<Longrightarrow> fst p \<in> leased (ox_rows ?x) \<Longrightarrow> first_of p ?ps"
    and lanes: "\<And>u c. sorted_wrt (<) (delivery_lane u c (oh_done h))"
      "\<And>u c m k. m \<in> set (delivery_lane u c (oh_done h)) \<Longrightarrow> k \<in> set (delivery_lane u c ?ps) \<Longrightarrow> m < k"
    using ok unfolding history_ok_def Let_def by blast+
  have members: "set (oh_staged h) = set (oh_done h) \<union> set ?ps" using staged(2) by (metis set_mset_mset set_mset_union)
  have smaller: "snd (fst p) < n" if "p \<in> set (oh_staged h)" "fst (fst p) = u" for p
    using staged(3) [OF that(1)] above that(2) by (fastforce simp: below_cursor_def)
  have fresh: "(u, n) \<notin> fst ` set (oh_staged h)" using smaller by force
  have ps: "row_owners (ox_rows x) = ((u, n), c) # ?ps" by (simp add: x(1) row_owners_def new_notification_def)
  have leased: "leased (ox_rows x) = leased (ox_rows ?x)" by (auto simp: x(1) leased_def new_notification_def)
  have unleased: "(u, n) \<notin> leased (ox_rows ?x)"
  proof
    assume "(u, n) \<in> leased (ox_rows ?x)"
    then have "(u, n) \<in> fst ` set ?ps" unfolding fst_row_owners by (auto simp: leased_def)
    then show False using fresh members by auto
  qed
  show ?thesis
    unfolding history_ok_def Let_def
  proof (intro conjI ballI allI impI)
    show "distinct (map fst (oh_staged (h\<lparr>oh_box := x, oh_staged := oh_staged h @ [((u, n), c)]\<rparr>)))"
      using staged(1) fresh by simp
    show "mset (oh_staged (h\<lparr>oh_box := x, oh_staged := oh_staged h @ [((u, n), c)]\<rparr>))
        = mset (oh_done (h\<lparr>oh_box := x, oh_staged := oh_staged h @ [((u, n), c)]\<rparr>))
          + mset (row_owners (ox_rows (oh_box (h\<lparr>oh_box := x, oh_staged := oh_staged h @ [((u, n), c)]\<rparr>))))"
      using staged(2) by (simp add: ps)
  next
    fix p assume "p \<in> set (oh_staged (h\<lparr>oh_box := x, oh_staged := oh_staged h @ [((u, n), c)]\<rparr>))"
    then consider "p = ((u, n), c)" | "p \<in> set (oh_staged h)" by auto
    then show "below_cursor (ox_cursors (oh_box (h\<lparr>oh_box := x, oh_staged := oh_staged h @ [((u, n), c)]\<rparr>))) (fst p)"
    proof cases
      case 2
      then show ?thesis using below_cursor_update [OF staged(3) less_imp_le [OF above]] by (simp add: x(2))
    qed (simp add: x(2) below_cursor_def update_conv')
  next
    fix p assume p: "p \<in> set (row_owners (ox_rows (oh_box (h\<lparr>oh_box := x, oh_staged := oh_staged h @ [((u, n), c)]\<rparr>))))"
      "fst p \<in> leased (ox_rows (oh_box (h\<lparr>oh_box := x, oh_staged := oh_staged h @ [((u, n), c)]\<rparr>)))"
    then have old: "p \<in> set ?ps" "fst p \<in> leased (ox_rows ?x)" using unleased leased by (auto simp: ps)
    have "snd (fst p) \<le> n" if "fst (fst p) = u" using smaller [of p] old(1) members that by simp
    then show "first_of p (row_owners (ox_rows (oh_box (h\<lparr>oh_box := x, oh_staged := oh_staged h @ [((u, n), c)]\<rparr>))))"
      using first [OF old] by (simp add: ps first_of_def)
  next
    fix u' c'
    show "sorted_wrt (<) (delivery_lane u' c' (oh_done (h\<lparr>oh_box := x, oh_staged := oh_staged h @ [((u, n), c)]\<rparr>)))"
      using lanes(1) by simp
    fix m k assume m: "m \<in> set (delivery_lane u' c' (oh_done (h\<lparr>oh_box := x, oh_staged := oh_staged h @ [((u, n), c)]\<rparr>)))"
      and k: "k \<in> set (delivery_lane u' c' (row_owners (ox_rows (oh_box (h\<lparr>oh_box := x, oh_staged := oh_staged h @ [((u, n), c)]\<rparr>)))))"
    show "m < k"
    proof (cases "k \<in> set (delivery_lane u' c' ?ps)")
      case True
      then show ?thesis using lanes(2) m by simp
    next
      case False
      then have "u' = u" "k = n" using k by (auto simp: ps delivery_lane_Cons split: if_splits)
      then show ?thesis using smaller [of "((u, m), c')"] m members by (simp add: set_delivery_lane)
    qed
  qed
qed

text \<open>A delivery removes one leased row.\<close>

definition delivers :: "outbox \<Rightarrow> owned \<Rightarrow> outbox \<Rightarrow> bool" where
  "delivers x p x' \<longleftrightarrow> ox_cursors x' = ox_cursors x \<and> fst p \<in> leased (ox_rows x) \<and> leased (ox_rows x') \<subseteq> leased (ox_rows x)
     \<and> (\<exists>as bs. row_owners (ox_rows x) = as @ p # bs \<and> row_owners (ox_rows x') = as @ bs)"

lemma delivers_history:
  assumes ok: "history_ok h" and d: "delivers (oh_box h) p x"
  shows "history_ok (h\<lparr>oh_box := x, oh_done := oh_done h @ [p]\<rparr>)"
proof -
  let ?ps = "row_owners (ox_rows (oh_box h))" and ?h = "h\<lparr>oh_box := x, oh_done := oh_done h @ [p]\<rparr>"
  obtain as bs where ps: "?ps = as @ p # bs" "row_owners (ox_rows x) = as @ bs" using d by (auto simp: delivers_def)
  have staged: "distinct (map fst (oh_staged h))" "mset (oh_staged h) = mset (oh_done h) + mset ?ps"
    "\<And>p. p \<in> set (oh_staged h) \<Longrightarrow> below_cursor (ox_cursors (oh_box h)) (fst p)"
    and first: "\<And>p. p \<in> set ?ps \<Longrightarrow> fst p \<in> leased (ox_rows (oh_box h)) \<Longrightarrow> first_of p ?ps"
    and lanes: "\<And>u c. sorted_wrt (<) (delivery_lane u c (oh_done h))"
      "\<And>u c m k. m \<in> set (delivery_lane u c (oh_done h)) \<Longrightarrow> k \<in> set (delivery_lane u c ?ps) \<Longrightarrow> m < k"
    using ok unfolding history_ok_def Let_def by blast+
  have "mset (map fst (oh_staged h)) = mset (map fst (oh_done h @ ?ps))" using staged(2) by simp
  then have "distinct (map fst (oh_done h @ ?ps))" using staged(1) by (metis mset_eq_imp_distinct_iff)
  then have alone: "fst p \<notin> fst ` set (as @ bs)" by (auto simp: ps(1))
  have p: "p \<in> set ?ps" "first_of p ?ps" using first [of p] d by (simp_all add: ps(1) delivers_def)
  have beyond: "snd (fst p) < k" if "k \<in> set (delivery_lane u c (as @ bs))" "fst (fst p) = u" "snd p = c" for u c k
  proof -
    have k: "((u, k), c) \<in> set (as @ bs)" using that(1) by (simp add: set_delivery_lane del: set_append)
    then have "((u, k), c) \<in> set ?ps" by (auto simp: ps(1))
    then have "snd (fst p) \<le> k" using p(2) that(2,3) by (auto simp: first_of_def)
    moreover have "(u, k) \<noteq> fst p" using imageI [OF k, of fst] alone unfolding fst_conv by metis
    ultimately show ?thesis using that(2) by (auto simp: prod_eq_iff)
  qed
  have lane: "delivery_lane u c (oh_done h @ [p]) = delivery_lane u c (oh_done h) @ (if fst (fst p) = u \<and> snd p = c then [snd (fst p)] else [])"
    for u c by (simp add: delivery_lane_def)
  have rest: "k \<in> set (delivery_lane u c ?ps)" if "k \<in> set (delivery_lane u c (as @ bs))" for u c k
    using that by (auto simp: ps(1) delivery_lane_append delivery_lane_Cons)
  have mine: "snd (fst p) \<in> set (delivery_lane (fst (fst p)) (snd p) ?ps)" using p(1) by (simp add: set_delivery_lane)
  show ?thesis
    unfolding history_ok_def Let_def
  proof (intro conjI ballI allI impI)
    show "distinct (map fst (oh_staged ?h))" using staged(1) by simp
    show "mset (oh_staged ?h) = mset (oh_done ?h) + mset (row_owners (ox_rows (oh_box ?h)))" using staged(2) by (simp add: ps)
  next
    fix q assume "q \<in> set (oh_staged ?h)"
    then show "below_cursor (ox_cursors (oh_box ?h)) (fst q)" using staged(3) d by (simp add: delivers_def)
  next
    fix q assume q: "q \<in> set (row_owners (ox_rows (oh_box ?h)))" "fst q \<in> leased (ox_rows (oh_box ?h))"
    then have "first_of q ?ps" using first [of q] d by (auto simp: ps delivers_def)
    then show "first_of q (row_owners (ox_rows (oh_box ?h)))" by (simp add: ps first_of_def)
  next
    fix u c
    show "sorted_wrt (<) (delivery_lane u c (oh_done ?h))"
      using lanes mine by (simp add: lane sorted_wrt_append) blast
    fix m k assume m: "m \<in> set (delivery_lane u c (oh_done ?h))" and k: "k \<in> set (delivery_lane u c (row_owners (ox_rows (oh_box ?h))))"
    have k': "k \<in> set (delivery_lane u c (as @ bs))" using k by (simp add: ps)
    consider "m \<in> set (delivery_lane u c (oh_done h))" | "m = snd (fst p)" "fst (fst p) = u" "snd p = c"
      using m by (simp add: lane split: if_splits) blast
    then show "m < k" using lanes(2) rest [OF k'] beyond [OF k'] by cases auto
  qed
qed

section \<open>Every step keeps the invariant\<close>

lemma added_same: "row_owners (ox_rows x') = row_owners (ox_rows x) \<Longrightarrow> added x x' = []"
  using fst_row_owners [of "ox_rows x"] by (force simp: added_def owners_eq filter_empty_conv)

lemma rows_below_cursor:
  assumes "history_ok h" "k \<in> fst ` set (ox_rows (oh_box h))"
  shows "below_cursor (ox_cursors (oh_box h)) k"
proof -
  have members: "mset (oh_staged h) = mset (oh_done h) + mset (row_owners (ox_rows (oh_box h)))"
    and below: "\<And>p. p \<in> set (oh_staged h) \<Longrightarrow> below_cursor (ox_cursors (oh_box h)) (fst p)"
    using assms(1) unfolding history_ok_def Let_def by blast+
  have "set (row_owners (ox_rows (oh_box h))) \<subseteq> set (oh_staged h)" by (metis members set_mset_mset set_mset_union sup.cobounded2)
  moreover obtain p where "p \<in> set (row_owners (ox_rows (oh_box h)))" "fst p = k"
    using assms(2) unfolding fst_row_owners [symmetric] by auto
  ultimately show ?thesis using below [of p] by blast
qed

lemma added_stages:
  assumes ok: "history_ok h" and g: "stages (oh_box h) u n c x"
  shows "added (oh_box h) x = [((u, n), c)]"
proof -
  obtain v where x: "ox_rows x = ((u, n), new_notification c v) # ox_rows (oh_box h)"
    and above: "\<And>m. map_of (ox_cursors (oh_box h)) u = Some m \<Longrightarrow> m < n"
    using g by (auto simp: stages_def)
  have "(u, n) \<notin> fst ` set (ox_rows (oh_box h))"
  proof
    assume "(u, n) \<in> fst ` set (ox_rows (oh_box h))"
    from rows_below_cursor [OF ok this] show False using above by (force simp: below_cursor_def)
  qed
  moreover have "filter (\<lambda>(k, _). k \<notin> fst ` set (ox_rows (oh_box h))) (row_owners (ox_rows (oh_box h))) = []"
    using added_same [OF refl, of "oh_box h"] by (simp add: added_def owners_eq)
  ultimately show ?thesis by (simp add: added_def owners_eq x row_owners_def new_notification_def)
qed

lemma added_history:
  assumes "history_ok h" "quiet (oh_box h) x \<or> (\<exists>u n c. stages (oh_box h) u n c x)"
  shows "history_ok (h\<lparr>oh_box := x, oh_staged := oh_staged h @ added (oh_box h) x\<rparr>)"
  using assms(2)
proof
  assume q: "quiet (oh_box h) x"
  then have "added (oh_box h) x = []" by (intro added_same) (simp add: quiet_def)
  then show ?thesis using quiet_history [OF assms(1) q] by (simp add: history_ok_def)
next
  assume "\<exists>u n c. stages (oh_box h) u n c x"
  then obtain u n c where g: "stages (oh_box h) u n c x" by blast
  show ?thesis using stages_history [OF assms(1) g] by (simp add: added_stages [OF assms(1) g])
qed

lemma quiet_cursor:
  assumes "ox_rows x' = ox_rows x" "ox_cursors x' = AList.update u n (ox_cursors x)"
    "\<And>m. map_of (ox_cursors x) u = Some m \<Longrightarrow> m \<le> n"
  shows "quiet x x'"
  using assms below_cursor_update [of "ox_cursors x" _ u n] by (simp add: quiet_def)

lemma quiet_refl: "quiet x x"
  by (simp add: quiet_def)

lemma cursor_quiet: "quiet x (snd (notification_cursor u legacy x))"
  by (cases "map_of (ox_cursors x) u = None")
    (auto simp: notification_cursor_def Let_def quiet_refl intro!: quiet_cursor [of _ _ u legacy])

lemma stage_cases:
  assumes "stage_notification u n notification x = Inr x'"
  shows "quiet x x' \<or> (\<exists>u n c. stages x u n c x')"
proof (cases "map_of (ox_cursors x) u")
  case None
  then show ?thesis using assms by (simp add: stage_notification_def)
next
  case (Some m)
  show ?thesis
  proof (cases "n \<le> m")
    case True
    then show ?thesis using assms Some by (simp add: stage_notification_def quiet_refl)
  next
    case False
    show ?thesis
    proof (cases notification)
      case None
      then have "quiet x x'" using assms Some False by (intro quiet_cursor [of _ _ u n]) (auto simp: stage_notification_def)
      then show ?thesis ..
    next
      case (Some cv)
      then have "stages x u n (fst cv) x'"
        using assms \<open>map_of (ox_cursors x) u = Some m\<close> False
        by (auto simp: stage_notification_def stages_def case_prod_beta)
      then show ?thesis by blast
    qed
  qed
qed

lemma reject_cases:
  assumes "reject_overloaded u c event limit x = (rejected, x')"
  shows "quiet x x' \<or> (\<exists>u n c. stages x u n c x')"
proof (cases "map_of (ox_events x) (cr_channel c, event) \<in> {None, Some EventFailed}")
  case False
  then show ?thesis using assms by (auto simp: reject_overloaded_def Let_def quiet_refl)
next
  case True
  let ?x = "x\<lparr>ox_events := AList.update (cr_channel c, event) Rejected (ox_events x)\<rparr>"
  show ?thesis
  proof (cases "latest_unleased u c ?x")
    case None
    have "ox_rows x' = ((u, next_cursor u x), new_notification c (busy_view 1 limit)) # ox_rows x"
      "ox_cursors x' = AList.update u (next_cursor u x) (ox_cursors x)"
      using None assms True by (auto simp: reject_overloaded_def Let_def next_cursor_def)
    moreover have "m < next_cursor u x" if "map_of (ox_cursors x) u = Some m" for m using that by (simp add: next_cursor_def)
    ultimately have "stages x u (next_cursor u x) c x'" unfolding stages_def by blast
    then show ?thesis by blast
  next
    case (Some p)
    let ?f = "\<lambda>r. r\<lparr>nt_view := busy_view (saturating_add (nt_coalesced (snd p)) 1) limit,
        nt_coalesced := saturating_add (nt_coalesced (snd p)) 1\<rparr>"
    have x': "ox_rows x' = update_row (u, fst p) ?f (ox_rows x)" "ox_cursors x' = ox_cursors x"
      using assms True Some by (auto simp: reject_overloaded_def Let_def case_prod_beta)
    have "leased (ox_rows x') \<subseteq> leased (ox_rows x)"
      unfolding x'(1) by (auto simp: leased_def update_row_def image_iff split: if_splits) blast+
    moreover have "row_owners (ox_rows x') = row_owners (ox_rows x)" unfolding x'(1) by (rule row_owners_update) simp
    ultimately have "quiet x x'" by (auto simp: quiet_def x'(2))
    then show ?thesis ..
  qed
qed

lemma rows_distinct:
  assumes "history_ok h"
  shows "distinct (map fst (ox_rows (oh_box h)))"
proof -
  have staged: "distinct (map fst (oh_staged h))" "mset (oh_staged h) = mset (oh_done h) + mset (row_owners (ox_rows (oh_box h)))"
    using assms unfolding history_ok_def Let_def by blast+
  have "mset (map fst (oh_staged h)) = mset (map fst (oh_done h @ row_owners (ox_rows (oh_box h))))" using staged(2) by simp
  then have "distinct (map fst (oh_done h @ row_owners (ox_rows (oh_box h))))" using staged(1) by (metis mset_eq_imp_distinct_iff)
  then show ?thesis by (simp add: row_owners_def comp_def)
qed

lemma claim_quiet:
  assumes "claim_notifications u now lease limit tokens x = Inr (ds, x')" and alone: "distinct (map fst (ox_rows x))"
  shows "quiet x x'"
proof -
  let ?ns = "take limit (claimable u now x)"
  obtain rows where rows: "lease_each u (saturating_add now lease) (map (\<lambda>n. (n, tokens n)) ?ns) (ox_rows x) = (ds, rows)"
    and x': "x' = x\<lparr>ox_rows := rows\<rparr>"
    using assms by (auto simp: claim_notifications_def split: if_splits prod.splits)
  have kept: "row_owners rows = row_owners (ox_rows x)" "leased rows \<subseteq> leased (ox_rows x) \<union> (\<lambda>n. (u, n)) ` set ?ns"
    using lease_each_kept [OF rows] by (simp_all add: image_image)
  have first: "first_of p (row_owners (ox_rows x))"
    if p: "p \<in> set (row_owners (ox_rows x))" "fst p = (u, n)" and n: "n \<in> set ?ns" for p n
  proof -
    obtain r where r: "((u, n), r) \<in> set (ox_rows x)" "first_of ((u, n), nt_conversation r) (row_owners (ox_rows x))"
      using claimable_first in_set_takeD [OF n] by metis
    obtain r' where "((u, n), r') \<in> set (ox_rows x)" "snd p = nt_conversation r'" using p by (auto simp: row_owners_def)
    then have "snd p = nt_conversation r" using r(1) alone by (metis eq_key_imp_eq_value)
    then show ?thesis using r(2) p(2) by (metis prod.collapse)
  qed
  have "fst p \<in> leased (ox_rows x) \<or> first_of p (row_owners (ox_rows x))"
    if p: "p \<in> set (row_owners (ox_rows x))" "fst p \<in> leased rows" for p
  proof -
    from kept(2) p(2) consider "fst p \<in> leased (ox_rows x)" | n where "fst p = (u, n)" "n \<in> set ?ns" by blast
    then show ?thesis using first [OF p(1)] by cases blast+
  qed
  then show ?thesis by (simp add: quiet_def x' kept(1))
qed

text \<open>Settling a delivery: the row is deleted, or stays for a retry, or the token is stale and nothing happens.\<close>

lemma finish_retry_quiet:
  assumes "finish_notification d now (Some e) x = (ok, x')"
  shows "quiet x x'"
proof -
  define f where "f = (\<lambda>j (r :: notification). if j = (tn_consumer d, tn_sequence d) \<and> nt_token r = Some (tn_token d)
    then r\<lparr>nt_next := saturating_add now (retry_delay (tn_attempts d)), nt_lease := 0, nt_token := None,
      nt_error := Some (of_chars (take 1024 (chars e)))\<rparr> else r)"
  have x': "x' = x\<lparr>ox_rows := map (\<lambda>(j, r). (j, f j r)) (ox_rows x)\<rparr>"
    using assms by (auto simp: finish_notification_def Let_def f_def)
  have f: "nt_conversation (f j r) = nt_conversation r" "nt_token (f j r) \<noteq> None \<Longrightarrow> nt_token r \<noteq> None" for j r
    by (simp_all add: f_def split: if_splits)
  have "row_owners (ox_rows x') = row_owners (ox_rows x)" by (simp add: x' row_owners_def case_prod_beta f(1))
  moreover have "leased (ox_rows x') \<subseteq> leased (ox_rows x)" unfolding leased_def x' using f(2) by force
  ultimately show ?thesis by (auto simp: quiet_def x')
qed

lemma filter_one:
  assumes "distinct (map fst rows)" "(k, r) \<in> set rows" "P (k, r)" "\<And>p. P p \<Longrightarrow> fst p = k"
  obtains as bs where "rows = as @ (k, r) # bs" "filter (\<lambda>p. \<not> P p) rows = as @ bs"
proof -
  obtain as bs where rows: "rows = as @ (k, r) # bs" using assms(2) by (meson split_list)
  have "k \<notin> fst ` set (as @ bs)" using assms(1) by (auto simp: rows)
  then have "\<not> P p" if "p \<in> set (as @ bs)" for p using that assms(4) by blast
  then have "filter (\<lambda>p. \<not> P p) as = as" "filter (\<lambda>p. \<not> P p) bs = bs" by (simp_all add: filter_id_conv)
  then show ?thesis using that [OF rows] assms(3) by (simp add: rows)
qed

lemma finish_delivers:
  assumes "finish_notification d now None x = (ok, x')" "distinct (map fst (ox_rows x))"
  shows "x' = x \<or> (\<exists>p. delivers x p x')"
proof -
  define P where "P = (\<lambda>p :: outbox_key \<times> notification. fst p = (tn_consumer d, tn_sequence d) \<and> nt_token (snd p) = Some (tn_token d))"
  have x': "x' = x\<lparr>ox_rows := filter (\<lambda>p. \<not> P p) (ox_rows x)\<rparr>"
    using assms(1) by (auto simp: finish_notification_def Let_def P_def case_prod_beta)
  show ?thesis
  proof (cases "\<exists>p \<in> set (ox_rows x). P p")
    case False
    then have "filter (\<lambda>p. \<not> P p) (ox_rows x) = ox_rows x" by (simp add: filter_id_conv)
    then show ?thesis by (simp add: x')
  next
    case True
    then obtain k r where p: "(k, r) \<in> set (ox_rows x)" "P (k, r)" by force
    have only: "fst q = k" if "P q" for q using that p(2) by (simp add: P_def)
    obtain as bs where rows: "ox_rows x = as @ (k, r) # bs" "filter (\<lambda>p. \<not> P p) (ox_rows x) = as @ bs"
      by (rule filter_one [where P = P, OF assms(2) p only])
    have "k \<in> leased (ox_rows x)"
      unfolding leased_def by (rule image_eqI [of _ _ "(k, r)"]) (use p in \<open>simp_all add: P_def\<close>)
    moreover have "leased (as @ bs) \<subseteq> leased (ox_rows x)" by (auto simp: rows(1) leased_def)
    moreover have "row_owners (ox_rows x) = row_owners as @ (k, nt_conversation r) # row_owners bs"
      "row_owners (as @ bs) = row_owners as @ row_owners bs" by (simp_all add: rows(1) row_owners_def)
    ultimately have "delivers x (k, nt_conversation r) x'" unfolding delivers_def x' rows(2) by auto
    then show ?thesis by blast
  qed
qed

lemma delivered_rows:
  assumes "delivers x p x'" "distinct (map fst (ox_rows x))"
  shows "filter (\<lambda>(k, _). k \<notin> fst ` set (ox_rows x')) (owners x) = [p]"
proof -
  obtain as bs where ps: "row_owners (ox_rows x) = as @ p # bs" "row_owners (ox_rows x') = as @ bs"
    using assms(1) by (auto simp: delivers_def)
  have keys: "fst ` set (ox_rows x') = fst ` set (as @ bs)" using fst_row_owners [of "ox_rows x'"] by (simp add: ps(2))
  have "distinct (map fst (as @ p # bs))"
    using assms(2) unfolding ps(1) [symmetric] by (simp add: row_owners_def comp_def)
  then have "fst p \<notin> fst ` set (as @ bs)" by auto
  moreover have "filter (\<lambda>(k, _). k \<notin> fst ` set (as @ bs)) as = []" "filter (\<lambda>(k, _). k \<notin> fst ` set (as @ bs)) bs = []"
    by (force simp: filter_empty_conv)+
  ultimately show ?thesis by (simp add: owners_eq ps(1) keys case_prod_beta)
qed

lemma kept_rows:
  fixes x x' :: outbox
  shows "row_owners (ox_rows x') = row_owners (ox_rows x) \<Longrightarrow> filter (\<lambda>(k, _). k \<notin> fst ` set (ox_rows x')) (owners x) = []"
  using added_same [of x' x] by (simp add: added_def owners_eq fst_row_owners [symmetric])

lemma outbox_step_ok:
  assumes "outbox_step h h'" "history_ok h"
  shows "history_ok h'"
  using assms
proof cases
  case (Import u legacy)
  then show ?thesis using quiet_history [OF assms(2) cursor_quiet] by simp
next
  case (Stage u n notification x)
  then show ?thesis using added_history [OF assms(2) stage_cases] by blast
next
  case (Reject u c event limit rejected x)
  then show ?thesis using added_history [OF assms(2) reject_cases] by blast
next
  case (Claim u now lease limit tokens ds x)
  then show ?thesis using quiet_history [OF assms(2) claim_quiet] rows_distinct [OF assms(2)] by blast
next
  case (Finish d now error ok x)
  show ?thesis
  proof (cases error)
    case None
    then consider "x = oh_box h" | p where "delivers (oh_box h) p x"
      using finish_delivers Finish(2) rows_distinct [OF assms(2)] by blast
    then show ?thesis
    proof cases
      case 1
      then show ?thesis using assms(2) by (simp add: Finish(1) kept_rows)
    next
      case 2
      then show ?thesis
        using delivers_history [OF assms(2) 2] by (simp add: Finish(1) delivered_rows [OF 2 rows_distinct [OF assms(2)]])
    qed
  next
    case (Some e)
    then have q: "quiet (oh_box h) x" using finish_retry_quiet Finish(2) by blast
    then have "filter (\<lambda>(k, _). k \<notin> fst ` set (ox_rows x)) (owners (oh_box h)) = []" by (intro kept_rows) (simp add: quiet_def)
    then show ?thesis using quiet_history [OF assms(2) q] by (simp add: Finish(1))
  qed
next
  case (Event events)
  have "quiet (oh_box h) ((oh_box h)\<lparr>ox_events := events\<rparr>)" by (simp add: quiet_def)
  then show ?thesis using quiet_history [OF assms(2)] Event by blast
qed

lemma outbox_reachable_ok: "outbox_reachable h \<Longrightarrow> history_ok h"
  unfolding outbox_reachable_def
proof (induction rule: rtranclp_induct)
  case base
  show ?case by (simp add: history_ok_def no_history_def empty_outbox_def row_owners_def delivery_lane_def)
qed (rule outbox_step_ok)

section \<open>Delivery in order\<close>

text \<open>C37: the gateway delivers the notifications of a conversation in the order of their numbers, loses none and
  delivers none twice. Whatever workers claim, fail, retry, repeat or acknowledge after their lease went to another
  worker, no number is staged twice, and at any moment those that are settled are the first ones of the conversation,
  in order, and those that remain in the outbox are all the later ones.\<close>

theorem notifications_in_order:
  assumes "outbox_reachable h"
  shows "distinct (map fst (oh_staged h))
    \<and> delivery_lane u c (oh_done h) @ sort (delivery_lane u c (owners (oh_box h))) = sort (delivery_lane u c (oh_staged h))"
proof -
  let ?ps = "row_owners (ox_rows (oh_box h))"
  have staged: "distinct (map fst (oh_staged h))" "mset (oh_staged h) = mset (oh_done h) + mset ?ps"
    and lanes: "\<And>u c. sorted_wrt (<) (delivery_lane u c (oh_done h))"
      "\<And>u c m k. m \<in> set (delivery_lane u c (oh_done h)) \<Longrightarrow> k \<in> set (delivery_lane u c ?ps) \<Longrightarrow> m < k"
    using outbox_reachable_ok [OF assms] unfolding history_ok_def Let_def by blast+
  have "mset (delivery_lane u c (oh_staged h)) = mset (delivery_lane u c (oh_done h @ ?ps))"
    using staged(2) by (simp add: delivery_lane_def mset_filter)
  then have "mset (delivery_lane u c (oh_staged h)) = mset (delivery_lane u c (oh_done h) @ sort (delivery_lane u c ?ps))"
    by (simp add: delivery_lane_append)
  moreover have "sorted (delivery_lane u c (oh_done h) @ sort (delivery_lane u c ?ps))"
    using lanes(2) [of _ u c] strict_sorted_imp_sorted [OF lanes(1)] by (simp add: sorted_append less_imp_le)
  ultimately have "sort (delivery_lane u c (oh_staged h)) = delivery_lane u c (oh_done h) @ sort (delivery_lane u c ?ps)"
    by (rule properties_for_sort [OF sym])
  then show ?thesis using staged(1) by (simp add: owners_eq)
qed

text \<open>A run: two notifications of a chat are staged, the first one is claimed and delivered, the second stays.\<close>

definition demo_chat :: conversation_ref where
  "demo_chat = \<lparr>cr_channel = Telegram, cr_id = ''7''\<rparr>"

definition demo_view :: outbound_view where
  "demo_view = text_view ''Task update'' ''done''"

definition demo_box1 :: outbox where
  "demo_box1 = snd (notification_cursor ''tasks'' 0 empty_outbox)"

definition demo_box2 :: outbox where
  "demo_box2 = projr (stage_notification ''tasks'' 3 (Some (demo_chat, demo_view)) demo_box1)"

definition demo_box3 :: outbox where
  "demo_box3 = projr (stage_notification ''tasks'' 5 (Some (demo_chat, demo_view)) demo_box2)"

definition demo_claim :: "task_notification list \<times> outbox" where
  "demo_claim = projr (claim_notifications ''tasks'' 10 60 10 (\<lambda>_. ''t'') demo_box3)"

definition demo_box4 :: outbox where
  "demo_box4 = snd (finish_notification (hd (fst demo_claim)) 12 None (snd demo_claim))"

definition demo_notices :: "(outbox_key \<times> conversation_ref) list" where
  "demo_notices = [((''tasks'', 3), demo_chat), ((''tasks'', 5), demo_chat)]"

definition demo_outbox :: outbox_history where
  "demo_outbox = \<lparr>oh_box = demo_box4, oh_staged = demo_notices, oh_done = take 1 demo_notices\<rparr>"

lemma demo_outbox_run:
  "stage_notification ''tasks'' 3 (Some (demo_chat, demo_view)) demo_box1 = Inr demo_box2"
  "added demo_box1 demo_box2 = take 1 demo_notices"
  "stage_notification ''tasks'' 5 (Some (demo_chat, demo_view)) demo_box2 = Inr demo_box3"
  "added demo_box2 demo_box3 = drop 1 demo_notices"
  "claim_notifications ''tasks'' 10 60 10 (\<lambda>_. ''t'') demo_box3 = Inr demo_claim"
  "finish_notification (hd (fst demo_claim)) 12 None (snd demo_claim) = (True, demo_box4)"
  "filter (\<lambda>(k, _). k \<notin> fst ` set (ox_rows demo_box4)) (owners (snd demo_claim)) = take 1 demo_notices"
  "owners demo_box4 = drop 1 demo_notices"
  by code_simp+

lemma demo_outbox_reachable: "outbox_reachable demo_outbox"
proof -
  let ?h = "\<lambda>x staged. \<lparr>oh_box = x, oh_staged = staged, oh_done = []\<rparr>"
  have "outbox_step no_history (?h demo_box1 [])"
    using Import [of no_history "''tasks''" 0] by (simp add: no_history_def demo_box1_def)
  moreover have "outbox_step (?h demo_box1 []) (?h demo_box2 (take 1 demo_notices))"
    using Stage [of "''tasks''" 3 "Some (demo_chat, demo_view)" "?h demo_box1 []" demo_box2] by (simp add: demo_outbox_run)
  moreover have "outbox_step (?h demo_box2 (take 1 demo_notices)) (?h demo_box3 demo_notices)"
    using Stage [of "''tasks''" 5 "Some (demo_chat, demo_view)" "?h demo_box2 (take 1 demo_notices)" demo_box3]
    by (simp add: demo_outbox_run(3,4) del: One_nat_def)
  moreover have "outbox_step (?h demo_box3 demo_notices) (?h (snd demo_claim) demo_notices)"
    using Claim [of "''tasks''" 10 60 10 "\<lambda>_. ''t''" "?h demo_box3 demo_notices" "fst demo_claim" "snd demo_claim"]
    by (simp add: demo_outbox_run(5))
  moreover have "outbox_step (?h (snd demo_claim) demo_notices) demo_outbox"
    using Finish [of "hd (fst demo_claim)" 12 None "?h (snd demo_claim) demo_notices" True demo_box4]
    by (simp add: demo_outbox_run(6,7) demo_outbox_def)
  ultimately show ?thesis unfolding outbox_reachable_def by (meson converse_rtranclp_into_rtranclp rtranclp.rtrancl_refl)
qed

lemma notifications_in_order_witness:
  "outbox_reachable demo_outbox \<and> delivery_lane ''tasks'' demo_chat (oh_done demo_outbox) = [3]
    \<and> delivery_lane ''tasks'' demo_chat (owners (oh_box demo_outbox)) = [5]
    \<and> sort (delivery_lane ''tasks'' demo_chat (oh_staged demo_outbox)) = [3, 5]"
proof -
  have d: "delivery_lane ''tasks'' demo_chat (oh_done demo_outbox) = [3]"
    "delivery_lane ''tasks'' demo_chat (owners (oh_box demo_outbox)) = [5]"
    by (simp_all add: demo_outbox_def demo_outbox_run(8) demo_notices_def delivery_lane_def)
  then show ?thesis using notifications_in_order [OF demo_outbox_reachable, of "''tasks''" demo_chat] demo_outbox_reachable by simp
qed

end
