(* ===== verification/Spec2Isabelle.thy ===== *)
theory Spec2Isabelle
  imports Laws Storage Publishing Dispatch_Laws Pacing Bindings Overlap Projection_Documents Wire_Frames Turn_Laws Turn_History Card_Pages Prompts_Order Routing Outbox_Laws
begin

text \<open>
  A model of Taskix, the task engine of agentix (\<open>crates/agentix-task\<close>), and of the sequential algorithms of
  the session gateway, with the theorems that make them correct.

  \<^bold>\<open>The program.\<close> Taskix keeps Projects, Issues, Milestones, Jobs, Tasks, Plans and leases in one SQLite
  database. A command runs in one transaction: \<open>Store::execute\<close> reaps expired leases, loads the rows of
  its scope as a \<open>Snapshot\<close>, \<open>mutations::apply\<close> changes that snapshot or returns an error, \<open>persist\<close> writes
  the difference of the two snapshots with its audit events and queues the documents that changed; a
  publisher later renders the queued documents and acknowledges them.

  \<^bold>\<open>Theories and code.\<close>
  \<^item> \<open>Prelude\<close>, \<open>Json\<close>: the result monad (\<open>?\<close>, \<open>ensure!\<close>), vectors, and the part of \<open>serde_json\<close> that requests use.
  \<^item> \<open>Task_Model\<close> (\<open>model.rs\<close>, \<open>issue_model.rs\<close>): entities as records, statuses as datatypes, the snapshot, lookups.
  \<^item> \<open>Naming\<close> (\<open>naming.rs\<close>), \<open>Dependencies\<close> (\<open>depends_on\<close>), \<open>Mutation_Base\<close>: names, numbers, the dependency search,
    checks shared by the handlers.
  \<^item> \<open>Issues\<close> (\<open>issue.rs\<close>), \<open>Projects\<close> (\<open>project_rename.rs\<close> and the Project commands), \<open>Deletion\<close> (\<open>deletion.rs\<close>),
    \<open>Conversation\<close> (\<open>conversation.rs\<close>), \<open>Jobs\<close>, \<open>Tasks\<close>, \<open>Mutations\<close> (\<open>mutations.rs\<close>): one definition per handler or
    branch, \<open>mutate\<close> for the whole dispatcher. The code changes a snapshot in place and drops it on an error; the
    model returns the error or the value with the new snapshot.
  \<^item> \<open>Events\<close> (\<open>event_payload.rs\<close>, \<open>state_index.rs\<close>), \<open>Database\<close> (\<open>store.rs\<close>, \<open>issue_store.rs\<close>, \<open>deletion.rs\<close>,
    \<open>publication.rs\<close>): the tables as lists of keyed rows, and the transaction that writes a state difference.
  \<^item> \<open>Publication\<close> (\<open>publication.rs\<close>, the loop of \<open>projection.rs\<close>): the queue of documents.

  \<^bold>\<open>Specification and proofs.\<close>
  \<^item> \<open>Effects\<close>: what a successful run of each handler tells, as elimination rules; all invariant proofs use these.
  \<^item> \<open>Identity\<close>, \<open>Entity_Invariants\<close>: distinct identifiers and the shape of single entities, over the interface
    \<open>mutation_invariant\<close> for properties that every command keeps.
  \<^item> \<open>Workflow\<close>: the abstract state machine of the documentation (\<open>docs/task-state-machines.md\<close>) as a step relation
    with its invariants; \<open>Refinement\<close>, \<open>Task_Refinement\<close>, \<open>Job_Refinement\<close>: every command is a sequence of its steps.
  \<^item> \<open>Reachability\<close>: the reaper and the states that the store can reach; \<open>Demo\<close>: a concrete run for the witnesses.
  \<^item> \<open>Guarantees\<close>, \<open>Access\<close>, \<open>Laws\<close>: the properties of snapshots, of who may do what, and of the pure routines.
  \<^item> \<open>Persistence\<close>, \<open>Storage\<close>: tables, read-back, audit trail and queue after a transaction;
    \<open>Publishing\<close>: acknowledgement and the publisher's round.

  \<^bold>\<open>The gateway.\<close> The daemon routes messages between chat channels and agent sessions. Its theories stand
  beside each other, each for one part that decides something:
  \<^item> \<open>Dispatch\<close>, \<open>Dispatch_Laws\<close> (\<open>agentix-core/src/dispatch.rs\<close>): the admission queue; running work never conflicts,
    conflicting work keeps its order, nothing that can run is forgotten.
  \<^item> \<open>Commands\<close> (\<open>agentix-core/src/command.rs\<close>): the slash commands; the parser inverts a printer.
  \<^item> \<open>Routing\<close> (\<open>agentix-core/src/engine/dispatch.rs\<close>, \<open>agentix-domain/src/identity.rs\<close>): what an operation reserves in the
    admission queue; the work of one session, by whichever name, starts in the order of its admission.
  \<^item> \<open>Bindings\<close> (\<open>agentix-domain/src/binding.rs\<close>): conversations and sessions are bound one to one.
  \<^item> \<open>Pacing\<close> (\<open>agentix-telegram/src/rate_limit.rs\<close>): the distance of requests and the cooldown; the history of an
    arbitrary interleaving of tasks is a step relation, one iteration under the lock is one step.
  \<^item> \<open>Overlap\<close> (\<open>merge_delta\<close> of \<open>agentix-core/src/engine/attachment_history.rs\<close>): the Knuth-Morris-Pratt search ends
    and finds the longest overlap; its loops are partial functions and their termination is proved.
  \<^item> \<open>Prompts\<close> (\<open>agentix-core/src/engine/pending_prompts.rs\<close> with \<open>send_prompt\<close>): inputs that wait behind an unconfirmed send.
    \<open>Prompts_Laws\<close>, \<open>Prompts_Steps\<close>, \<open>Prompts_Order\<close>: a step relation over the lanes of the dispatch queue (\<open>Routing\<close>), an invariant
    of each session that every step keeps, and its consequences: the limits, the order of the sends, one settlement
    per input. The agent, the deadlines and the durable table of events enter as the record \<open>world\<close>. The session of an
    input is the one to which its conversation is bound when it is admitted; an event that was released and is
    delivered again, reattachment, shutdown and failing storage are not steps of that relation.
  \<^item> \<open>Outbox\<close>, \<open>Outbox_Laws\<close> (\<open>agentix-storage/src/notification_outbox.rs\<close>, the inbound events of \<open>state.rs\<close>): durable
    notifications with cursors and leases. A history of arbitrary operations of arbitrary workers is a step relation;
    the notifications of a conversation are settled in order, none is lost or staged twice. Each operation is one
    transaction; a notification that is sent and not acknowledged is sent again.
  \<^item> \<open>Turn_Output\<close>, \<open>Turn_Laws\<close> (\<open>agentix-core/src/engine/output_buffer.rs\<close>, \<open>output.rs\<close> and the event handlers of
    \<open>engine/turn_flows.rs\<close>): the output items of a turn and the sections of its card. The handlers are modelled for
    one turn; finding the buffer, storing it and sending the card are asynchronous I/O around them.
  \<^item> \<open>Turn_History\<close> (\<open>attachment_history.rs\<close>): what is observed while a history is read, and the merge of both.
  \<^item> \<open>Views\<close> (\<open>agentix-domain/src/channel.rs\<close>), \<open>Card_Pages\<close> (\<open>agentix-feishu/src/card_pages.rs\<close>): the pages of a
    Feishu card keep all text, in order, within the budget; code fences are closed and opened again at the cuts.
  \<^item> \<open>Projection\<close>, \<open>Projection_Laws\<close>, \<open>Projection_Documents\<close> (\<open>agentix-codex/src/proxy_wire/json.rs\<close>): the incremental
    JSON reader of the proxy. It equals a reader of single bytes, so the pieces of a message do not matter; it holds
    a bounded amount of data; and on the text of a document it yields the document's projection. Documents are syntax
    trees that may have white space around values and keys, but none inside empty brackets.
  \<^item> \<open>Wire\<close>, \<open>Wire_Laws\<close>, \<open>Wire_Frames\<close> (\<open>agentix-codex/src/proxy_wire.rs\<close>): the observer of WebSocket frames refines a
    machine of single bytes and inverts the encoding of frames. Bytes are 8-bit words, masks are exclusive ors.

  \<^bold>\<open>Parameters.\<close> Code outside the repository is an argument: the record \<open>env\<close> holds UUIDs, Unicode lower casing,
  the calendar, the Plan parser of \<open>serde\<close> and the file system; \<open>canonical_root\<close> resolves a Project root,
  \<open>json_quote\<close> is the SQL function, \<open>render\<close> writes a document; the record \<open>reader\<close> holds what \<open>serde_json\<close>
  does with one token of a message; \<open>wire\<close> and \<open>escaped\<close> are the JSON of a card and its length as a JSON string. Generated identifiers are assumed fresh where a
  property needs it (\<open>fresh_ids\<close>).

  \<^bold>\<open>Bounds.\<close> Revisions and times are unbounded integers (the code uses \<open>i64\<close>); sequence numbers are checked
  against 64 bits as in the code. No fuel is used: every loop is a total function, or a partial one that the
  theorems prove to end.

  \<^bold>\<open>Not modelled.\<close> The SQL that chooses the rows of a command (\<open>scoped.rs\<close>): the properties of the mutation
  engine are stated for complete snapshots with an arbitrary query context. Constraint violations of the schema
  roll the transaction back. The Markdown notes (\<open>projection.rs\<close>, \<open>issue_projection.rs\<close>) are file output. The
  rest of the gateway crates (channels, Codex client, multiplexers, memory) is asynchronous I/O around other
  services.
\<close>

end
